(* ===== verification/Qurator_Prelude.thy ===== *)
theory Qurator_Prelude
  imports Main
begin

text \<open>
  The shared vocabulary of the development: the names of the model's basic types, the
  collections of facts the component proofs draw on, and the generic lemmas on lists,
  options and sums that several components use.

  Go strings and byte slices are lists of \<open>char\<close> (a \<open>char\<close> is a byte), times are
  nanoseconds since Go's zero time (1 January of year 1, UTC, a Monday), so that
  \<open>t.IsZero()\<close> is \<open>t = 0\<close>, and a call that can fail returns a value of a sum type with
  the error on the left.
\<close>

type_synonym bytes = "char list"
type_synonym gotime = int
type_synonym duration = int

text \<open>Unfolding rules of the executable string functions, and the functional facts of
  the store operations, each collected for \<open>simp add:\<close>.\<close>

named_theorems go_string_defs \<open>definitions of the Go string functions\<close>
named_theorems sql_defs \<open>definitions of the SQL statement bodies\<close>
named_theorems wf_intros \<open>introduction rules for the well-formedness invariants\<close>

abbreviation is_ok :: "'e + 'a \<Rightarrow> bool" where
  "is_ok r \<equiv> (\<exists>a. r = Inr a)"

subsection \<open>Durations\<close>

definition Microsecond :: duration where "Microsecond = 1000"
definition Second :: duration where "Second = 1000000000"
definition Minute :: duration where "Minute = 60 * Second"
definition Hour :: duration where "Hour = 60 * Minute"
definition Day :: duration where "Day = 24 * Hour"

lemmas duration_defs = Microsecond_def Second_def Minute_def Hour_def Day_def

text \<open>\<open>t.Truncate(d)\<close>: round down to a multiple of \<open>d\<close> since the zero time.\<close>

definition Truncate :: "gotime \<Rightarrow> duration \<Rightarrow> gotime" where
  "Truncate t d = (if d \<le> 0 then t else t - t mod d)"

lemma Truncate_le: "Truncate t d \<le> t"
  by (simp add: Truncate_def)

lemma Truncate_idem [simp]: "Truncate (Truncate t d) d = Truncate t d"
  by (simp add: Truncate_def mod_diff_eq [symmetric])

lemma Truncate_gt: "0 < d \<Longrightarrow> t < Truncate t d + d"
  by (simp add: Truncate_def)

lemma Truncate_mono: "s \<le> t \<Longrightarrow> Truncate s d \<le> Truncate t d"
proof (cases "d \<le> 0")
  case False
  assume "s \<le> t"
  then have "s div d \<le> t div d" using False by (simp add: zdiv_mono1)
  then have "d * (s div d) \<le> d * (t div d)" using False by (simp add: mult_left_mono)
  then show ?thesis using False by (simp add: Truncate_def minus_mod_eq_mult_div)
qed (simp add: Truncate_def)

text \<open>A 64-bit signed product or sum as the Go runtime keeps it.\<close>

definition wrap64 :: "int \<Rightarrow> int" where
  "wrap64 x = (x + 2 ^ 63) mod 2 ^ 64 - 2 ^ 63"

lemma wrap64_id: "- (2 ^ 63) \<le> x \<Longrightarrow> x < 2 ^ 63 \<Longrightarrow> wrap64 x = x"
  by (simp add: wrap64_def)

lemma wrap64_range: "- (2 ^ 63) \<le> wrap64 x \<and> wrap64 x < 2 ^ 63"
  by (simp add: wrap64_def)

subsection \<open>Lists\<close>

lemma find_Some_set: "find P xs = Some x \<Longrightarrow> x \<in> set xs \<and> P x"
  by (auto simp: find_Some_iff)

lemma find_None_set: "find P xs = None \<longleftrightarrow> (\<forall>x \<in> set xs. \<not> P x)"
  by (auto simp: find_None_iff)

lemma find_map_unchanged:
  "(\<And>x. x \<in> set xs \<Longrightarrow> P (f x) = P x) \<Longrightarrow> find P (map f xs) = map_option f (find P xs)"
  by (induction xs) auto

lemma find_unique:
  assumes "x \<in> set xs" "P x" "\<And>y. y \<in> set xs \<Longrightarrow> P y \<Longrightarrow> y = x"
  shows "find P xs = Some x"
  using assms
proof (induction xs)
  case (Cons a xs)
  show ?case
  proof (cases "P a")
    case True
    then have "a = x" using Cons.prems(3) [of a] by simp
    with True show ?thesis by simp
  next
    case False
    with Cons.prems(1,2) have "x \<in> set xs" by auto
    moreover have "\<And>y. y \<in> set xs \<Longrightarrow> P y \<Longrightarrow> y = x" using Cons.prems(3) by simp
    ultimately have "find P xs = Some x" using Cons.IH Cons.prems(2) by blast
    with False show ?thesis by simp
  qed
qed simp

lemma distinct_map_unique:
  "distinct (map f xs) \<Longrightarrow> x \<in> set xs \<Longrightarrow> y \<in> set xs \<Longrightarrow> f x = f y \<Longrightarrow> x = y"
  by (auto simp: distinct_map dest: inj_onD)

lemma distinct_map_filter_one:
  "distinct (map f xs) \<Longrightarrow> x \<in> set xs \<Longrightarrow> filter (\<lambda>y. f y = f x) xs = [x]"
  by (induction xs) (auto simp: filter_empty_conv, metis image_eqI)

lemma map_update_key:
  "(\<And>x. k (f x) = k x) \<Longrightarrow> map k (map (\<lambda>x. if P x then f x else x) xs) = map k xs"
  by auto

lemma image_update_key:
  "(\<And>x. k (f x) = k x) \<Longrightarrow> k ` set (map (\<lambda>x. if P x then f x else x) xs) = k ` set xs"
  using map_update_key [of k f P xs] by (metis set_map)

text \<open>The folding loop that stops at the first error, as the \<open>for\<close> loops with an early
  \<open>return err\<close> do.\<close>

fun foldM :: "('a \<Rightarrow> 's \<Rightarrow> 'e + 's) \<Rightarrow> 'a list \<Rightarrow> 's \<Rightarrow> 'e + 's" where
  "foldM f [] s = Inr s"
| "foldM f (x # xs) s = (case f x s of Inl e \<Rightarrow> Inl e | Inr s' \<Rightarrow> foldM f xs s')"

lemma foldM_append:
  "foldM f (xs @ ys) s = (case foldM f xs s of Inl e \<Rightarrow> Inl e | Inr s' \<Rightarrow> foldM f ys s')"
  by (induction xs arbitrary: s) (auto split: sum.splits)

lemma foldM_invariant:
  assumes "foldM f xs s = Inr t" "P s" "\<And>x s t. x \<in> set xs \<Longrightarrow> P s \<Longrightarrow> f x s = Inr t \<Longrightarrow> P t"
  shows "P t"
  using assms
proof (induction xs arbitrary: s)
  case Nil
  then show ?case by simp
next
  case (Cons x xs)
  from Cons.prems(1) obtain u where u: "f x s = Inr u" "foldM f xs u = Inr t"
    by (auto split: sum.splits)
  have "P u" using Cons.prems(2,3) u(1) by (metis list.set_intros(1))
  with u(2) show ?case using Cons.IH Cons.prems(3) by (metis list.set_intros(2))
qed

text \<open>The results of a loop that collects one value per element or stops.\<close>

fun mapM :: "('a \<Rightarrow> 'e + 'b) \<Rightarrow> 'a list \<Rightarrow> 'e + 'b list" where
  "mapM f [] = Inr []"
| "mapM f (x # xs) =
     (case f x of Inl e \<Rightarrow> Inl e
      | Inr y \<Rightarrow> (case mapM f xs of Inl e \<Rightarrow> Inl e | Inr ys \<Rightarrow> Inr (y # ys)))"

lemma mapM_ok: "mapM f xs = Inr ys \<longleftrightarrow> list_all2 (\<lambda>x y. f x = Inr y) xs ys"
proof (induction xs arbitrary: ys)
  case (Cons x xs)
  show ?case by (cases ys) (auto split: sum.splits simp flip: Cons.IH)
qed auto

subsection \<open>Counters\<close>

text \<open>A Go map from keys to counts, \<open>m[k] += n\<close>: an association list with one entry per key.\<close>

fun al_bump :: "'k \<Rightarrow> int \<Rightarrow> ('k \<times> int) list \<Rightarrow> ('k \<times> int) list" where
  "al_bump k n [] = [(k, n)]"
| "al_bump k n ((k', m) # xs) = (if k = k' then (k', m + n) # xs else (k', m) # al_bump k n xs)"

definition al_sum :: "('k \<Rightarrow> bool) \<Rightarrow> ('k \<times> int) list \<Rightarrow> int" where
  "al_sum P al = (\<Sum>(k, n) \<leftarrow> al. if P k then n else 0)"

lemma al_sum_simps [simp]:
  "al_sum P [] = 0" "al_sum P ((k, n) # al) = (if P k then n else 0) + al_sum P al"
  "al_sum P (xs @ ys) = al_sum P xs + al_sum P ys"
  by (simp_all add: al_sum_def)

lemma al_sum_all: "(\<Sum>x \<leftarrow> al. snd x) = al_sum (\<lambda>_. True) al"
  by (induction al) (auto simp: al_sum_def)

lemma al_sum_bump [simp]: "al_sum P (al_bump k n al) = al_sum P al + (if P k then n else 0)"
  by (induction k n al rule: al_bump.induct) auto

lemma keys_al_bump: "fst ` set (al_bump k n al) = insert k (fst ` set al)"
  by (induction k n al rule: al_bump.induct) auto

lemma distinct_al_bump: "distinct (map fst al) \<Longrightarrow> distinct (map fst (al_bump k n al))"
proof (induction k n al rule: al_bump.induct)
  case (2 k n k' m xs)
  have "k' \<notin> fst ` set xs" "distinct (map fst xs)" using 2(2) by auto
  then show ?case using 2(1) keys_al_bump [of k n xs] by auto
qed simp

lemma al_sum_set:
  assumes "distinct (map fst al)" "set al = set bl" "distinct (map fst bl)"
  shows "al_sum P al = al_sum P bl"
proof -
  have "distinct al" "distinct bl" using assms(1,3) by (simp_all add: distinct_map)
  then show ?thesis unfolding al_sum_def using assms(2) by (simp add: sum_list_distinct_conv_sum_set)
qed

lemma al_sum_sort [simp]: "al_sum P (sort_key f al) = al_sum P al"
proof -
  have "al_sum P (insort_key f x xs) = al_sum P (x # xs)" for x xs
    by (induction xs) (auto simp: al_sum_def)
  then show ?thesis
    by (induction al) (simp_all add: al_sum_def)
qed

lemma al_sum_cong: "(\<And>k. k \<in> fst ` set al \<Longrightarrow> P k = Q k) \<Longrightarrow> al_sum P al = al_sum Q al"
  by (induction al) (auto simp: al_sum_def)

lemma map_sum_eq_Inr: "map_sum f g r = Inr y \<longleftrightarrow> (\<exists>x. r = Inr x \<and> y = g x)"
  by (cases r) auto

lemma not_isl: "\<not> isl r \<Longrightarrow> \<exists>a. r = Inr a"
  by (metis isl_def sumE)

end
