(* ===== verification/Go_Unicode.thy ===== *)
theory Go_Unicode
  imports Main
begin

text \<open>
  Simple lower-casing of Unicode code points, as Go's \<open>unicode.ToLower\<close> computes it
  (Unicode 15.0, the version of the Go toolchain named in \<^verbatim>\<open>src/go.mod\<close>). The string
  functions the program calls (\<open>strings.ToLower\<close>) rest on it. The table
  lists, for the code points from 128 on, the ranges \<open>(first, last, stride, offset)\<close>
  whose members have a lower-case partner at the given offset; below 128 only
  \<open>A\<close>..\<open>Z\<close> change.

  The theory holds the table, the function, and the two facts the rest of the
  development needs of it: which code points fall to ASCII, and that the function never
  produces an upper-case ASCII letter or one of those code points.
\<close>

type_synonym rune = nat

definition lower_ranges :: "(nat \<times> nat \<times> nat \<times> int) list" where
  "lower_ranges =
    [(192, 214, 1, 32), (216, 222, 1, 32), (256, 302, 2, 1), (304, 304, 1, - 199), (306, 310, 2, 1),
     (313, 327, 2, 1), (330, 374, 2, 1), (376, 376, 1, - 121), (377, 381, 2, 1), (385, 385, 1, 210),
     (386, 388, 2, 1), (390, 390, 1, 206), (391, 391, 1, 1), (393, 394, 1, 205), (395, 395, 1, 1),
     (398, 398, 1, 79), (399, 399, 1, 202), (400, 400, 1, 203), (401, 401, 1, 1),
     (403, 403, 1, 205), (404, 404, 1, 207), (406, 406, 1, 211), (407, 407, 1, 209),
     (408, 408, 1, 1), (412, 412, 1, 211), (413, 413, 1, 213), (415, 415, 1, 214), (416, 420, 2, 1),
     (422, 422, 1, 218), (423, 423, 1, 1), (425, 425, 1, 218), (428, 428, 1, 1), (430, 430, 1, 218),
     (431, 431, 1, 1), (433, 434, 1, 217), (435, 437, 2, 1), (439, 439, 1, 219), (440, 440, 1, 1),
     (444, 444, 1, 1), (452, 452, 1, 2), (453, 453, 1, 1), (455, 455, 1, 2), (456, 456, 1, 1),
     (458, 458, 1, 2), (459, 475, 2, 1), (478, 494, 2, 1), (497, 497, 1, 2), (498, 500, 2, 1),
     (502, 502, 1, - 97), (503, 503, 1, - 56), (504, 542, 2, 1), (544, 544, 1, - 130),
     (546, 562, 2, 1), (570, 570, 1, 10795), (571, 571, 1, 1), (573, 573, 1, - 163),
     (574, 574, 1, 10792), (577, 577, 1, 1), (579, 579, 1, - 195), (580, 580, 1, 69),
     (581, 581, 1, 71), (582, 590, 2, 1), (880, 882, 2, 1), (886, 886, 1, 1), (895, 895, 1, 116),
     (902, 902, 1, 38), (904, 906, 1, 37), (908, 908, 1, 64), (910, 911, 1, 63), (913, 929, 1, 32),
     (931, 939, 1, 32), (975, 975, 1, 8), (984, 1006, 2, 1), (1012, 1012, 1, - 60),
     (1015, 1015, 1, 1), (1017, 1017, 1, - 7), (1018, 1018, 1, 1), (1021, 1023, 1, - 130),
     (1024, 1039, 1, 80), (1040, 1071, 1, 32), (1120, 1152, 2, 1), (1162, 1214, 2, 1),
     (1216, 1216, 1, 15), (1217, 1229, 2, 1), (1232, 1326, 2, 1), (1329, 1366, 1, 48),
     (4256, 4293, 1, 7264), (4295, 4295, 1, 7264), (4301, 4301, 1, 7264), (5024, 5103, 1, 38864),
     (5104, 5109, 1, 8), (7312, 7354, 1, - 3008), (7357, 7359, 1, - 3008), (7680, 7828, 2, 1),
     (7838, 7838, 1, - 7615), (7840, 7934, 2, 1), (7944, 7951, 1, - 8), (7960, 7965, 1, - 8),
     (7976, 7983, 1, - 8), (7992, 7999, 1, - 8), (8008, 8013, 1, - 8), (8025, 8031, 2, - 8),
     (8040, 8047, 1, - 8), (8072, 8079, 1, - 8), (8088, 8095, 1, - 8), (8104, 8111, 1, - 8),
     (8120, 8121, 1, - 8), (8122, 8123, 1, - 74), (8124, 8124, 1, - 9), (8136, 8139, 1, - 86),
     (8140, 8140, 1, - 9), (8152, 8153, 1, - 8), (8154, 8155, 1, - 100), (8168, 8169, 1, - 8),
     (8170, 8171, 1, - 112), (8172, 8172, 1, - 7), (8184, 8185, 1, - 128), (8186, 8187, 1, - 126),
     (8188, 8188, 1, - 9), (8486, 8486, 1, - 7517), (8490, 8490, 1, - 8383),
     (8491, 8491, 1, - 8262), (8498, 8498, 1, 28), (8544, 8559, 1, 16), (8579, 8579, 1, 1),
     (9398, 9423, 1, 26), (11264, 11311, 1, 48), (11360, 11360, 1, 1), (11362, 11362, 1, - 10743),
     (11363, 11363, 1, - 3814), (11364, 11364, 1, - 10727), (11367, 11371, 2, 1),
     (11373, 11373, 1, - 10780), (11374, 11374, 1, - 10749), (11375, 11375, 1, - 10783),
     (11376, 11376, 1, - 10782), (11378, 11378, 1, 1), (11381, 11381, 1, 1),
     (11390, 11391, 1, - 10815), (11392, 11490, 2, 1), (11499, 11501, 2, 1), (11506, 11506, 1, 1),
     (42560, 42604, 2, 1), (42624, 42650, 2, 1), (42786, 42798, 2, 1), (42802, 42862, 2, 1),
     (42873, 42875, 2, 1), (42877, 42877, 1, - 35332), (42878, 42886, 2, 1), (42891, 42891, 1, 1),
     (42893, 42893, 1, - 42280), (42896, 42898, 2, 1), (42902, 42920, 2, 1),
     (42922, 42922, 1, - 42308), (42923, 42923, 1, - 42319), (42924, 42924, 1, - 42315),
     (42925, 42925, 1, - 42305), (42926, 42926, 1, - 42308), (42928, 42928, 1, - 42258),
     (42929, 42929, 1, - 42282), (42930, 42930, 1, - 42261), (42931, 42931, 1, 928),
     (42932, 42946, 2, 1), (42948, 42948, 1, - 48), (42949, 42949, 1, - 42307),
     (42950, 42950, 1, - 35384), (42951, 42953, 2, 1), (42960, 42960, 1, 1), (42966, 42968, 2, 1),
     (42997, 42997, 1, 1), (65313, 65338, 1, 32), (66560, 66599, 1, 40), (66736, 66771, 1, 40),
     (66928, 66938, 1, 39), (66940, 66954, 1, 39), (66956, 66962, 1, 39), (66964, 66965, 1, 39),
     (68736, 68786, 1, 64), (71840, 71871, 1, 32), (93760, 93791, 1, 32), (125184, 125217, 1, 34)]"

fun lower_in :: "(nat \<times> nat \<times> nat \<times> int) list \<Rightarrow> rune \<Rightarrow> rune" where
  "lower_in [] c = c"
| "lower_in ((lo, hi, st, d) # rs) c =
     (if lo \<le> c \<and> c \<le> hi \<and> (c - lo) mod st = 0 then nat (int c + d) else lower_in rs c)"

definition unicode_ToLower :: "rune \<Rightarrow> rune" where
  "unicode_ToLower c =
     (if c < 128 then (if 65 \<le> c \<and> c \<le> 90 then c + 32 else c) else lower_in lower_ranges c)"

text \<open>
  Case folding, for \<open>strings.EqualFold\<close>: two code points are equal under Go's
  \<open>unicode.SimpleFold\<close> orbits exactly when they have the same simple case folding
  (the common and simple entries of the Unicode case-folding data).
\<close>

definition fold_ranges :: "(nat \<times> nat \<times> nat \<times> int) list" where
  "fold_ranges =
    [(181, 181, 1, 775), (192, 214, 1, 32), (216, 222, 1, 32), (256, 302, 2, 1), (306, 310, 2, 1),
     (313, 327, 2, 1), (330, 374, 2, 1), (376, 376, 1, - 121), (377, 381, 2, 1),
     (383, 383, 1, - 268), (385, 385, 1, 210), (386, 388, 2, 1), (390, 390, 1, 206),
     (391, 391, 1, 1), (393, 394, 1, 205), (395, 395, 1, 1), (398, 398, 1, 79), (399, 399, 1, 202),
     (400, 400, 1, 203), (401, 401, 1, 1), (403, 403, 1, 205), (404, 404, 1, 207),
     (406, 406, 1, 211), (407, 407, 1, 209), (408, 408, 1, 1), (412, 412, 1, 211),
     (413, 413, 1, 213), (415, 415, 1, 214), (416, 420, 2, 1), (422, 422, 1, 218), (423, 423, 1, 1),
     (425, 425, 1, 218), (428, 428, 1, 1), (430, 430, 1, 218), (431, 431, 1, 1), (433, 434, 1, 217),
     (435, 437, 2, 1), (439, 439, 1, 219), (440, 440, 1, 1), (444, 444, 1, 1), (452, 452, 1, 2),
     (453, 453, 1, 1), (455, 455, 1, 2), (456, 456, 1, 1), (458, 458, 1, 2), (459, 475, 2, 1),
     (478, 494, 2, 1), (497, 497, 1, 2), (498, 500, 2, 1), (502, 502, 1, - 97), (503, 503, 1, - 56),
     (504, 542, 2, 1), (544, 544, 1, - 130), (546, 562, 2, 1), (570, 570, 1, 10795),
     (571, 571, 1, 1), (573, 573, 1, - 163), (574, 574, 1, 10792), (577, 577, 1, 1),
     (579, 579, 1, - 195), (580, 580, 1, 69), (581, 581, 1, 71), (582, 590, 2, 1),
     (837, 837, 1, 116), (880, 882, 2, 1), (886, 886, 1, 1), (895, 895, 1, 116), (902, 902, 1, 38),
     (904, 906, 1, 37), (908, 908, 1, 64), (910, 911, 1, 63), (913, 929, 1, 32), (931, 939, 1, 32),
     (962, 962, 1, 1), (975, 975, 1, 8), (976, 976, 1, - 30), (977, 977, 1, - 25),
     (981, 981, 1, - 15), (982, 982, 1, - 22), (984, 1006, 2, 1), (1008, 1008, 1, - 54),
     (1009, 1009, 1, - 48), (1012, 1012, 1, - 60), (1013, 1013, 1, - 64), (1015, 1015, 1, 1),
     (1017, 1017, 1, - 7), (1018, 1018, 1, 1), (1021, 1023, 1, - 130), (1024, 1039, 1, 80),
     (1040, 1071, 1, 32), (1120, 1152, 2, 1), (1162, 1214, 2, 1), (1216, 1216, 1, 15),
     (1217, 1229, 2, 1), (1232, 1326, 2, 1), (1329, 1366, 1, 48), (4256, 4293, 1, 7264),
     (4295, 4295, 1, 7264), (4301, 4301, 1, 7264), (5112, 5117, 1, - 8), (7296, 7296, 1, - 6222),
     (7297, 7297, 1, - 6221), (7298, 7298, 1, - 6212), (7299, 7300, 1, - 6210),
     (7301, 7301, 1, - 6211), (7302, 7302, 1, - 6204), (7303, 7303, 1, - 6180),
     (7304, 7304, 1, 35267), (7312, 7354, 1, - 3008), (7357, 7359, 1, - 3008), (7680, 7828, 2, 1),
     (7835, 7835, 1, - 58), (7838, 7838, 1, - 7615), (7840, 7934, 2, 1), (7944, 7951, 1, - 8),
     (7960, 7965, 1, - 8), (7976, 7983, 1, - 8), (7992, 7999, 1, - 8), (8008, 8013, 1, - 8),
     (8025, 8031, 2, - 8), (8040, 8047, 1, - 8), (8072, 8079, 1, - 8), (8088, 8095, 1, - 8),
     (8104, 8111, 1, - 8), (8120, 8121, 1, - 8), (8122, 8123, 1, - 74), (8124, 8124, 1, - 9),
     (8126, 8126, 1, - 7173), (8136, 8139, 1, - 86), (8140, 8140, 1, - 9), (8152, 8153, 1, - 8),
     (8154, 8155, 1, - 100), (8168, 8169, 1, - 8), (8170, 8171, 1, - 112), (8172, 8172, 1, - 7),
     (8184, 8185, 1, - 128), (8186, 8187, 1, - 126), (8188, 8188, 1, - 9), (8486, 8486, 1, - 7517),
     (8490, 8490, 1, - 8383), (8491, 8491, 1, - 8262), (8498, 8498, 1, 28), (8544, 8559, 1, 16),
     (8579, 8579, 1, 1), (9398, 9423, 1, 26), (11264, 11311, 1, 48), (11360, 11360, 1, 1),
     (11362, 11362, 1, - 10743), (11363, 11363, 1, - 3814), (11364, 11364, 1, - 10727),
     (11367, 11371, 2, 1), (11373, 11373, 1, - 10780), (11374, 11374, 1, - 10749),
     (11375, 11375, 1, - 10783), (11376, 11376, 1, - 10782), (11378, 11378, 1, 1),
     (11381, 11381, 1, 1), (11390, 11391, 1, - 10815), (11392, 11490, 2, 1), (11499, 11501, 2, 1),
     (11506, 11506, 1, 1), (42560, 42604, 2, 1), (42624, 42650, 2, 1), (42786, 42798, 2, 1),
     (42802, 42862, 2, 1), (42873, 42875, 2, 1), (42877, 42877, 1, - 35332), (42878, 42886, 2, 1),
     (42891, 42891, 1, 1), (42893, 42893, 1, - 42280), (42896, 42898, 2, 1), (42902, 42920, 2, 1),
     (42922, 42922, 1, - 42308), (42923, 42923, 1, - 42319), (42924, 42924, 1, - 42315),
     (42925, 42925, 1, - 42305), (42926, 42926, 1, - 42308), (42928, 42928, 1, - 42258),
     (42929, 42929, 1, - 42282), (42930, 42930, 1, - 42261), (42931, 42931, 1, 928),
     (42932, 42946, 2, 1), (42948, 42948, 1, - 48), (42949, 42949, 1, - 42307),
     (42950, 42950, 1, - 35384), (42951, 42953, 2, 1), (42960, 42960, 1, 1), (42966, 42968, 2, 1),
     (42997, 42997, 1, 1), (43888, 43967, 1, - 38864), (65313, 65338, 1, 32), (66560, 66599, 1, 40),
     (66736, 66771, 1, 40), (66928, 66938, 1, 39), (66940, 66954, 1, 39), (66956, 66962, 1, 39),
     (66964, 66965, 1, 39), (68736, 68786, 1, 64), (71840, 71871, 1, 32), (93760, 93791, 1, 32),
     (125184, 125217, 1, 34)]"

definition unicode_Fold :: "rune \<Rightarrow> rune" where
  "unicode_Fold c =
     (if c < 128 then (if 65 \<le> c \<and> c \<le> 90 then c + 32 else c) else lower_in fold_ranges c)"

text \<open>
  A range is harmless when no member falls below 128 and none lands on the two code
  points that do: U+0130 (capital I with dot) and U+212A (Kelvin sign).
\<close>

definition range_ok :: "nat \<times> nat \<times> nat \<times> int \<Rightarrow> bool" where
  "range_ok r = (case r of (lo, hi, st, d) \<Rightarrow>
     128 \<le> lo \<and>
     ((lo = hi \<and> (lo = 304 \<or> lo = 8490)) \<or>
      (127 < int lo + d \<and>
       (int hi + d < 304 \<or> 304 < int lo + d \<or> (even st \<and> odd (int lo + d))) \<and>
       (int hi + d < 8490 \<or> 8490 < int lo + d \<or> (even st \<and> odd (int lo + d))))))"

lemma lower_ranges_ok: "list_all range_ok lower_ranges"
  by (simp add: lower_ranges_def range_ok_def)

lemma lower_in_cases:
  "lower_in rs c = c \<or>
   (\<exists>lo hi st d. (lo, hi, st, d) \<in> set rs \<and> lo \<le> c \<and> c \<le> hi \<and> (c - lo) mod st = 0 \<and>
      lower_in rs c = nat (int c + d))"
proof (induction rs c rule: lower_in.induct)
  case (1 c)
  then show ?case by simp
next
  case (2 lo hi st d rs c)
  show ?case
  proof (cases "lo \<le> c \<and> c \<le> hi \<and> (c - lo) mod st = 0")
    case True
    then show ?thesis by (metis list.set_intros(1) lower_in.simps(2))
  next
    case False
    with 2 show ?thesis by (metis list.set_intros(2) lower_in.simps(2))
  qed
qed

lemma unicode_ToLower_special [simp]:
  "unicode_ToLower 304 = 105" "unicode_ToLower 8490 = 107"
  by (simp_all add: unicode_ToLower_def lower_ranges_def)

lemma unicode_ToLower_ascii:
  "c < 128 \<Longrightarrow> unicode_ToLower c = (if 65 \<le> c \<and> c \<le> 90 then c + 32 else c)"
  by (simp add: unicode_ToLower_def)

text \<open>Above ASCII, a code point other than the two special ones stays above ASCII and
  does not become one of them.\<close>

lemma unicode_ToLower_nonascii:
  assumes "128 \<le> c" "c \<noteq> 304" "c \<noteq> 8490"
  shows "128 \<le> unicode_ToLower c \<and> unicode_ToLower c \<noteq> 304 \<and> unicode_ToLower c \<noteq> 8490"
proof -
  have eq: "unicode_ToLower c = lower_in lower_ranges c"
    using assms(1) by (simp add: unicode_ToLower_def)
  show ?thesis
  proof (cases "lower_in lower_ranges c = c")
    case True
    with eq assms show ?thesis by simp
  next
    case False
    then obtain lo hi st d where r: "(lo, hi, st, d) \<in> set lower_ranges" "lo \<le> c" "c \<le> hi"
        "(c - lo) mod st = 0" "lower_in lower_ranges c = nat (int c + d)"
      using lower_in_cases [of lower_ranges c] by (elim disjE exE conjE) simp_all
    have ok: "range_ok (lo, hi, st, d)"
      using lower_ranges_ok r(1) by (simp add: list_all_iff)
    with r assms have big: "127 < int lo + d" by (auto simp: range_ok_def)
    have par: "int c + d \<noteq> 304 \<and> int c + d \<noteq> 8490" if "even st" "odd (int lo + d)"
    proof -
      from that(1) r(4) have "even (c - lo)" by (metis dvd_trans mod_eq_0_iff_dvd)
      then have "even (int c - int lo)" using r(2) by (simp flip: of_nat_diff)
      with that(2) have "odd (int c + d)" by presburger
      then show ?thesis by presburger
    qed
    from big r(2) have v: "int (nat (int c + d)) = int c + d" by simp
    have "int c + d \<noteq> 304 \<and> int c + d \<noteq> 8490"
      using ok r(2,3) assms par by (auto simp: range_ok_def simp del: even_add)
    with eq r(2,5) big v show ?thesis by auto
  qed
qed

lemma unicode_ToLower_to_ascii:
  "unicode_ToLower c < 128 \<Longrightarrow> c < 128 \<or> c = 304 \<or> c = 8490"
  using unicode_ToLower_nonascii by (meson leI not_less)

text \<open>What the function returns is a fixed point wherever it is ASCII.\<close>

lemma unicode_ToLower_range:
  "unicode_ToLower c < 128 \<or> 128 \<le> unicode_ToLower c \<and>
     unicode_ToLower c \<noteq> 304 \<and> unicode_ToLower c \<noteq> 8490"
  using unicode_ToLower_nonascii [of c] unicode_ToLower_ascii [of c]
  by (cases "c = 304"; cases "c = 8490"; cases "c < 128") auto

lemma unicode_ToLower_no_upper: "\<not> (65 \<le> unicode_ToLower c \<and> unicode_ToLower c \<le> 90)"
proof (cases "c < 128")
  case True
  then show ?thesis by (simp add: unicode_ToLower_ascii)
next
  case False
  then show ?thesis
    using unicode_ToLower_nonascii [of c] by (cases "c = 304"; cases "c = 8490") auto
qed

text \<open>A code point that lower-cases to ASCII twice was ASCII after the first time.\<close>

lemma unicode_ToLower_twice_ascii:
  assumes "unicode_ToLower (unicode_ToLower c) < 128"
  shows "unicode_ToLower (unicode_ToLower c) = unicode_ToLower c"
proof -
  from assms unicode_ToLower_to_ascii have "unicode_ToLower c < 128"
    using unicode_ToLower_range [of c] by blast
  then show ?thesis
    using unicode_ToLower_ascii [of "unicode_ToLower c"] unicode_ToLower_no_upper [of c] by auto
qed

text \<open>Lower-casing makes no white space and stays among the encodable code points.\<close>

definition valid_rune :: "rune \<Rightarrow> bool" where
  "valid_rune r = (r < 55296 \<or> 57343 < r \<and> r < 1114112)"

definition space_rune :: "rune \<Rightarrow> bool" where
  "space_rune r = (9 \<le> r \<and> r \<le> 13 \<or> r = 32 \<or> r = 133 \<or> r = 160 \<or> r = 5760 \<or> 8192 \<le> r \<and> r \<le> 8202 \<or>
     r = 8232 \<or> r = 8233 \<or> r = 8239 \<or> r = 8287 \<or> r = 12288)"

definition avoided :: "(int \<times> int) set" where
  "avoided = {(0, 32), (133, 133), (160, 160), (5760, 5760), (8192, 8239), (8287, 8287), (12288, 12288),
     (55296, 57343), (1114112, 2228224)}"

definition range_clear :: "nat \<times> nat \<times> nat \<times> int \<Rightarrow> bool" where
  "range_clear r = (case r of (lo, hi, st, d) \<Rightarrow>
     (\<forall>(a, b) \<in> avoided. int hi + d < a \<or> b < int lo + d) \<and> 0 \<le> int lo + d \<and> int hi + d < 2228224)"

lemma lower_ranges_clear: "list_all range_clear lower_ranges"
  by (simp add: lower_ranges_def range_clear_def avoided_def)

lemma range_clear_avoids:
  "range_clear (lo, hi, st, d) \<Longrightarrow> (a, b) \<in> avoided \<Longrightarrow> lo \<le> x \<Longrightarrow> x \<le> hi \<Longrightarrow>
     int x + d < a \<or> b < int x + d"
  by (fastforce simp: range_clear_def)

lemma unicode_ToLower_valid_space:
  assumes "128 \<le> c" "unicode_ToLower c \<noteq> c"
  shows "valid_rune (unicode_ToLower c) \<and> \<not> space_rune (unicode_ToLower c)"
proof -
  let ?r = "unicode_ToLower c"
  have ne: "lower_in lower_ranges c \<noteq> c" and eq: "?r = lower_in lower_ranges c"
    using assms by (auto simp: unicode_ToLower_def)
  obtain lo hi st d where r: "(lo, hi, st, d) \<in> set lower_ranges" "lo \<le> c" "c \<le> hi"
      "lower_in lower_ranges c = nat (int c + d)"
    using ne lower_in_cases [of lower_ranges c] by (elim disjE exE conjE) simp_all
  have ok: "range_clear (lo, hi, st, d)"
    using lower_ranges_clear r(1) by (simp add: list_all_iff)
  have v: "int ?r = int c + d" and top: "?r < 2228224"
    using ok eq r(2-4) by (auto simp: range_clear_def)
  have av: "int ?r < a \<or> b < int ?r" if "(a, b) \<in> avoided" for a b
    using range_clear_avoids [OF ok that r(2,3)] v by simp
  have "32 < ?r" "?r \<noteq> 133" "?r \<noteq> 160" "?r \<noteq> 5760" "?r \<noteq> 8287" "?r \<noteq> 12288"
    using av [of 0 32] av [of 133 133] av [of 160 160] av [of 5760 5760] av [of 8287 8287]
      av [of 12288 12288] by (auto simp: avoided_def)
  moreover have "?r < 8192 \<or> 8239 < ?r" "?r < 55296 \<or> 57343 < ?r" "?r < 1114112"
    using av [of 8192 8239] av [of 55296 57343] av [of 1114112 2228224] top
    by (auto simp: avoided_def)
  ultimately show ?thesis by (auto simp: valid_rune_def space_rune_def)
qed

end
