(* ===== verification/Go_Strings.thy ===== *)
theory Go_Strings
  imports Qurator_Prelude Go_Unicode
begin

text \<open>
  The functions of Go's \<open>strings\<close>, \<open>unicode/utf8\<close> and \<open>path\<close> packages the program calls,
  on byte strings: UTF-8 decoding and encoding, \<open>ToLower\<close>, \<open>EqualFold\<close>, \<open>TrimSpace\<close>,
  \<open>Split\<close>, \<open>Cut\<close>, \<open>Contains\<close>, \<open>HasPrefix\<close>, \<open>TrimRight\<close> and \<open>path.Clean\<close>. The lemmas
  give the ASCII behaviour the components rely on, what a string that lower-cases to
  ASCII looks like, and that a cleaned path has no dot segments to climb with.
\<close>

abbreviation byte :: "char \<Rightarrow> nat" where "byte c \<equiv> of_char c"

definition is_ascii :: "string \<Rightarrow> bool" where
  "is_ascii s = list_all (\<lambda>c. byte c < 128) s"

subsection \<open>UTF-8\<close>

text \<open>\<open>utf8.DecodeRuneInString\<close>: the first code point and its width; an invalid
  sequence is U+FFFD of width 1.\<close>

definition cont :: "nat \<Rightarrow> bool" where "cont b = (128 \<le> b \<and> b \<le> 191)"

definition RuneError :: rune where "RuneError = 65533"

fun decode_rune :: "string \<Rightarrow> rune \<times> nat" where
  "decode_rune [] = (RuneError, 0)"
| "decode_rune (c0 # cs) =
    (let b0 = byte c0 in
     if b0 < 128 then (b0, 1)
     else case cs of
       [] \<Rightarrow> (RuneError, 1)
     | c1 # cs1 \<Rightarrow>
       (let b1 = byte c1 in
        if 194 \<le> b0 \<and> b0 \<le> 223 then
          (if cont b1 then ((b0 - 192) * 64 + (b1 - 128), 2) else (RuneError, 1))
        else case cs1 of
          [] \<Rightarrow> (RuneError, 1)
        | c2 # cs2 \<Rightarrow>
          (let b2 = byte c2 in
           if 224 \<le> b0 \<and> b0 \<le> 239 then
             (if cont b1 \<and> cont b2 \<and> (b0 = 224 \<longrightarrow> 160 \<le> b1) \<and> (b0 = 237 \<longrightarrow> b1 \<le> 159)
              then ((b0 - 224) * 4096 + (b1 - 128) * 64 + (b2 - 128), 3) else (RuneError, 1))
           else case cs2 of
             [] \<Rightarrow> (RuneError, 1)
           | c3 # cs3 \<Rightarrow>
             (let b3 = byte c3 in
              if 240 \<le> b0 \<and> b0 \<le> 244 \<and> cont b1 \<and> cont b2 \<and> cont b3 \<and>
                 (b0 = 240 \<longrightarrow> 144 \<le> b1) \<and> (b0 = 244 \<longrightarrow> b1 \<le> 143)
              then ((b0 - 240) * 262144 + (b1 - 128) * 4096 + (b2 - 128) * 64 + (b3 - 128), 4)
              else (RuneError, 1)))))"

text \<open>\<open>range s\<close>: the code points of a string.\<close>

fun utf8_dec :: "string \<Rightarrow> rune list" where
  "utf8_dec [] = []"
| "utf8_dec (c # cs) = fst (decode_rune (c # cs)) # utf8_dec (drop (snd (decode_rune (c # cs)) - 1) cs)"

definition encode_rune :: "rune \<Rightarrow> string" where
  "encode_rune r =
    (if r < 128 then [char_of r]
     else if r < 2048 then [char_of (192 + r div 64), char_of (128 + r mod 64)]
     else if r < 65536 then
       [char_of (224 + r div 4096), char_of (128 + (r div 64) mod 64), char_of (128 + r mod 64)]
     else [char_of (240 + r div 262144), char_of (128 + (r div 4096) mod 64),
           char_of (128 + (r div 64) mod 64), char_of (128 + r mod 64)])"

definition RuneCountInString :: "string \<Rightarrow> nat" where
  "RuneCountInString s = length (utf8_dec s)"

definition strings_ToLower :: "string \<Rightarrow> string" where
  "strings_ToLower s = concat (map (\<lambda>r. encode_rune (unicode_ToLower r)) (utf8_dec s))"

definition strings_EqualFold :: "string \<Rightarrow> string \<Rightarrow> bool" where
  "strings_EqualFold s t = (map unicode_Fold (utf8_dec s) = map unicode_Fold (utf8_dec t))"

subsection \<open>Searching and splitting\<close>

definition is_digit :: "char \<Rightarrow> bool" where
  "is_digit c = (48 \<le> byte c \<and> byte c \<le> 57)"

definition HasPrefix :: "string \<Rightarrow> string \<Rightarrow> bool" where
  "HasPrefix s p = (take (length p) s = p)"

definition HasSuffix :: "string \<Rightarrow> string \<Rightarrow> bool" where
  "HasSuffix s p = HasPrefix (rev s) (rev p)"

fun strings_Contains :: "string \<Rightarrow> string \<Rightarrow> bool" where
  "strings_Contains [] p = (p = [])"
| "strings_Contains (c # cs) p = (HasPrefix (c # cs) p \<or> strings_Contains cs p)"

fun IndexByte :: "string \<Rightarrow> char \<Rightarrow> nat option" where
  "IndexByte [] b = None"
| "IndexByte (c # cs) b = (if c = b then Some 0 else map_option Suc (IndexByte cs b))"

fun split_on :: "char \<Rightarrow> string \<Rightarrow> string list" where
  "split_on d [] = [[]]"
| "split_on d (c # cs) =
    (if c = d then [] # split_on d cs
     else case split_on d cs of [] \<Rightarrow> [[c]] | x # xs \<Rightarrow> (c # x) # xs)"

fun strings_Join :: "string list \<Rightarrow> string \<Rightarrow> string" where
  "strings_Join [] sep = []"
| "strings_Join [x] sep = x"
| "strings_Join (x # y # ys) sep = x @ sep @ strings_Join (y # ys) sep"

definition TrimRightByte :: "string \<Rightarrow> char \<Rightarrow> string" where
  "TrimRightByte s c = rev (dropWhile (\<lambda>x. x = c) (rev s))"

subsection \<open>White space\<close>

text \<open>The UTF-8 encodings of the code points \<open>unicode.IsSpace\<close> accepts.\<close>

definition space_runes :: "rune list" where
  "space_runes = [9, 10, 11, 12, 13, 32, 133, 160, 5760, 8192, 8193, 8194, 8195, 8196, 8197,
     8198, 8199, 8200, 8201, 8202, 8232, 8233, 8239, 8287, 12288]"

definition space_encs :: "string list" where
  "space_encs = map encode_rune space_runes"

definition strip_one :: "string list \<Rightarrow> string \<Rightarrow> string option" where
  "strip_one ws s = (case find (\<lambda>w. w \<noteq> [] \<and> HasPrefix s w) ws of
     None \<Rightarrow> None | Some w \<Rightarrow> Some (drop (length w) s))"

lemma strip_one_shorter: "strip_one ws s = Some t \<Longrightarrow> length t < length s"
proof -
  assume "strip_one ws s = Some t"
  then obtain w where w: "w \<noteq> []" "HasPrefix s w" "t = drop (length w) s"
    by (auto simp: strip_one_def split: option.splits dest: find_Some_set)
  then have "length w \<le> length s" by (metis HasPrefix_def length_take min.cobounded1)
  with w show ?thesis by (cases w) auto
qed

function trim_left :: "string list \<Rightarrow> string \<Rightarrow> string" where
  "trim_left ws s = (case strip_one ws s of None \<Rightarrow> s | Some t \<Rightarrow> trim_left ws t)"
  by pat_completeness auto
termination
  by (relation "measure (\<lambda>(ws, s). length s)") (auto dest: strip_one_shorter)

declare trim_left.simps [simp del]

text \<open>\<open>strings.TrimSpace\<close>: a white-space code point at the end is the reversed encoding
  at the front of the reversed string.\<close>

definition strings_TrimSpace :: "string \<Rightarrow> string" where
  "strings_TrimSpace s = rev (trim_left (map rev space_encs) (rev (trim_left space_encs s)))"

subsection \<open>path.Clean\<close>

fun clean_segs :: "bool \<Rightarrow> string list \<Rightarrow> string list \<Rightarrow> string list" where
  "clean_segs rooted out [] = rev out"
| "clean_segs rooted out (seg # segs) =
    (if seg = [] \<or> seg = ''.'' then clean_segs rooted out segs
     else if seg = ''..'' then
       (case out of
          [] \<Rightarrow> clean_segs rooted (if rooted then [] else [''..'']) segs
        | o1 # os \<Rightarrow> if o1 = ''..'' then clean_segs rooted (''..'' # out) segs
                    else clean_segs rooted os segs)
     else clean_segs rooted (seg # out) segs)"

definition path_Clean :: "string \<Rightarrow> string" where
  "path_Clean p =
    (if p = [] then ''.''
     else let rooted = (hd p = CHR ''/'');
              body = strings_Join (clean_segs rooted [] (split_on (CHR ''/'') p)) ''/'';
              out = (if rooted then ''/'' @ body else body)
          in if out = [] then ''.'' else out)"

lemmas [go_string_defs] = is_ascii_def cont_def RuneError_def encode_rune_def
  RuneCountInString_def strings_ToLower_def HasPrefix_def HasSuffix_def TrimRightByte_def
  space_runes_def space_encs_def strip_one_def strings_TrimSpace_def path_Clean_def

subsection \<open>Lemmas: ASCII strings\<close>

definition ascii_lower :: "char \<Rightarrow> char" where
  "ascii_lower c = (if 65 \<le> byte c \<and> byte c \<le> 90 then char_of (byte c + 32) else c)"

lemma byte_char_of: "n < 256 \<Longrightarrow> byte (char_of n) = n"
  by simp

lemma is_ascii_Nil [simp]: "is_ascii []"
  and is_ascii_Cons [simp]: "is_ascii (c # cs) \<longleftrightarrow> byte c < 128 \<and> is_ascii cs"
  and is_ascii_append [simp]: "is_ascii (xs @ ys) \<longleftrightarrow> is_ascii xs \<and> is_ascii ys"
  by (simp_all add: is_ascii_def)

lemma utf8_dec_ascii: "is_ascii s \<Longrightarrow> utf8_dec s = map byte s"
  by (induction s) auto

lemma strings_ToLower_ascii: "is_ascii s \<Longrightarrow> strings_ToLower s = map ascii_lower s"
proof (induction s)
  case (Cons c cs)
  then show ?case
    by (simp add: strings_ToLower_def utf8_dec_ascii unicode_ToLower_ascii encode_rune_def ascii_lower_def
      del: utf8_dec.simps)
qed (simp add: strings_ToLower_def)

lemma RuneCount_ascii: "is_ascii s \<Longrightarrow> RuneCountInString s = length s"
  by (simp add: RuneCountInString_def utf8_dec_ascii)

subsection \<open>Lemmas: white space\<close>

definition ascii_space :: "char \<Rightarrow> bool" where
  "ascii_space c = (9 \<le> byte c \<and> byte c \<le> 13 \<or> byte c = 32)"

lemma space_encs_eq: "space_encs =
  [[CHR 0x09], [CHR 0x0A], [CHR 0x0B], [CHR 0x0C], [CHR 0x0D], [CHR 0x20], [CHR 0xC2, CHR 0x85],
   [CHR 0xC2, CHR 0xA0], [CHR 0xE1, CHR 0x9A, CHR 0x80], [CHR 0xE2, CHR 0x80, CHR 0x80],
   [CHR 0xE2, CHR 0x80, CHR 0x81], [CHR 0xE2, CHR 0x80, CHR 0x82], [CHR 0xE2, CHR 0x80, CHR 0x83],
   [CHR 0xE2, CHR 0x80, CHR 0x84], [CHR 0xE2, CHR 0x80, CHR 0x85], [CHR 0xE2, CHR 0x80, CHR 0x86],
   [CHR 0xE2, CHR 0x80, CHR 0x87], [CHR 0xE2, CHR 0x80, CHR 0x88], [CHR 0xE2, CHR 0x80, CHR 0x89],
   [CHR 0xE2, CHR 0x80, CHR 0x8A], [CHR 0xE2, CHR 0x80, CHR 0xA8], [CHR 0xE2, CHR 0x80, CHR 0xA9],
   [CHR 0xE2, CHR 0x80, CHR 0xAF], [CHR 0xE2, CHR 0x81, CHR 0x9F], [CHR 0xE3, CHR 0x80, CHR 0x80]]"
  by (simp add: space_encs_def space_runes_def encode_rune_def char_of_def bit_0)

lemma ascii_space_iff:
  "ascii_space c \<longleftrightarrow> c \<in> {CHR 0x09, CHR 0x0A, CHR 0x0B, CHR 0x0C, CHR 0x0D, CHR 0x20}"
  unfolding ascii_space_def insert_iff empty_iff of_char_eq_iff [symmetric, where 'a = nat]
  by simp linarith

lemma strip_one_ascii:
  assumes "is_ascii s" "ws = space_encs \<or> ws = map rev space_encs"
  shows "strip_one ws s = (case s of [] \<Rightarrow> None | c # cs \<Rightarrow> if ascii_space c then Some cs else None)"
proof (cases s)
  case Nil
  then show ?thesis using assms(2) by (auto simp: strip_one_def HasPrefix_def space_encs_eq)
next
  case (Cons c cs)
  then have lt: "byte c < 128" using assms(1) by simp
  then have ne: "c \<noteq> d" if "128 \<le> byte d" for d using that by auto
  have "strip_one ws s = (if c \<in> {CHR 0x09, CHR 0x0A, CHR 0x0B, CHR 0x0C, CHR 0x0D, CHR 0x20} then Some cs else None)"
    using assms(2) Cons ne by (auto simp: strip_one_def HasPrefix_def space_encs_eq)
  then show ?thesis using Cons by (simp add: ascii_space_iff)
qed

lemma trim_left_ascii:
  "is_ascii s \<Longrightarrow> ws = space_encs \<or> ws = map rev space_encs \<Longrightarrow> trim_left ws s = dropWhile ascii_space s"
proof (induction s)
  case Nil
  then show ?case by (subst trim_left.simps) (simp add: strip_one_ascii)
next
  case (Cons c cs)
  then show ?case by (subst trim_left.simps) (auto simp: strip_one_ascii)
qed

lemma is_ascii_dropWhile: "is_ascii s \<Longrightarrow> is_ascii (dropWhile P s)"
  and is_ascii_rev [simp]: "is_ascii (rev s) = is_ascii s"
  by (auto simp: is_ascii_def list_all_iff dest: set_dropWhileD)

lemma strings_TrimSpace_ascii:
  "is_ascii s \<Longrightarrow>
   strings_TrimSpace s = rev (dropWhile ascii_space (rev (dropWhile ascii_space s)))"
  by (simp add: strings_TrimSpace_def trim_left_ascii is_ascii_dropWhile)

text \<open>What \<open>TrimSpace\<close> leaves has no white space at either end.\<close>

definition no_space_prefix :: "string list \<Rightarrow> string \<Rightarrow> bool" where
  "no_space_prefix ws s = (\<forall>w \<in> set ws. w \<noteq> [] \<longrightarrow> \<not> HasPrefix s w)"

lemma strip_one_None: "strip_one ws s = None \<longleftrightarrow> no_space_prefix ws s"
  by (auto simp: strip_one_def no_space_prefix_def find_None_set split: option.splits dest: find_Some_set)

lemma trim_left_clean: "no_space_prefix ws (trim_left ws s)"
proof (induction ws s rule: trim_left.induct)
  case (1 ws s)
  then show ?case
    by (cases "strip_one ws s") (auto simp: trim_left.simps [of ws s] simp flip: strip_one_None)
qed

lemma trim_left_id: "no_space_prefix ws s \<Longrightarrow> trim_left ws s = s"
  by (subst trim_left.simps) (simp flip: strip_one_None)

lemma trim_left_suffix: "\<exists>p. s = p @ trim_left ws s"
proof (induction ws s rule: trim_left.induct)
  case (1 ws s)
  show ?case
  proof (cases "strip_one ws s")
    case None
    then show ?thesis by (simp add: trim_left.simps [of ws s])
  next
    case (Some t)
    then obtain w where "w \<noteq> []" "HasPrefix s w" "t = drop (length w) s"
      by (auto simp: strip_one_def split: option.splits dest: find_Some_set)
    then have "s = take (length w) s @ t" by simp
    moreover obtain p where "t = p @ trim_left ws t" using 1 Some by blast
    ultimately have "s = (take (length w) s @ p) @ trim_left ws t" by (metis append.assoc)
    then show ?thesis using Some trim_left.simps [of ws s] by (metis option.simps(5))
  qed
qed

lemma no_space_prefix_take: "no_space_prefix ws (xs @ ys) \<Longrightarrow> no_space_prefix ws xs"
  by (auto simp: no_space_prefix_def HasPrefix_def)

definition trimmed :: "string \<Rightarrow> bool" where
  "trimmed s = (no_space_prefix space_encs s \<and> no_space_prefix (map rev space_encs) (rev s))"

lemma trimmed_TrimSpace: "trimmed (strings_TrimSpace s)"
proof -
  let ?x = "trim_left space_encs s"
  obtain p where "rev ?x = p @ trim_left (map rev space_encs) (rev ?x)" using trim_left_suffix by blast
  then have "?x = strings_TrimSpace s @ rev p"
    by (metis rev_append rev_rev_ident strings_TrimSpace_def)
  then have "no_space_prefix space_encs (strings_TrimSpace s)"
    using trim_left_clean no_space_prefix_take by metis
  then show ?thesis by (simp add: trimmed_def strings_TrimSpace_def trim_left_clean)
qed

lemma TrimSpace_id: "trimmed s \<Longrightarrow> strings_TrimSpace s = s"
  by (simp add: trimmed_def strings_TrimSpace_def trim_left_id)

subsection \<open>Lemmas: UTF-8\<close>

lemma encode_rune_shape:
  "valid_rune r \<Longrightarrow> \<exists>l cs. encode_rune r = l # cs \<and> \<not> cont (byte l) \<and> list_all (\<lambda>c. cont (byte c)) cs"
  by (auto simp: encode_rune_def valid_rune_def cont_def byte_char_of)

lemma digits64:
  "(r :: nat) div 4096 * 4096 + r div 64 mod 64 * 64 + r mod 64 = r"
  "(r :: nat) div 262144 * 262144 + r div 4096 mod 64 * 4096 + r div 64 mod 64 * 64 + r mod 64 = r"
proof -
  have e: "r div 4096 = r div 64 div 64" "r div 262144 = r div 64 div 64 div 64"
    using div_mult2_eq [of r 64 64] div_mult2_eq [of r 64 4096] div_mult2_eq [of "r div 64" 64 64] by simp_all
  show "r div 4096 * 4096 + r div 64 mod 64 * 64 + r mod 64 = r"
    "r div 262144 * 262144 + r div 4096 mod 64 * 4096 + r div 64 mod 64 * 64 + r mod 64 = r"
    unfolding e using div_mult_mod_eq [of r 64] div_mult_mod_eq [of "r div 64" 64]
      div_mult_mod_eq [of "r div 64 div 64" 64] by linarith+
qed

lemma dm64: "(z :: nat) < 64 \<Longrightarrow> (q * 64 + z) div 64 = q \<and> (q * 64 + z) mod 64 = z"
  by simp

lemma enc2:
  assumes "194 \<le> b0" "b0 \<le> 223" "cont b1"
  shows "encode_rune ((b0 - 192) * 64 + (b1 - 128)) = [char_of b0, char_of b1] \<and>
    valid_rune ((b0 - 192) * 64 + (b1 - 128))"
proof -
  define x y where "x = b0 - 192" and "y = b1 - 128"
  have b: "b0 = 192 + x" "2 \<le> x" "x \<le> 31" "b1 = 128 + y" "y < 64"
    using assms by (auto simp: x_def y_def cont_def)
  have "(x * 64 + y) div 64 = x" "(x * 64 + y) mod 64 = y" using b(5) by auto
  then show ?thesis using b by (auto simp: encode_rune_def valid_rune_def)
qed

lemma enc3:
  assumes "224 \<le> b0" "b0 \<le> 239" "cont b1" "cont b2" "b0 = 224 \<longrightarrow> 160 \<le> b1" "b0 = 237 \<longrightarrow> b1 \<le> 159"
  shows "encode_rune ((b0 - 224) * 4096 + (b1 - 128) * 64 + (b2 - 128)) = [char_of b0, char_of b1, char_of b2] \<and>
    valid_rune ((b0 - 224) * 4096 + (b1 - 128) * 64 + (b2 - 128))"
proof -
  define x y z where "x = b0 - 224" and "y = b1 - 128" and "z = b2 - 128"
  let ?r = "x * 4096 + y * 64 + z"
  have b: "b0 = 224 + x" "x \<le> 15" "b1 = 128 + y" "y < 64" "b2 = 128 + z" "z < 64"
      "x = 0 \<longrightarrow> 32 \<le> y" "x = 13 \<longrightarrow> y \<le> 31"
    using assms by (auto simp: x_def y_def z_def cont_def)
  have "?r = (x * 64 + y) * 64 + z" by simp
  then have q: "?r div 64 = x * 64 + y" "?r mod 64 = z" using dm64 [OF b(6)] by presburger+
  then have "?r div 4096 = x" "?r div 64 mod 64 = y"
    using dm64 [OF b(4), of x] div_mult2_eq [of ?r 64 64] by simp_all
  moreover have "2048 \<le> ?r" "?r < 65536" using b by (cases "x = 0"; simp)+
  moreover have "valid_rune ?r"
  proof (cases "x \<le> 12 \<or> 14 \<le> x")
    case True
    then show ?thesis using b by (auto simp: valid_rune_def)
  next
    case False
    then have "x = 13" by simp
    then show ?thesis using b by (auto simp: valid_rune_def)
  qed
  ultimately show ?thesis using b q unfolding x_def [symmetric] y_def [symmetric] z_def [symmetric]
    by (simp add: encode_rune_def)
qed

lemma enc4:
  assumes "240 \<le> b0" "b0 \<le> 244" "cont b1" "cont b2" "cont b3" "b0 = 240 \<longrightarrow> 144 \<le> b1" "b0 = 244 \<longrightarrow> b1 \<le> 143"
  shows "encode_rune ((b0 - 240) * 262144 + (b1 - 128) * 4096 + (b2 - 128) * 64 + (b3 - 128)) =
      [char_of b0, char_of b1, char_of b2, char_of b3] \<and>
    valid_rune ((b0 - 240) * 262144 + (b1 - 128) * 4096 + (b2 - 128) * 64 + (b3 - 128))"
proof -
  define x y z u where "x = b0 - 240" and "y = b1 - 128" and "z = b2 - 128" and "u = b3 - 128"
  let ?r = "x * 262144 + y * 4096 + z * 64 + u"
  have b: "b0 = 240 + x" "x \<le> 4" "b1 = 128 + y" "y < 64" "b2 = 128 + z" "z < 64" "b3 = 128 + u" "u < 64"
      "x = 0 \<longrightarrow> 16 \<le> y" "x = 4 \<longrightarrow> y \<le> 15"
    using assms by (auto simp: x_def y_def z_def u_def cont_def)
  have "?r = (x * 4096 + y * 64 + z) * 64 + u" by simp
  then have q: "?r div 64 = x * 4096 + y * 64 + z" "?r mod 64 = u" using dm64 [OF b(8)] by presburger+
  have "?r div 64 = (x * 64 + y) * 64 + z" using q(1) by simp
  then have q2: "?r div 4096 = x * 64 + y" "?r div 64 mod 64 = z"
    using dm64 [OF b(6), of "x * 64 + y"] div_mult2_eq [of ?r 64 64] by simp_all
  then have q3: "?r div 262144 = x" "?r div 4096 mod 64 = y"
    using dm64 [OF b(4), of x] div_mult2_eq [of ?r 4096 64] by simp_all
  moreover have "65536 \<le> ?r" "?r < 1114112" using b by (cases "x = 0"; cases "x = 4"; simp)+
  ultimately show ?thesis using b q q2 unfolding x_def [symmetric] y_def [symmetric] z_def [symmetric] u_def [symmetric]
    by (simp add: encode_rune_def valid_rune_def)
qed

lemma decode_encode:
  assumes "valid_rune r"
  shows "decode_rune (encode_rune r @ rest) = (r, length (encode_rune r))"
proof -
  define x3 x2 x1 x0 where "x3 = r div 262144" and "x2 = r div 4096 mod 64" and "x1 = r div 64 mod 64" and "x0 = r mod 64"
  have lt: "x2 < 64" "x1 < 64" "x0 < 64" by (simp_all add: x2_def x1_def x0_def)
  consider "r < 128" | "128 \<le> r" "r < 2048" | "2048 \<le> r" "r < 65536" | "65536 \<le> r" "r < 1114112"
    using assms by (auto simp: valid_rune_def) linarith+
  then show ?thesis
  proof cases
    case 1
    then show ?thesis by (simp add: encode_rune_def byte_char_of)
  next
    case 2
    define y where "y = r div 64"
    have y: "2 \<le> y" "y \<le> 31" "r = y * 64 + x0" using 2 by (auto simp: y_def x0_def)
    have "encode_rune r = [char_of (192 + y), char_of (128 + x0)]"
      using enc2 [of "192 + y" "128 + x0"] y lt by (simp add: cont_def)
    then show ?thesis using y lt by (simp add: byte_char_of cont_def)
  next
    case 3
    define y where "y = r div 4096"
    have r: "r = y * 4096 + x1 * 64 + x0" using digits64(1) [of r] by (simp add: y_def x1_def x0_def)
    have y: "y \<le> 15" using 3 by (simp add: y_def)
    have lo: "y = 0 \<longrightarrow> 32 \<le> x1" using r 3 lt by auto
    have su: "y = 13 \<longrightarrow> x1 \<le> 31" using r assms lt by (auto simp: valid_rune_def)
    have "encode_rune r = [char_of (224 + y), char_of (128 + x1), char_of (128 + x0)]"
      using enc3 [of "224 + y" "128 + x1" "128 + x0"] y lt lo su r by (simp add: cont_def)
    then show ?thesis using y lt lo su r by (simp add: byte_char_of cont_def)
  next
    case 4
    have r: "r = x3 * 262144 + x2 * 4096 + x1 * 64 + x0"
      using digits64(2) [of r] by (simp add: x3_def x2_def x1_def x0_def)
    have y: "x3 \<le> 4" using 4 by (simp add: x3_def)
    have lo: "x3 = 0 \<longrightarrow> 16 \<le> x2" using r 4 lt by auto
    have hi: "x3 = 4 \<longrightarrow> x2 \<le> 15" using r 4 lt by auto
    have "encode_rune r = [char_of (240 + x3), char_of (128 + x2), char_of (128 + x1), char_of (128 + x0)]"
      using enc4 [of "240 + x3" "128 + x2" "128 + x1" "128 + x0"] y lt lo hi r by (simp add: cont_def)
    then show ?thesis using y lt lo hi r by (simp add: byte_char_of cont_def)
  qed
qed

lemma encode_rune_nonempty [simp]: "encode_rune r \<noteq> []"
  by (simp add: encode_rune_def)

lemma utf8_dec_Cons_rune:
  assumes "valid_rune r"
  shows "utf8_dec (encode_rune r @ rest) = r # utf8_dec rest"
proof -
  obtain c cs where e: "encode_rune r = c # cs" by (cases "encode_rune r") auto
  have d: "decode_rune (c # cs @ rest) = (r, Suc (length cs))"
    using decode_encode [OF assms, of rest] e by simp
  show ?thesis unfolding e append_Cons utf8_dec.simps d by simp
qed

lemma utf8_dec_encode: "list_all valid_rune rs \<Longrightarrow> utf8_dec (concat (map encode_rune rs)) = rs"
  by (induction rs) (simp_all add: utf8_dec_Cons_rune del: utf8_dec.simps(2))


lemma RuneError_valid [simp]: "valid_rune RuneError"
  by (simp add: RuneError_def valid_rune_def)

lemma decode_rune_sound:
  assumes "decode_rune s = (r, n)" "s \<noteq> []"
  shows "valid_rune r \<and> 0 < n \<and> (r = RuneError \<or> take n s = encode_rune r)"
proof -
  obtain c0 cs where s: "s = c0 # cs" using assms(2) by (cases s) auto
  show ?thesis
  proof (cases "byte c0 < 128")
    case True
    then show ?thesis using assms(1) s by (auto simp: valid_rune_def encode_rune_def)
  next
    case False
    then show ?thesis using assms(1) s
      by (auto simp: Let_def enc2 enc3 enc4 split: list.splits if_splits)
  qed
qed

subsection \<open>Lemmas: lower-casing twice\<close>

lemma utf8_chunks:
  "\<exists>chs. s = concat chs \<and> list_all2 (\<lambda>r ch. valid_rune r \<and> (r = RuneError \<or> ch = encode_rune r)) (utf8_dec s) chs"
proof (induction s rule: utf8_dec.induct)
  case 1
  show ?case by (rule exI [of _ "[]"]) simp
next
  case (2 c cs)
  obtain r n where d: "decode_rune (c # cs) = (r, n)" by (cases "decode_rune (c # cs)") auto
  then have ok: "valid_rune r \<and> 0 < n \<and> (r = RuneError \<or> take n (c # cs) = encode_rune r)"
    using decode_rune_sound by blast
  then obtain m where n: "n = Suc m" by (cases n) auto
  from 2 d n obtain chs where "drop m cs = concat chs"
      "list_all2 (\<lambda>r ch. valid_rune r \<and> (r = RuneError \<or> ch = encode_rune r)) (utf8_dec (drop m cs)) chs"
    by auto
  with ok d n show ?case
    by (intro exI [of _ "take n (c # cs) # chs"]) (auto simp flip: \<open>drop m cs = concat chs\<close>)
qed

lemma utf8_dec_valid: "list_all valid_rune (utf8_dec s)"
proof -
  obtain chs where "list_all2 (\<lambda>r ch. valid_rune r \<and> (r = RuneError \<or> ch = encode_rune r)) (utf8_dec s) chs"
    using utf8_chunks by blast
  then show ?thesis by (auto simp: list_all2_conv_all_nth list_all_length)
qed

lemma unicode_ToLower_valid: "valid_rune r \<Longrightarrow> valid_rune (unicode_ToLower r)"
  using unicode_ToLower_valid_space [of r] unicode_ToLower_ascii [of r]
  by (cases "r < 128"; cases "unicode_ToLower r = r") (auto simp: valid_rune_def)

lemma unicode_ToLower_space: "space_rune (unicode_ToLower r) \<Longrightarrow> unicode_ToLower r = r"
  using unicode_ToLower_valid_space [of r] unicode_ToLower_ascii [of r]
  by (cases "r < 128") (auto simp: space_rune_def split: if_splits)

lemma strings_ToLower_runes: "strings_ToLower s = concat (map encode_rune (map unicode_ToLower (utf8_dec s)))"
  by (simp add: strings_ToLower_def comp_def)

lemma utf8_dec_ToLower: "utf8_dec (strings_ToLower s) = map unicode_ToLower (utf8_dec s)"
proof -
  have "list_all valid_rune (map unicode_ToLower (utf8_dec s))"
    using utf8_dec_valid [of s] by (auto simp: list_all_iff unicode_ToLower_valid)
  then show ?thesis by (simp only: strings_ToLower_runes utf8_dec_encode)
qed

lemma is_ascii_encode: "is_ascii (encode_rune r) \<Longrightarrow> valid_rune r \<Longrightarrow> r < 128"
  by (auto simp: encode_rune_def valid_rune_def byte_char_of split: if_splits)

lemma is_ascii_concat: "is_ascii (concat xss) \<longleftrightarrow> (\<forall>xs \<in> set xss. is_ascii xs)"
  by (induction xss) auto

lemma strings_ToLower_twice:
  assumes "is_ascii (strings_ToLower (strings_ToLower s))"
  shows "strings_ToLower (strings_ToLower s) = strings_ToLower s"
proof -
  have "unicode_ToLower (unicode_ToLower r) = unicode_ToLower r" if r: "r \<in> set (utf8_dec s)" for r
  proof -
    have "valid_rune r" using r utf8_dec_valid by (auto simp: list_all_iff)
    moreover have "is_ascii (encode_rune (unicode_ToLower (unicode_ToLower r)))"
      using assms r by (simp add: strings_ToLower_runes [of "strings_ToLower s"] utf8_dec_ToLower is_ascii_concat)
    ultimately show ?thesis
      using is_ascii_encode unicode_ToLower_valid unicode_ToLower_twice_ascii by metis
  qed
  then have "map unicode_ToLower (map unicode_ToLower (utf8_dec s)) = map unicode_ToLower (utf8_dec s)" by simp
  then show ?thesis
    unfolding strings_ToLower_runes [of "strings_ToLower s"] utf8_dec_ToLower
    by (simp only: strings_ToLower_runes [of s])
qed

lemma encode_suffix_unique:
  assumes "A @ encode_rune x = B @ encode_rune y" "valid_rune x" "valid_rune y"
  shows "x = y"
proof -
  obtain l cs where x: "encode_rune x = l # cs" "\<not> cont (byte l)" "list_all (\<lambda>c. cont (byte c)) cs"
    using encode_rune_shape [OF assms(2)] by blast
  obtain k ds where y: "encode_rune y = k # ds" "\<not> cont (byte k)" "list_all (\<lambda>c. cont (byte c)) ds"
    using encode_rune_shape [OF assms(3)] by blast
  have tw: "takeWhile (\<lambda>c. cont (byte c)) (rev (P @ l # cs)) = rev cs"
    if "\<not> cont (byte l)" "list_all (\<lambda>c. cont (byte c)) cs" for P l cs
    using that takeWhile_append2 [of "rev cs" "\<lambda>c. cont (byte c)" "l # rev P"] by (simp add: list_all_iff)
  have eq: "A @ l # cs = B @ k # ds" using assms(1) x(1) y(1) by simp
  have "rev cs = rev ds" using tw [OF x(2,3), of A] tw [OF y(2,3), of B] eq by metis
  with eq have "l # cs = k # ds" by simp
  then have "encode_rune x = encode_rune y" using x(1) y(1) by simp
  then show ?thesis
    using decode_encode [OF assms(2), of "[]"] decode_encode [OF assms(3), of "[]"] by simp
qed

lemma space_encs_cases:
  "w \<in> set space_encs \<Longrightarrow> \<exists>k. w = encode_rune k \<and> space_rune k \<and> valid_rune k \<and> k \<noteq> RuneError"
  by (auto simp: space_encs_def space_runes_def space_rune_def valid_rune_def RuneError_def)

lemma HasPrefix_append: "HasPrefix s p \<longleftrightarrow> (\<exists>t. s = p @ t)"
  unfolding HasPrefix_def by (metis append_eq_conv_conj append_take_drop_id)

lemma trimmed_ToLower:
  assumes "trimmed s"
  shows "trimmed (strings_ToLower s)"
proof -
  obtain chs where chs: "s = concat chs"
      "list_all2 (\<lambda>r ch. valid_rune r \<and> (r = RuneError \<or> ch = encode_rune r)) (utf8_dec s) chs"
    using utf8_chunks by blast
  have lead: "no_space_prefix space_encs (strings_ToLower s)"
    unfolding no_space_prefix_def
  proof (intro ballI impI notI)
    fix w assume w: "w \<in> set space_encs" "HasPrefix (strings_ToLower s) w"
    then obtain k t where k: "w = encode_rune k" "space_rune k" "valid_rune k" "k \<noteq> RuneError"
        "strings_ToLower s = encode_rune k @ t"
      using space_encs_cases HasPrefix_append by metis
    then have "map unicode_ToLower (utf8_dec s) = k # utf8_dec t"
      by (metis utf8_dec_Cons_rune utf8_dec_ToLower)
    then obtain r rs where r: "utf8_dec s = r # rs" "unicode_ToLower r = k" by auto
    then have "r = k" using unicode_ToLower_space k(2) by metis
    with chs r(1) k(4) obtain chs' where "s = encode_rune k @ concat chs'"
      by (auto simp: list_all2_Cons1)
    then show False using assms w(1) k(1) by (auto simp: trimmed_def no_space_prefix_def HasPrefix_append)
  qed
  have trail: "no_space_prefix (map rev space_encs) (rev (strings_ToLower s))"
    unfolding no_space_prefix_def
  proof (intro ballI impI notI)
    fix w assume w: "w \<in> set (map rev space_encs)" "HasPrefix (rev (strings_ToLower s)) w"
    then have rw: "rev w \<in> set space_encs" by auto
    then obtain k where k: "rev w = encode_rune k" "rev w \<in> set space_encs" "space_rune k" "valid_rune k" "k \<noteq> RuneError"
      using space_encs_cases by blast
    obtain t where "rev (strings_ToLower s) = w @ t" using w(2) HasPrefix_append by blast
    then have suf: "strings_ToLower s = rev t @ encode_rune k" by (metis k(1) rev_append rev_rev_ident)
    then have "utf8_dec s \<noteq> []" by (auto simp: strings_ToLower_def)
    then obtain rs r where r: "utf8_dec s = rs @ [r]" by (metis rev_exhaust)
    then have "(concat (map encode_rune (map unicode_ToLower rs))) @ encode_rune (unicode_ToLower r) = rev t @ encode_rune k"
      using suf by (simp add: strings_ToLower_runes)
    moreover have "valid_rune (unicode_ToLower r)"
      using utf8_dec_valid [of s] r unicode_ToLower_valid by simp
    ultimately have "unicode_ToLower r = k" using encode_suffix_unique k(4) by blast
    then have "r = k" using unicode_ToLower_space k(3) by metis
    with chs r k(5) obtain chs' where "s = concat chs' @ encode_rune k"
      by (auto simp: list_all2_append1 list_all2_Cons1)
    then have "HasPrefix (rev s) w" using k(1) by (metis HasPrefix_append rev_append rev_rev_ident)
    then show False using assms w(1) k(1) encode_rune_nonempty
      by (auto simp: trimmed_def no_space_prefix_def)
  qed
  show ?thesis using lead trail by (simp add: trimmed_def)
qed

lemma split_on_nonempty: "split_on d s \<noteq> []"
  by (induction s) (auto split: list.splits)

subsection \<open>Evaluation of ASCII strings\<close>

lemma strings_ToLower_code [code]:
  "strings_ToLower s = (if is_ascii s then map ascii_lower s
     else concat (map (\<lambda>r. encode_rune (unicode_ToLower r)) (utf8_dec s)))"
  by (simp add: strings_ToLower_ascii) (simp add: strings_ToLower_def)

lemma EqualFold_ascii:
  assumes "is_ascii s" "is_ascii t"
  shows "strings_EqualFold s t \<longleftrightarrow> map ascii_lower s = map ascii_lower t"
proof -
  have f: "map unicode_Fold (utf8_dec x) = map byte (map ascii_lower x)" if "is_ascii x" for x
    using that by (auto simp: utf8_dec_ascii unicode_Fold_def ascii_lower_def is_ascii_def list_all_iff byte_char_of)
  have "inj byte" by (metis char_of_char injI)
  then show ?thesis using assms by (simp only: strings_EqualFold_def f inj_map_eq_map)
qed

lemma strings_EqualFold_code [code]:
  "strings_EqualFold s t = (if is_ascii s \<and> is_ascii t then map ascii_lower s = map ascii_lower t
     else map unicode_Fold (utf8_dec s) = map unicode_Fold (utf8_dec t))"
  by (simp add: EqualFold_ascii) (simp add: strings_EqualFold_def)

lemma strings_TrimSpace_code [code]:
  "strings_TrimSpace s = (if is_ascii s then rev (dropWhile ascii_space (rev (dropWhile ascii_space s)))
     else rev (trim_left (map rev space_encs) (rev (trim_left space_encs s))))"
  by (simp add: strings_TrimSpace_ascii) (simp add: strings_TrimSpace_def)

lemma RuneCountInString_code [code]:
  "RuneCountInString s = (if is_ascii s then length s else length (utf8_dec s))"
  by (simp add: RuneCount_ascii) (simp add: RuneCountInString_def)

end
