(* ===== verification/Domain.thy ===== *)
theory Domain
  imports Go_Strings "HOL-Library.Word" Complex_Main
begin

unbundle bit_operations_syntax

text \<open>
  The data model of \<^verbatim>\<open>src/internal/domain\<close>: users, API tokens, codes with their styling,
  scan events, rollups and the listing filter, each a record with the fields of the Go
  struct, and the identifier generator. String-typed enumerations (\<open>CodeState\<close>,
  \<open>CodeMode\<close>, \<open>ECLevel\<close>, \<open>Dimension\<close>, ...) stay strings, because the code tests for the
  empty string and for unknown values. A \<open>float64\<close> is the rational number it denotes.

  What the program reads from outside at a call, the clock and \<open>crypto/rand\<close>, is a record
  \<open>call_env\<close>: \<open>now\<close> is what \<open>time.Now()\<close> returns and \<open>rnd i\<close> the \<open>i\<close>-th random byte.
\<close>

record call_env =
  now :: gotime
  rnd :: "nat \<Rightarrow> 8 word"

subsection \<open>Entities\<close>

record user =
  user_ID :: string
  user_Email :: string
  user_PasswordHash :: string
  user_IsAdmin :: bool
  user_TokenVersion :: int
  user_Source :: string
  user_CreatedAt :: gotime
  user_LastLoginAt :: "gotime option"

definition UserSourceLocal :: string where "UserSourceLocal = ''local''"
definition UserSourceForwardAuth :: string where "UserSourceForwardAuth = ''forward_auth''"

record api_token =
  tok_ID :: string
  tok_UserID :: string
  tok_Name :: string
  tok_SecretHash :: bytes
  tok_CreatedAt :: gotime
  tok_LastUsedAt :: "gotime option"
  tok_RevokedAt :: "gotime option"
  tok_ExpiresAt :: "gotime option"

definition tok_Revoked :: "api_token \<Rightarrow> bool" where
  "tok_Revoked t = (tok_RevokedAt t \<noteq> None)"

definition CodeActive :: string where "CodeActive = ''active''"
definition CodeDisabled :: string where "CodeDisabled = ''disabled''"
definition CodeDeleted :: string where "CodeDeleted = ''deleted''"

definition ModeDynamic :: string where "ModeDynamic = ''dynamic''"
definition ModeDirect :: string where "ModeDirect = ''direct''"

definition ECLow :: string where "ECLow = ''L''"
definition ECMedium :: string where "ECMedium = ''M''"
definition ECQuartile :: string where "ECQuartile = ''Q''"
definition ECHigh :: string where "ECHigh = ''H''"

definition ShapeSquare :: string where "ShapeSquare = ''square''"
definition ShapeDot :: string where "ShapeDot = ''dot''"
definition ShapeRounded :: string where "ShapeRounded = ''rounded''"

lemmas domain_consts = UserSourceLocal_def UserSourceForwardAuth_def CodeActive_def CodeDisabled_def
  CodeDeleted_def ModeDynamic_def ModeDirect_def ECLow_def ECMedium_def ECQuartile_def ECHigh_def
  ShapeSquare_def ShapeDot_def ShapeRounded_def

record styling =
  sty_ID :: string
  FgColor :: string
  BgColor :: string
  ModuleShape :: string
  MarginModules :: int
  SizePx :: int
  sty_ECLevel :: string
  ECLevelEffective :: string
  LogoBlobKey :: string
  LogoScale :: rat

record code =
  code_ID :: string
  ShortCode :: string
  IsAlias :: bool
  code_UserID :: string
  code_Mode :: string
  ClientRef :: string
  Destination :: string
  code_State :: string
  code_Styling :: styling
  BlobKey :: string
  BlobETag :: string
  code_Version :: int
  code_CreatedAt :: gotime
  code_UpdatedAt :: gotime
  code_DeletedAt :: "gotime option"

subsection \<open>Scans\<close>

definition DeviceMobile :: string where "DeviceMobile = ''mobile''"
definition DeviceDesktop :: string where "DeviceDesktop = ''desktop''"
definition DeviceTablet :: string where "DeviceTablet = ''tablet''"
definition DeviceTV :: string where "DeviceTV = ''tv''"
definition DeviceBot :: string where "DeviceBot = ''bot''"
definition DeviceUnknown :: string where "DeviceUnknown = ''unknown''"

record scan_event =
  ev_CodeID :: string
  OccurredAt :: gotime
  UAFamily :: string
  DeviceCategory :: string
  ReferrerHost :: string
  IsBot :: bool

definition DimTotal :: string where "DimTotal = ''total''"
definition DimUAFamily :: string where "DimUAFamily = ''ua_family''"
definition DimDeviceCategory :: string where "DimDeviceCategory = ''device_category''"
definition DimReferrerHost :: string where "DimReferrerHost = ''referrer_host''"
definition DimIsBot :: string where "DimIsBot = ''is_bot''"

definition BucketHour :: string where "BucketHour = ''hour''"
definition BucketDay :: string where "BucketDay = ''day''"
definition BucketWeek :: string where "BucketWeek = ''week''"

lemmas scan_consts = DimTotal_def DimUAFamily_def DimDeviceCategory_def DimReferrerHost_def
  DimIsBot_def BucketHour_def BucketDay_def BucketWeek_def

record rollup_delta =
  rd_CodeID :: string
  HourBucket :: gotime
  Dimension :: string
  rd_Value :: string
  rd_Count :: int

record scan_batch =
  Events :: "scan_event list"
  Rollups :: "rollup_delta list"

record analytics_query =
  aq_CodeID :: string
  aq_From :: gotime
  aq_To :: gotime
  aq_Bucket :: string

record analytics_result =
  Total :: int
  Series :: "(gotime \<times> int) list"
  Breakdowns :: "string \<Rightarrow> (string \<times> int) list option"

record code_filter =
  cf_UserID :: string
  CreatedAfter :: "gotime option"
  CreatedBefore :: "gotime option"
  cf_Destination :: string
  cf_Limit :: int
  cf_Cursor :: string

record alias_reservation =
  ar_ShortCode :: string
  ar_CodeID :: string
  ReservedAt :: gotime
  ReleasedAt :: "gotime option"

subsection \<open>Identifiers\<close>

definition idAlphabet :: string where
  "idAlphabet = ''0123456789abcdefghjkmnpqrstvwxyz''"

definition idRandomLen :: nat where "idRandomLen = 16"

definition RandomCrockford :: "nat \<Rightarrow> (nat \<Rightarrow> 8 word) \<Rightarrow> string" where
  "RandomCrockford n r = map (\<lambda>i. idAlphabet ! unat (r i AND 0x1f)) [0..<n]"

definition NewID :: "string \<Rightarrow> (nat \<Rightarrow> 8 word) \<Rightarrow> string" where
  "NewID pre r = pre @ ''_'' @ RandomCrockford idRandomLen r"

definition NewUserID :: "(nat \<Rightarrow> 8 word) \<Rightarrow> string" where "NewUserID = NewID ''usr''"
definition NewTokenID :: "(nat \<Rightarrow> 8 word) \<Rightarrow> string" where "NewTokenID = NewID ''tok''"
definition NewCodeID :: "(nat \<Rightarrow> 8 word) \<Rightarrow> string" where "NewCodeID = NewID ''cod''"

text \<open>Masking with \<open>0x1f\<close> always yields an index into the alphabet, so every generated
  character is one of its 32 letters, and each letter has exactly eight bytes that select it
  (no modulo bias).\<close>

lemma mask_index: "unat ((b :: 8 word) AND 0x1f) < length idAlphabet"
proof -
  have "b AND 0x1f \<le> 0x1f" by (rule word_and_le1)
  then have "unat (b AND 0x1f) \<le> unat (0x1f :: 8 word)" by (rule word_le_nat_alt [THEN iffD1])
  then show ?thesis by (simp add: idAlphabet_def)
qed

lemma RandomCrockford_set: "set (RandomCrockford n r) \<subseteq> set idAlphabet"
  by (auto simp: RandomCrockford_def intro: nth_mem mask_index)

lemma RandomCrockford_length [simp]: "length (RandomCrockford n r) = n"
  by (simp add: RandomCrockford_def)

end
