(* ===== verification/Shortcode.thy ===== *)
theory Shortcode
  imports Domain
begin

text \<open>
  \<^verbatim>\<open>src/internal/shortcode\<close>: the generator of short codes, the alias grammar and the
  reserved words. \<open>ValidateAlias\<close> returns \<open>None\<close> for a good alias and otherwise the first
  rule it breaks, in the order of the code. The lemmas characterise the accepted aliases
  as slugs, show that generated codes and aliases can never coincide, and that validating
  the normalised form says something about the form that is stored.
\<close>

subsection \<open>Generation\<close>

definition GeneratedLen :: nat where "GeneratedLen = 12"

text \<open>The character class of the regular expression \<open>^[0-9a-hjkmnp-tv-z]{12}$\<close>.\<close>

definition generated_char :: "char \<Rightarrow> bool" where
  "generated_char c = (let b = byte c in
     (48 \<le> b \<and> b \<le> 57) \<or> (97 \<le> b \<and> b \<le> 104) \<or> b = 106 \<or> b = 107 \<or> b = 109 \<or> b = 110 \<or>
     (112 \<le> b \<and> b \<le> 116) \<or> (118 \<le> b \<and> b \<le> 122))"

definition Generate :: "(nat \<Rightarrow> 8 word) \<Rightarrow> string" where
  "Generate r = RandomCrockford GeneratedLen r"

definition IsGeneratedShape :: "string \<Rightarrow> bool" where
  "IsGeneratedShape s = (length s = GeneratedLen \<and> list_all generated_char s)"

subsection \<open>Reserved words\<close>

definition buildReserved :: "string list" where
  "buildReserved =
    [''r'', ''i'', ''ui'', ''assets'',
     ''v1'', ''qr'', ''codes'', ''disable'', ''enable'', ''analytics'',
     ''auth'', ''signin'', ''signout'', ''me'',
     ''tokens'', ''admin'', ''aliases'', ''export'',
     ''healthz'', ''readyz'', ''metrics'', ''health'', ''ready'', ''status'', ''ping'', ''version'',
     ''login'', ''logout'', ''register'', ''signup'', ''password'',
     ''reset-password'', ''forgot-password'', ''change-password'',
     ''code'', ''user'', ''users'', ''token'', ''alias'', ''api'', ''console'',
     ''dashboard'', ''settings'', ''static'',
     ''robots.txt'', ''favicon.ico'', ''sitemap.xml'', ''humans.txt'', ''security.txt'',
     ''.well-known'',
     ''verify'', ''secure'', ''security'', ''billing'', ''account'', ''support'', ''help'',
     ''bank'', ''paypal'', ''confirm'', ''update'', ''unsubscribe'']"

definition toLowerASCII :: "string \<Rightarrow> string" where
  "toLowerASCII s = map (\<lambda>c. if 65 \<le> byte c \<and> byte c \<le> 90 then char_of (byte c + 32) else c) s"

definition IsReserved :: "string \<Rightarrow> bool" where
  "IsReserved s = (toLowerASCII s \<in> set buildReserved)"

subsection \<open>Aliases\<close>

definition AliasMinLen :: nat where "AliasMinLen = 3"
definition AliasMaxLen :: nat where "AliasMaxLen = 64"

datatype alias_error = ErrAliasTooShort | ErrAliasTooLong | ErrAliasBadChar | ErrAliasBadEdge
  | ErrAliasDoubleHyphen | ErrAliasReserved | ErrAliasLooksGenerated

definition NormalizeAlias :: "string \<Rightarrow> string" where
  "NormalizeAlias s = strings_ToLower (strings_TrimSpace s)"

definition isAlphanumeric :: "char \<Rightarrow> bool" where
  "isAlphanumeric c = ((97 \<le> byte c \<and> byte c \<le> 122) \<or> (48 \<le> byte c \<and> byte c \<le> 57))"

definition isAliasChar :: "char \<Rightarrow> bool" where
  "isAliasChar c = (isAlphanumeric c \<or> c = CHR ''-'')"

definition ValidateAlias :: "string \<Rightarrow> alias_error option" where
  "ValidateAlias s = (let a = NormalizeAlias s in
     if length a < AliasMinLen then Some ErrAliasTooShort
     else if AliasMaxLen < length a then Some ErrAliasTooLong
     else if \<not> list_all isAliasChar a then Some ErrAliasBadChar
     else if \<not> isAlphanumeric (hd a) \<or> \<not> isAlphanumeric (last a) then Some ErrAliasBadEdge
     else if strings_Contains a ''--'' then Some ErrAliasDoubleHyphen
     else if IsReserved a then Some ErrAliasReserved
     else if IsGeneratedShape a then Some ErrAliasLooksGenerated
     else None)"

lemmas shortcode_consts = GeneratedLen_def AliasMinLen_def AliasMaxLen_def

subsection \<open>Lemmas\<close>

lemma generated_char_idAlphabet: "list_all generated_char idAlphabet"
  by (simp add: idAlphabet_def generated_char_def)

lemma Generate_shape: "IsGeneratedShape (Generate r)"
  using RandomCrockford_set [of GeneratedLen r] generated_char_idAlphabet
  by (auto simp: IsGeneratedShape_def Generate_def list_all_iff)

text \<open>A valid short code: what is stored is already in normal form.\<close>

definition clean_short :: "string \<Rightarrow> bool" where
  "clean_short s = (s \<noteq> [] \<and> list_all isAliasChar s)"

lemma isAliasChar_ascii: "isAliasChar c \<Longrightarrow> byte c < 128"
  by (auto simp: isAliasChar_def isAlphanumeric_def)

lemma isAliasChar_lower: "isAliasChar c \<Longrightarrow> ascii_lower c = c"
  by (auto simp: isAliasChar_def isAlphanumeric_def ascii_lower_def)

lemma isAliasChar_not_space: "isAliasChar c \<Longrightarrow> \<not> ascii_space c"
  by (auto simp: isAliasChar_def isAlphanumeric_def ascii_space_def)

lemma clean_short_ascii: "clean_short s \<Longrightarrow> is_ascii s"
  by (auto simp: clean_short_def is_ascii_def list_all_iff isAliasChar_ascii)

lemma clean_short_ToLower [simp]: "clean_short s \<Longrightarrow> strings_ToLower s = s"
  using clean_short_ascii [of s]
  by (auto simp: strings_ToLower_ascii clean_short_def list_all_iff isAliasChar_lower intro: map_idI)

lemma clean_short_TrimSpace [simp]: "clean_short s \<Longrightarrow> strings_TrimSpace s = s"
proof -
  assume c: "clean_short s"
  then have "dropWhile ascii_space t = t" if "set t \<subseteq> set s" for t
    using that by (cases t) (auto simp: clean_short_def list_all_iff isAliasChar_not_space)
  then have "dropWhile ascii_space s = s" "dropWhile ascii_space (rev s) = rev s" by auto
  then show ?thesis by (simp add: strings_TrimSpace_ascii clean_short_ascii [OF c])
qed

lemma generated_char_alias: "generated_char c \<Longrightarrow> isAliasChar c"
  by (auto simp: generated_char_def isAliasChar_def isAlphanumeric_def Let_def)

lemma Generate_clean: "clean_short (Generate r)"
proof -
  have "list_all isAliasChar (Generate r)"
    using Generate_shape [of r] by (auto simp: IsGeneratedShape_def list_all_iff generated_char_alias)
  moreover have "length (Generate r) = 12" by (simp add: Generate_def GeneratedLen_def)
  ultimately show ?thesis by (auto simp: clean_short_def)
qed

text \<open>Normalising twice is normalising once, for every string whose second normal form
  is ASCII: the service normalises the alias and \<open>ValidateAlias\<close> normalises it again.\<close>

lemma NormalizeAlias_twice:
  assumes "is_ascii (NormalizeAlias (NormalizeAlias s))"
  shows "NormalizeAlias (NormalizeAlias s) = NormalizeAlias s"
proof -
  let ?u = "strings_TrimSpace s"
  have "strings_TrimSpace (strings_ToLower ?u) = strings_ToLower ?u"
    by (simp add: TrimSpace_id trimmed_ToLower trimmed_TrimSpace)
  then have eq: "NormalizeAlias (NormalizeAlias s) = strings_ToLower (strings_ToLower ?u)"
    by (simp add: NormalizeAlias_def)
  then have "strings_ToLower (strings_ToLower ?u) = strings_ToLower ?u"
    using assms by (intro strings_ToLower_twice) simp
  with eq show ?thesis by (simp add: NormalizeAlias_def)
qed

lemma ValidateAlias_None_clean:
  assumes "ValidateAlias s = None"
  shows "clean_short (NormalizeAlias s) \<and> \<not> IsGeneratedShape (NormalizeAlias s) \<and>
    \<not> IsReserved (NormalizeAlias s)"
  using assms
  by (auto simp: ValidateAlias_def Let_def clean_short_def AliasMinLen_def split: if_splits)

lemma ValidateAlias_normalized:
  assumes "ValidateAlias (NormalizeAlias s) = None"
  shows "clean_short (NormalizeAlias s) \<and> NormalizeAlias (NormalizeAlias s) = NormalizeAlias s"
  using ValidateAlias_None_clean [OF assms] NormalizeAlias_twice [of s] clean_short_ascii by metis


text \<open>An empty segment between hyphens is a hyphen at an edge or two in a row.\<close>

lemma split_on_hd_empty: "hd (split_on d s) = [] \<longleftrightarrow> s = [] \<or> hd s = d"
  using split_on_nonempty by (cases s) (auto split: list.splits)

lemma split_on_tl_empty:
  "[] \<in> set (tl (split_on d s)) \<longleftrightarrow> s \<noteq> [] \<and> (last s = d \<or> strings_Contains s [d, d])"
proof (induction s)
  case (Cons c cs)
  have set_split: "[] \<in> set (split_on d cs) \<longleftrightarrow>
      (cs = [] \<or> hd cs = d) \<or> [] \<in> set (tl (split_on d cs))"
    using split_on_hd_empty [of d cs] split_on_nonempty [of d cs]
    by (cases "split_on d cs") auto
  show ?case
  proof (cases "c = d")
    case True
    then show ?thesis using set_split Cons.IH by (cases cs) (auto simp: HasPrefix_def)
  next
    case False
    then have "tl (split_on d (c # cs)) = tl (split_on d cs)"
      using split_on_nonempty [of d cs] by (simp split: list.splits)
    then show ?thesis using Cons.IH False by (cases cs) (auto simp: HasPrefix_def)
  qed
qed simp

lemma no_empty_segment:
  "[] \<notin> set (split_on d s) \<longleftrightarrow>
   s \<noteq> [] \<and> hd s \<noteq> d \<and> last s \<noteq> d \<and> \<not> strings_Contains s [d, d]"
proof -
  have "[] \<in> set (split_on d s) \<longleftrightarrow> hd (split_on d s) = [] \<or> [] \<in> set (tl (split_on d s))"
    using split_on_nonempty [of d s] by (cases "split_on d s") auto
  then show ?thesis using split_on_hd_empty [of d s] split_on_tl_empty [of d s] by auto
qed

text \<open>A slug: non-empty runs of lower-case letters and digits joined by single hyphens.\<close>

definition is_slug :: "string \<Rightarrow> bool" where
  "is_slug a = list_all (\<lambda>seg. seg \<noteq> [] \<and> list_all isAlphanumeric seg) (split_on (CHR ''-'') a)"

lemma split_on_chars: "(\<Union>seg \<in> set (split_on d s). set seg) = set s - {d}"
proof (induction s)
  case (Cons c cs)
  obtain x xs where x: "split_on d cs = x # xs"
    using split_on_nonempty [of d cs] by (cases "split_on d cs") auto
  show ?case
  proof (cases "c = d")
    case True
    then show ?thesis using Cons.IH by simp
  next
    case False
    then have "(\<Union>seg \<in> set (split_on d (c # cs)). set seg) = insert c (set cs - {d})"
      using Cons.IH x by simp
    then show ?thesis using False by auto
  qed
qed simp

lemma is_slug_iff:
  "is_slug a \<longleftrightarrow> a \<noteq> [] \<and> list_all isAliasChar a \<and> isAlphanumeric (hd a) \<and> isAlphanumeric (last a) \<and>
     \<not> strings_Contains a ''--''"
proof -
  have dash: "\<not> isAlphanumeric (CHR ''-'')" by (simp add: isAlphanumeric_def)
  have "is_slug a \<longleftrightarrow> [] \<notin> set (split_on (CHR ''-'') a) \<and> (\<forall>c \<in> set a - {CHR ''-''}. isAlphanumeric c)"
    unfolding is_slug_def list_all_iff split_on_chars [symmetric] by auto
  also have "\<dots> \<longleftrightarrow> a \<noteq> [] \<and> hd a \<noteq> CHR ''-'' \<and> last a \<noteq> CHR ''-'' \<and> \<not> strings_Contains a ''--'' \<and>
      list_all isAliasChar a"
    unfolding no_empty_segment by (auto simp: list_all_iff isAliasChar_def)
  finally show ?thesis
    using dash by (auto simp: list_all_iff isAliasChar_def dest: bspec [OF _ hd_in_set] bspec [OF _ last_in_set])
qed

subsection \<open>Properties\<close>

text \<open>C32. \<open>ValidateAlias\<close> accepts exactly the slugs of 3 to 64 bytes that are not reserved
  and do not have the shape of a generated code: after trimming and lower-casing, the
  alias is a sequence of non-empty alphanumeric runs joined by single hyphens.\<close>

theorem ValidateAlias_accepts_slugs:
  "ValidateAlias s = None \<longleftrightarrow>
     (let a = NormalizeAlias s in
       3 \<le> length a \<and> length a \<le> 64 \<and> is_slug a \<and> a \<notin> set buildReserved \<and> \<not> IsGeneratedShape a)"
proof -
  have low: "toLowerASCII a = a" if "list_all isAliasChar a" for a
    using that isAliasChar_lower by (induction a) (auto simp: toLowerASCII_def ascii_lower_def)
  show ?thesis
    unfolding ValidateAlias_def Let_def is_slug_iff IsReserved_def AliasMinLen_def AliasMaxLen_def
    using low by (auto split: if_splits)
qed

text \<open>C33. The two kinds of short code never meet: no accepted alias, in any spelling, is a
  code the generator can produce.\<close>

theorem alias_never_generated:
  assumes "ValidateAlias s = None"
  shows "NormalizeAlias s \<noteq> Generate r"
  using ValidateAlias_None_clean [OF assms] Generate_shape [of r] by auto

lemma example_alias: "ValidateAlias '' Spring-Sale '' = None" "NormalizeAlias '' Spring-Sale '' = ''spring-sale''"
  by (simp_all add: ValidateAlias_def NormalizeAlias_def strings_TrimSpace_ascii strings_ToLower_ascii
      ascii_space_def ascii_lower_def isAliasChar_def isAlphanumeric_def IsReserved_def buildReserved_def
      toLowerASCII_def IsGeneratedShape_def generated_char_def shortcode_consts HasPrefix_def Let_def char_of_def bit_0)

theorem alias_never_generated_witness:
  "ValidateAlias '' Spring-Sale '' = None \<and> NormalizeAlias '' Spring-Sale '' \<noteq> Generate (\<lambda>_. 0)"
  using alias_never_generated [OF example_alias(1), of "\<lambda>_. 0"] example_alias(1) by blast

text \<open>The service stores the alias normalised once while \<open>ValidateAlias\<close> checks it
  normalised twice; for every accepted alias the two agree, so what is stored is a
  lower-case ASCII slug that no later lower-casing or trimming changes.\<close>

lemma stored_alias_is_normal:
  assumes "ValidateAlias (NormalizeAlias s) = None"
  shows "list_all isAliasChar (NormalizeAlias s) \<and> strings_ToLower (NormalizeAlias s) = NormalizeAlias s \<and>
    strings_TrimSpace (NormalizeAlias s) = NormalizeAlias s"
  using ValidateAlias_normalized [OF assms] by (simp add: clean_short_def)

end
