(* ===== verification/Store_Iface.thy ===== *)
theory Store_Iface
  imports Shortcode
begin

text \<open>
  The persistence contract of \<^verbatim>\<open>src/internal/store\<close>: the sentinel errors, and the Go
  interface \<open>store.Store\<close> as a record of functions over a state type \<open>'s\<close>, so that the
  clients (the codes service, the analytics pipeline, authentication, export) take the
  store as an argument the way the Go code holds an interface value. An operation that
  writes returns the new state on success; on an error the state is the old one.
  A database error that is none of the sentinels is \<open>StoreErr\<close> with its text. A bulk walker
  (\<open>ForEachUser\<close> and the like) is the list of the rows it hands to its callback.
\<close>

datatype store_error = ErrNotFound | ErrConflict | ErrAliasTaken | ErrClientRefTaken | StoreErr string

record 's store_ops =
  so_CreateUser :: "call_env \<Rightarrow> user \<Rightarrow> 's \<Rightarrow> store_error + 's"
  so_GetUserByID :: "string \<Rightarrow> 's \<Rightarrow> store_error + user"
  so_GetUserByEmail :: "string \<Rightarrow> 's \<Rightarrow> store_error + user"
  so_BumpTokenVersion :: "string \<Rightarrow> 's \<Rightarrow> store_error + (int \<times> 's)"
  so_CountUsers :: "'s \<Rightarrow> store_error + int"
  so_CreateToken :: "call_env \<Rightarrow> api_token \<Rightarrow> 's \<Rightarrow> store_error + 's"
  so_GetTokenByID :: "string \<Rightarrow> 's \<Rightarrow> store_error + api_token"
  so_ListTokens :: "string \<Rightarrow> 's \<Rightarrow> store_error + api_token list"
  so_RevokeToken :: "call_env \<Rightarrow> string \<Rightarrow> string \<Rightarrow> 's \<Rightarrow> store_error + 's"
  so_TouchTokenLastUsed :: "string \<Rightarrow> gotime \<Rightarrow> 's \<Rightarrow> store_error + 's"
  so_CreateCodes :: "call_env \<Rightarrow> code list \<Rightarrow> 's \<Rightarrow> store_error + (code list \<times> 's)"
  so_GetCodeByShortCode :: "string \<Rightarrow> 's \<Rightarrow> store_error + code"
  so_GetCodeByID :: "string \<Rightarrow> string \<Rightarrow> 's \<Rightarrow> store_error + code"
  so_GetCodeByClientRef :: "string \<Rightarrow> string \<Rightarrow> 's \<Rightarrow> store_error + code"
  so_ListCodes :: "code_filter \<Rightarrow> 's \<Rightarrow> store_error + (code list \<times> string)"
  so_UpdateDestination :: "call_env \<Rightarrow> string \<Rightarrow> string \<Rightarrow> string \<Rightarrow> int \<Rightarrow> 's \<Rightarrow> store_error + 's"
  so_SetCodeState :: "call_env \<Rightarrow> string \<Rightarrow> string \<Rightarrow> string \<Rightarrow> 's \<Rightarrow> store_error + 's"
  so_DeleteCode :: "call_env \<Rightarrow> string \<Rightarrow> string \<Rightarrow> 's \<Rightarrow> store_error + 's"
  so_IsAliasAvailable :: "string \<Rightarrow> 's \<Rightarrow> store_error + bool"
  so_ReleaseAlias :: "call_env \<Rightarrow> string \<Rightarrow> 's \<Rightarrow> store_error + 's"
  so_InsertScanBatch :: "scan_batch \<Rightarrow> 's \<Rightarrow> store_error + 's"
  so_QueryAnalytics :: "analytics_query \<Rightarrow> 's \<Rightarrow> store_error + analytics_result"
  so_PruneScanEvents :: "gotime \<Rightarrow> int \<Rightarrow> 's \<Rightarrow> store_error + (int \<times> 's)"
  so_ForEachUser :: "'s \<Rightarrow> store_error + user list"
  so_ForEachCode :: "'s \<Rightarrow> store_error + code list"
  so_ForEachRollup :: "'s \<Rightarrow> store_error + rollup_delta list"
  so_ForEachReservation :: "'s \<Rightarrow> store_error + alias_reservation list"

text \<open>\<open>CreateCode\<close> is \<open>CreateCodes\<close> on one code, in every driver.\<close>

definition so_CreateCode :: "'s store_ops \<Rightarrow> call_env \<Rightarrow> code \<Rightarrow> 's \<Rightarrow> store_error + (code \<times> 's)" where
  "so_CreateCode st e c s = (case so_CreateCodes st e [c] s of
     Inl err \<Rightarrow> Inl err
   | Inr (cs, s') \<Rightarrow> (case cs of [] \<Rightarrow> Inr (c, s') | c' # _ \<Rightarrow> Inr (c', s')))"

text \<open>Each row of a batch draws its own random bytes: row \<open>i\<close> reads the random stream from
  position \<open>16 i\<close> on.\<close>

definition row_env :: "call_env \<Rightarrow> nat \<Rightarrow> call_env" where
  "row_env e i = e\<lparr>rnd := (\<lambda>k. rnd e (16 * i + k))\<rparr>"

end
