(* ===== verification/Http.thy ===== *)
theory Http
  imports Go_Strings Complex_Main
begin

text \<open>
  What the handlers share, \<^verbatim>\<open>src/internal/httpapi/errors.go\<close> and the CSRF check of
  \<^verbatim>\<open>src/internal/httpapi/middleware/csrf.go\<close>: requests and responses, the error codes with their
  HTTP status, and the error envelope. Header names are in canonical form.
\<close>

subsection \<open>Requests and responses\<close>

text \<open>JSON values; a number that is not an integer is the rational it denotes, and a time is kept as
  such where the Go value is a \<open>time.Time\<close>.\<close>

datatype json = JNull | JBool bool | JInt int | JFrac rat | JStr string | JTime gotime | JList "json list"
  | JObj "(string \<times> json) list"

datatype body = NoBody | RawBody string | JsonBody json | LandingPage

type_synonym header = "(string \<times> string) list"

record request =
  rq_Method :: string
  rq_Path :: string
  rq_Header :: header
  rq_PathValue :: "(string \<times> string) list"
  rq_Query :: "(string \<times> string) list"
  rq_Cookies :: "(string \<times> string) list"
  rq_RemoteAddr :: string
  rq_Body :: string

record cookie =
  ck_Name :: string
  ck_Value :: string
  ck_Path :: string
  ck_HttpOnly :: bool
  ck_Secure :: bool
  ck_SameSiteStrict :: bool
  ck_MaxAge :: int
  ck_Expires :: gotime

record response =
  rs_Status :: nat
  rs_Header :: header
  rs_Cookies :: "cookie list"
  rs_Body :: body

definition header_Get :: "header \<Rightarrow> string \<Rightarrow> string" where
  "header_Get h k = (case map_of h k of None \<Rightarrow> '''' | Some v \<Rightarrow> v)"

definition header_Set :: "string \<Rightarrow> string \<Rightarrow> header \<Rightarrow> header" where
  "header_Set k v h = (k, v) # filter (\<lambda>x. fst x \<noteq> k) h"

lemma header_Get_Set [simp]: "header_Get (header_Set k v h) k' = (if k' = k then v else header_Get h k')"
proof -
  have "map_of (filter (\<lambda>x. fst x \<noteq> k) h) k' = (if k' = k then None else map_of h k')" by (induction h) auto
  then show ?thesis by (simp add: header_Get_def header_Set_def)
qed

lemma header_Get_Nil [simp]: "header_Get [] k = ''''"
  by (simp add: header_Get_def)

text \<open>\<open>Header.Values\<close>: every value of a header, in order; the name is put in canonical form.\<close>

fun canonical_from :: "bool \<Rightarrow> string \<Rightarrow> string" where
  "canonical_from up [] = []"
| "canonical_from up (c # cs) =
    (let n = byte c;
         c' = (if up \<and> 97 \<le> n \<and> n \<le> 122 then char_of (n - 32) else if \<not> up \<and> 65 \<le> n \<and> n \<le> 90 then char_of (n + 32) else c)
     in c' # canonical_from (c = CHR ''-'') cs)"

definition token_char :: "char \<Rightarrow> bool" where
  "token_char c = (48 \<le> byte c \<and> byte c \<le> 57 \<or> 65 \<le> byte c \<and> byte c \<le> 90 \<or> 97 \<le> byte c \<and> byte c \<le> 122 \<or>
     c \<in> set ''!#$%&*+-.^_`|~'' \<or> c = CHR 0x27)"

definition CanonicalHeaderKey :: "string \<Rightarrow> string" where
  "CanonicalHeaderKey k = (if k \<noteq> [] \<and> list_all token_char k then canonical_from True k else k)"

definition header_Values :: "header \<Rightarrow> string \<Rightarrow> string list" where
  "header_Values h k = map snd (filter (\<lambda>x. fst x = CanonicalHeaderKey k) h)"

definition PathValue :: "request \<Rightarrow> string \<Rightarrow> string" where
  "PathValue r k = header_Get (rq_PathValue r) k"

subsection \<open>Errors\<close>

datatype ErrorCode = CodeInvalidRequest | CodeContentTooLarge | CodeUnsupportedScheme | CodeSelfReferentialDestination
  | CodeAliasInvalid | CodeAliasReserved | CodeAliasTaken | CodeContrastTooLow | CodeLogoTooLarge | CodeDimensionsExceeded
  | CodeRenderTimeout | CodeNotFound | CodeCodeDisabled | CodeUnauthorized | CodeForbidden | CodeTokenRevoked | CodeConflict
  | CodeDirectCodeImmutable | CodeNotTracked | CodeBatchTooLarge | CodeClientRefConflict | CodeRateLimited
  | CodeScanURLNotConfigured | CodeInternal | CodeNotImplemented

fun code_text :: "ErrorCode \<Rightarrow> string" where
  "code_text CodeInvalidRequest = ''invalid_request''"
| "code_text CodeContentTooLarge = ''content_too_large''"
| "code_text CodeUnsupportedScheme = ''unsupported_scheme''"
| "code_text CodeSelfReferentialDestination = ''self_referential_destination''"
| "code_text CodeAliasInvalid = ''alias_invalid''"
| "code_text CodeAliasReserved = ''alias_reserved''"
| "code_text CodeAliasTaken = ''alias_taken''"
| "code_text CodeContrastTooLow = ''contrast_too_low''"
| "code_text CodeLogoTooLarge = ''logo_too_large''"
| "code_text CodeDimensionsExceeded = ''dimensions_exceeded''"
| "code_text CodeRenderTimeout = ''render_timeout''"
| "code_text CodeNotFound = ''not_found''"
| "code_text CodeCodeDisabled = ''code_disabled''"
| "code_text CodeUnauthorized = ''unauthorized''"
| "code_text CodeForbidden = ''forbidden''"
| "code_text CodeTokenRevoked = ''token_revoked''"
| "code_text CodeConflict = ''conflict''"
| "code_text CodeDirectCodeImmutable = ''direct_code_immutable''"
| "code_text CodeNotTracked = ''not_tracked''"
| "code_text CodeBatchTooLarge = ''batch_too_large''"
| "code_text CodeClientRefConflict = ''client_ref_conflict''"
| "code_text CodeRateLimited = ''rate_limited''"
| "code_text CodeScanURLNotConfigured = ''scan_url_not_configured''"
| "code_text CodeInternal = ''internal''"
| "code_text CodeNotImplemented = ''not_implemented''"

definition Status :: "ErrorCode \<Rightarrow> nat" where
  "Status c =
    (if c \<in> {CodeContentTooLarge, CodeBatchTooLarge} then 413
     else if c \<in> {CodeAliasReserved, CodeAliasTaken, CodeConflict, CodeDirectCodeImmutable, CodeClientRefConflict} then 409
     else if c = CodeNotFound then 404
     else if c = CodeCodeDisabled then 410
     else if c \<in> {CodeUnauthorized, CodeTokenRevoked} then 401
     else if c = CodeForbidden then 403
     else if c = CodeRateLimited then 429
     else if c = CodeScanURLNotConfigured then 503
     else if c = CodeInternal then 500
     else if c = CodeNotImplemented then 501
     else 400)"

definition WriteError :: "header \<Rightarrow> ErrorCode \<Rightarrow> string \<Rightarrow> (string \<times> json) list \<Rightarrow> response" where
  "WriteError h code msg details =
    \<lparr>rs_Status = Status code,
     rs_Header = header_Set ''Cache-Control'' ''no-store'' (header_Set ''Content-Type'' ''application/json; charset=utf-8'' h),
     rs_Cookies = [], rs_Body = JsonBody (JObj [(''error'', JObj ([(''code'', JStr (code_text code)), (''message'', JStr msg)] @
       (if details = [] then [] else [(''details'', JObj details)])))])\<rparr>"

definition WriteJSON :: "header \<Rightarrow> nat \<Rightarrow> json \<Rightarrow> response" where
  "WriteJSON h status v =
    \<lparr>rs_Status = status, rs_Header = header_Set ''Content-Type'' ''application/json; charset=utf-8'' h,
     rs_Cookies = [], rs_Body = JsonBody v\<rparr>"

definition Internal :: "header \<Rightarrow> response" where
  "Internal h = WriteError h CodeInternal ''An unexpected error occurred.'' []"

text \<open>The error a response carries, as a client reads it from the envelope.\<close>

definition error_of :: "response \<Rightarrow> string option" where
  "error_of r = (case rs_Body r of
     JsonBody (JObj ((k, JObj ((k', JStr c) # _)) # _)) \<Rightarrow> if k = ''error'' \<and> k' = ''code'' then Some c else None
   | _ \<Rightarrow> None)"

lemma error_of_WriteError [simp]: "error_of (WriteError h c m d) = Some (code_text c)" "rs_Status (WriteError h c m d) = Status c"
  by (simp_all add: error_of_def WriteError_def)

lemma code_text_inj: "code_text c = code_text d \<Longrightarrow> c = d"
  by (cases c; cases d) simp_all

subsection \<open>The CSRF check\<close>

definition CSRFHeader :: string where "CSRFHeader = ''X-Qurator-Requested-With''"

definition CSRF :: "(request \<Rightarrow> string) \<Rightarrow> (request \<Rightarrow> 'w \<Rightarrow> response \<times> 'w) \<Rightarrow> request \<Rightarrow> 'w \<Rightarrow> response \<times> 'w" where
  "CSRF method next r w =
    (if rq_Method r \<in> {''GET'', ''HEAD'', ''OPTIONS''} then next r w
     else if method r = ''cookie'' \<and> header_Get (rq_Header r) CSRFHeader = ''''
     then (WriteError [] CodeForbidden (''Cookie-authenticated requests must include the '' @ CSRFHeader @ '' header.'') [], w)
     else next r w)"

subsection \<open>Decimal numbers\<close>

text \<open>\<open>strconv.FormatInt\<close> in base 10.\<close>

fun digits :: "nat \<Rightarrow> string" where
  "digits n = (if n < 10 then [char_of (48 + n)] else digits (n div 10) @ [char_of (48 + n mod 10)])"

declare digits.simps [simp del]

definition FormatInt :: "int \<Rightarrow> string" where
  "FormatInt i = (if i < 0 then CHR ''-'' # digits (nat (- i)) else digits (nat i))"


end
