(* ===== verification/Encoding.thy ===== *)
theory Encoding
  imports Http
begin

text \<open>
  The byte encodings of Go's standard library the program uses: unpadded base64 with the URL
  and the standard alphabet, unpadded base32, and the decimal fields \<open>fmt.Sscanf\<close> reads.
\<close>

subsection \<open>Base64\<close>

definition base64url :: string where
  "base64url = ''ABCDEFGHIJKLMNOPQRSTUVWXYZabcdefghijklmnopqrstuvwxyz0123456789-_''"
definition base64std :: string where
  "base64std = ''ABCDEFGHIJKLMNOPQRSTUVWXYZabcdefghijklmnopqrstuvwxyz0123456789+/''"

text \<open>Three bytes become four digits of six bits; one or two left-over bytes become two or
  three digits, their last bits zero.\<close>

fun sextets :: "nat list \<Rightarrow> nat list" where
  "sextets (a # b # c # r) = a div 4 # (a mod 4 * 16 + b div 16) # (b mod 16 * 4 + c div 64) # c mod 64 # sextets r"
| "sextets [a, b] = [a div 4, a mod 4 * 16 + b div 16, b mod 16 * 4]"
| "sextets [a] = [a div 4, a mod 4 * 16]"
| "sextets [] = []"

text \<open>The reverse direction: left-over bits are ignored, a single left-over digit is an error.\<close>

fun octets :: "nat list \<Rightarrow> nat list option" where
  "octets (p # q # r # s # t) = map_option (\<lambda>bs. (p * 4 + q div 16) # (q mod 16 * 16 + r div 4) # (r mod 4 * 64 + s) # bs) (octets t)"
| "octets [p, q, r] = Some [p * 4 + q div 16, q mod 16 * 16 + r div 4]"
| "octets [p, q] = Some [p * 4 + q div 16]"
| "octets [p] = None"
| "octets [] = Some []"

definition base64_EncodeToString :: "string \<Rightarrow> bytes \<Rightarrow> string" where
  "base64_EncodeToString alphabet bs = map ((!) alphabet) (sextets (map byte bs))"

text \<open>Line ends are skipped, any other character outside the alphabet is an error.\<close>

definition not_newline :: "char \<Rightarrow> bool" where "not_newline c = (c \<noteq> CHR 0x0A \<and> c \<noteq> CHR 0x0D)"

definition base64_DecodeString :: "string \<Rightarrow> string \<Rightarrow> bytes option" where
  "base64_DecodeString alphabet s =
    (let cs = filter not_newline s in
     if list_all (\<lambda>c. c \<in> set alphabet) cs
     then map_option (map char_of) (octets (map (\<lambda>c. the (IndexByte alphabet c)) cs))
     else None)"

subsection \<open>Base32\<close>

definition base32std :: string where "base32std = ''ABCDEFGHIJKLMNOPQRSTUVWXYZ234567''"

text \<open>Digits of five bits for whole groups of five bytes.\<close>

fun quintets :: "nat list \<Rightarrow> nat list" where
  "quintets (a # b # c # d # e # r) =
     a div 8 # (a mod 8 * 4 + b div 64) # (b div 2 mod 32) # (b mod 2 * 16 + c div 16) # (c mod 16 * 2 + d div 128) #
     (d div 4 mod 32) # (d mod 4 * 8 + e div 32) # (e mod 32) # quintets r"
| "quintets _ = []"

definition base32_EncodeToString :: "bytes \<Rightarrow> string" where
  "base32_EncodeToString bs = map ((!) base32std) (quintets (map byte bs))"

subsection \<open>Decimal fields\<close>

definition decimal :: "string \<Rightarrow> nat" where
  "decimal s = foldl (\<lambda>n c. 10 * n + (byte c - 48)) 0 s"

text \<open>\<open>fmt.Sscanf\<close>: a \<open>%d\<close> skips blanks other than line ends, which are an error, takes the
  longest run of digits and fails when the value does not fit; a signed \<open>%d\<close> accepts a sign first;
  a literal of the format must follow exactly, and input after the last verb is not looked at.\<close>

definition scan_spaces :: "string list" where
  "scan_spaces = filter (\<lambda>w. w \<noteq> [CHR 0x0A]) space_encs"

definition skip_space :: "string \<Rightarrow> string option" where
  "skip_space s = (case trim_left scan_spaces s of [] \<Rightarrow> Some [] | c # cs \<Rightarrow> if c = CHR 0x0A then None else Some (c # cs))"

definition scan_number :: "string \<Rightarrow> (nat \<times> string) option" where
  "scan_number s = (let ds = takeWhile is_digit s in
     if ds = [] then None else Some (decimal ds, dropWhile is_digit s))"

definition scan_uint :: "nat \<Rightarrow> string \<Rightarrow> (nat \<times> string) option" where
  "scan_uint w s = (case Option.bind (skip_space s) scan_number of
     None \<Rightarrow> None | Some (n, rest) \<Rightarrow> if n < 2 ^ w then Some (n, rest) else None)"

definition scan_int :: "string \<Rightarrow> (int \<times> string) option" where
  "scan_int s = (case skip_space s of
     None \<Rightarrow> None
   | Some s \<Rightarrow>
       (let neg = HasPrefix s ''-''; s = (if neg \<or> HasPrefix s ''+'' then drop 1 s else s) in
        case scan_number s of
          None \<Rightarrow> None
        | Some (n, rest) \<Rightarrow>
            let i = (if neg then - int n else int n) in
            if - (2 ^ 63) \<le> i \<and> i < 2 ^ 63 then Some (i, rest) else None))"

definition scan_literal :: "string \<Rightarrow> string \<Rightarrow> string option" where
  "scan_literal lit s = (if HasPrefix s lit then Some (drop (length lit) s) else None)"

subsection \<open>Round trips\<close>

lemma sextets_bound: "list_all (\<lambda>b. b < 256) bs \<Longrightarrow> list_all (\<lambda>d. d < 64) (sextets bs)"
proof (induction bs rule: sextets.induct)
  case (1 a b c r)
  then have "a div 4 < 64" "a mod 4 * 16 + b div 16 < 64" "b mod 16 * 4 + c div 64 < 64" "c mod 64 < 64" by auto
  with 1 show ?case by simp
qed auto

lemma octets_sextets: "list_all (\<lambda>b. b < 256) bs \<Longrightarrow> octets (sextets bs) = Some bs"
proof (induction bs rule: sextets.induct)
  case (1 a b c r)
  have "a div 4 * 4 + (a mod 4 * 16 + b div 16) div 16 = a" "(a mod 4 * 16 + b div 16) mod 16 * 16 + (b mod 16 * 4 + c div 64) div 4 = b"
    "(b mod 16 * 4 + c div 64) mod 4 * 64 + c mod 64 = c"
    using 1 by auto
  with 1 show ?case by simp
qed auto

lemma length_sextets: "length (sextets bs) = (4 * length bs + 2) div 3"
  by (induction bs rule: sextets.induct) auto

definition is_alphabet :: "string \<Rightarrow> bool" where
  "is_alphabet al = (length al = 64 \<and> distinct al \<and> list_all not_newline al)"

lemma base64_alphabets [simp]: "is_alphabet base64url" "is_alphabet base64std"
  by code_simp+

lemma IndexByte_nth: "distinct al \<Longrightarrow> i < length al \<Longrightarrow> IndexByte al (al ! i) = Some i"
proof (induction al arbitrary: i)
  case (Cons a al)
  then show ?case by (cases i) (auto simp: nth_mem)
qed simp

lemma bytes_octets: "list_all (\<lambda>b. b < 256) (map byte bs)"
  by (simp add: list_all_iff)

lemma alphabet_digit:
  assumes "is_alphabet al" "d < 64"
  shows "al ! d \<in> set al" "not_newline (al ! d)" "IndexByte al (al ! d) = Some d"
proof -
  show m: "al ! d \<in> set al" using assms by (simp add: is_alphabet_def)
  then show "not_newline (al ! d)" using assms by (simp only: is_alphabet_def list_all_iff)
  show "IndexByte al (al ! d) = Some d" using assms by (simp add: is_alphabet_def IndexByte_nth)
qed

lemma base64_roundtrip:
  assumes "is_alphabet al"
  shows "base64_DecodeString al (base64_EncodeToString al bs) = Some bs"
proof -
  let ?ds = "sextets (map byte bs)"
  have b: "d < 64" if "d \<in> set ?ds" for d
    using sextets_bound [OF bytes_octets [of bs]] that by (simp only: list_all_iff)
  have mem: "list_all (\<lambda>c. c \<in> set al) (map ((!) al) ?ds)"
    using alphabet_digit(1) [OF assms b] by (simp add: list_all_iff)
  have "filter not_newline (map ((!) al) ?ds) = map ((!) al) ?ds"
    using alphabet_digit(2) [OF assms b] by (intro filter_True) simp
  moreover have "map (\<lambda>c. the (IndexByte al c)) (map ((!) al) ?ds) = ?ds"
    using alphabet_digit(3) [OF assms b] by (simp add: map_idI)
  moreover have "map char_of (map byte bs) = bs" by (simp add: map_idI)
  ultimately show ?thesis
    using mem octets_sextets [OF bytes_octets [of bs]]
    by (simp only: base64_DecodeString_def base64_EncodeToString_def Let_def if_True option.map)
qed

lemma base64_chars:
  assumes "is_alphabet al" "c \<in> set (base64_EncodeToString al bs)"
  shows "c \<in> set al"
proof -
  obtain d where d: "d \<in> set (sextets (map byte bs))" "c = al ! d" using assms(2) by (auto simp: base64_EncodeToString_def)
  then have "d < 64" using sextets_bound [OF bytes_octets [of bs]] by (simp only: list_all_iff)
  then show ?thesis using alphabet_digit(1) [OF assms(1)] d by simp
qed

lemma base64_length [simp]: "length (base64_EncodeToString al bs) = (4 * length bs + 2) div 3"
  by (simp add: base64_EncodeToString_def length_sextets)

lemma digits_all: "list_all is_digit (digits n)"
proof (induction n rule: digits.induct)
  case (1 n)
  have "is_digit (char_of (48 + d))" if "d < 10" for d :: nat using that by (simp add: is_digit_def byte_char_of)
  with 1 show ?case by (subst digits.simps) auto
qed

lemma digits_nonempty [simp]: "digits n \<noteq> []"
  by (subst digits.simps) simp

lemma decimal_digits [simp]: "decimal (digits n) = n"
proof (induction n rule: digits.induct)
  case (1 n)
  then show ?case by (subst digits.simps) (auto simp: decimal_def byte_char_of)
qed

lemma scan_number_digits:
  assumes "rest = [] \<or> \<not> is_digit (hd rest)"
  shows "scan_number (digits n @ rest) = Some (n, rest)"
proof -
  have "takeWhile is_digit (digits n @ rest) = digits n" "dropWhile is_digit (digits n @ rest) = rest"
    using assms digits_all [of n] by (auto simp: list_all_iff takeWhile_append2 dropWhile_append2) (cases rest; simp)+
  then show ?thesis by (simp add: scan_number_def)
qed

lemma space_encs_hd: "w \<in> set space_encs \<Longrightarrow> w \<noteq> [] \<and> (byte (hd w) < 48 \<or> 128 \<le> byte (hd w))"
  unfolding space_encs_eq by auto

lemma skip_space_digits: "skip_space (digits n @ rest) = Some (digits n @ rest)"
proof -
  obtain c cs where c: "digits n = c # cs" "is_digit c" using digits_all [of n] by (cases "digits n") auto
  have "no_space_prefix scan_spaces (digits n @ rest)"
    unfolding no_space_prefix_def
  proof (intro ballI impI notI)
    fix w assume w: "w \<in> set scan_spaces" "HasPrefix (digits n @ rest) w"
    then have "w \<noteq> [] \<and> (byte (hd w) < 48 \<or> 128 \<le> byte (hd w))" using space_encs_hd by (simp add: scan_spaces_def)
    moreover from this have "hd w = c" using w(2) c(1) by (auto simp: HasPrefix_append Cons_eq_append_conv)
    ultimately show False using c(2) by (auto simp: is_digit_def)
  qed
  then show ?thesis using c by (auto simp: skip_space_def trim_left_id is_digit_def)
qed

lemma scan_uint_digits:
  "n < 2 ^ w \<Longrightarrow> rest = [] \<or> \<not> is_digit (hd rest) \<Longrightarrow> scan_uint w (digits n @ rest) = Some (n, rest)"
  by (simp add: scan_uint_def skip_space_digits scan_number_digits)

lemma scan_int_digits:
  assumes "n < 2 ^ 63" "rest = [] \<or> \<not> is_digit (hd rest)"
  shows "scan_int (digits n @ rest) = Some (int n, rest)"
proof -
  obtain c cs where c: "digits n = c # cs" "is_digit c" using digits_all [of n] by (cases "digits n") auto
  then have "\<not> HasPrefix (digits n @ rest) ''-''" "\<not> HasPrefix (digits n @ rest) ''+''"
    by (auto simp: HasPrefix_def is_digit_def)
  then show ?thesis using assms by (simp add: scan_int_def skip_space_digits scan_number_digits)
qed

lemma scan_literal_append [simp]: "scan_literal lit (lit @ rest) = Some rest"
  by (simp add: scan_literal_def HasPrefix_append)

lemma base64_nonempty: "bs \<noteq> [] \<Longrightarrow> base64_EncodeToString al bs \<noteq> []"
proof
  assume "bs \<noteq> []" "base64_EncodeToString al bs = []"
  then have "(4 * length bs + 2) div 3 = 0" "0 < length bs" using base64_length [of al bs] by simp_all
  then show False by presburger
qed

end
