(* ===== verification/Time_Format.thy ===== *)
theory Time_Format
  imports Encoding "HOL-Library.Product_Lexorder" "HOL-Library.List_Lexorder" "HOL-Library.Char_ord" "HOL-Library.Monad_Syntax"
begin

text \<open>
  Times as text: the civil calendar of Go's \<open>time\<close> package, \<open>Time.Format\<close> with the layout
  \<open>2006-01-02T15:04:05.000000Z07:00\<close> of the SQLite driver and with \<open>time.RFC3339Nano\<close>, and
  \<open>time.Parse\<close> with \<open>time.RFC3339\<close> or \<open>time.RFC3339Nano\<close>, which accept the same texts. The driver
  compares its timestamp columns as text; for the years 0 to 9999 that is the order of the times.
\<close>

subsection \<open>The calendar\<close>

definition is_leap :: "int \<Rightarrow> bool" where
  "is_leap y = (y mod 4 = 0 \<and> (y mod 100 \<noteq> 0 \<or> y mod 400 = 0))"

definition daysIn :: "int \<Rightarrow> int \<Rightarrow> int" where
  "daysIn m y = (if m = 2 then (if is_leap y then 29 else 28)
     else if m \<in> {4, 6, 9, 11} then 30 else 31)"

text \<open>Days since 1 January of year 1.\<close>

definition days_before_year :: "int \<Rightarrow> int" where
  "days_before_year y = 365 * (y - 1) + (y - 1) div 4 - (y - 1) div 100 + (y - 1) div 400"

definition days_before_month :: "int \<Rightarrow> int \<Rightarrow> int" where
  "days_before_month m y = sum_list (map (\<lambda>k. daysIn k y) [1..m - 1])"

definition days_of_date :: "int \<times> int \<times> int \<Rightarrow> int" where
  "days_of_date = (\<lambda>(y, m, d). days_before_year y + days_before_month m y + (d - 1))"

definition valid_date :: "int \<times> int \<times> int \<Rightarrow> bool" where
  "valid_date = (\<lambda>(y, m, d). 1 \<le> m \<and> m \<le> 12 \<and> 1 \<le> d \<and> d \<le> daysIn m y)"

text \<open>The year of a day by cycles of 400, 100, 4 years and one year; the last cycle of a
  longer one takes the leap day.\<close>

definition year_of_day :: "int \<Rightarrow> int" where
  "year_of_day n =
    (let a = n div 146097; r = n mod 146097;
         b = min 3 (r div 36524); r = r - 36524 * b;
         c = r div 1461; r = r mod 1461;
         e = min 3 (r div 365)
     in 400 * a + 100 * b + 4 * c + e + 1)"

fun month_of_yday :: "int \<Rightarrow> int \<Rightarrow> int list \<Rightarrow> int \<times> int" where
  "month_of_yday y r (m # ms) = (if r < daysIn m y \<or> ms = [] then (m, r + 1) else month_of_yday y (r - daysIn m y) ms)"
| "month_of_yday y r [] = (12, r + 1)"

definition date_of_day :: "int \<Rightarrow> int \<times> int \<times> int" where
  "date_of_day n = (let y = year_of_day n in (y, month_of_yday y (n - days_before_year y) [1..12]))"

lemma days_before_year_cycles:
  assumes "0 \<le> b" "b \<le> 3" "0 \<le> c" "c \<le> 24" "0 \<le> e" "e \<le> 3"
  shows "days_before_year (400 * a + 100 * b + 4 * c + e + 1) = 146097 * a + 36524 * b + 1461 * c + 365 * e"
proof -
  let ?y = "400 * a + 100 * b + 4 * c + e"
  have "?y div 4 = 100 * a + 25 * b + c" by (rule int_div_pos_eq [where r = e]) (use assms in auto)
  moreover have "?y div 100 = 4 * a + b" by (rule int_div_pos_eq [where r = "4 * c + e"]) (use assms in auto)
  moreover have "?y div 400 = a" by (rule int_div_pos_eq [where r = "100 * b + 4 * c + e"]) (use assms in auto)
  ultimately show ?thesis by (simp add: days_before_year_def)
qed

lemma div_pred:
  assumes "0 < (k :: int)"
  shows "y div k = (y - 1) div k + (if y mod k = 0 then 1 else 0)"
proof (cases "y mod k = 0")
  case True
  have "(y - 1) div k = y div k - 1"
    by (rule int_div_pos_eq [where r = "k - 1"]) (use assms True mult_div_mod_eq [of k y] in \<open>auto simp: algebra_simps\<close>)
  with True show ?thesis by simp
next
  case False
  then have "0 < y mod k" "y mod k < k" using assms pos_mod_bound [of k y] pos_mod_sign [of k y] by linarith+
  then have "(y - 1) div k = y div k"
    by (intro int_div_pos_eq [where r = "y mod k - 1"]) (use mult_div_mod_eq [of k y] in auto)
  with False show ?thesis by simp
qed

lemma leap_count:
  "a' = a + (if P then 1 else 0) \<Longrightarrow> b' = b + (if Q then 1 else 0) \<Longrightarrow> c' = c + (if R then 1 else 0) \<Longrightarrow>
   (R \<Longrightarrow> Q) \<Longrightarrow> (Q \<Longrightarrow> P) \<Longrightarrow>
   365 * y + a' - b' + c' = 365 * (y - 1) + a - b + c + (if P \<and> (\<not> Q \<or> R) then 366 else 365 :: int)"
  by (cases P; cases Q; cases R) simp_all

lemma days_before_year_Suc: "days_before_year (y + 1) = days_before_year y + (if is_leap y then 366 else 365)"
proof -
  have "y mod 400 = 0 \<Longrightarrow> y mod 100 = 0" "y mod 100 = 0 \<Longrightarrow> y mod 4 = 0"
    using dvd_trans [of 100 400 y] dvd_trans [of 4 100 y] by (simp_all add: dvd_eq_mod_eq_0)
  then have "365 * y + y div 4 - y div 100 + y div 400 =
      365 * (y - 1) + (y - 1) div 4 - (y - 1) div 100 + (y - 1) div 400 + (if is_leap y then 366 else 365)"
    unfolding is_leap_def by (intro leap_count div_pred) simp_all
  then show ?thesis by (simp only: days_before_year_def add_diff_cancel_right')
qed

lemma year_of_day_bounds:
  "days_before_year (year_of_day n) \<le> n \<and> n < days_before_year (year_of_day n + 1)"
proof -
  define a r where "a = n div 146097" and "r = n mod 146097"
  define b where "b = min 3 (r div 36524)"
  define r2 where "r2 = r - 36524 * b"
  define c r3 where "c = r2 div 1461" and "r3 = r2 mod 1461"
  define e where "e = min 3 (r3 div 365)"
  have r: "0 \<le> r" "r < 146097" "n = 146097 * a + r" by (simp_all add: a_def r_def)
  have b: "0 \<le> b" "b \<le> 3" "0 \<le> r2" "r2 \<le> 36524" "b < 3 \<Longrightarrow> r2 < 36524"
    using r unfolding b_def r2_def by (auto simp: min_def)
  have c: "0 \<le> c" "c \<le> 24" "0 \<le> r3" "r3 < 1461" "r2 = 1461 * c + r3"
    using b unfolding c_def r3_def by auto
  have e: "0 \<le> e" "e \<le> 3" "365 * e \<le> r3" "e < 3 \<Longrightarrow> r3 < 365 * e + 365"
    using c unfolding e_def by (auto simp: min_def)
  have y: "year_of_day n = 400 * a + 100 * b + 4 * c + e + 1"
    by (simp only: year_of_day_def Let_def a_def r_def b_def r2_def c_def r3_def e_def)
  have lo: "days_before_year (year_of_day n) = 146097 * a + 36524 * b + 1461 * c + 365 * e"
    unfolding y using b c e by (intro days_before_year_cycles) auto
  consider "e < 3" | "e = 3" "c < 24" | "e = 3" "c = 24" "b < 3" | "e = 3" "c = 24" "b = 3"
    using b c e by linarith
  then have "n < days_before_year (year_of_day n + 1)"
  proof cases
    case 1
    have "days_before_year (400 * a + 100 * b + 4 * c + (e + 1) + 1) = 146097 * a + 36524 * b + 1461 * c + 365 * (e + 1)"
      using b c e 1 by (intro days_before_year_cycles) auto
    moreover have "year_of_day n + 1 = 400 * a + 100 * b + 4 * c + (e + 1) + 1" using y by simp
    moreover have "n = 146097 * a + 36524 * b + (1461 * c + r3)" using r c b by (simp add: r2_def)
    ultimately show ?thesis using e(4) 1 by simp
  next
    case 2
    have "days_before_year (400 * a + 100 * b + 4 * (c + 1) + 0 + 1) = 146097 * a + 36524 * b + 1461 * (c + 1) + 365 * 0"
      using b c e 2 by (intro days_before_year_cycles) auto
    then show ?thesis using y 2 c b r by (simp add: r2_def algebra_simps)
  next
    case 3
    have "days_before_year (400 * a + 100 * (b + 1) + 4 * 0 + 0 + 1) = 146097 * a + 36524 * (b + 1) + 1461 * 0 + 365 * 0"
      using b c e 3 by (intro days_before_year_cycles) auto
    then show ?thesis using y 3 b r by (simp add: r2_def algebra_simps)
  next
    case 4
    have "days_before_year (400 * (a + 1) + 100 * 0 + 4 * 0 + 0 + 1) = 146097 * (a + 1) + 36524 * 0 + 1461 * 0 + 365 * 0"
      by (intro days_before_year_cycles) auto
    then show ?thesis using y 4 r by (simp add: algebra_simps)
  qed
  moreover have "n = 146097 * a + 36524 * b + (1461 * c + r3)" using r c b by (simp add: r2_def)
  ultimately show ?thesis using lo e(3) by simp
qed

lemma months: "[1..12] = [1, 2, 3, 4, 5, 6, 7, 8, 9, 10, 11, 12::int]"
  by code_simp

lemma days_before_month_values:
  "days_before_month 1 y = 0" "days_before_month 2 y = 31"
  "days_before_month 3 y = 31 + daysIn 2 y" "days_before_month 4 y = 62 + daysIn 2 y"
  "days_before_month 5 y = 92 + daysIn 2 y" "days_before_month 6 y = 123 + daysIn 2 y"
  "days_before_month 7 y = 153 + daysIn 2 y" "days_before_month 8 y = 184 + daysIn 2 y"
  "days_before_month 9 y = 215 + daysIn 2 y" "days_before_month 10 y = 245 + daysIn 2 y"
  "days_before_month 11 y = 276 + daysIn 2 y" "days_before_month 12 y = 306 + daysIn 2 y"
  by (simp_all add: days_before_month_def upto.simps daysIn_def)

lemma date_of_day_sound:
  "valid_date (date_of_day n)" "days_of_date (date_of_day n) = n"
proof -
  define y where "y = year_of_day n"
  define r where "r = n - days_before_year y"
  have "0 \<le> r" "r < (if is_leap y then 366 else 365)"
    using year_of_day_bounds [of n] by (simp_all add: r_def y_def days_before_year_Suc)
  then have "valid_date (y, month_of_yday y r [1..12]) \<and> days_of_date (y, month_of_yday y r [1..12]) = days_before_year y + r"
    unfolding months by (auto simp: valid_date_def days_of_date_def days_before_month_values daysIn_def)
  then show "valid_date (date_of_day n)" "days_of_date (date_of_day n) = n"
    by (simp_all add: date_of_day_def Let_def y_def [symmetric] r_def [symmetric]) (simp add: r_def)
qed

lemma days_before_year_mono: "y \<le> y' \<Longrightarrow> days_before_year y \<le> days_before_year y'"
  by (induction y' rule: int_ge_induct) (simp_all add: days_before_year_Suc split: if_splits)

lemma month_cases:
  "1 \<le> (m :: int) \<Longrightarrow> m \<le> 12 \<Longrightarrow> m = 1 \<or> m = 2 \<or> m = 3 \<or> m = 4 \<or> m = 5 \<or> m = 6 \<or> m = 7 \<or> m = 8 \<or> m = 9 \<or> m = 10 \<or> m = 11 \<or> m = 12"
  by presburger

lemma valid_date_in_year:
  assumes "valid_date (y, m, d)"
  shows "days_before_year y \<le> days_of_date (y, m, d)" "days_of_date (y, m, d) < days_before_year (y + 1)"
proof -
  have "1 \<le> m" "m \<le> 12" "1 \<le> d" "d \<le> daysIn m y" using assms by (simp_all add: valid_date_def)
  with month_cases [of m] show "days_before_year y \<le> days_of_date (y, m, d)" "days_of_date (y, m, d) < days_before_year (y + 1)"
    by (auto simp: days_of_date_def days_before_month_values daysIn_def days_before_year_Suc)
qed

lemma days_before_month_mono:
  assumes "1 \<le> m" "m < m'" "m' \<le> 12"
  shows "days_before_month m y + daysIn m y \<le> days_before_month m' y"
proof -
  have "[1..m' - 1] = [1..m] @ [m + 1..m' - 1]" using assms by (intro upto_split2 [of 1 m "m' - 1", simplified]) auto
  moreover have "[1..m] = [1..m - 1] @ [m]" using assms by (simp add: upto_rec2)
  moreover have "0 \<le> sum_list (map (\<lambda>k. daysIn k y) [m + 1..m' - 1])"
    by (intro sum_list_nonneg) (auto simp: daysIn_def)
  ultimately show ?thesis by (simp add: days_before_month_def)
qed

lemma days_of_date_mono:
  assumes "valid_date p" "valid_date q" "p < q"
  shows "days_of_date p < days_of_date q"
proof -
  obtain y m d y' m' d' where pq: "p = (y, m, d)" "q = (y', m', d')" by (cases p; cases q) auto
  consider "y < y'" | "y = y'" "m < m'" | "y = y'" "m = m'" "d < d'" using assms(3) unfolding pq less_prod_simp by linarith
  then show ?thesis
  proof cases
    case 1
    then show ?thesis
      using valid_date_in_year [of y m d] valid_date_in_year [of y' m' d'] days_before_year_mono [of "y + 1" y'] assms by (simp add: pq)
  next
    case 2
    then show ?thesis using days_before_month_mono [of m m' y] assms by (simp add: pq valid_date_def days_of_date_def)
  qed (simp add: pq days_of_date_def)
qed

lemma date_of_day_mono: "i < j \<longleftrightarrow> date_of_day i < date_of_day j"
proof
  assume "i < j"
  then show "date_of_day i < date_of_day j"
    using days_of_date_mono [of "date_of_day j" "date_of_day i"] date_of_day_sound by (metis less_asym linorder_neqE)
next
  assume "date_of_day i < date_of_day j"
  then show "i < j" using days_of_date_mono date_of_day_sound by metis
qed

subsection \<open>Formatting\<close>

definition pad :: "nat \<Rightarrow> nat \<Rightarrow> string" where
  "pad w n = replicate (w - length (digits n)) CHR ''0'' @ digits n"

text \<open>Year, month, day, hour, minute, second and nanosecond of a time in UTC.\<close>

record clock =
  ck_date :: "int \<times> int \<times> int"
  ck_hour :: nat
  ck_min :: nat
  ck_sec :: nat
  ck_nano :: nat

definition clock_of :: "gotime \<Rightarrow> clock" where
  "clock_of t = (let secs = nat (t mod Day div Second) in
     \<lparr>ck_date = date_of_day (t div Day), ck_hour = secs div 3600, ck_min = secs div 60 mod 60, ck_sec = secs mod 60,
      ck_nano = nat (t mod Second)\<rparr>)"

definition time_of_clock :: "clock \<Rightarrow> gotime" where
  "time_of_clock c = days_of_date (ck_date c) * Day + int (ck_hour c * 3600 + ck_min c * 60 + ck_sec c) * Second + int (ck_nano c)"

definition format_year :: "int \<Rightarrow> string" where
  "format_year y = (if y < 0 then ''-'' @ pad 4 (nat (- y)) else pad 4 (nat y))"

definition format_seconds :: "clock \<Rightarrow> string" where
  "format_seconds c = (case ck_date c of (y, m, d) \<Rightarrow>
     format_year y @ ''-'' @ pad 2 (nat m) @ ''-'' @ pad 2 (nat d) @ ''T'' @
     pad 2 (ck_hour c) @ '':'' @ pad 2 (ck_min c) @ '':'' @ pad 2 (ck_sec c))"

text \<open>\<open>t.Format(tsLayout)\<close>: six digits after the second, whatever they are.\<close>

definition Format_ts :: "gotime \<Rightarrow> string" where
  "Format_ts t = (let c = clock_of t in format_seconds c @ ''.'' @ pad 6 (ck_nano c div 1000) @ ''Z'')"

text \<open>\<open>t.Format(time.RFC3339Nano)\<close>: as many digits as needed.\<close>

definition format_nanos :: "nat \<Rightarrow> string" where
  "format_nanos n = (let ds = TrimRightByte (pad 9 n) CHR ''0'' in if ds = [] then [] else ''.'' @ ds)"

definition Format_nano :: "gotime \<Rightarrow> string" where
  "Format_nano t = (let c = clock_of t in format_seconds c @ format_nanos (ck_nano c) @ ''Z'')"

subsection \<open>Parsing\<close>

text \<open>\<open>getnum\<close>: one or two digits, exactly two when fixed.\<close>

fun getnum :: "bool \<Rightarrow> string \<Rightarrow> (nat \<times> string) option" where
  "getnum fixed (a # b # s) = (if \<not> is_digit a then None
     else if is_digit b then Some (decimal [a, b], s)
     else if fixed then None else Some (decimal [a], b # s))"
| "getnum fixed [a] = (if is_digit a \<and> \<not> fixed then Some (decimal [a], []) else None)"
| "getnum fixed [] = None"

definition in_range :: "nat \<Rightarrow> nat \<Rightarrow> (nat \<times> string) option \<Rightarrow> (nat \<times> string) option" where
  "in_range lo hi r = (case r of Some (n, s) \<Rightarrow> if lo \<le> n \<and> n \<le> hi then Some (n, s) else None | None \<Rightarrow> None)"

definition parse_year :: "string \<Rightarrow> (nat \<times> string) option" where
  "parse_year s = (if 4 \<le> length s \<and> list_all is_digit (take 4 s) then Some (decimal (take 4 s), drop 4 s) else None)"

text \<open>\<open>parseNanoseconds\<close>: digits after the ninth are dropped; without a digit after the point
  there is no fraction.\<close>

definition parse_nanos :: "string \<Rightarrow> nat \<times> string" where
  "parse_nanos s = (case s of
     p # c # r \<Rightarrow>
       (if (p = CHR ''.'' \<or> p = CHR '','') \<and> is_digit c
        then let ds = take 9 (takeWhile is_digit (c # r)) in (decimal ds * 10 ^ (9 - length ds), dropWhile is_digit (c # r))
        else (0, s))
   | _ \<Rightarrow> (0, s))"

definition parse_zone :: "string \<Rightarrow> (int \<times> string) option" where
  "parse_zone s =
    (if HasPrefix s ''Z'' then Some (0, drop 1 s)
     else if length s < 6 \<or> s ! 3 \<noteq> CHR '':'' then None
     else do {
       (h, _) \<leftarrow> in_range 0 24 (getnum True (take 2 (drop 1 s)));
       (m, _) \<leftarrow> in_range 0 60 (getnum True (take 2 (drop 4 s)));
       let off = int ((h * 60 + m) * 60);
       if s ! 0 = CHR ''+'' then Some (off, drop 6 s)
       else if s ! 0 = CHR ''-'' then Some (- off, drop 6 s) else None
     })"

definition time_Parse :: "string \<Rightarrow> gotime option" where
  "time_Parse s = do {
     (y, s) \<leftarrow> parse_year s;
     s \<leftarrow> scan_literal ''-'' s;
     (m, s) \<leftarrow> in_range 1 12 (getnum True s);
     s \<leftarrow> scan_literal ''-'' s;
     (d, s) \<leftarrow> getnum True s;
     s \<leftarrow> scan_literal ''T'' s;
     (hr, s) \<leftarrow> in_range 0 23 (getnum False s);
     s \<leftarrow> scan_literal '':'' s;
     (mi, s) \<leftarrow> in_range 0 59 (getnum True s);
     s \<leftarrow> scan_literal '':'' s;
     (sc, s) \<leftarrow> in_range 0 59 (getnum True s);
     let (ns, s) = parse_nanos s;
     (off, s) \<leftarrow> parse_zone s;
     if s \<noteq> [] \<or> \<not> valid_date (int y, int m, int d) then None
     else Some (time_of_clock \<lparr>ck_date = (int y, int m, int d), ck_hour = hr, ck_min = mi, ck_sec = sc, ck_nano = ns\<rparr> - off * Second)
   }"

subsection \<open>Fields of fixed width\<close>

lemma decimal_foldl: "foldl (\<lambda>n c. 10 * n + (byte c - 48)) a s = a * 10 ^ length s + decimal s"
proof (induction s arbitrary: a)
  case (Cons c s)
  have "decimal (c # s) = (byte c - 48) * 10 ^ length s + decimal s" using Cons [of "byte c - 48"] by (simp add: decimal_def)
  with Cons [of "10 * a + (byte c - 48)"] show ?case by (simp add: algebra_simps)
qed (simp add: decimal_def)

lemma decimal_Cons: "decimal (c # s) = (byte c - 48) * 10 ^ length s + decimal s"
  by (simp add: decimal_def) (simp only: decimal_foldl decimal_def [symmetric])

lemma decimal_append: "decimal (s @ t) = decimal s * 10 ^ length t + decimal t"
  by (simp add: decimal_def) (simp only: decimal_foldl decimal_def [symmetric])

lemma decimal_zeros [simp]: "decimal (replicate k CHR ''0'') = 0"
  by (induction k) (simp_all add: decimal_Cons, simp add: decimal_def)

lemma digit_bound: "is_digit c \<Longrightarrow> byte c - 48 \<le> 9"
  by (auto simp: is_digit_def)

lemma decimal_bound: "list_all is_digit s \<Longrightarrow> decimal s < 10 ^ length s"
proof (induction s)
  case (Cons c s)
  then have "(byte c - 48) * 10 ^ length s \<le> 9 * 10 ^ length s" by (intro mult_right_mono digit_bound) auto
  moreover have "decimal s < 10 ^ length s" using Cons by simp
  ultimately show ?case unfolding decimal_Cons length_Cons power_Suc by linarith
qed (simp add: decimal_def)

lemma digits_length: "n < 10 ^ w \<Longrightarrow> 0 < w \<Longrightarrow> length (digits n) \<le> w"
proof (induction n arbitrary: w rule: digits.induct)
  case (1 n)
  show ?case
  proof (cases "n < 10")
    case False
    then obtain v where v: "w = Suc v" "0 < v" using 1(2,3) by (cases w; cases "w - 1") auto
    with 1(2) have "n div 10 < 10 ^ v" by (simp add: less_mult_imp_div_less mult.commute)
    with 1(1) [OF False, of v] v show ?thesis using False by (subst digits.simps) simp
  qed (use 1(3) in \<open>subst digits.simps, simp\<close>)
qed

lemma pad_facts:
  assumes "n < 10 ^ w" "0 < w"
  shows "length (pad w n) = w" "list_all is_digit (pad w n)" "decimal (pad w n) = n"
  using digits_length [OF assms] digits_all [of n]
  by (auto simp: pad_def decimal_append list_all_iff is_digit_def)

lemma char_less_byte: "c < d \<longleftrightarrow> byte c < byte (d :: char)"
  by (simp add: less_char_def)

lemma decimal_order:
  assumes "length s = length t" "list_all is_digit s" "list_all is_digit t"
  shows "s < t \<longleftrightarrow> decimal s < decimal t"
  using assms
proof (induction s t rule: list_induct2)
  case (Cons a s b t)
  have d: "is_digit a" "is_digit b" "decimal s < 10 ^ length t" "decimal t < 10 ^ length t"
    using Cons decimal_bound [of s] decimal_bound [of t] by auto
  consider "byte a < byte b" | "byte a = byte b" | "byte b < byte a" by linarith
  then show ?case
  proof cases
    case 1
    then have "(byte a - 48 + 1) * 10 ^ length t \<le> (byte b - 48) * 10 ^ length t"
      using d by (intro mult_right_mono) (auto simp: is_digit_def)
    with 1 d show ?thesis using Cons(1) by (simp add: decimal_Cons char_less_byte)
  next
    case 2
    then have "a = b" by simp
    then show ?thesis using Cons by (simp add: decimal_Cons)
  next
    case 3
    then have "(byte b - 48 + 1) * 10 ^ length t \<le> (byte a - 48) * 10 ^ length t"
      using d by (intro mult_right_mono) (auto simp: is_digit_def)
    moreover have "a \<noteq> b" using 3 by auto
    ultimately show ?thesis using 3 d Cons(1) by (simp add: decimal_Cons char_less_byte)
  qed
qed simp

lemma pad_less: "m < 10 ^ w \<Longrightarrow> n < 10 ^ w \<Longrightarrow> 0 < w \<Longrightarrow> pad w m < pad w n \<longleftrightarrow> m < n"
  using decimal_order [of "pad w m" "pad w n"] by (simp add: pad_facts)

lemma pad_eq: "m < 10 ^ w \<Longrightarrow> n < 10 ^ w \<Longrightarrow> 0 < w \<Longrightarrow> pad w m = pad w n \<longleftrightarrow> m = n"
  by (metis pad_facts(3))

lemma lex_append:
  "length s = length (s' :: string) \<Longrightarrow> s @ t < s' @ t' \<longleftrightarrow> s < s' \<or> s = s' \<and> t < t'"
  by (induction s s' rule: list_induct2) auto


subsection \<open>The round trip\<close>

definition civil_years :: "gotime \<Rightarrow> bool" where
  "civil_years t = (0 \<le> year_of_day (t div Day) \<and> year_of_day (t div Day) \<le> 9999)"

lemma clock_bounds:
  "ck_hour (clock_of t) < 24" "ck_min (clock_of t) < 60" "ck_sec (clock_of t) < 60" "ck_nano (clock_of t) < 10 ^ 9"
  "valid_date (ck_date (clock_of t))"
proof -
  have "t mod Day < Day" "0 \<le> t mod Day" by (simp_all add: duration_defs)
  then have "t mod Day div Second < 86400" "0 \<le> t mod Day div Second"
    by (simp_all add: duration_defs div_int_pos_iff)
  then have "nat (t mod Day div Second) < 86400" by linarith
  then show "ck_hour (clock_of t) < 24" "ck_min (clock_of t) < 60" "ck_sec (clock_of t) < 60"
    by (simp_all add: clock_of_def Let_def less_mult_imp_div_less)
  show "ck_nano (clock_of t) < 10 ^ 9" by (simp add: clock_of_def Let_def Second_def nat_less_iff)
  show "valid_date (ck_date (clock_of t))" by (simp add: clock_of_def Let_def date_of_day_sound)
qed

lemma time_of_clock_of [simp]: "time_of_clock (clock_of t) = t"
proof -
  define k where "k = t mod Day div Second"
  have k: "0 \<le> k" by (simp add: k_def duration_defs div_int_pos_iff)
  have "nat k div 3600 * 3600 + nat k div 60 mod 60 * 60 + nat k mod 60 = nat k"
  proof -
    have "nat k div 3600 = nat k div 60 div 60" by (simp add: div_mult2_eq [symmetric])
    then show ?thesis by (simp add: mult.commute [of _ 3600]) (use mult_div_mod_eq [of 60 "nat k"] mult_div_mod_eq [of 60 "nat k div 60"] in linarith)
  qed
  then have "time_of_clock (clock_of t) = t div Day * Day + k * Second + t mod Second"
    using k by (simp add: time_of_clock_def clock_of_def Let_def date_of_day_sound k_def [symmetric])
      (simp add: Second_def)
  moreover have "t mod Day mod Second = t mod Second" by (simp add: mod_mod_cancel duration_defs)
  then have "t mod Day = k * Second + t mod Second" by (metis k_def div_mult_mod_eq)
  ultimately show ?thesis using div_mult_mod_eq [of t Day] by linarith
qed

lemma pad2: assumes "n < 100" obtains a b where "pad 2 n = [a, b]" "is_digit a" "is_digit b" "decimal [a, b] = n"
proof -
  have f: "length (pad 2 n) = 2" "list_all is_digit (pad 2 n)" "decimal (pad 2 n) = n" using pad_facts [of n 2] assms by simp_all
  then obtain a b where "pad 2 n = [a, b]" by (metis length_0_conv length_Suc_conv numeral_2_eq_2)
  with f that show ?thesis by auto
qed

lemma getnum_pad [simp]: "n < 100 \<Longrightarrow> getnum fx (pad 2 n @ s) = Some (n, s)"
  by (rule pad2 [of n]) auto

lemma parse_year_pad [simp]: "n < 10000 \<Longrightarrow> parse_year (pad 4 n @ s) = Some (n, s)"
  using pad_facts [of n 4] by (simp add: parse_year_def)

lemma parse_nanos_digits:
  assumes "ds \<noteq> []" "list_all is_digit ds" "length ds \<le> 9" "rest = [] \<or> \<not> is_digit (hd rest)"
  shows "parse_nanos (CHR ''.'' # ds @ rest) = (decimal ds * 10 ^ (9 - length ds), rest)"
proof -
  obtain c r where c: "ds = c # r" using assms(1) by (cases ds) auto
  have "takeWhile is_digit (ds @ rest) = ds" "dropWhile is_digit (ds @ rest) = rest"
    using assms(2,4) by (auto simp: list_all_iff takeWhile_append2 dropWhile_append2) (cases rest; simp)+
  then show ?thesis using assms(2,3) c by (simp add: parse_nanos_def)
qed

lemma scan_literal_char: "scan_literal [c] (c # s) = Some s"
  using scan_literal_append [of "[c]" s] by simp

lemma parse_zone_Z: "parse_zone ''Z'' = Some (0, [])"
  by (simp add: parse_zone_def HasPrefix_def)

lemma parse_format:
  assumes "civil_years t" "parse_nanos (fr @ ''Z'') = (n, ''Z'')"
  shows "time_Parse (format_seconds (clock_of t) @ fr @ ''Z'') = Some (t - int (ck_nano (clock_of t)) + int n)"
proof -
  obtain y m d where ymd: "ck_date (clock_of t) = (y, m, d)" by (cases "ck_date (clock_of t)") auto
  have y: "0 \<le> y" "y \<le> 9999" using assms(1) ymd by (simp_all add: civil_years_def clock_of_def Let_def date_of_day_def)
  have v: "valid_date (y, m, d)" using clock_bounds(5) [of t] ymd by simp
  then have m: "1 \<le> m" "m \<le> 12" "1 \<le> d" "d \<le> 31" by (auto simp: valid_date_def daysIn_def split: if_splits)
  then have nm: "nat y < 10000" "nat m < 100" "nat d < 100" "1 \<le> nat m" "nat m \<le> 12" using y by linarith+
  have b: "ck_hour (clock_of t) < 100" "ck_hour (clock_of t) \<le> 23" "ck_min (clock_of t) < 100" "ck_min (clock_of t) \<le> 59"
    "ck_sec (clock_of t) < 100" "ck_sec (clock_of t) \<le> 59" using clock_bounds [of t] by linarith+
  have fs: "format_seconds (clock_of t) @ fr @ ''Z'' = pad 4 (nat y) @ ''-'' @ pad 2 (nat m) @ ''-'' @ pad 2 (nat d) @ ''T'' @
     pad 2 (ck_hour (clock_of t)) @ '':'' @ pad 2 (ck_min (clock_of t)) @ '':'' @ pad 2 (ck_sec (clock_of t)) @ fr @ ''Z''"
    using y by (simp add: format_seconds_def ymd format_year_def)
  have "time_of_clock \<lparr>ck_date = (y, m, d), ck_hour = ck_hour (clock_of t), ck_min = ck_min (clock_of t), ck_sec = ck_sec (clock_of t), ck_nano = n\<rparr> =
      time_of_clock (clock_of t) - int (ck_nano (clock_of t)) + int n"
    unfolding time_of_clock_def by (simp add: ymd)
  then show ?thesis
    unfolding fs time_Parse_def using nm b m y v assms(2)
    by (simp add: scan_literal_char in_range_def parse_zone_Z)
qed

lemma pad_trim:
  assumes "n < 10 ^ 9"
  shows "list_all is_digit (TrimRightByte (pad 9 n) CHR ''0'')" "length (TrimRightByte (pad 9 n) CHR ''0'') \<le> 9"
    "decimal (TrimRightByte (pad 9 n) CHR ''0'') * 10 ^ (9 - length (TrimRightByte (pad 9 n) CHR ''0'')) = n"
proof -
  define ds where "ds = TrimRightByte (pad 9 n) CHR ''0''"
  have "rev (pad 9 n) = takeWhile (\<lambda>x. x = CHR ''0'') (rev (pad 9 n)) @ rev ds"
    unfolding ds_def TrimRightByte_def by simp
  then have "pad 9 n = ds @ rev (takeWhile (\<lambda>x. x = CHR ''0'') (rev (pad 9 n)))"
    by (metis rev_append rev_rev_ident)
  moreover define k where "k = length (takeWhile (\<lambda>x. x = CHR ''0'') (rev (pad 9 n)))"
  moreover have "takeWhile (\<lambda>x. x = CHR ''0'') (rev (pad 9 n)) = replicate k CHR ''0''"
    unfolding k_def by (rule replicate_length_same [symmetric]) (auto dest: set_takeWhileD)
  ultimately have p: "pad 9 n = ds @ replicate k CHR ''0''" by (metis rev_replicate)
  have f: "length (pad 9 n) = 9" "list_all is_digit (pad 9 n)" "decimal (pad 9 n) = n" using pad_facts [OF assms] by simp_all
  have "list_all is_digit ds" using f(2) unfolding p by simp
  then show "list_all is_digit (TrimRightByte (pad 9 n) CHR ''0'')" by (simp only: ds_def)
  have l: "length ds + k = 9" using f(1) unfolding p by simp
  then show "length (TrimRightByte (pad 9 n) CHR ''0'') \<le> 9" by (simp add: ds_def [symmetric])
  have "decimal ds * 10 ^ k = n" using f(3) unfolding p by (simp add: decimal_append)
  moreover have "9 - length ds = k" using l by simp
  ultimately show "decimal (TrimRightByte (pad 9 n) CHR ''0'') * 10 ^ (9 - length (TrimRightByte (pad 9 n) CHR ''0'')) = n"
    by (simp add: ds_def [symmetric])
qed

lemma time_Parse_Format_nano: "civil_years t \<Longrightarrow> time_Parse (Format_nano t) = Some t"
proof -
  assume c: "civil_years t"
  define n where "n = ck_nano (clock_of t)"
  have n: "n < 10 ^ 9" using clock_bounds(4) by (simp add: n_def)
  have "parse_nanos (format_nanos n @ ''Z'') = (n, ''Z'')"
  proof (cases "TrimRightByte (pad 9 n) CHR ''0'' = []")
    case True
    then have "n = 0" using pad_trim(3) [OF n] by (simp add: decimal_def)
    with True show ?thesis by (simp add: format_nanos_def parse_nanos_def)
  next
    case False
    then show ?thesis using parse_nanos_digits [OF False pad_trim(1,2) [OF n], of "''Z''"] pad_trim(3) [OF n]
      by (simp add: format_nanos_def Let_def is_digit_def)
  qed
  then show ?thesis using parse_format [OF c, of "format_nanos n" n] by (simp add: Format_nano_def Let_def n_def)
qed

lemma time_Parse_Format_ts: "civil_years t \<Longrightarrow> time_Parse (Format_ts t) = Some (Truncate t Microsecond)"
proof -
  assume c: "civil_years t"
  define n where "n = ck_nano (clock_of t)"
  have u: "n div 1000 < 10 ^ 6" using clock_bounds(4) [of t] by (simp add: n_def less_mult_imp_div_less)
  have "parse_nanos (CHR ''.'' # pad 6 (n div 1000) @ ''Z'') = (n div 1000 * 10 ^ 3, ''Z'')"
    using parse_nanos_digits [of "pad 6 (n div 1000)" "''Z''"] pad_facts [OF u] by (cases "pad 6 (n div 1000)") (auto simp: is_digit_def)
  then have "time_Parse (Format_ts t) = Some (t - int n + int (n div 1000 * 10 ^ 3))"
    using parse_format [OF c, of "CHR ''.'' # pad 6 (n div 1000)"] by (simp add: Format_ts_def Let_def n_def)
  moreover have "int n = t mod Second" by (simp add: n_def clock_of_def Let_def Second_def)
  moreover have "t mod Second mod Microsecond = t mod Microsecond" by (simp add: mod_mod_cancel duration_defs)
  ultimately show ?thesis
    by (simp add: Truncate_def Microsecond_def zdiv_int) (use mult_div_mod_eq [of 1000 "t mod Second"] in linarith)
qed


subsection \<open>The order of the texts\<close>

lemma div_mod_order: "0 < (k :: nat) \<Longrightarrow> a < b \<longleftrightarrow> a div k < b div k \<or> a div k = b div k \<and> a mod k < b mod k"
  by (metis div_le_mono div_mult_mod_eq less_le_not_le nat_add_left_cancel_less nat_less_le linorder_not_le)

lemma div_mod_same: "(a :: nat) = b \<longleftrightarrow> a div k = b div k \<and> a mod k = b mod k"
  by (metis div_mult_mod_eq)

lemma seconds_order:
  "(a :: nat) < b \<longleftrightarrow> a div 3600 < b div 3600 \<or> a div 3600 = b div 3600 \<and>
     (a div 60 mod 60 < b div 60 mod 60 \<or> a div 60 mod 60 = b div 60 mod 60 \<and> a mod 60 < b mod 60)"
proof -
  have "i div 3600 = i div 60 div 60" for i :: nat by (simp add: div_mult2_eq [symmetric])
  then show ?thesis
    using div_mod_order [of 60 a b] div_mod_order [of 60 "a div 60" "b div 60"] div_mod_same [of "a div 60" "b div 60" 60] by simp blast
qed

lemma seconds_same:
  "(a :: nat) = b \<longleftrightarrow> a div 3600 = b div 3600 \<and> a div 60 mod 60 = b div 60 mod 60 \<and> a mod 60 = b mod 60"
  using seconds_order [of a b] seconds_order [of b a] by (metis linorder_neqE_nat less_irrefl_nat)

definition micros_of_day :: "gotime \<Rightarrow> nat" where
  "micros_of_day t = nat (t mod Day div Microsecond)"

lemma micros_of_day_order:
  "micros_of_day s < micros_of_day t \<longleftrightarrow>
     (let p = nat (s mod Day div Second); q = nat (t mod Day div Second) in
      p < q \<or> p = q \<and> nat (s mod Second) div 1000 < nat (t mod Second) div 1000)"
proof -
  have "nat (x mod Day div Second) = micros_of_day x div 10 ^ 6 \<and> nat (x mod Second) div 1000 = micros_of_day x mod 10 ^ 6" for x
  proof
    have "x mod Day div Second = x mod Day div Microsecond div 10 ^ 6" by (simp add: zdiv_zmult2_eq [symmetric] duration_defs)
    then show "nat (x mod Day div Second) = micros_of_day x div 10 ^ 6"
      by (simp add: micros_of_day_def nat_div_distrib div_int_pos_iff duration_defs)
    have "x mod Second = x mod Day mod Second" by (simp add: mod_mod_cancel duration_defs)
    also have "\<dots> = x mod Day mod (Microsecond * 10 ^ 6)" by (simp add: duration_defs)
    also have "\<dots> = Microsecond * (x mod Day div Microsecond mod 10 ^ 6) + x mod Day mod Microsecond"
      by (rule zmod_zmult2_eq) simp
    finally have "x mod Second div Microsecond = x mod Day div Microsecond mod 10 ^ 6"
      by (rule int_div_pos_eq) (simp_all add: Microsecond_def)
    moreover have "nat (x mod Second) div 1000 = nat (x mod Second div Microsecond)"
      by (simp add: nat_div_distrib duration_defs)
    moreover have "nat (x mod Day div Microsecond mod 10 ^ 6) = micros_of_day x mod 10 ^ 6"
      unfolding micros_of_day_def by (subst nat_mod_distrib) (simp_all add: div_int_pos_iff duration_defs)
    ultimately show "nat (x mod Second) div 1000 = micros_of_day x mod 10 ^ 6" by simp
  qed
  then show ?thesis using div_mod_order [of "10 ^ 6" "micros_of_day s" "micros_of_day t"] by (simp add: Let_def)
qed

lemma Truncate_micro_order:
  "Truncate s Microsecond < Truncate t Microsecond \<longleftrightarrow>
     s div Day < t div Day \<or> s div Day = t div Day \<and> micros_of_day s < micros_of_day t"
proof -
  have T: "Truncate x Microsecond = Microsecond * (x div Microsecond)" for x
    by (simp add: Truncate_def Microsecond_def minus_mod_eq_mult_div)
  have D: "x div Day = x div Microsecond div 86400000000" for x by (simp add: zdiv_zmult2_eq [symmetric] duration_defs)
  have "x mod Day = Microsecond * (x div Microsecond mod 86400000000) + x mod Microsecond" for x
    using zmod_zmult2_eq [of 86400000000 x Microsecond] by (simp add: duration_defs)
  then have "x mod Day div Microsecond = x div Microsecond mod 86400000000" for x by (simp add: duration_defs)
  then have M: "micros_of_day x = nat (x div Microsecond mod 86400000000)" for x by (simp add: micros_of_day_def)
  define a b where "a = s div Microsecond" and "b = t div Microsecond"
  have "a < b \<longleftrightarrow> a div 86400000000 < b div 86400000000 \<or>
      a div 86400000000 = b div 86400000000 \<and> a mod 86400000000 < b mod 86400000000"
    using div_mult_mod_eq [of a 86400000000] div_mult_mod_eq [of b 86400000000]
      pos_mod_bound [of 86400000000 a] pos_mod_bound [of 86400000000 b] pos_mod_sign [of 86400000000 a] pos_mod_sign [of 86400000000 b]
    by linarith
  then show ?thesis unfolding T D M a_def [symmetric] b_def [symmetric] nat_less_eq_zless [OF pos_mod_sign [of 86400000000 a, OF zero_less_numeral]]
    by (simp only: Microsecond_def mult_less_cancel_left_pos zero_less_numeral)
qed


lemma text_fields:
  assumes "civil_years t" "date_of_day (t div Day) = (y, m, d)"
  shows "format_year y = pad 4 (nat y)" "0 \<le> y" "nat y < 10 ^ 4" "0 \<le> m" "nat m < 10 ^ 2" "0 \<le> d" "nat d < 10 ^ 2"
proof -
  show y: "0 \<le> y" "nat y < 10 ^ 4" using assms by (auto simp: civil_years_def date_of_day_def Let_def)
  show "format_year y = pad 4 (nat y)" using y by (simp add: format_year_def)
  have "1 \<le> m" "m \<le> 12" "1 \<le> d" "d \<le> 31"
    using date_of_day_sound(1) [of "t div Day"] assms(2) by (auto simp: valid_date_def daysIn_def split: if_splits)
  then show "0 \<le> m" "nat m < 10 ^ 2" "0 \<le> d" "nat d < 10 ^ 2" by simp_all
qed

lemma pad_field:
  "m < 10 ^ w \<Longrightarrow> n < 10 ^ w \<Longrightarrow> 0 < w \<Longrightarrow> pad w m @ s < pad w n @ t \<longleftrightarrow> m < n \<or> m = n \<and> s < t"
  by (simp add: lex_append pad_facts pad_less pad_eq)

lemma same_literal: "(l :: string) @ s < l @ t \<longleftrightarrow> s < t"
  by (simp add: lex_append)

lemma clock_date: "ck_date (clock_of t) = date_of_day (t div Day)"
  by (simp add: clock_of_def Let_def)

lemma Format_ts_order:
  assumes "civil_years s" "civil_years t"
  shows "Format_ts s < Format_ts t \<longleftrightarrow> Truncate s Microsecond < Truncate t Microsecond"
proof -
  obtain y m d y' m' d' where D: "date_of_day (s div Day) = (y, m, d)" "date_of_day (t div Day) = (y', m', d')"
    by (metis prod_cases3)
  note f = text_fields [OF assms(1) D(1)] and g = text_fields [OF assms(2) D(2)]
  have u: "ck_nano (clock_of x) div 1000 < 10 ^ 6" "ck_hour (clock_of x) < 10 ^ 2" "ck_min (clock_of x) < 10 ^ 2"
    "ck_sec (clock_of x) < 10 ^ 2" for x
    using clock_bounds [of x] by (simp_all add: less_mult_imp_div_less)
  let ?c = "clock_of s" and ?c' = "clock_of t"
  have n: "nat i < nat j \<longleftrightarrow> i < j" "nat i = nat j \<longleftrightarrow> i = j" if "0 \<le> i" "0 \<le> j" for i j :: int using that by auto
  have dates: "s div Day < t div Day \<longleftrightarrow> y < y' \<or> y = y' \<and> (m < m' \<or> m = m' \<and> d < d')"
    unfolding date_of_day_mono [of "s div Day" "t div Day"] D less_prod_simp by linarith
  have same: "s div Day = t div Day \<longleftrightarrow> y = y' \<and> m = m' \<and> d = d'"
    by (metis D date_of_day_sound(2) prod.inject)
  have "Format_ts s < Format_ts t \<longleftrightarrow>
      (y < y' \<or> y = y' \<and> (m < m' \<or> m = m' \<and> (d < d' \<or> d = d' \<and>
        (ck_hour ?c < ck_hour ?c' \<or> ck_hour ?c = ck_hour ?c' \<and> (ck_min ?c < ck_min ?c' \<or> ck_min ?c = ck_min ?c' \<and>
          (ck_sec ?c < ck_sec ?c' \<or> ck_sec ?c = ck_sec ?c' \<and> ck_nano ?c div 1000 < ck_nano ?c' div 1000))))))"
    unfolding Format_ts_def format_seconds_def Let_def clock_date D prod.case f(1) g(1) append_assoc
      pad_field [OF f(3) g(3) zero_less_numeral] pad_field [OF f(5) g(5) zero_less_numeral] pad_field [OF f(7) g(7) zero_less_numeral]
      pad_field [OF u(1) u(1) zero_less_numeral] pad_field [OF u(2) u(2) zero_less_numeral] pad_field [OF u(3) u(3) zero_less_numeral]
      pad_field [OF u(4) u(4) zero_less_numeral] same_literal n [OF f(2) g(2)] n [OF f(4) g(4)] n [OF f(6) g(6)]
    by blast
  moreover have "micros_of_day s < micros_of_day t \<longleftrightarrow>
      (ck_hour ?c < ck_hour ?c' \<or> ck_hour ?c = ck_hour ?c' \<and> (ck_min ?c < ck_min ?c' \<or> ck_min ?c = ck_min ?c' \<and>
          (ck_sec ?c < ck_sec ?c' \<or> ck_sec ?c = ck_sec ?c' \<and> ck_nano ?c div 1000 < ck_nano ?c' div 1000)))"
    unfolding micros_of_day_order Let_def seconds_order [of "nat (s mod Day div Second)"] seconds_same [of "nat (s mod Day div Second)"]
      clock_of_def clock.simps by blast
  ultimately show ?thesis unfolding Truncate_micro_order dates same by blast
qed

text \<open>Two times have the same text exactly when they agree to the microsecond.\<close>

lemma Format_ts_same:
  assumes "civil_years s" "civil_years t"
  shows "Format_ts s = Format_ts t \<longleftrightarrow> Truncate s Microsecond = Truncate t Microsecond"
  using Format_ts_order [OF assms] Format_ts_order [OF assms(2) assms(1)] by (metis less_irrefl linorder_neqE)

text \<open>No text of a time has a zero byte.\<close>

lemma pad_digits: "list_all is_digit (pad w n)"
  using digits_all [of n] by (auto simp: pad_def list_all_iff is_digit_def)

lemma pad_no_nul [simp]: "CHR 0x00 \<notin> set (pad w n)"
  using pad_digits [of w n] by (auto simp: list_all_iff is_digit_def)

lemma Format_ts_no_nul: "CHR 0x00 \<notin> set (Format_ts t)"
  by (simp add: Format_ts_def format_seconds_def format_year_def Let_def split: prod.splits)

lemma Format_nano_no_nul: "CHR 0x00 \<notin> set (Format_nano t)"
proof -
  have "CHR 0x00 \<notin> set (TrimRightByte (pad 9 n) CHR ''0'')" for n
    using pad_no_nul [of 9 n] by (auto simp: TrimRightByte_def dest: set_dropWhileD)
  then show ?thesis by (simp add: Format_nano_def format_nanos_def format_seconds_def format_year_def Let_def split: prod.splits)
qed

end
