(* ===== verification/Listing.thy ===== *)
theory Listing
  imports Store_Iface Time_Format
begin

text \<open>
  Listing codes page by page. A page of \<open>ListCodes\<close> holds the newest codes after the position its
  cursor names, a position being the creation time and the identifier of the last code of the page
  before. The contract is the locale \<open>keyset_listing\<close>: what a page is, on the codes a filter
  selects, whatever text a driver makes of a position. Following the cursors is a walk; the facts
  on walks hold for every driver, also when the codes change between two pages.
\<close>

definition defaultListLimit :: int where "defaultListLimit = 50"

record cursorPos =
  cp_createdAt :: gotime
  cp_id :: string

text \<open>\<open>strings.Cut(s, "\x00")\<close>.\<close>

definition cut_nul :: "string \<Rightarrow> (string \<times> string) option" where
  "cut_nul s = (if CHR 0x00 \<in> set s
     then Some (takeWhile (\<lambda>c. c \<noteq> CHR 0x00) s, drop 1 (dropWhile (\<lambda>c. c \<noteq> CHR 0x00) s)) else None)"

lemma cut_nul_append: "CHR 0x00 \<notin> set a \<Longrightarrow> cut_nul (a @ [CHR 0x00] @ b) = Some (a, b)"
proof -
  assume a: "CHR 0x00 \<notin> set a"
  then have n: "x \<in> set a \<Longrightarrow> x \<noteq> CHR 0x00" for x by blast
  have "takeWhile (\<lambda>c. c \<noteq> CHR 0x00) (a @ [CHR 0x00] @ b) = a" "dropWhile (\<lambda>c. c \<noteq> CHR 0x00) (a @ [CHR 0x00] @ b) = [CHR 0x00] @ b"
    using takeWhile_append2 [of a "\<lambda>c. c \<noteq> CHR 0x00" "[CHR 0x00] @ b", OF n]
      dropWhile_append2 [of a "\<lambda>c. c \<noteq> CHR 0x00" "[CHR 0x00] @ b", OF n] by simp_all
  then show ?thesis by (simp only: cut_nul_def) simp
qed

subsection \<open>The contract\<close>

definition listing_key :: "code \<Rightarrow> gotime \<times> string" where
  "listing_key c = (code_CreatedAt c, code_ID c)"

definition newest_first :: "code list \<Rightarrow> code list" where
  "newest_first cs = rev (sort_key listing_key cs)"

definition page_limit :: "code_filter \<Rightarrow> nat" where
  "page_limit f = nat (if cf_Limit f \<le> 0 then defaultListLimit else cf_Limit f)"

definition cut_page :: "(gotime \<times> string \<Rightarrow> string) \<Rightarrow> nat \<Rightarrow> code list \<Rightarrow> code list \<times> string" where
  "cut_page cursor n cs = (let out = take (n + 1) cs in
     if n < length out then (take n out, cursor (listing_key (out ! (n - 1)))) else (out, ''''))"

definition older_than :: "(gotime \<times> string) option \<Rightarrow> code \<Rightarrow> bool" where
  "older_than p c = (case p of None \<Rightarrow> True | Some k \<Rightarrow> listing_key c < k)"

definition page_after :: "(gotime \<times> string \<Rightarrow> string) \<Rightarrow> nat \<Rightarrow> (gotime \<times> string) option \<Rightarrow> code list \<Rightarrow> code list \<times> string" where
  "page_after cursor n p cs = cut_page cursor n (newest_first (filter (older_than p) cs))"

text \<open>A client that follows the cursors, one page from each of the given states, until a page
  has no cursor; the flag says whether it came to the end.\<close>

fun list_walk ::
  "(code_filter \<Rightarrow> 's \<Rightarrow> store_error + code list \<times> string) \<Rightarrow> code_filter \<Rightarrow> 's list \<Rightarrow> store_error + code list \<times> bool" where
  "list_walk list f [] = Inr ([], False)"
| "list_walk list f (s # ss) = (case list f s of
     Inl err \<Rightarrow> Inl err
   | Inr (cs, next) \<Rightarrow>
       (if next = '''' then Inr (cs, True)
        else case list_walk list (f\<lparr>cf_Cursor := next\<rparr>) ss of
          Inl err \<Rightarrow> Inl err | Inr (cs', fin) \<Rightarrow> Inr (cs @ cs', fin)))"

lemma page_limit_pos [simp]: "0 < page_limit f"
  by (simp add: page_limit_def defaultListLimit_def)

lemma page_limit_cursor [simp]: "page_limit (f\<lparr>cf_Cursor := x\<rparr>) = page_limit f"
  by (simp add: page_limit_def)

lemma set_newest_first [simp]: "set (newest_first cs) = set cs" "length (newest_first cs) = length cs"
  by (simp_all add: newest_first_def)

definition descending :: "code list \<Rightarrow> bool" where
  "descending = sorted_wrt (\<lambda>c d. listing_key d < listing_key c)"

lemma newest_first_descending:
  assumes "distinct (map listing_key cs)"
  shows "descending (newest_first cs)"
proof -
  have "sorted (map listing_key (sort_key listing_key cs))" by simp
  moreover have "distinct (map listing_key (sort_key listing_key cs))"
    using assms by (simp add: distinct_map)
  ultimately have "sorted_wrt (<) (map listing_key (sort_key listing_key cs))" by (simp add: strict_sorted_iff)
  then show ?thesis by (simp add: descending_def newest_first_def sorted_wrt_map sorted_wrt_rev)
qed

text \<open>What one page is: a descending initial part of the codes after the position; with a cursor
  when there are more, and then the cursor names the last code of the page.\<close>

lemma page_cases:
  assumes d: "distinct (map listing_key cs)" and n: "0 < n" and p: "page_after cursor n p cs = (out, next)"
  shows "descending out" "set out \<subseteq> set (filter (older_than p) cs)"
    and "(next = '''' \<and> set out = set (filter (older_than p) cs)) \<or>
      (\<exists>c \<in> set out. length out = n \<and> next = cursor (listing_key c) \<and> (\<forall>x \<in> set out. listing_key c \<le> listing_key x) \<and>
         (\<forall>x \<in> set cs. older_than p x \<longrightarrow> x \<in> set out \<or> listing_key x < listing_key c))"
proof -
  define rows where "rows = newest_first (filter (older_than p) cs)"
  have dr: "descending rows" unfolding rows_def
    by (rule newest_first_descending) (use d in \<open>simp add: distinct_map inj_on_def\<close>)
  have sr: "set rows = set (filter (older_than p) cs)" by (simp add: rows_def)
  have pg: "(out, next) = cut_page cursor n rows" using p by (simp add: page_after_def rows_def)
  have o: "out = take n rows"
    using pg by (auto simp: cut_page_def Let_def min_def split: if_splits)
  show "descending out" using dr unfolding o descending_def by (rule sorted_wrt_take)
  show "set out \<subseteq> set (filter (older_than p) cs)" unfolding o sr [symmetric] by (rule set_take_subset)
  show "(next = '''' \<and> set out = set (filter (older_than p) cs)) \<or>
      (\<exists>c \<in> set out. length out = n \<and> next = cursor (listing_key c) \<and> (\<forall>x \<in> set out. listing_key c \<le> listing_key x) \<and>
         (\<forall>x \<in> set cs. older_than p x \<longrightarrow> x \<in> set out \<or> listing_key x < listing_key c))"
  proof (cases "n < length rows")
    case False
    then have "next = ''''" "out = rows" using pg by (auto simp: cut_page_def Let_def)
    then show ?thesis using sr by simp
  next
    case True
    let ?c = "rows ! (n - 1)"
    have nx: "next = cursor (listing_key ?c)" using pg True n by (auto simp: cut_page_def Let_def)
    have c: "?c \<in> set out" "length out = n" unfolding o using True n by (auto simp: in_set_conv_nth intro!: exI [of _ "n - 1"])
    have lt: "listing_key (rows ! j) < listing_key (rows ! i)" if "i < j" "j < length rows" for i j
      using dr that unfolding descending_def by (rule sorted_wrt_nth_less [where P = "\<lambda>c d. listing_key d < listing_key c"])
    have lo: "listing_key ?c \<le> listing_key x" if "x \<in> set out" for x
    proof -
      obtain i where i: "i < n" "x = rows ! i" using \<open>x \<in> set out\<close> unfolding o by (auto simp: in_set_conv_nth)
      then have "i = n - 1 \<or> i < n - 1" "n - 1 < length rows" using True by linarith+
      then show ?thesis using i lt [of i "n - 1"] by auto
    qed
    have hi: "x \<in> set out \<or> listing_key x < listing_key ?c" if "x \<in> set rows" for x
    proof -
      obtain i where i: "i < length rows" "x = rows ! i" using \<open>x \<in> set rows\<close> by (auto simp: in_set_conv_nth)
      show ?thesis
      proof (cases "i < n")
        case True
        then show ?thesis using i unfolding o by (auto simp: in_set_conv_nth)
      qed (use i lt [of "n - 1" i] n in auto)
    qed
    show ?thesis using nx c lo hi sr by (intro disjI2 bexI [of _ ?c]) auto
  qed
qed

locale keyset_listing =
  fixes ok :: "'s \<Rightarrow> bool"
    and list :: "code_filter \<Rightarrow> 's \<Rightarrow> store_error + code list \<times> string"
    and rows :: "code_filter \<Rightarrow> 's \<Rightarrow> code list"
    and cursor :: "gotime \<times> string \<Rightarrow> string"
  assumes first_page: "ok s \<Longrightarrow> cf_Cursor f = '''' \<Longrightarrow> list f s = Inr (page_after cursor (page_limit f) None (rows f s))"
    and next_page: "ok s \<Longrightarrow> ok s' \<Longrightarrow> c \<in> set (rows f s') \<Longrightarrow> cf_Cursor f = cursor (listing_key c) \<Longrightarrow>
      list f s = Inr (page_after cursor (page_limit f) (Some (listing_key c)) (rows f s))"
    and cursor_nonempty: "cursor k \<noteq> ''''"
    and distinct_keys: "ok s \<Longrightarrow> distinct (map listing_key (rows f s))"
    and rows_cursor: "rows (f\<lparr>cf_Cursor := x\<rparr>) s = rows f s"
begin

definition starts_at :: "code_filter \<Rightarrow> (gotime \<times> string) option \<Rightarrow> bool" where
  "starts_at f p = (case p of None \<Rightarrow> cf_Cursor f = ''''
     | Some k \<Rightarrow> cf_Cursor f = cursor k \<and> (\<exists>s c. ok s \<and> c \<in> set (rows f s) \<and> k = listing_key c))"

lemma list_page:
  assumes "ok s" "starts_at f p"
  shows "list f s = Inr (page_after cursor (page_limit f) p (rows f s))"
  using assms first_page next_page by (cases p) (auto simp: starts_at_def)

text \<open>A walk over changing states: newest first without repetition, every code from one of the
  states, and when it has come to its end no code that was there all the time is missing.\<close>

lemma walk_sound:
  assumes "\<And>s. s \<in> set ss \<Longrightarrow> ok s" "starts_at f p"
  shows "\<exists>cs fin. list_walk list f ss = Inr (cs, fin) \<and> descending cs \<and>
    (\<forall>c \<in> set cs. older_than p c \<and> (\<exists>s \<in> set ss. c \<in> set (rows f s))) \<and>
    (fin \<longrightarrow> (\<forall>k. (\<forall>s \<in> set ss. \<exists>c \<in> set (rows f s). listing_key c = k \<and> older_than p c) \<longrightarrow> k \<in> listing_key ` set cs))"
  using assms
proof (induction ss arbitrary: f p)
  case (Cons s ss)
  obtain out nxt where pg: "page_after cursor (page_limit f) p (rows f s) = (out, nxt)" by (cases "page_after cursor (page_limit f) p (rows f s)") auto
  have ls: "list f s = Inr (out, nxt)" using list_page [of s f p] Cons.prems pg by simp
  note pc = page_cases [OF distinct_keys page_limit_pos pg]
  have oks: "ok s" using Cons.prems(1) by simp
  note d = pc(1) [OF oks] and sub = pc(2) [OF oks]
  from pc(3) [OF oks] show ?case
  proof
    assume e: "nxt = '''' \<and> set out = set (filter (older_than p) (rows f s))"
    have "k \<in> listing_key ` set out" if "\<forall>s' \<in> set (s # ss). \<exists>c \<in> set (rows f s'). listing_key c = k \<and> older_than p c" for k
      using that e by force
    then show ?case using ls e d sub by (intro exI [of _ out] exI [of _ True]) auto
  next
    assume "\<exists>c \<in> set out. length out = page_limit f \<and> nxt = cursor (listing_key c) \<and> (\<forall>x \<in> set out. listing_key c \<le> listing_key x) \<and>
         (\<forall>x \<in> set (rows f s). older_than p x \<longrightarrow> x \<in> set out \<or> listing_key x < listing_key c)"
    then obtain c where c: "c \<in> set out" "nxt = cursor (listing_key c)" "\<And>x. x \<in> set out \<Longrightarrow> listing_key c \<le> listing_key x"
      "\<And>x. x \<in> set (rows f s) \<Longrightarrow> older_than p x \<Longrightarrow> x \<in> set out \<or> listing_key x < listing_key c" by blast
    let ?f = "f\<lparr>cf_Cursor := nxt\<rparr>" and ?p = "Some (listing_key c)"
    have cin: "c \<in> set (rows f s)" "older_than p c" using c(1) sub by auto
    have sa: "starts_at ?f ?p" using cin oks c(2) by (auto simp: starts_at_def rows_cursor)
    obtain cs fin where w: "list_walk list ?f ss = Inr (cs, fin)" "descending cs"
      "\<And>x. x \<in> set cs \<Longrightarrow> older_than ?p x \<and> (\<exists>s \<in> set ss. x \<in> set (rows f s))"
      "fin \<Longrightarrow> \<forall>s \<in> set ss. \<exists>c \<in> set (rows f s). listing_key c = k \<and> older_than ?p c \<Longrightarrow> k \<in> listing_key ` set cs" for k
      using Cons.IH [OF _ sa] Cons.prems(1) unfolding rows_cursor by auto
    have older: "older_than p x" if "older_than ?p x" for x
      using that cin(2) by (cases p) (auto simp: older_than_def)
    have "descending (out @ cs)"
      using d w(2,3) c(3) unfolding descending_def sorted_wrt_append by (fastforce simp: older_than_def)
    moreover have "k \<in> listing_key ` set (out @ cs)"
      if k: "fin" "\<forall>s' \<in> set (s # ss). \<exists>x \<in> set (rows f s'). listing_key x = k \<and> older_than p x" for k
    proof (cases "k < listing_key c")
      case True
      then have "\<forall>s' \<in> set ss. \<exists>x \<in> set (rows f s'). listing_key x = k \<and> older_than ?p x" using k(2) by (fastforce simp: older_than_def)
      then show ?thesis using w(4) [OF k(1), of k] by (simp add: image_Un)
    next
      case False
      obtain x where "x \<in> set (rows f s)" "listing_key x = k" "older_than p x" using k(2) by auto
      then show ?thesis using c(4) [of x] False by auto
    qed
    ultimately show ?case
      using ls w(1,3) c(2) cursor_nonempty older sub by (intro exI [of _ "out @ cs"] exI [of _ fin]) auto
  qed
qed (auto simp: descending_def intro: exI [of _ False])

text \<open>On a state that does not change, as many pages as there are codes, and one, reach the end.\<close>

lemma walk_ends:
  assumes "ok s" "starts_at f p" "length (filter (older_than p) (rows f s)) < n"
  shows "\<exists>cs. list_walk list f (replicate n s) = Inr (cs, True)"
  using assms(2,3)
proof (induction n arbitrary: f p)
  case (Suc n)
  obtain out nxt where pg: "page_after cursor (page_limit f) p (rows f s) = (out, nxt)" by (cases "page_after cursor (page_limit f) p (rows f s)") auto
  have ls: "list f s = Inr (out, nxt)" using list_page [of s f p] Suc.prems assms(1) pg by simp
  note pc = page_cases [OF distinct_keys [OF assms(1)] page_limit_pos pg]
  from pc(3) show ?case
  proof
    assume "\<exists>c \<in> set out. length out = page_limit f \<and> nxt = cursor (listing_key c) \<and> (\<forall>x \<in> set out. listing_key c \<le> listing_key x) \<and>
         (\<forall>x \<in> set (rows f s). older_than p x \<longrightarrow> x \<in> set out \<or> listing_key x < listing_key c)"
    then obtain c where c: "c \<in> set out" "nxt = cursor (listing_key c)" by blast
    let ?f = "f\<lparr>cf_Cursor := nxt\<rparr>" and ?p = "Some (listing_key c)"
    have cin: "c \<in> set (rows f s)" "older_than p c" using c(1) pc(2) by auto
    have sa: "starts_at ?f ?p" using cin assms(1) c(2) by (auto simp: starts_at_def rows_cursor)
    have "length (filter (older_than ?p) (rows f s)) < length (filter (older_than p) (rows f s))"
    proof -
      have "filter (older_than ?p) (rows f s) = filter (older_than ?p) (filter (older_than p) (rows f s))"
        using cin(2) by (cases p) (auto simp: older_than_def intro!: filter_cong)
      then show ?thesis using length_filter_less [of c "filter (older_than p) (rows f s)" "older_than ?p"] cin by (simp add: older_than_def)
    qed
    then obtain cs where "list_walk list ?f (replicate n s) = Inr (cs, True)"
      using Suc.IH [OF sa] Suc.prems(2) by (auto simp: rows_cursor)
    then show ?case using ls c(2) cursor_nonempty by simp
  qed (use ls in simp)
qed simp

end

end
