(* ===== verification/Sqlite.thy ===== *)
theory Sqlite
  imports Listing
begin

text \<open>
  The SQLite driver, \<^verbatim>\<open>src/internal/store/sqlite/sqlite.go\<close>, over the schema of
  \<^verbatim>\<open>src/internal/store/migrations\<close>. A table is the list of its rows; a statement is a
  function on the tables, with the constraints of the schema (primary keys, the partial
  and case-insensitive unique indexes, foreign keys) checked where the engine checks them.

  Rows hold the Go values. The driver writes an empty \<open>client_ref\<close>, password hash or logo
  key as NULL and reads NULL back as empty, so the row keeps the empty string and the
  partial index skips it; the styling profile, written with its code in one transaction
  and never updated, is kept in the code's row, with the list of profile identifiers for
  the primary key. A timestamp column holds the time rounded down to microseconds, as a text of
  fixed width; a row keeps the time itself, and \<open>fmtTime\<close> is what the rounding does to it, since the
  texts are ordered as the times are (\<open>Format_ts_order\<close>). \<open>ListCodes\<close>, whose bounds come from the
  caller, compares the texts.

  What the engine decides is a parameter \<open>engine\<close>: which violated constraint it reports
  when a row violates several, and whether the database can be reached at all.
\<close>

subsection \<open>The database\<close>

record db =
  t_users :: "user list"
  t_tokens :: "api_token list"
  t_styling :: "string list"
  t_codes :: "code list"
  t_reservations :: "alias_reservation list"
  t_events :: "(nat \<times> scan_event) list"
  next_event :: nat
  t_rollups :: "rollup_delta list"

definition empty_db :: db where
  "empty_db = \<lparr>t_users = [], t_tokens = [], t_styling = [], t_codes = [], t_reservations = [],
     t_events = [], next_event = 1, t_rollups = []\<rparr>"

datatype native_error = ErrNoRows | SQLiteError nat string | OtherError string

record engine =
  report :: "native_error list \<Rightarrow> native_error"
  outage :: "native_error option"

definition SQLITE_CONSTRAINT_UNIQUE :: nat where "SQLITE_CONSTRAINT_UNIQUE = 2067"
definition SQLITE_CONSTRAINT_PRIMARYKEY :: nat where "SQLITE_CONSTRAINT_PRIMARYKEY = 1555"
definition SQLITE_CONSTRAINT_FOREIGNKEY :: nat where "SQLITE_CONSTRAINT_FOREIGNKEY = 787"

definition unique_failed :: "string \<Rightarrow> native_error" where
  "unique_failed cols = SQLiteError SQLITE_CONSTRAINT_UNIQUE (''UNIQUE constraint failed: '' @ cols)"
definition primary_failed :: "string \<Rightarrow> native_error" where
  "primary_failed cols = SQLiteError SQLITE_CONSTRAINT_PRIMARYKEY (''UNIQUE constraint failed: '' @ cols)"
definition foreign_failed :: native_error where
  "foreign_failed = SQLiteError SQLITE_CONSTRAINT_FOREIGNKEY ''FOREIGN KEY constraint failed''"

text \<open>\<open>translate\<close>: native errors to the store's sentinels.\<close>

definition translate :: "native_error \<Rightarrow> store_error" where
  "translate err = (case err of
     ErrNoRows \<Rightarrow> ErrNotFound
   | SQLiteError n msg \<Rightarrow>
       (if n = SQLITE_CONSTRAINT_UNIQUE \<or> n = SQLITE_CONSTRAINT_PRIMARYKEY then
          (if strings_Contains msg ''codes.short_code'' \<or> strings_Contains msg ''alias_reservations.short_code''
           then ErrAliasTaken
           else if strings_Contains msg ''codes.client_ref'' then ErrClientRefTaken
           else ErrConflict)
        else if n = SQLITE_CONSTRAINT_FOREIGNKEY then ErrNotFound
        else StoreErr msg)
   | OtherError msg \<Rightarrow> StoreErr msg)"

subsection \<open>Value helpers\<close>

definition fmtTime :: "gotime \<Rightarrow> gotime" where
  "fmtTime t = Truncate t Microsecond"

definition sq_now :: "call_env \<Rightarrow> gotime" where
  "sq_now e = Truncate (now e) Microsecond"

text \<open>\<open>COLLATE NOCASE\<close> and SQL \<open>lower()\<close> fold the 26 ASCII letters only.\<close>

definition nocase :: "string \<Rightarrow> string" where
  "nocase s = map ascii_lower s"

definition not_deleted :: "code \<Rightarrow> bool" where
  "not_deleted c = (code_State c \<noteq> CodeDeleted)"

text \<open>A statement on a reachable database: the outage is reported before anything happens,
  a failing statement or transaction leaves the tables as they were.\<close>

definition withTx :: "engine \<Rightarrow> (db \<Rightarrow> store_error + 'a) \<Rightarrow> db \<Rightarrow> store_error + 'a" where
  "withTx eng f s = (case outage eng of Some e \<Rightarrow> Inl (translate e) | None \<Rightarrow> f s)"

definition violated :: "engine \<Rightarrow> native_error list \<Rightarrow> store_error + unit" where
  "violated eng vs = (if vs = [] then Inr () else Inl (translate (report eng vs)))"

subsection \<open>Users\<close>

definition user_row :: "call_env \<Rightarrow> user \<Rightarrow> user" where
  "user_row e u =
    (let u' = (if user_CreatedAt u = 0 then u\<lparr>user_CreatedAt := sq_now e\<rparr> else u)
     in u'\<lparr>user_CreatedAt := fmtTime (user_CreatedAt u'), user_LastLoginAt := map_option fmtTime (user_LastLoginAt u')\<rparr>)"

definition sq_CreateUser :: "engine \<Rightarrow> call_env \<Rightarrow> user \<Rightarrow> db \<Rightarrow> store_error + db" where
  "sq_CreateUser eng e u s =
    (if user_ID u = '''' \<or> user_Email u = '''' then Inl (StoreErr ''sqlite: user id and email are required'')
     else withTx eng (\<lambda>s.
               case violated eng
                 ((if user_ID u \<in> user_ID ` set (t_users s) then [primary_failed ''users.id''] else []) @
                  (if nocase (user_Email u) \<in> (nocase \<circ> user_Email) ` set (t_users s)
                   then [unique_failed ''users.email''] else []))
               of Inl err \<Rightarrow> Inl err | Inr _ \<Rightarrow> Inr (s\<lparr>t_users := t_users s @ [user_row e u]\<rparr>)) s)"

definition sq_GetUserByID :: "engine \<Rightarrow> string \<Rightarrow> db \<Rightarrow> store_error + user" where
  "sq_GetUserByID eng uid = withTx eng (\<lambda>s.
     case find (\<lambda>u. user_ID u = uid) (t_users s) of None \<Rightarrow> Inl (translate ErrNoRows) | Some u \<Rightarrow> Inr u)"

definition sq_GetUserByEmail :: "engine \<Rightarrow> string \<Rightarrow> db \<Rightarrow> store_error + user" where
  "sq_GetUserByEmail eng email = withTx eng (\<lambda>s.
     case find (\<lambda>u. nocase (user_Email u) = nocase email) (t_users s) of
       None \<Rightarrow> Inl (translate ErrNoRows) | Some u \<Rightarrow> Inr u)"

definition sq_BumpTokenVersion :: "engine \<Rightarrow> string \<Rightarrow> db \<Rightarrow> store_error + (int \<times> db)" where
  "sq_BumpTokenVersion eng uid = withTx eng (\<lambda>s.
     case find (\<lambda>u. user_ID u = uid) (t_users s) of
       None \<Rightarrow> Inl (translate ErrNoRows)
     | Some u \<Rightarrow> Inr (user_TokenVersion u + 1,
         s\<lparr>t_users := map (\<lambda>x. if user_ID x = uid then x\<lparr>user_TokenVersion := user_TokenVersion x + 1\<rparr> else x)
              (t_users s)\<rparr>))"

definition sq_CountUsers :: "engine \<Rightarrow> db \<Rightarrow> store_error + int" where
  "sq_CountUsers eng = withTx eng (\<lambda>s. Inr (int (length (t_users s))))"

subsection \<open>Tokens\<close>

definition token_row :: "call_env \<Rightarrow> api_token \<Rightarrow> api_token" where
  "token_row e t =
    (let t' = (if tok_CreatedAt t = 0 then t\<lparr>tok_CreatedAt := sq_now e\<rparr> else t)
     in t'\<lparr>tok_CreatedAt := fmtTime (tok_CreatedAt t'), tok_LastUsedAt := map_option fmtTime (tok_LastUsedAt t'),
           tok_RevokedAt := map_option fmtTime (tok_RevokedAt t'), tok_ExpiresAt := map_option fmtTime (tok_ExpiresAt t')\<rparr>)"

definition sq_CreateToken :: "engine \<Rightarrow> call_env \<Rightarrow> api_token \<Rightarrow> db \<Rightarrow> store_error + db" where
  "sq_CreateToken eng e t s =
    (if tok_ID t = '''' \<or> tok_UserID t = '''' then Inl (StoreErr ''sqlite: token id and user id are required'')
     else withTx eng (\<lambda>s.
               case violated eng
                 ((if tok_ID t \<in> tok_ID ` set (t_tokens s) then [primary_failed ''api_tokens.id''] else []) @
                  (if tok_UserID t \<notin> user_ID ` set (t_users s) then [foreign_failed] else []))
               of Inl err \<Rightarrow> Inl err | Inr _ \<Rightarrow> Inr (s\<lparr>t_tokens := t_tokens s @ [token_row e t]\<rparr>)) s)"

definition sq_GetTokenByID :: "engine \<Rightarrow> string \<Rightarrow> db \<Rightarrow> store_error + api_token" where
  "sq_GetTokenByID eng tid = withTx eng (\<lambda>s.
     case find (\<lambda>t. tok_ID t = tid) (t_tokens s) of None \<Rightarrow> Inl (translate ErrNoRows) | Some t \<Rightarrow> Inr t)"

definition sq_ListTokens :: "engine \<Rightarrow> string \<Rightarrow> db \<Rightarrow> store_error + api_token list" where
  "sq_ListTokens eng uid = withTx eng (\<lambda>s.
     Inr (sort_key (\<lambda>t. (tok_CreatedAt t, tok_ID t)) (filter (\<lambda>t. tok_UserID t = uid) (t_tokens s))))"

definition sq_RevokeToken :: "engine \<Rightarrow> call_env \<Rightarrow> string \<Rightarrow> string \<Rightarrow> db \<Rightarrow> store_error + db" where
  "sq_RevokeToken eng e tid uid = withTx eng (\<lambda>s.
     let hit = (\<lambda>t. tok_ID t = tid \<and> tok_UserID t = uid) in
     if \<not> list_ex hit (t_tokens s) then Inl ErrNotFound
     else Inr (s\<lparr>t_tokens := map (\<lambda>t. if hit t
            then t\<lparr>tok_RevokedAt := (case tok_RevokedAt t of None \<Rightarrow> Some (fmtTime (sq_now e)) | r \<Rightarrow> r)\<rparr>
            else t) (t_tokens s)\<rparr>))"

definition sq_TouchTokenLastUsed :: "engine \<Rightarrow> string \<Rightarrow> gotime \<Rightarrow> db \<Rightarrow> store_error + db" where
  "sq_TouchTokenLastUsed eng tid t0 = withTx eng (\<lambda>s.
     if \<not> list_ex (\<lambda>t. tok_ID t = tid) (t_tokens s) then Inl ErrNotFound
     else Inr (s\<lparr>t_tokens := map (\<lambda>t. if tok_ID t = tid then t\<lparr>tok_LastUsedAt := Some (fmtTime t0)\<rparr> else t)
            (t_tokens s)\<rparr>))"

subsection \<open>Codes\<close>

text \<open>\<open>newCodeRow\<close>: every defaulted value resolved before the transaction.\<close>

record code_row =
  cr_c :: code
  cr_shortCode :: string
  cr_created :: gotime
  cr_updated :: gotime
  cr_state :: string
  cr_mode :: string
  cr_styling :: styling

definition newCodeRow :: "call_env \<Rightarrow> code \<Rightarrow> store_error + code_row" where
  "newCodeRow e c =
    (if code_ID c = '''' \<or> ShortCode c = '''' \<or> code_UserID c = ''''
     then Inl (StoreErr ''sqlite: code id, short code and user id are required'')
     else let created = (if code_CreatedAt c = 0 then sq_now e else code_CreatedAt c);
              updated = (if code_UpdatedAt c = 0 then created else code_UpdatedAt c)
          in Inr \<lparr>cr_c = c, cr_shortCode = strings_ToLower (ShortCode c), cr_created = created,
               cr_updated = updated,
               cr_state = (if code_State c = '''' then CodeActive else code_State c),
               cr_mode = (if code_Mode c = '''' then ModeDynamic else code_Mode c),
               cr_styling = (if sty_ID (code_Styling c) = ''''
                 then (code_Styling c)\<lparr>sty_ID := NewID ''sty'' (rnd e)\<rparr> else code_Styling c)\<rparr>)"

definition reflect :: "code_row \<Rightarrow> code" where
  "reflect r = (cr_c r)\<lparr>ShortCode := cr_shortCode r, code_Version := 1, code_State := cr_state r,
     code_Mode := cr_mode r, code_Styling := cr_styling r,
     code_CreatedAt := Truncate (cr_created r) Microsecond,
     code_UpdatedAt := Truncate (cr_updated r) Microsecond, code_DeletedAt := None\<rparr>"

text \<open>The row the three statements of \<open>insertCode\<close> write.\<close>

definition stored_code :: "code_row \<Rightarrow> code" where
  "stored_code r = (cr_c r)\<lparr>ShortCode := cr_shortCode r, code_Version := 1, code_State := cr_state r,
     code_Mode := cr_mode r, code_Styling := cr_styling r,
     code_CreatedAt := fmtTime (cr_created r), code_UpdatedAt := fmtTime (cr_updated r),
     code_DeletedAt := None\<rparr>"

definition styling_violations :: "styling \<Rightarrow> db \<Rightarrow> native_error list" where
  "styling_violations sty s =
    (if sty_ID sty \<in> set (t_styling s) then [primary_failed ''styling_profiles.id''] else [])"

definition code_violations :: "code \<Rightarrow> db \<Rightarrow> native_error list" where
  "code_violations c s =
    (if list_ex (\<lambda>r. code_ID r = code_ID c) (t_codes s) then [primary_failed ''codes.id''] else []) @
    (if not_deleted c \<and> list_ex (\<lambda>r. not_deleted r \<and> nocase (ShortCode r) = nocase (ShortCode c)) (t_codes s)
     then [unique_failed ''codes.short_code''] else []) @
    (if ClientRef c \<noteq> '''' \<and>
        list_ex (\<lambda>r. code_UserID r = code_UserID c \<and> ClientRef r = ClientRef c) (t_codes s)
     then [unique_failed ''codes.user_id, codes.client_ref''] else []) @
    (if \<not> list_ex (\<lambda>u. user_ID u = code_UserID c) (t_users s) then [foreign_failed] else [])"

text \<open>The upsert on \<open>alias_reservations\<close>: a new row, or a released row re-armed; no row is
  affected when the reservation is still held.\<close>

definition upsert_reservation ::
  "string \<Rightarrow> string \<Rightarrow> gotime \<Rightarrow> alias_reservation list \<Rightarrow> alias_reservation list option" where
  "upsert_reservation sc cid t rs =
    (case find (\<lambda>r. ar_ShortCode r = sc) rs of
       None \<Rightarrow> Some (rs @ [\<lparr>ar_ShortCode = sc, ar_CodeID = cid, ReservedAt = t, ReleasedAt = None\<rparr>])
     | Some r \<Rightarrow>
         (if ReleasedAt r \<noteq> None
          then Some (map (\<lambda>r. if ar_ShortCode r = sc
                 then r\<lparr>ar_CodeID := cid, ReservedAt := t, ReleasedAt := None\<rparr> else r) rs)
          else None))"

definition insertCode :: "engine \<Rightarrow> call_env \<Rightarrow> code_row \<Rightarrow> db \<Rightarrow> store_error + db" where
  "insertCode eng e r s =
    (case violated eng (styling_violations (cr_styling r) s) of Inl err \<Rightarrow> Inl err | Inr _ \<Rightarrow>
     (let s1 = s\<lparr>t_styling := t_styling s @ [sty_ID (cr_styling r)]\<rparr> in
      case violated eng (code_violations (stored_code r) s1) of Inl err \<Rightarrow> Inl err | Inr _ \<Rightarrow>
      (let s2 = s1\<lparr>t_codes := t_codes s1 @ [stored_code r]\<rparr> in
       case upsert_reservation (cr_shortCode r) (code_ID (cr_c r)) (fmtTime (sq_now e)) (t_reservations s2) of
         None \<Rightarrow> Inl ErrAliasTaken
       | Some rs \<Rightarrow> Inr (s2\<lparr>t_reservations := rs\<rparr>))))"

definition sq_CreateCodes :: "engine \<Rightarrow> call_env \<Rightarrow> code list \<Rightarrow> db \<Rightarrow> store_error + (code list \<times> db)" where
  "sq_CreateCodes eng e cs s =
    (if cs = [] then Inr ([], s)
     else case mapM (\<lambda>(i, c). newCodeRow (row_env e i) c) (enumerate 0 cs) of
       Inl err \<Rightarrow> Inl err
     | Inr rows \<Rightarrow>
         (case withTx eng (foldM (insertCode eng e) rows) s of
            Inl err \<Rightarrow> Inl err
          | Inr s' \<Rightarrow> Inr (map reflect rows, s')))"

definition holder :: "string \<Rightarrow> db \<Rightarrow> string option" where
  "holder sc s = map_option ar_CodeID
     (find (\<lambda>r. ar_ShortCode r = nocase sc \<and> ReleasedAt r = None) (t_reservations s))"

definition resolves :: "string \<Rightarrow> db \<Rightarrow> code \<Rightarrow> bool" where
  "resolves sc s c = (nocase (ShortCode c) = nocase sc \<and>
     (not_deleted c \<or> Some (code_ID c) = holder sc s))"

definition sq_GetCodeByShortCode :: "engine \<Rightarrow> string \<Rightarrow> db \<Rightarrow> store_error + code" where
  "sq_GetCodeByShortCode eng sc = withTx eng (\<lambda>s.
     case sort_key (\<lambda>c. (\<not> not_deleted c, - code_CreatedAt c)) (filter (resolves sc s) (t_codes s)) of
       [] \<Rightarrow> Inl (translate ErrNoRows) | c # _ \<Rightarrow> Inr c)"

definition sq_GetCodeByID :: "engine \<Rightarrow> string \<Rightarrow> string \<Rightarrow> db \<Rightarrow> store_error + code" where
  "sq_GetCodeByID eng cid uid = withTx eng (\<lambda>s.
     case find (\<lambda>c. code_ID c = cid \<and> code_UserID c = uid) (t_codes s) of
       None \<Rightarrow> Inl (translate ErrNoRows) | Some c \<Rightarrow> Inr c)"

definition sq_GetCodeByClientRef :: "engine \<Rightarrow> string \<Rightarrow> string \<Rightarrow> db \<Rightarrow> store_error + code" where
  "sq_GetCodeByClientRef eng uid ref s =
    (if ref = '''' then Inl ErrNotFound
     else withTx eng (\<lambda>s.
       case find (\<lambda>c. code_UserID c = uid \<and> ClientRef c = ref) (t_codes s) of
         None \<Rightarrow> Inl (translate ErrNoRows) | Some c \<Rightarrow> Inr c) s)"

text \<open>\<open>ListCodes\<close>: the cursor is the text of the creation time, a zero byte and the identifier of
  the last code of a page. The texts of wrapped errors are left out.\<close>

definition fmtTime_text :: "gotime \<Rightarrow> string" where
  "fmtTime_text t = Format_ts (Truncate t Microsecond)"

definition sq_encodeCursor :: "cursorPos \<Rightarrow> string" where
  "sq_encodeCursor p = base64_EncodeToString base64url (fmtTime_text (cp_createdAt p) @ [CHR 0x00] @ cp_id p)"

definition sq_decodeCursor :: "string \<Rightarrow> store_error + cursorPos" where
  "sq_decodeCursor s = (case base64_DecodeString base64url s of
     None \<Rightarrow> Inl (StoreErr ''sqlite: invalid cursor'')
   | Some raw \<Rightarrow> (case cut_nul raw of
       None \<Rightarrow> Inl (StoreErr ''sqlite: invalid cursor'')
     | Some (ts, cid) \<Rightarrow>
         if cid = '''' then Inl (StoreErr ''sqlite: invalid cursor'')
         else (case time_Parse ts of
             None \<Rightarrow> Inl (StoreErr ''sqlite: invalid cursor: bad timestamp'')
           | Some t \<Rightarrow> Inr \<lparr>cp_createdAt = t, cp_id = cid\<rparr>)))"

definition sq_matches :: "code_filter \<Rightarrow> code \<Rightarrow> bool" where
  "sq_matches f c = (code_UserID c = cf_UserID f \<and> not_deleted c \<and>
     (case CreatedAfter f of None \<Rightarrow> True | Some t \<Rightarrow> fmtTime_text t < fmtTime_text (code_CreatedAt c)) \<and>
     (case CreatedBefore f of None \<Rightarrow> True | Some t \<Rightarrow> fmtTime_text (code_CreatedAt c) < fmtTime_text t) \<and>
     (cf_Destination f = '''' \<or> strings_Contains (nocase (Destination c)) (nocase (cf_Destination f))))"

definition sq_ListCodes :: "engine \<Rightarrow> code_filter \<Rightarrow> db \<Rightarrow> store_error + (code list \<times> string)" where
  "sq_ListCodes eng f s =
    (let limit = (if cf_Limit f \<le> 0 then defaultListLimit else cf_Limit f) in
     case (if cf_Cursor f = '''' then Inr None else map_sum id Some (sq_decodeCursor (cf_Cursor f))) of
       Inl err \<Rightarrow> Inl err
     | Inr p \<Rightarrow> withTx eng (\<lambda>s.
         let after = (\<lambda>c. case p of None \<Rightarrow> True
               | Some p \<Rightarrow> fmtTime_text (code_CreatedAt c) < fmtTime_text (cp_createdAt p) \<or>
                   fmtTime_text (code_CreatedAt c) = fmtTime_text (cp_createdAt p) \<and> code_ID c < cp_id p);
             out = take (nat (limit + 1)) (rev (sort_key (\<lambda>c. (fmtTime_text (code_CreatedAt c), code_ID c))
               (filter (\<lambda>c. sq_matches f c \<and> after c) (t_codes s))))
         in if limit < int (length out)
            then let out = take (nat limit) out; final = out ! (length out - 1)
                 in Inr (out, sq_encodeCursor \<lparr>cp_createdAt = code_CreatedAt final, cp_id = code_ID final\<rparr>)
            else Inr (out, '''')) s)"

definition ownedExists :: "string \<Rightarrow> string \<Rightarrow> db \<Rightarrow> bool" where
  "ownedExists cid uid s = list_ex (\<lambda>c. code_ID c = cid \<and> code_UserID c = uid) (t_codes s)"

text \<open>A guarded \<open>UPDATE codes\<close>: the rows it hits are rewritten; when none is, the caller
  tells a missing or foreign row from a conflict.\<close>

definition update_codes :: "(code \<Rightarrow> bool) \<Rightarrow> (code \<Rightarrow> code) \<Rightarrow> db \<Rightarrow> db" where
  "update_codes g f s = s\<lparr>t_codes := map (\<lambda>c. if g c then f c else c) (t_codes s)\<rparr>"

definition guarded_update ::
  "(code \<Rightarrow> bool) \<Rightarrow> (code \<Rightarrow> code) \<Rightarrow> string \<Rightarrow> string \<Rightarrow> (store_error + db) \<Rightarrow> db \<Rightarrow> store_error + db" where
  "guarded_update g f cid uid otherwise s =
    (if list_ex g (t_codes s) then Inr (update_codes g f s)
     else if \<not> ownedExists cid uid s then Inl ErrNotFound
     else otherwise)"

definition sq_UpdateDestination ::
  "engine \<Rightarrow> call_env \<Rightarrow> string \<Rightarrow> string \<Rightarrow> string \<Rightarrow> int \<Rightarrow> db \<Rightarrow> store_error + db" where
  "sq_UpdateDestination eng e cid uid dest expectedVersion = withTx eng (\<lambda>s.
     guarded_update
       (\<lambda>c. code_ID c = cid \<and> code_UserID c = uid \<and> code_Version c = expectedVersion \<and> not_deleted c)
       (\<lambda>c. c\<lparr>Destination := dest, code_Version := code_Version c + 1, code_UpdatedAt := fmtTime (sq_now e)\<rparr>)
       cid uid (Inl ErrConflict) s)"

definition sq_SetCodeState ::
  "engine \<Rightarrow> call_env \<Rightarrow> string \<Rightarrow> string \<Rightarrow> string \<Rightarrow> db \<Rightarrow> store_error + db" where
  "sq_SetCodeState eng e cid uid state s =
    (if state = CodeDeleted then Inl (StoreErr ''sqlite: use DeleteCode to delete'')
     else if state \<noteq> CodeActive \<and> state \<noteq> CodeDisabled then Inl (StoreErr (''sqlite: unknown state '' @ state))
     else withTx eng (\<lambda>s.
       guarded_update
         (\<lambda>c. code_ID c = cid \<and> code_UserID c = uid \<and> not_deleted c)
         (\<lambda>c. c\<lparr>code_State := state, code_Version := code_Version c + 1, code_UpdatedAt := fmtTime (sq_now e)\<rparr>)
         cid uid (Inl ErrConflict) s) s)"

definition sq_DeleteCode :: "engine \<Rightarrow> call_env \<Rightarrow> string \<Rightarrow> string \<Rightarrow> db \<Rightarrow> store_error + db" where
  "sq_DeleteCode eng e cid uid = withTx eng (\<lambda>s.
     let ts = fmtTime (sq_now e) in
     guarded_update
       (\<lambda>c. code_ID c = cid \<and> code_UserID c = uid \<and> not_deleted c)
       (\<lambda>c. c\<lparr>code_State := CodeDeleted, code_DeletedAt := Some ts, code_Version := code_Version c + 1,
              code_UpdatedAt := ts\<rparr>)
       cid uid (Inr s) s)"

subsection \<open>Aliases\<close>

definition sq_IsAliasAvailable :: "engine \<Rightarrow> string \<Rightarrow> db \<Rightarrow> store_error + bool" where
  "sq_IsAliasAvailable eng sc = withTx eng (\<lambda>s.
     Inr (length (filter (\<lambda>c. nocase (ShortCode c) = nocase sc \<and> not_deleted c) (t_codes s)) +
          length (filter (\<lambda>r. ar_ShortCode r = nocase sc \<and> ReleasedAt r = None) (t_reservations s)) = 0))"

definition sq_ReleaseAlias :: "engine \<Rightarrow> call_env \<Rightarrow> string \<Rightarrow> db \<Rightarrow> store_error + db" where
  "sq_ReleaseAlias eng e sc s = (let key = strings_ToLower sc in
     withTx eng (\<lambda>s.
       if \<not> list_ex (\<lambda>r. ar_ShortCode r = key \<and> ReleasedAt r = None) (t_reservations s) then Inl ErrNotFound
       else if 0 < length (filter (\<lambda>c. nocase (ShortCode c) = nocase key \<and> not_deleted c) (t_codes s))
       then Inl ErrConflict
       else Inr (s\<lparr>t_reservations := map (\<lambda>r. if ar_ShortCode r = key \<and> ReleasedAt r = None
              then r\<lparr>ReleasedAt := Some (fmtTime (sq_now e))\<rparr> else r) (t_reservations s)\<rparr>)) s)"

subsection \<open>Bulk iteration\<close>

definition sq_ForEachUser :: "engine \<Rightarrow> db \<Rightarrow> store_error + user list" where
  "sq_ForEachUser eng = withTx eng (\<lambda>s. Inr (sort_key (\<lambda>u. (user_CreatedAt u, user_ID u)) (t_users s)))"

definition sq_ForEachCode :: "engine \<Rightarrow> db \<Rightarrow> store_error + code list" where
  "sq_ForEachCode eng = withTx eng (\<lambda>s. Inr (sort_key (\<lambda>c. (code_CreatedAt c, code_ID c)) (t_codes s)))"

definition sq_ForEachRollup :: "engine \<Rightarrow> db \<Rightarrow> store_error + rollup_delta list" where
  "sq_ForEachRollup eng = withTx eng (\<lambda>s.
     Inr (sort_key (\<lambda>r. (rd_CodeID r, HourBucket r, Dimension r, rd_Value r)) (t_rollups s)))"

definition sq_ForEachReservation :: "engine \<Rightarrow> db \<Rightarrow> store_error + alias_reservation list" where
  "sq_ForEachReservation eng = withTx eng (\<lambda>s. Inr (sort_key ar_ShortCode (t_reservations s)))"

subsection \<open>A small database\<close>

text \<open>One user with one active code, for the concrete instances of the properties.\<close>

definition sample_engine :: engine where
  "sample_engine = \<lparr>report = hd, outage = None\<rparr>"

definition sample_env :: call_env where
  "sample_env = \<lparr>now = 63900000000000000000, rnd = (\<lambda>_. 0)\<rparr>"

definition sample_user :: user where
  "sample_user = \<lparr>user_ID = ''usr_1'', user_Email = ''a@example.com'', user_PasswordHash = '''',
     user_IsAdmin = False, user_TokenVersion = 1, user_Source = ''local'', user_CreatedAt = 1000,
     user_LastLoginAt = None\<rparr>"

definition sample_styling :: styling where
  "sample_styling = \<lparr>sty_ID = '''', FgColor = ''#000000'', BgColor = ''#ffffff'', ModuleShape = ''square'',
     MarginModules = 4, SizePx = 512, sty_ECLevel = ''M'', ECLevelEffective = ''M'', LogoBlobKey = '''',
     LogoScale = 0\<rparr>"

definition sample_code :: "string \<Rightarrow> string \<Rightarrow> code" where
  "sample_code cid sc = \<lparr>code_ID = cid, ShortCode = sc, IsAlias = True, code_UserID = ''usr_1'',
     code_Mode = ''dynamic'', ClientRef = '''', Destination = ''https://example.com/'', code_State = ''active'',
     code_Styling = sample_styling\<lparr>sty_ID := ''sty_'' @ cid\<rparr>, BlobKey = ''codes/x.png'', BlobETag = ''e'',
     code_Version = 1, code_CreatedAt = 1000, code_UpdatedAt = 1000, code_DeletedAt = None\<rparr>"

definition sample_db :: db where
  "sample_db = empty_db\<lparr>t_users := [sample_user], t_styling := [''sty_cod_1''],
     t_codes := [sample_code ''cod_1'' ''menu''],
     t_reservations := [\<lparr>ar_ShortCode = ''menu'', ar_CodeID = ''cod_1'', ReservedAt = 1000, ReleasedAt = None\<rparr>]\<rparr>"

lemmas sample_defs = sample_engine_def sample_env_def sample_user_def sample_styling_def sample_code_def
  sample_db_def empty_db_def

end
