(* ===== verification/Rollups.thy ===== *)
theory Rollups
  imports Store_Iface "HOL-Library.Product_Lexorder" "HOL-Library.List_Lexorder" "HOL-Library.Char_ord"
begin

text \<open>
  The arithmetic of the analytics: \<open>BuildRollups\<close> of \<^verbatim>\<open>src/internal/analytics/rollup.go\<close>,
  which turns a batch of scan events into counter increments, and the aggregator and
  \<open>bucketStart\<close> of \<^verbatim>\<open>src/internal/store/sqlite/sqlite.go\<close>, which turn stored counters into a
  time series and breakdowns. The lemmas say what the counters of a batch add up to and
  that a series always adds up to the total.
\<close>

subsection \<open>BuildRollups\<close>

type_synonym rollup_key = "string \<times> gotime \<times> string \<times> string"

definition event_keys :: "scan_event \<Rightarrow> rollup_key list" where
  "event_keys ev = (let hour = Truncate (OccurredAt ev) Hour;
       bot = (if IsBot ev then ''true'' else ''false'') in
    [(ev_CodeID ev, hour, DimTotal, ''''),
     (ev_CodeID ev, hour, DimUAFamily, UAFamily ev),
     (ev_CodeID ev, hour, DimDeviceCategory, DeviceCategory ev),
     (ev_CodeID ev, hour, DimReferrerHost, ReferrerHost ev),
     (ev_CodeID ev, hour, DimIsBot, bot)])"

definition count_events :: "scan_event list \<Rightarrow> (rollup_key \<times> int) list" where
  "count_events evs = fold (\<lambda>ev counts. fold (\<lambda>k. al_bump k 1) (event_keys ev) counts) evs []"

definition delta_of :: "rollup_key \<times> int \<Rightarrow> rollup_delta" where
  "delta_of kn = (case kn of ((c, h, d, v), n) \<Rightarrow>
     \<lparr>rd_CodeID = c, HourBucket = h, Dimension = d, rd_Value = v, rd_Count = n\<rparr>)"

definition rollup_key_of :: "rollup_delta \<Rightarrow> rollup_key" where
  "rollup_key_of r = (rd_CodeID r, HourBucket r, Dimension r, rd_Value r)"

definition BuildRollups :: "scan_event list \<Rightarrow> rollup_delta list" where
  "BuildRollups evs = sort_key rollup_key_of (map delta_of (count_events evs))"

subsection \<open>Buckets\<close>

text \<open>Day number and weekday of a time; day 0 (1 January of year 1) was a Monday, and Go
  numbers the weekdays from Sunday = 0.\<close>

definition start_of_day :: "gotime \<Rightarrow> gotime" where
  "start_of_day t = Truncate t Day"

definition Weekday :: "gotime \<Rightarrow> int" where
  "Weekday t = (t div Day + 1) mod 7"

definition bucketStart :: "gotime \<Rightarrow> string \<Rightarrow> gotime" where
  "bucketStart t b =
    (if b = BucketHour then Truncate t Hour
     else if b = BucketWeek then
       (let d = start_of_day t; offset = (Weekday d + 6) mod 7 in d - offset * Day)
     else start_of_day t)"

subsection \<open>The aggregator\<close>

record aggregator =
  agg_bucket :: string
  agg_total :: int
  agg_series :: "(gotime \<times> int) list"
  agg_breakdown :: "((string \<times> string) \<times> int) list"

definition newAggregator :: "string \<Rightarrow> aggregator" where
  "newAggregator b = \<lparr>agg_bucket = b, agg_total = 0, agg_series = [], agg_breakdown = []\<rparr>"

definition agg_add :: "gotime \<Rightarrow> string \<Rightarrow> string \<Rightarrow> int \<Rightarrow> aggregator \<Rightarrow> aggregator" where
  "agg_add hour dm val n a =
    (if dm = DimTotal
     then a\<lparr>agg_total := agg_total a + n,
            agg_series := al_bump (bucketStart hour (agg_bucket a)) n (agg_series a)\<rparr>
     else a\<lparr>agg_breakdown := al_bump (dm, val) n (agg_breakdown a)\<rparr>)"

definition agg_result :: "aggregator \<Rightarrow> analytics_result" where
  "agg_result a =
    \<lparr>Total = agg_total a,
     Series = sort_key fst (agg_series a),
     Breakdowns = (\<lambda>dm.
       let vals = map (\<lambda>((d, v), n). (v, n)) (filter (\<lambda>((d, v), n). d = dm) (agg_breakdown a)) in
       if vals \<noteq> [] then Some (sort_key (\<lambda>(v, n). (- n, v)) vals)
       else if dm \<in> {DimUAFamily, DimDeviceCategory, DimReferrerHost, DimIsBot} then Some []
       else None)\<rparr>"

definition aggregate :: "string \<Rightarrow> rollup_delta list \<Rightarrow> aggregator" where
  "aggregate b rows = fold (\<lambda>r. agg_add (HourBucket r) (Dimension r) (rd_Value r) (rd_Count r)) rows
     (newAggregator b)"

subsection \<open>Lemmas: what a batch adds up to\<close>

lemma count_events_Nil [simp]: "count_events [] = []"
  by (simp add: count_events_def)

lemma count_events_snoc:
  "count_events (evs @ [ev]) = fold (\<lambda>k. al_bump k 1) (event_keys ev) (count_events evs)"
  by (simp add: count_events_def)

lemma al_sum_fold_bump:
  "al_sum P (fold (\<lambda>k. al_bump k 1) ks al) = al_sum P al + int (length (filter P ks))"
  by (induction ks arbitrary: al) auto

lemma al_sum_count_events:
  "al_sum P (count_events evs) = int (length (filter P (concat (map event_keys evs))))"
  by (induction evs rule: rev_induct) (simp_all add: count_events_snoc al_sum_fold_bump)

lemma distinct_fold_bump:
  "distinct (map fst al) \<Longrightarrow> distinct (map fst (fold (\<lambda>k. al_bump k 1) ks al))"
  by (induction ks arbitrary: al) (auto intro: distinct_al_bump)

lemma distinct_count_events: "distinct (map fst (count_events evs))"
  by (induction evs rule: rev_induct) (simp_all add: count_events_snoc distinct_fold_bump)

lemma keys_fold_bump: "fst ` set (fold (\<lambda>k. al_bump k 1) ks al) = set ks \<union> fst ` set al"
  by (induction ks arbitrary: al) (auto simp: keys_al_bump)

lemma keys_count_events: "fst ` set (count_events evs) = set (concat (map event_keys evs))"
  by (induction evs rule: rev_induct) (auto simp: count_events_snoc keys_fold_bump)

text \<open>The sum of the deltas of a rollup list over the keys a predicate selects.\<close>

definition rollup_sum :: "(rollup_key \<Rightarrow> bool) \<Rightarrow> rollup_delta list \<Rightarrow> int" where
  "rollup_sum P rs = al_sum P (map (\<lambda>r. (rollup_key_of r, rd_Count r)) rs)"

lemma rollup_sum_simps [simp]:
  "rollup_sum P [] = 0"
  "rollup_sum P (r # rs) = (if P (rollup_key_of r) then rd_Count r else 0) + rollup_sum P rs"
  "rollup_sum P (rs @ rs') = rollup_sum P rs + rollup_sum P rs'"
  by (simp_all add: rollup_sum_def)

lemma rollup_sum_sort [simp]: "rollup_sum P (sort_key f rs) = rollup_sum P rs"
proof -
  have "rollup_sum P (insort_key f x xs) = rollup_sum P (x # xs)" for x xs
    by (induction xs) auto
  then show ?thesis by (induction rs) simp_all
qed

lemma rollup_sum_delta_of: "rollup_sum P (map delta_of al) = al_sum P al"
  by (induction al) (auto simp: delta_of_def rollup_key_of_def split: prod.splits)

lemma rollup_sum_BuildRollups:
  "rollup_sum P (BuildRollups evs) = int (length (filter P (concat (map event_keys evs))))"
  by (simp add: BuildRollups_def rollup_sum_delta_of al_sum_count_events)

definition breakdown_dims :: "string set" where
  "breakdown_dims = {DimUAFamily, DimDeviceCategory, DimReferrerHost, DimIsBot}"

text \<open>Every event contributes exactly one key per dimension, so any selection by code and
  hour counts the same in each dimension as in the total.\<close>

definition in_dim :: "string \<Rightarrow> (string \<Rightarrow> gotime \<Rightarrow> bool) \<Rightarrow> rollup_key \<Rightarrow> bool" where
  "in_dim dm R k = (case k of (c, h, d, v) \<Rightarrow> d = dm \<and> R c h)"

lemma event_keys_one_per_dim:
  assumes "dm \<in> insert DimTotal breakdown_dims"
  shows "length (filter (in_dim dm R) (event_keys ev)) =
    (if R (ev_CodeID ev) (Truncate (OccurredAt ev) Hour) then 1 else 0)"
  using assms by (auto simp: breakdown_dims_def event_keys_def in_dim_def scan_consts Let_def)

lemma BuildRollups_balanced:
  assumes "dm \<in> breakdown_dims"
  shows "rollup_sum (in_dim dm R) (BuildRollups evs) = rollup_sum (in_dim DimTotal R) (BuildRollups evs)"
proof -
  have "length (filter (in_dim d R) (concat (map event_keys evs))) =
      length (filter (\<lambda>ev. R (ev_CodeID ev) (Truncate (OccurredAt ev) Hour)) evs)"
    if "d \<in> insert DimTotal breakdown_dims" for d
    using event_keys_one_per_dim [OF that] by (induction evs) auto
  then show ?thesis using assms by (simp add: rollup_sum_BuildRollups)
qed

subsection \<open>Lemmas: buckets\<close>

text \<open>The bucket of a week starts on a Monday: the offset arithmetic of the code is the
  rounding down to seven days, since day 0 was a Monday.\<close>

lemma bucketStart_week: "bucketStart t BucketWeek = Truncate t (7 * Day)"
proof -
  define k where "k = t div Day"
  have D: "(0::int) < Day" by (simp add: duration_defs)
  have d: "start_of_day t = k * Day"
    using D by (simp add: start_of_day_def Truncate_def k_def minus_mod_eq_div_mult)
  have w: "(Weekday (start_of_day t) + 6) mod 7 = k mod 7"
  proof -
    have "start_of_day t div Day = k" using d D by simp
    then have "Weekday (start_of_day t) = (k + 1) mod 7" by (simp add: Weekday_def)
    then show ?thesis by presburger
  qed
  have "t div (7 * Day) = k div 7"
    using D by (simp add: k_def zdiv_zmult2_eq [symmetric] mult.commute)
  then have "Truncate t (7 * Day) = (k - k mod 7) * Day"
    using D by (simp add: Truncate_def minus_mod_eq_mult_div minus_mod_eq_mult_div [of k] algebra_simps)
  then show ?thesis
    using w d by (simp add: bucketStart_def BucketWeek_def BucketHour_def Let_def algebra_simps)
qed

subsection \<open>Lemmas: the aggregator\<close>

lemma agg_add_bucket [simp]: "agg_bucket (agg_add h d v n a) = agg_bucket a"
  by (simp add: agg_add_def)

lemma aggregate_bucket [simp]: "agg_bucket (aggregate b rows) = b"
  by (induction rows rule: rev_induct) (simp_all add: aggregate_def newAggregator_def)

lemma aggregate_snoc:
  "aggregate b (rows @ [r]) = agg_add (HourBucket r) (Dimension r) (rd_Value r) (rd_Count r) (aggregate b rows)"
  by (simp add: aggregate_def)

lemma aggregate_Nil [simp]: "aggregate b [] = newAggregator b"
  by (simp add: aggregate_def)

lemma aggregate_total: "agg_total (aggregate b rows) = rollup_sum (in_dim DimTotal (\<lambda>_ _. True)) rows"
  by (induction rows rule: rev_induct)
    (auto simp: aggregate_snoc agg_add_def newAggregator_def in_dim_def rollup_key_of_def)

lemma aggregate_series: "al_sum P (agg_series (aggregate b rows)) =
   rollup_sum (in_dim DimTotal (\<lambda>_ h. P (bucketStart h b))) rows"
  by (induction rows rule: rev_induct)
    (auto simp: aggregate_snoc agg_add_def newAggregator_def in_dim_def rollup_key_of_def)

lemma aggregate_breakdown: "dm \<noteq> DimTotal \<Longrightarrow>
   al_sum (\<lambda>(d, v). d = dm) (agg_breakdown (aggregate b rows)) = rollup_sum (in_dim dm (\<lambda>_ _. True)) rows"
  by (induction rows rule: rev_induct)
    (auto simp: aggregate_snoc agg_add_def newAggregator_def in_dim_def rollup_key_of_def)

lemma aggregate_series_distinct: "distinct (map fst (agg_series (aggregate b rows)))"
  by (induction rows rule: rev_induct)
    (auto simp: aggregate_snoc agg_add_def newAggregator_def intro: distinct_al_bump)

lemma aggregate_series_keys:
  "fst ` set (agg_series (aggregate b rows)) = {bucketStart (HourBucket r) b | r. r \<in> set rows \<and> Dimension r = DimTotal}"
  by (induction rows rule: rev_induct)
    (auto simp: aggregate_snoc agg_add_def newAggregator_def keys_al_bump)

lemma sum_filter_al: "(\<Sum>x \<leftarrow> map (\<lambda>((d, v), n). (v, n)) (filter (\<lambda>((d, v), n). d = dm) al). snd x) =
   al_sum (\<lambda>(d, v). d = dm) al"
  by (induction al) auto

lemma sum_snd_sort: "(\<Sum>x \<leftarrow> sort_key f xs. snd x) = (\<Sum>x \<leftarrow> xs. snd (x :: 'a \<times> int))"
proof -
  have "(\<Sum>x \<leftarrow> insort_key f y ys. snd x) = snd y + (\<Sum>x \<leftarrow> ys. snd (x :: 'a \<times> int))" for y ys
    by (induction ys) auto
  then show ?thesis by (induction xs) simp_all
qed

lemma agg_result_breakdown_sum:
  assumes "dm \<in> breakdown_dims"
  shows "\<exists>vs. Breakdowns (agg_result (aggregate b rows)) dm = Some vs \<and>
    (\<Sum>x \<leftarrow> vs. snd x) = rollup_sum (in_dim dm (\<lambda>_ _. True)) rows"
proof -
  let ?vals = "map (\<lambda>((d, v), n). (v, n)) (filter (\<lambda>((d, v), n). d = dm) (agg_breakdown (aggregate b rows)))"
  have nt: "dm \<noteq> DimTotal" using assms by (auto simp: breakdown_dims_def scan_consts)
  have s: "(\<Sum>x \<leftarrow> ?vals. snd x) = rollup_sum (in_dim dm (\<lambda>_ _. True)) rows"
    using sum_filter_al aggregate_breakdown [OF nt] by metis
  show ?thesis
  proof (cases "?vals = []")
    case True
    then show ?thesis using s assms by (auto simp: agg_result_def breakdown_dims_def Let_def)
  next
    case False
    then show ?thesis using s by (auto simp: agg_result_def Let_def sum_snd_sort)
  qed
qed

end
