(* ===== verification/Sqlite_Analytics.thy ===== *)
theory Sqlite_Analytics
  imports Sqlite Rollups
begin

text \<open>
  The analytics tables of the SQLite driver: \<open>InsertScanBatch\<close>, \<open>QueryAnalytics\<close> and
  \<open>PruneScanEvents\<close> of \<^verbatim>\<open>src/internal/store/sqlite/sqlite.go\<close>. The properties are the ones the
  analytics page rests on: the breakdowns of a code over any range add up to its total, the
  series adds up to the total, and pruning raw events never changes an answer.
\<close>

definition insert_event :: "engine \<Rightarrow> scan_event \<Rightarrow> db \<Rightarrow> store_error + db" where
  "insert_event eng ev s =
    (case violated eng (if list_ex (\<lambda>c. code_ID c = ev_CodeID ev) (t_codes s) then [] else [foreign_failed]) of
       Inl err \<Rightarrow> Inl err
     | Inr _ \<Rightarrow> Inr (s\<lparr>t_events := t_events s @ [(next_event s, ev\<lparr>OccurredAt := fmtTime (OccurredAt ev)\<rparr>)],
                       next_event := Suc (next_event s)\<rparr>))"

text \<open>\<open>ON CONFLICT ... DO UPDATE SET count = scan_rollups.count + excluded.count\<close>.\<close>

fun upsert_rollup :: "rollup_delta \<Rightarrow> rollup_delta list \<Rightarrow> rollup_delta list" where
  "upsert_rollup r [] = [r]"
| "upsert_rollup r (x # xs) =
    (if rollup_key_of x = rollup_key_of r then x\<lparr>rd_Count := rd_Count x + rd_Count r\<rparr> # xs
     else x # upsert_rollup r xs)"

definition insert_rollup :: "engine \<Rightarrow> rollup_delta \<Rightarrow> db \<Rightarrow> store_error + db" where
  "insert_rollup eng r s =
    (let row = r\<lparr>HourBucket := fmtTime (Truncate (HourBucket r) Hour)\<rparr> in
     case violated eng (if list_ex (\<lambda>c. code_ID c = rd_CodeID r) (t_codes s) then [] else [foreign_failed]) of
       Inl err \<Rightarrow> Inl err
     | Inr _ \<Rightarrow> Inr (s\<lparr>t_rollups := upsert_rollup row (t_rollups s)\<rparr>))"

definition sq_InsertScanBatch :: "engine \<Rightarrow> scan_batch \<Rightarrow> db \<Rightarrow> store_error + db" where
  "sq_InsertScanBatch eng b s =
    (if Events b = [] \<and> Rollups b = [] then Inr s
     else if list_ex (\<lambda>ev. ev_CodeID ev = '''' \<or> OccurredAt ev = 0) (Events b)
     then Inl (StoreErr ''sqlite: event is malformed'')
     else if list_ex (\<lambda>r. rd_CodeID r = '''' \<or> Dimension r = '''' \<or> HourBucket r = 0) (Rollups b)
     then Inl (StoreErr ''sqlite: rollup is malformed'')
     else withTx eng (\<lambda>s.
       case foldM (insert_event eng) (Events b) s of
         Inl err \<Rightarrow> Inl err
       | Inr s1 \<Rightarrow> foldM (insert_rollup eng) (Rollups b) s1) s)"

definition query_rows :: "analytics_query \<Rightarrow> db \<Rightarrow> rollup_delta list" where
  "query_rows q s = filter (\<lambda>r. rd_CodeID r = aq_CodeID q \<and> fmtTime (aq_From q) \<le> HourBucket r \<and>
     HourBucket r < fmtTime (aq_To q)) (t_rollups s)"

definition sq_QueryAnalytics :: "engine \<Rightarrow> analytics_query \<Rightarrow> db \<Rightarrow> store_error + analytics_result" where
  "sq_QueryAnalytics eng q = withTx eng (\<lambda>s.
     let bucket = (if aq_Bucket q = '''' then BucketDay else aq_Bucket q)
     in Inr (agg_result (aggregate bucket (query_rows q s))))"

text \<open>The victims of a prune: the oldest \<open>limit\<close> events before the cut-off, ties by row id.\<close>

definition prune_victims :: "gotime \<Rightarrow> int \<Rightarrow> (nat \<times> scan_event) list \<Rightarrow> nat list" where
  "prune_victims before limit evs = take (nat limit)
     (map fst (sort_key (\<lambda>(i, ev). (OccurredAt ev, i)) (filter (\<lambda>(i, ev). OccurredAt ev < fmtTime before) evs)))"

definition sq_PruneScanEvents :: "engine \<Rightarrow> gotime \<Rightarrow> int \<Rightarrow> db \<Rightarrow> store_error + (int \<times> db)" where
  "sq_PruneScanEvents eng before limit s =
    (if limit \<le> 0 then Inr (0, s)
     else withTx eng (\<lambda>s.
       let vs = prune_victims before limit (t_events s);
           kept = filter (\<lambda>(i, ev). i \<notin> set vs) (t_events s)
       in Inr (int (length (t_events s)) - int (length kept), s\<lparr>t_events := kept\<rparr>)) s)"

subsection \<open>Lemmas\<close>

lemma withTx_Inr: "withTx eng f s = Inr r \<longleftrightarrow> outage eng = None \<and> f s = Inr r"
  by (auto simp: withTx_def split: option.splits)

lemma withTx_ok [simp]: "outage eng = None \<Longrightarrow> withTx eng f s = f s"
  by (simp add: withTx_def)

lemma violated_Inr [simp]: "violated eng vs = Inr u \<longleftrightarrow> vs = []"
  by (simp add: violated_def)

lemma rollup_sum_upsert [simp]:
  "rollup_sum P (upsert_rollup r rs) = rollup_sum P rs + (if P (rollup_key_of r) then rd_Count r else 0)"
  by (induction r rs rule: upsert_rollup.induct) (auto simp: rollup_key_of_def)

text \<open>The balance of a rollup table: in every dimension, any selection of codes and hours
  adds up to what it adds up to in the total.\<close>

definition balanced :: "rollup_delta list \<Rightarrow> bool" where
  "balanced rs = (\<forall>dm \<in> breakdown_dims. \<forall>R. rollup_sum (in_dim dm R) rs = rollup_sum (in_dim DimTotal R) rs)"

lemma insert_event_rollups: "insert_event eng ev s = Inr t \<Longrightarrow> t_rollups t = t_rollups s \<and> t_codes t = t_codes s"
  by (auto simp: insert_event_def split: sum.splits)

lemma foldM_insert_event_rollups:
  "foldM (insert_event eng) evs s = Inr t \<Longrightarrow> t_rollups t = t_rollups s \<and> t_codes t = t_codes s"
proof (induction evs arbitrary: s)
  case (Cons ev evs)
  then obtain u where "insert_event eng ev s = Inr u" "foldM (insert_event eng) evs u = Inr t"
    by (auto split: sum.splits)
  then show ?case using Cons.IH insert_event_rollups by metis
qed simp

definition stored_rollup :: "rollup_delta \<Rightarrow> rollup_delta" where
  "stored_rollup r = r\<lparr>HourBucket := fmtTime (Truncate (HourBucket r) Hour)\<rparr>"

lemma insert_rollup_rollups:
  "insert_rollup eng r s = Inr t \<Longrightarrow> t_rollups t = upsert_rollup (stored_rollup r) (t_rollups s)"
  by (auto simp: insert_rollup_def stored_rollup_def Let_def split: sum.splits)

lemma foldM_insert_rollup_sum:
  "foldM (insert_rollup eng) rs s = Inr t \<Longrightarrow>
   rollup_sum P (t_rollups t) = rollup_sum P (t_rollups s) + rollup_sum P (map stored_rollup rs)"
proof (induction rs arbitrary: s)
  case (Cons r rs)
  then obtain u where u: "insert_rollup eng r s = Inr u" "foldM (insert_rollup eng) rs u = Inr t"
    by (auto split: sum.splits)
  show ?case using Cons.IH [OF u(2)] by (simp add: insert_rollup_rollups [OF u(1)])
qed simp

lemma hour_stored: "fmtTime (Truncate t Hour) = Truncate t Hour"
proof -
  have "Truncate t Hour = 1000 * (3600000000 * (t div Hour))"
    by (simp add: Truncate_def minus_mod_eq_mult_div duration_defs)
  then have "Truncate t Hour mod 1000 = 0" by simp
  then show ?thesis unfolding fmtTime_def by (simp add: Truncate_def [of "Truncate t Hour"] Microsecond_def)
qed

lemma BuildRollups_hours: "r \<in> set (BuildRollups evs) \<Longrightarrow> \<exists>t. HourBucket r = Truncate t Hour"
proof -
  assume "r \<in> set (BuildRollups evs)"
  then obtain k n where kn: "(k, n) \<in> set (count_events evs)" "r = delta_of (k, n)"
    by (auto simp: BuildRollups_def)
  then have "k \<in> set (concat (map event_keys evs))" using keys_count_events by force
  then show ?thesis using kn(2) by (auto simp: event_keys_def delta_of_def Let_def)
qed

lemma stored_BuildRollups: "map stored_rollup (BuildRollups evs) = BuildRollups evs"
  by (rule map_idI) (auto simp: stored_rollup_def hour_stored dest!: BuildRollups_hours)

lemma sq_InsertScanBatch_sum:
  assumes "sq_InsertScanBatch eng b s = Inr t"
  shows "rollup_sum P (t_rollups t) = rollup_sum P (t_rollups s) + rollup_sum P (map stored_rollup (Rollups b))"
proof (cases "Events b = [] \<and> Rollups b = []")
  case True
  then show ?thesis using assms by (simp add: sq_InsertScanBatch_def)
next
  case False
  then obtain s1 where "foldM (insert_event eng) (Events b) s = Inr s1" "foldM (insert_rollup eng) (Rollups b) s1 = Inr t"
    using assms by (auto simp: sq_InsertScanBatch_def withTx_Inr split: if_splits sum.splits)
  then show ?thesis using foldM_insert_event_rollups foldM_insert_rollup_sum by metis
qed

lemma query_rows_sum:
  "rollup_sum (in_dim dm (\<lambda>_ _. True)) (query_rows q s) =
   rollup_sum (in_dim dm (\<lambda>c h. c = aq_CodeID q \<and> fmtTime (aq_From q) \<le> h \<and> h < fmtTime (aq_To q))) (t_rollups s)"
proof -
  have "rollup_sum (in_dim dm (\<lambda>_ _. True)) (filter (\<lambda>r. rd_CodeID r = aq_CodeID q \<and>
      fmtTime (aq_From q) \<le> HourBucket r \<and> HourBucket r < fmtTime (aq_To q)) rs) =
    rollup_sum (in_dim dm (\<lambda>c h. c = aq_CodeID q \<and> fmtTime (aq_From q) \<le> h \<and> h < fmtTime (aq_To q))) rs" for rs
    by (induction rs) (auto simp: in_dim_def rollup_key_of_def)
  then show ?thesis by (simp add: query_rows_def)
qed

subsection \<open>Pruning\<close>

definition event_age :: "nat \<times> scan_event \<Rightarrow> gotime \<times> nat" where
  "event_age x = (OccurredAt (snd x), fst x)"

definition expired_events :: "gotime \<Rightarrow> db \<Rightarrow> (nat \<times> scan_event) list" where
  "expired_events before s = sort_key event_age (filter (\<lambda>x. OccurredAt (snd x) < fmtTime before) (t_events s))"

lemma prune_victims_expired:
  "prune_victims before limit (t_events s) = map fst (take (nat limit) (expired_events before s))"
proof -
  have "(\<lambda>(i, ev). (OccurredAt ev, i)) = event_age" by (auto simp: event_age_def)
  then show ?thesis by (simp add: prune_victims_def expired_events_def take_map case_prod_beta')
qed

lemma expired_events_set: "set (expired_events before s) = {x \<in> set (t_events s). OccurredAt (snd x) < fmtTime before}"
  by (auto simp: expired_events_def)

lemma distinct_expired: "distinct (map fst (t_events s)) \<Longrightarrow> distinct (expired_events before s)"
  by (simp add: expired_events_def distinct_map)

lemma sorted_expired: "sorted (map event_age (expired_events before s))"
  by (simp add: expired_events_def)

text \<open>What one prune does to the event table: the victims are the first \<open>limit\<close> rows of
  the expired events in order of age.\<close>

lemma sq_PruneScanEvents_ok:
  assumes ids: "distinct (map fst (t_events s))" and "0 < limit"
    and run: "sq_PruneScanEvents eng before limit s = Inr (n, t)"
  defines "dead \<equiv> take (nat limit) (expired_events before s)"
  shows "t = s\<lparr>t_events := filter (\<lambda>x. x \<notin> set dead) (t_events s)\<rparr>" "n = int (length dead)"
proof -
  let ?vs = "prune_victims before limit (t_events s)"
  have sub: "set dead \<subseteq> set (t_events s)"
    using set_take_subset [of "nat limit" "expired_events before s"] by (auto simp: dead_def expired_events_set)
  have key: "(fst x \<in> set ?vs) = (x \<in> set dead)" if "x \<in> set (t_events s)" for x
  proof
    assume "fst x \<in> set ?vs"
    then obtain y where y: "y \<in> set dead" "fst y = fst x"
      by (auto simp only: prune_victims_expired dead_def set_map)
    then show "x \<in> set dead" using distinct_map_unique [OF ids, of y x] sub that by auto
  qed (auto simp: prune_victims_expired dead_def)
  have kept: "filter (\<lambda>(i, ev). i \<notin> set ?vs) (t_events s) = filter (\<lambda>x. x \<notin> set dead) (t_events s)"
    using key by (intro filter_cong) auto
  then show "t = s\<lparr>t_events := filter (\<lambda>x. x \<notin> set dead) (t_events s)\<rparr>"
    using run \<open>0 < limit\<close> by (auto simp: sq_PruneScanEvents_def withTx_Inr Let_def)
  have "n = int (length (t_events s)) - int (length (filter (\<lambda>x. x \<notin> set dead) (t_events s)))"
    using run \<open>0 < limit\<close> kept by (auto simp: sq_PruneScanEvents_def withTx_Inr Let_def)
  also have "\<dots> = int (length (filter (\<lambda>x. x \<in> set dead) (t_events s)))"
    using sum_length_filter_compl [of "\<lambda>x. x \<in> set dead" "t_events s"] by linarith
  also have "length (filter (\<lambda>x. x \<in> set dead) (t_events s)) = card (set dead)"
  proof -
    have "distinct (t_events s)" using ids by (simp add: distinct_map)
    moreover have "set (filter (\<lambda>x. x \<in> set dead) (t_events s)) = set dead" using sub by auto
    ultimately show ?thesis by (metis distinct_card distinct_filter)
  qed
  also have "\<dots> = length dead"
    using distinct_expired [OF ids] by (simp add: dead_def distinct_card)
  finally show "n = int (length dead)" .
qed

lemma sq_QueryAnalytics_rollups:
  "t_rollups t = t_rollups s \<Longrightarrow> sq_QueryAnalytics eng q t = sq_QueryAnalytics eng q s"
  by (simp add: sq_QueryAnalytics_def withTx_def query_rows_def Let_def split: option.splits)

subsection \<open>A database with scans\<close>

definition sample_event :: scan_event where
  "sample_event = \<lparr>ev_CodeID = ''cod_1'', OccurredAt = 63900000000000000000, UAFamily = ''Chrome'',
     DeviceCategory = ''mobile'', ReferrerHost = '''', IsBot = False\<rparr>"

definition sample_query :: analytics_query where
  "sample_query = \<lparr>aq_CodeID = ''cod_1'', aq_From = 63890000000000000000, aq_To = 63910000000000000000,
     aq_Bucket = ''week''\<rparr>"

definition sample_batch :: scan_batch where
  "sample_batch = \<lparr>Events = [sample_event], Rollups = BuildRollups [sample_event]\<rparr>"

definition scanned_db :: db where
  "scanned_db = sample_db\<lparr>t_events := [(1, sample_event), (2, sample_event\<lparr>OccurredAt := 63950000000000000000\<rparr>)],
     t_rollups := BuildRollups [sample_event]\<rparr>"

lemma balanced_BuildRollups: "balanced (BuildRollups evs)"
  using BuildRollups_balanced by (simp add: balanced_def)

lemma balanced_samples: "balanced (t_rollups sample_db)" "balanced (t_rollups scanned_db)"
  by (simp_all add: scanned_db_def balanced_BuildRollups) (simp add: balanced_def sample_defs)

subsection \<open>Properties\<close>

text \<open>Recording a batch of scans with the rollups the pipeline builds for it keeps the
  rollup table balanced: in each breakdown dimension every selection of codes and hours
  counts exactly the scans the total dimension counts.\<close>

lemma InsertScanBatch_keeps_balance:
  assumes "balanced (t_rollups s)"
    and "sq_InsertScanBatch eng \<lparr>Events = evs, Rollups = BuildRollups evs\<rparr> s = Inr t"
  shows "balanced (t_rollups t)"
  using assms(1) sq_InsertScanBatch_sum [OF assms(2)] BuildRollups_balanced
  by (simp add: balanced_def stored_BuildRollups)

text \<open>On a balanced table, whatever the range and the bucket size, each of the four
  breakdowns of an analytics answer adds up to its total, and so does the time series.\<close>

lemma balanced_answer_adds_up:
  assumes "balanced (t_rollups s)" and "sq_QueryAnalytics eng q s = Inr res" and "dm \<in> breakdown_dims"
  shows "(\<exists>vs. Breakdowns res dm = Some vs \<and> (\<Sum>x \<leftarrow> vs. snd x) = Total res) \<and>
    (\<Sum>x \<leftarrow> Series res. snd x) = Total res"
proof -
  obtain b where res: "res = agg_result (aggregate b (query_rows q s))"
    using assms(2) by (auto simp: sq_QueryAnalytics_def withTx_Inr Let_def)
  let ?A = "aggregate b (query_rows q s)"
  have "Total res = rollup_sum (in_dim DimTotal (\<lambda>_ _. True)) (query_rows q s)"
    by (simp add: res agg_result_def aggregate_total)
  also have "\<dots> = rollup_sum (in_dim dm (\<lambda>_ _. True)) (query_rows q s)"
    using assms(1,3) by (simp add: query_rows_sum balanced_def)
  finally have tot: "rollup_sum (in_dim dm (\<lambda>_ _. True)) (query_rows q s) = Total res" by simp
  have "(\<Sum>x \<leftarrow> Series res. snd x) = (\<Sum>x \<leftarrow> agg_series ?A. snd x)"
    by (simp add: res agg_result_def sum_snd_sort)
  also have "\<dots> = al_sum (\<lambda>_. True) (agg_series ?A)"
    by (rule al_sum_all)
  also have "\<dots> = Total res"
    by (simp add: aggregate_series res agg_result_def aggregate_total)
  finally show ?thesis using agg_result_breakdown_sum [OF assms(3)] tot res by metis
qed

text \<open>The series of an analytics answer is strictly increasing in time and every point
  starts a bucket: an hour, a UTC day, or a week that begins on a Monday.\<close>

lemma QueryAnalytics_series_sorted:
  assumes "sq_QueryAnalytics eng q s = Inr res"
  shows "sorted_wrt (<) (map fst (Series res)) \<and>
    (\<forall>t \<in> fst ` set (Series res). t = Truncate t
       (if aq_Bucket q = BucketHour then Hour else if aq_Bucket q = BucketWeek then 7 * Day else Day))"
proof -
  define b where "b = (if aq_Bucket q = '''' then BucketDay else aq_Bucket q)"
  have res: "res = agg_result (aggregate b (query_rows q s))"
    using assms by (auto simp: sq_QueryAnalytics_def withTx_Inr Let_def b_def)
  let ?A = "aggregate b (query_rows q s)"
  have sr: "Series res = sort_key fst (agg_series ?A)" by (simp add: res agg_result_def)
  have "sorted (map fst (Series res))" "distinct (map fst (Series res))"
    using aggregate_series_distinct [of b "query_rows q s"]
    by (simp_all add: sr distinct_map)
  then have "sorted_wrt (<) (map fst (Series res))" by (simp add: strict_sorted_iff)
  moreover have "bucketStart h b = Truncate (bucketStart h b)
      (if aq_Bucket q = BucketHour then Hour else if aq_Bucket q = BucketWeek then 7 * Day else Day)" for h
  proof (cases "b = BucketWeek")
    case True
    then have "aq_Bucket q = BucketWeek" by (auto simp: b_def scan_consts split: if_splits)
    then show ?thesis unfolding True bucketStart_week by (simp add: scan_consts)
  next
    case False
    then show ?thesis by (auto simp: bucketStart_def start_of_day_def b_def scan_consts)
  qed
  ultimately show ?thesis by (auto simp: sr aggregate_series_keys)
qed

text \<open>Pruning deletes at most \<open>limit\<close> raw events, only events older than the cut-off,
  never an event while an older one survives; when it deletes fewer than \<open>limit\<close> no event
  older than the cut-off is left; and every analytics answer stays as it was.\<close>

lemma PruneScanEvents_oldest_first:
  assumes "distinct (map fst (t_events s))" and "0 < limit"
    and "sq_PruneScanEvents eng before limit s = Inr (n, t)"
  shows "n = int (card (set (t_events s) - set (t_events t))) \<and> n \<le> limit \<and>
    set (t_events t) \<subseteq> set (t_events s) \<and>
    (\<forall>x \<in> set (t_events s) - set (t_events t). OccurredAt (snd x) < fmtTime before \<and>
       (\<forall>y \<in> set (t_events t). OccurredAt (snd y) < fmtTime before \<longrightarrow> event_age x \<le> event_age y)) \<and>
    (n < limit \<longrightarrow> (\<forall>y \<in> set (t_events t). fmtTime before \<le> OccurredAt (snd y))) \<and>
    sq_QueryAnalytics eng q t = sq_QueryAnalytics eng q s"
proof -
  let ?zs = "expired_events before s"
  define dead where "dead = take (nat limit) ?zs"
  note ok = sq_PruneScanEvents_ok [OF assms, folded dead_def]
  have gone: "set (t_events s) - set (t_events t) = set dead"
    using set_take_subset [of "nat limit" ?zs] by (auto simp: ok(1) dead_def expired_events_set)
  have split: "?zs = dead @ drop (nat limit) ?zs" by (simp add: dead_def)
  have "n = int (card (set dead))"
    using ok(2) distinct_expired [OF assms(1)] by (simp add: dead_def distinct_card)
  moreover have "n \<le> limit" using ok(2) assms(2) by (simp add: dead_def)
  moreover have "OccurredAt (snd x) < fmtTime before" if "x \<in> set dead" for x
    using that set_take_subset [of "nat limit" ?zs] by (auto simp: dead_def expired_events_set)
  moreover have "event_age x \<le> event_age y"
    if "x \<in> set dead" "y \<in> set (t_events t)" "OccurredAt (snd y) < fmtTime before" for x y
  proof -
    have "y \<in> set (drop (nat limit) ?zs)"
      using that(2,3) split by (auto simp: ok(1) expired_events_set) (metis (no_types, lifting) Un_iff expired_events_set mem_Collect_eq set_append)
    then show ?thesis using sorted_expired [of before s] that(1)
      by (subst (asm) split) (auto simp: sorted_append)
  qed
  moreover have "fmtTime before \<le> OccurredAt (snd y)" if "n < limit" "y \<in> set (t_events t)" for y
  proof -
    have "length dead < nat limit" using that(1) ok(2) by linarith
    then have "dead = ?zs" by (simp add: dead_def)
    then show ?thesis using that(2) by (auto simp: ok(1) expired_events_set not_less)
  qed
  moreover have "set (t_events t) \<subseteq> set (t_events s)" by (auto simp: ok(1))
  ultimately show ?thesis using sq_QueryAnalytics_rollups [of t s eng q]
    unfolding gone by (simp add: ok(1))
qed

end
