(* ===== verification/Store_Spec.thy ===== *)
theory Store_Spec
  imports Store_Iface Rollups
begin

text \<open>
  The abstract specification of the code tables of a store. An abstract state has the codes
  by identifier and, for every short code whose reservation is in force, the identifier of
  the code it belongs to. Each operation of the Go interface has a specification on it, and
  the locale \<open>code_store\<close> is the contract a driver promises: every operation refines its
  specification and keeps the driver's invariant. The clients' facts are proved once, in
  the locale, and each driver's theory interprets it on the driver's model.
\<close>

record astore =
  a_codes :: "string \<Rightarrow> code option"
  a_owner :: "string \<Rightarrow> string option"

definition awf :: "astore \<Rightarrow> bool" where
  "awf a = (
    (\<forall>cid c. a_codes a cid = Some c \<longrightarrow> code_ID c = cid \<and> 1 \<le> code_Version c \<and>
       (code_DeletedAt c \<noteq> None \<longrightarrow> code_State c = CodeDeleted) \<and>
       (code_State c \<noteq> CodeDeleted \<longrightarrow> a_owner a (ShortCode c) = Some cid)) \<and>
    (\<forall>k cid. a_owner a k = Some cid \<longrightarrow> (\<exists>c. a_codes a cid = Some c \<and> ShortCode c = k)) \<and>
    (\<forall>i j c d. a_codes a i = Some c \<longrightarrow> a_codes a j = Some d \<longrightarrow> code_UserID c = code_UserID d \<longrightarrow>
       ClientRef c = ClientRef d \<longrightarrow> ClientRef c \<noteq> '''' \<longrightarrow> i = j))"

subsection \<open>The operations\<close>

definition owned :: "astore \<Rightarrow> string \<Rightarrow> string \<Rightarrow> code option" where
  "owned a cid uid = (case a_codes a cid of
     Some c \<Rightarrow> if code_UserID c = uid then Some c else None
   | None \<Rightarrow> None)"

definition put_code :: "code \<Rightarrow> astore \<Rightarrow> astore" where
  "put_code c a = a\<lparr>a_codes := (a_codes a)(code_ID c \<mapsto> c)\<rparr>"

definition spec_UpdateDestination ::
  "gotime \<Rightarrow> string \<Rightarrow> string \<Rightarrow> string \<Rightarrow> int \<Rightarrow> astore \<Rightarrow> store_error + astore" where
  "spec_UpdateDestination t cid uid dest v a = (case owned a cid uid of
     None \<Rightarrow> Inl ErrNotFound
   | Some c \<Rightarrow>
       if code_State c = CodeDeleted \<or> code_Version c \<noteq> v then Inl ErrConflict
       else Inr (put_code (c\<lparr>Destination := dest, code_Version := code_Version c + 1, code_UpdatedAt := t\<rparr>) a))"

definition spec_SetCodeState ::
  "gotime \<Rightarrow> string \<Rightarrow> string \<Rightarrow> string \<Rightarrow> astore \<Rightarrow> store_error + astore" where
  "spec_SetCodeState t cid uid st a = (case owned a cid uid of
     None \<Rightarrow> Inl ErrNotFound
   | Some c \<Rightarrow>
       if code_State c = CodeDeleted then Inl ErrConflict
       else Inr (put_code (c\<lparr>code_State := st, code_Version := code_Version c + 1, code_UpdatedAt := t\<rparr>) a))"

definition spec_DeleteCode :: "gotime \<Rightarrow> string \<Rightarrow> string \<Rightarrow> astore \<Rightarrow> store_error + astore" where
  "spec_DeleteCode t cid uid a = (case owned a cid uid of
     None \<Rightarrow> Inl ErrNotFound
   | Some c \<Rightarrow>
       if code_State c = CodeDeleted then Inr a
       else Inr (put_code (c\<lparr>code_State := CodeDeleted, code_DeletedAt := Some t,
              code_Version := code_Version c + 1, code_UpdatedAt := t\<rparr>) a))"

definition spec_ReleaseAlias :: "string \<Rightarrow> astore \<Rightarrow> store_error + astore" where
  "spec_ReleaseAlias k a = (case a_owner a k of
     None \<Rightarrow> Inl ErrNotFound
   | Some cid \<Rightarrow>
       (case a_codes a cid of
          Some c \<Rightarrow> if code_State c \<noteq> CodeDeleted then Inl ErrConflict
                    else Inr (a\<lparr>a_owner := (a_owner a)(k := None)\<rparr>)
        | None \<Rightarrow> Inr (a\<lparr>a_owner := (a_owner a)(k := None)\<rparr>)))"

definition spec_lookup :: "string \<Rightarrow> astore \<Rightarrow> store_error + code" where
  "spec_lookup k a = (case Option.bind (a_owner a k) (a_codes a) of None \<Rightarrow> Inl ErrNotFound | Some c \<Rightarrow> Inr c)"

definition fresh_code :: "code \<Rightarrow> astore \<Rightarrow> bool" where
  "fresh_code c a = (a_codes a (code_ID c) = None \<and> a_owner a (ShortCode c) = None \<and>
     (ClientRef c \<noteq> '''' \<longrightarrow>
       (\<forall>d \<in> ran (a_codes a). \<not> (code_UserID d = code_UserID c \<and> ClientRef d = ClientRef c))))"

definition spec_insert :: "code \<Rightarrow> astore \<Rightarrow> astore" where
  "spec_insert c a = (put_code c a)\<lparr>a_owner := (a_owner a)(ShortCode c \<mapsto> code_ID c)\<rparr>"

fun spec_create :: "code list \<Rightarrow> astore \<Rightarrow> astore option" where
  "spec_create [] a = Some a"
| "spec_create (c # cs) a = (if fresh_code c a then spec_create cs (spec_insert c a) else None)"

text \<open>What a driver may change of a code it creates: the short code is lower-cased, empty
  fields get their defaults, the version starts at 1.\<close>

definition created :: "code \<Rightarrow> code \<Rightarrow> bool" where
  "created c c' = (c' = c\<lparr>ShortCode := strings_ToLower (ShortCode c), code_Version := 1,
       code_State := (if code_State c = '''' then CodeActive else code_State c),
       code_Mode := (if code_Mode c = '''' then ModeDynamic else code_Mode c),
       code_Styling := code_Styling c', code_CreatedAt := code_CreatedAt c',
       code_UpdatedAt := code_UpdatedAt c', code_DeletedAt := code_DeletedAt c'\<rparr> \<and>
     (sty_ID (code_Styling c) \<noteq> '''' \<longrightarrow> code_Styling c' = code_Styling c) \<and>
     (code_Styling c')\<lparr>sty_ID := ''''\<rparr> = (code_Styling c)\<lparr>sty_ID := ''''\<rparr>)"

definition undelete :: "code \<Rightarrow> code" where
  "undelete c = c\<lparr>code_DeletedAt := None\<rparr>"

subsection \<open>The abstract invariant is kept\<close>

lemma awfI [wf_intros]:
  assumes "\<And>cid c. a_codes a cid = Some c \<Longrightarrow> code_ID c = cid"
    and "\<And>cid c. a_codes a cid = Some c \<Longrightarrow> 1 \<le> code_Version c"
    and "\<And>cid c. a_codes a cid = Some c \<Longrightarrow> code_DeletedAt c \<noteq> None \<Longrightarrow> code_State c = CodeDeleted"
    and "\<And>cid c. a_codes a cid = Some c \<Longrightarrow> code_State c \<noteq> CodeDeleted \<Longrightarrow> a_owner a (ShortCode c) = Some cid"
    and "\<And>k cid. a_owner a k = Some cid \<Longrightarrow> \<exists>c. a_codes a cid = Some c \<and> ShortCode c = k"
    and "\<And>i j c d. a_codes a i = Some c \<Longrightarrow> a_codes a j = Some d \<Longrightarrow> code_UserID c = code_UserID d \<Longrightarrow>
       ClientRef c = ClientRef d \<Longrightarrow> ClientRef c \<noteq> '''' \<Longrightarrow> i = j"
  shows "awf a"
  unfolding awf_def by (intro conjI allI impI) (fact assms)+

lemma awf_row:
  assumes "awf a" "a_codes a cid = Some c"
  shows awf_ID: "code_ID c = cid" and awf_version: "1 \<le> code_Version c"
    and awf_deleted: "code_DeletedAt c \<noteq> None \<Longrightarrow> code_State c = CodeDeleted"
    and awf_live_owner: "code_State c \<noteq> CodeDeleted \<Longrightarrow> a_owner a (ShortCode c) = Some cid"
  using assms unfolding awf_def by metis+

lemma awf_owner_code: "awf a \<Longrightarrow> a_owner a k = Some cid \<Longrightarrow> \<exists>c. a_codes a cid = Some c \<and> ShortCode c = k"
  unfolding awf_def by metis

lemma awf_refs:
  "awf a \<Longrightarrow> a_codes a i = Some c \<Longrightarrow> a_codes a j = Some d \<Longrightarrow> code_UserID c = code_UserID d \<Longrightarrow>
   ClientRef c = ClientRef d \<Longrightarrow> ClientRef c \<noteq> '''' \<Longrightarrow> i = j"
  unfolding awf_def by metis

lemma owned_Some: "owned a cid uid = Some c \<longleftrightarrow> a_codes a cid = Some c \<and> code_UserID c = uid"
  by (auto simp: owned_def split: option.splits if_splits)

text \<open>Rewriting one row keeps the invariant when the row keeps its identity and does not come
  back from deletion.\<close>

lemma awf_put_code:
  assumes "awf a" "a_codes a cid = Some c"
    and "code_ID d = code_ID c" "ShortCode d = ShortCode c" "code_UserID d = code_UserID c" "ClientRef d = ClientRef c"
    and "1 \<le> code_Version d" "code_DeletedAt d \<noteq> None \<longrightarrow> code_State d = CodeDeleted"
    and "code_State c = CodeDeleted \<longrightarrow> code_State d = CodeDeleted"
  shows "awf (put_code d a)"
proof -
  note row = awf_row [OF assms(1)] and cid = awf_ID [OF assms(1,2)]
  have new: "a_codes (put_code d a) = (a_codes a)(cid \<mapsto> d)" "a_owner (put_code d a) = a_owner a"
    by (simp_all add: put_code_def assms(3) cid)
  show ?thesis
  proof (rule awfI, unfold new)
    fix i j x y
    assume xy: "((a_codes a)(cid \<mapsto> d)) i = Some x" "((a_codes a)(cid \<mapsto> d)) j = Some y"
      "code_UserID x = code_UserID y" "ClientRef x = ClientRef y" "ClientRef x \<noteq> ''''"
    define old where "old k z = (if k = cid then c else z)" for k :: string and z :: code
    have "a_codes a i = Some (old i x)" "a_codes a j = Some (old j y)"
      using xy(1,2) assms(2) by (auto simp: old_def split: if_splits)
    moreover have "code_UserID (old i x) = code_UserID x \<and> ClientRef (old i x) = ClientRef x"
      "code_UserID (old j y) = code_UserID y \<and> ClientRef (old j y) = ClientRef y"
      using xy(1,2) assms(5,6) by (auto simp: old_def split: if_splits)
    ultimately show "i = j" using awf_refs [OF assms(1), of i "old i x" j "old j y"] xy(3-5) by simp
  next
    fix k i
    assume "a_owner a k = Some i"
    then obtain x where "a_codes a i = Some x" "ShortCode x = k" using awf_owner_code [OF assms(1)] by blast
    then show "\<exists>x. ((a_codes a)(cid \<mapsto> d)) i = Some x \<and> ShortCode x = k"
      using assms(2,4) by (cases "i = cid") auto
  qed (use assms row cid in \<open>auto split: if_splits\<close>)
qed

lemma awf_spec_UpdateDestination:
  assumes "awf a" "spec_UpdateDestination t cid uid dest v a = Inr b"
  shows "awf b"
proof -
  obtain c where c: "a_codes a cid = Some c" "code_State c \<noteq> CodeDeleted"
    "b = put_code (c\<lparr>Destination := dest, code_Version := code_Version c + 1, code_UpdatedAt := t\<rparr>) a"
    using assms(2) by (auto simp: spec_UpdateDestination_def owned_Some split: option.splits if_splits)
  moreover have "code_DeletedAt c = None" using awf_deleted [OF assms(1) c(1)] c(2) by blast
  moreover note awf_version [OF assms(1) c(1)]
  ultimately show ?thesis using awf_put_code [OF assms(1) c(1)] by simp
qed

lemma awf_spec_SetCodeState:
  assumes "awf a" "spec_SetCodeState t cid uid st a = Inr b"
  shows "awf b"
proof -
  obtain c where c: "a_codes a cid = Some c" "code_State c \<noteq> CodeDeleted"
    "b = put_code (c\<lparr>code_State := st, code_Version := code_Version c + 1, code_UpdatedAt := t\<rparr>) a"
    using assms(2) by (auto simp: spec_SetCodeState_def owned_Some split: option.splits if_splits)
  moreover have "code_DeletedAt c = None" using awf_deleted [OF assms(1) c(1)] c(2) by blast
  moreover note awf_version [OF assms(1) c(1)]
  ultimately show ?thesis using awf_put_code [OF assms(1) c(1)] by simp
qed

lemma awf_spec_DeleteCode:
  assumes "awf a" "spec_DeleteCode t cid uid a = Inr b"
  shows "awf b"
proof (cases "b = a")
  case False
  then obtain c where c: "a_codes a cid = Some c"
    "b = put_code (c\<lparr>code_State := CodeDeleted, code_DeletedAt := Some t,
              code_Version := code_Version c + 1, code_UpdatedAt := t\<rparr>) a"
    using assms(2) by (auto simp: spec_DeleteCode_def owned_Some split: option.splits if_splits)
  moreover note awf_version [OF assms(1) c(1)]
  ultimately show ?thesis using awf_put_code [OF assms(1) c(1)] by simp
qed (use assms in simp)

lemma awf_spec_ReleaseAlias:
  assumes "awf a" "spec_ReleaseAlias k a = Inr b"
  shows "awf b"
proof -
  obtain cid where own: "a_owner a k = Some cid"
    using assms(2) by (auto simp: spec_ReleaseAlias_def split: option.splits)
  then obtain c where c: "a_codes a cid = Some c" "ShortCode c = k" using awf_owner_code [OF assms(1)] by blast
  then have del: "code_State c = CodeDeleted" and b: "b = a\<lparr>a_owner := (a_owner a)(k := None)\<rparr>"
    using assms(2) own by (auto simp: spec_ReleaseAlias_def split: if_splits)
  note row = awf_row [OF assms(1)]
  have new: "a_codes b = a_codes a" "a_owner b = (a_owner a)(k := None)" by (simp_all add: b)
  show ?thesis
  proof (rule awfI, unfold new)
    fix i d
    assume d: "a_codes a i = Some d" "code_State d \<noteq> CodeDeleted"
    then have "ShortCode d \<noteq> k" using row(4) [OF d] own c(1) del by auto
    then show "((a_owner a)(k := None)) (ShortCode d) = Some i" using row(4) [OF d] by simp
  qed (use row(1,2,3) awf_owner_code [OF assms(1)] awf_refs [OF assms(1)] in \<open>auto split: if_splits\<close>)
qed

lemma awf_spec_insert:
  assumes "awf a" "fresh_code c a" "code_Version c = 1" "code_DeletedAt c = None"
  shows "awf (spec_insert c a)"
proof -
  note row = awf_row [OF assms(1)]
  have new: "a_codes (spec_insert c a) = (a_codes a)(code_ID c \<mapsto> c)"
    "a_owner (spec_insert c a) = (a_owner a)(ShortCode c \<mapsto> code_ID c)"
    by (simp_all add: spec_insert_def put_code_def)
  have free: "a_codes a (code_ID c) = None" "a_owner a (ShortCode c) = None" using assms(2) by (auto simp: fresh_code_def)
  have ref: "\<not> (code_UserID d = code_UserID c \<and> ClientRef d = ClientRef c)"
    if "a_codes a i = Some d" "ClientRef c \<noteq> ''''" for i d
    using that assms(2) by (auto simp: fresh_code_def ran_def)
  show ?thesis
  proof (rule awfI, unfold new)
    fix i d
    assume d: "((a_codes a)(code_ID c \<mapsto> c)) i = Some d" "code_State d \<noteq> CodeDeleted"
    then show "((a_owner a)(ShortCode c \<mapsto> code_ID c)) (ShortCode d) = Some i"
      using row(4) [of i d] free by (cases "i = code_ID c") auto
  next
    fix k i
    assume k: "((a_owner a)(ShortCode c \<mapsto> code_ID c)) k = Some i"
    then show "\<exists>d. ((a_codes a)(code_ID c \<mapsto> c)) i = Some d \<and> ShortCode d = k"
      using awf_owner_code [OF assms(1), of k i] free by (cases "k = ShortCode c") auto
  next
    fix i j x y
    assume xy: "((a_codes a)(code_ID c \<mapsto> c)) i = Some x" "((a_codes a)(code_ID c \<mapsto> c)) j = Some y"
      "code_UserID x = code_UserID y" "ClientRef x = ClientRef y" "ClientRef x \<noteq> ''''"
    show "i = j"
    proof (cases "i = code_ID c \<or> j = code_ID c")
      case False
      then show ?thesis using awf_refs [OF assms(1), of i x j y] xy by simp
    next
      case True
      then show ?thesis using xy ref [of i x] ref [of j y] by (cases "i = j") (force split: if_splits)+
    qed
  qed (use assms(3,4) row(1,2,3) in \<open>auto split: if_splits\<close>)
qed

lemma awf_spec_create:
  assumes "awf a" "spec_create cs a = Some b" "\<forall>c \<in> set cs. code_Version c = 1 \<and> code_DeletedAt c = None"
  shows "awf b"
  using assms by (induction cs a rule: spec_create.induct) (auto simp: awf_spec_insert split: if_splits)

lemmas awf_spec = awf_spec_UpdateDestination awf_spec_SetCodeState awf_spec_DeleteCode awf_spec_ReleaseAlias

subsection \<open>The contract\<close>

text \<open>An operation refines its specification: on a reachable backend it has the
  specification's result, seen through the abstraction, and on an unreachable one it fails;
  a new state satisfies the driver's invariant.\<close>

definition refines ::
  "bool \<Rightarrow> ('s \<Rightarrow> bool) \<Rightarrow> ('s \<Rightarrow> astore) \<Rightarrow> (store_error + 's) \<Rightarrow> (store_error + astore) \<Rightarrow> bool" where
  "refines avail invar alpha r sp =
    ((avail \<longrightarrow> map_sum id alpha r = sp) \<and> (\<not> avail \<longrightarrow> isl r) \<and> (\<forall>s'. r = Inr s' \<longrightarrow> invar s'))"

lemma refines_Inr:
  assumes "refines avail invar alpha r sp" "r = Inr s'"
  shows "avail" "sp = Inr (alpha s')" "invar s'"
  using assms by (auto simp: refines_def)

lemma refines_Inl: "refines True invar alpha r sp \<Longrightarrow> sp = Inl err \<Longrightarrow> r = Inl err"
  by (cases r) (auto simp: refines_def)

lemma refines_ok: "refines True invar alpha r sp \<Longrightarrow> sp = Inr a \<Longrightarrow> \<exists>s'. r = Inr s' \<and> alpha s' = a"
  by (cases r) (auto simp: refines_def)

text \<open>The mutating calls on codes and aliases, as the requests of a client, and a run of
  such requests: a failed call leaves the state as it was.\<close>

datatype code_op =
    OpCreate "code list"
  | OpUpdate string string string int
  | OpSetState string string string
  | OpDelete string string
  | OpRelease string

definition after :: "store_error + 's \<Rightarrow> 's \<Rightarrow> 's" where
  "after r s = (case r of Inl _ \<Rightarrow> s | Inr s' \<Rightarrow> s')"

fun run_op :: "'s store_ops \<Rightarrow> call_env \<Rightarrow> code_op \<Rightarrow> 's \<Rightarrow> 's" where
  "run_op st e (OpCreate cs) s = (case so_CreateCodes st e cs s of Inl _ \<Rightarrow> s | Inr (_, s') \<Rightarrow> s')"
| "run_op st e (OpUpdate cid uid dest v) s = after (so_UpdateDestination st e cid uid dest v s) s"
| "run_op st e (OpSetState cid uid stt) s = after (so_SetCodeState st e cid uid stt s) s"
| "run_op st e (OpDelete cid uid) s = after (so_DeleteCode st e cid uid s) s"
| "run_op st e (OpRelease sc) s = after (so_ReleaseAlias st e sc s) s"

subsection \<open>All mutating calls\<close>

text \<open>The calls that change a store, as the serving program makes them: the scan recorder
  always sends the rollups it computed from the events of the same batch.\<close>

datatype store_op =
    OpCode code_op
  | OpCreateUser user
  | OpBumpTokenVersion string
  | OpCreateToken api_token
  | OpRevokeToken string string
  | OpTouchToken string gotime
  | OpInsertScans "scan_event list"
  | OpPrune gotime int

fun run_store :: "'s store_ops \<Rightarrow> call_env \<Rightarrow> store_op \<Rightarrow> 's \<Rightarrow> 's" where
  "run_store st e (OpCode op) s = run_op st e op s"
| "run_store st e (OpCreateUser u) s = after (so_CreateUser st e u s) s"
| "run_store st e (OpBumpTokenVersion uid) s = after (map_sum id snd (so_BumpTokenVersion st uid s)) s"
| "run_store st e (OpCreateToken t) s = after (so_CreateToken st e t s) s"
| "run_store st e (OpRevokeToken tid uid) s = after (so_RevokeToken st e tid uid s) s"
| "run_store st e (OpTouchToken tid t) s = after (so_TouchTokenLastUsed st tid t s) s"
| "run_store st e (OpInsertScans evs) s =
     after (so_InsertScanBatch st \<lparr>Events = evs, Rollups = BuildRollups evs\<rparr> s) s"
| "run_store st e (OpPrune before limit) s = after (map_sum id snd (so_PruneScanEvents st before limit s)) s"

text \<open>How a code may differ from what it was: its identity never changes, its version only
  grows, and a deleted code is frozen.\<close>

definition evolves :: "code \<Rightarrow> code \<Rightarrow> bool" where
  "evolves c d = (code_ID d = code_ID c \<and> ShortCode d = ShortCode c \<and> code_UserID d = code_UserID c \<and>
     ClientRef d = ClientRef c \<and> code_Mode d = code_Mode c \<and> code_Styling d = code_Styling c \<and>
     BlobKey d = BlobKey c \<and> code_CreatedAt d = code_CreatedAt c \<and>
     (d = c \<or> code_Version c < code_Version d) \<and> (code_State c = CodeDeleted \<longrightarrow> d = c))"

lemma evolves_refl [simp]: "evolves c c"
  by (simp add: evolves_def)

lemma evolves_trans: "evolves c d \<Longrightarrow> evolves d e \<Longrightarrow> evolves c e"
  by (auto simp: evolves_def)

definition astep :: "astore \<Rightarrow> astore \<Rightarrow> bool" where
  "astep a b = (\<forall>cid c. a_codes a cid = Some c \<longrightarrow> (\<exists>d. a_codes b cid = Some d \<and> evolves c d))"

lemma astep_refl [simp]: "astep a a"
  by (auto simp: astep_def)

lemma astep_trans: "astep a b \<Longrightarrow> astep b c \<Longrightarrow> astep a c"
  unfolding astep_def using evolves_trans by metis

lemma astep_put_code: "awf a \<Longrightarrow> a_codes a cid = Some c \<Longrightarrow> evolves c d \<Longrightarrow> astep a (put_code d a)"
  by (auto simp: astep_def put_code_def evolves_def awf_ID)

lemma astep_spec:
  assumes "awf a"
  shows "spec_UpdateDestination t cid uid dest v a = Inr b \<Longrightarrow> astep a b"
    and "spec_SetCodeState t cid uid st a = Inr b \<Longrightarrow> astep a b"
    and "spec_DeleteCode t cid uid a = Inr b \<Longrightarrow> astep a b"
    and "spec_ReleaseAlias k a = Inr b \<Longrightarrow> astep a b"
proof -
  show "spec_UpdateDestination t cid uid dest v a = Inr b \<Longrightarrow> astep a b"
    by (auto simp: spec_UpdateDestination_def owned_Some evolves_def split: option.splits if_splits
      intro!: astep_put_code [OF assms])
  show "spec_SetCodeState t cid uid st a = Inr b \<Longrightarrow> astep a b"
    by (auto simp: spec_SetCodeState_def owned_Some evolves_def split: option.splits if_splits
      intro!: astep_put_code [OF assms])
  show "spec_DeleteCode t cid uid a = Inr b \<Longrightarrow> astep a b"
    by (auto simp: spec_DeleteCode_def owned_Some evolves_def split: option.splits if_splits
      intro!: astep_put_code [OF assms])
  show "spec_ReleaseAlias k a = Inr b \<Longrightarrow> astep a b"
    by (auto simp: spec_ReleaseAlias_def astep_def split: option.splits if_splits)
qed

lemma astep_spec_create: "spec_create cs a = Some b \<Longrightarrow> astep a b"
proof (induction cs a rule: spec_create.induct)
  case (2 c cs a)
  then have "astep a (spec_insert c a)" "astep (spec_insert c a) b"
    by (auto simp: astep_def spec_insert_def put_code_def fresh_code_def split: if_splits)
  then show ?case by (rule astep_trans)
qed simp

text \<open>A reservation in force stays with its code under every operation but a release of it.\<close>

lemma spec_owner:
  "spec_UpdateDestination t cid uid dest v a = Inr b \<Longrightarrow> a_owner b = a_owner a"
  "spec_SetCodeState t cid uid st a = Inr b \<Longrightarrow> a_owner b = a_owner a"
  "spec_DeleteCode t cid uid a = Inr b \<Longrightarrow> a_owner b = a_owner a"
  "spec_ReleaseAlias k a = Inr b \<Longrightarrow> a_owner b = (a_owner a)(k := None)"
  by (auto simp: spec_UpdateDestination_def spec_SetCodeState_def spec_DeleteCode_def spec_ReleaseAlias_def
      put_code_def split: option.splits if_splits)

lemma spec_create_owner: "spec_create cs a = Some b \<Longrightarrow> a_owner a k = Some cid \<Longrightarrow> a_owner b k = Some cid"
proof (induction cs a rule: spec_create.induct)
  case (2 c cs a)
  then have "fresh_code c a" "spec_create cs (spec_insert c a) = Some b" by (auto split: if_splits)
  moreover have "a_owner (spec_insert c a) k = Some cid"
    using \<open>fresh_code c a\<close> 2(3) by (auto simp: spec_insert_def fresh_code_def)
  ultimately show ?case using 2(1) by blast
qed simp

locale code_store =
  fixes st :: "'s store_ops"
    and invar :: "'s \<Rightarrow> bool"
    and alpha :: "'s \<Rightarrow> astore"
    and avail :: bool
    and stamp :: "gotime \<Rightarrow> gotime"
    and key :: "string \<Rightarrow> string"
  assumes inv_awf: "invar s \<Longrightarrow> awf (alpha s)"
    and key_any_case: "clean_short (map ascii_lower sc) \<Longrightarrow> key sc = map ascii_lower sc"
    and create_ok: "invar s \<Longrightarrow> so_CreateCodes st e cs s = Inr (cs', s') \<Longrightarrow>
      list_all2 created cs cs' \<and> invar s' \<and> spec_create (map undelete cs') (alpha s) = Some (alpha s')"
    and update_refines: "invar s \<Longrightarrow> refines avail invar alpha (so_UpdateDestination st e cid uid dest v s)
      (spec_UpdateDestination (stamp (now e)) cid uid dest v (alpha s))"
    and set_state_refines: "invar s \<Longrightarrow> stt \<in> {CodeActive, CodeDisabled} \<Longrightarrow>
      refines avail invar alpha (so_SetCodeState st e cid uid stt s)
        (spec_SetCodeState (stamp (now e)) cid uid stt (alpha s))"
    and set_state_bad: "stt \<notin> {CodeActive, CodeDisabled} \<Longrightarrow> isl (so_SetCodeState st e cid uid stt s)"
    and delete_refines: "invar s \<Longrightarrow> refines avail invar alpha (so_DeleteCode st e cid uid s)
      (spec_DeleteCode (stamp (now e)) cid uid (alpha s))"
    and release_refines: "invar s \<Longrightarrow> refines avail invar alpha (so_ReleaseAlias st e sc s)
      (spec_ReleaseAlias (strings_ToLower sc) (alpha s))"
    and lookup_spec: "invar s \<Longrightarrow> avail \<Longrightarrow> so_GetCodeByShortCode st sc s = spec_lookup (key sc) (alpha s)"
    and by_id_spec: "invar s \<Longrightarrow> avail \<Longrightarrow> so_GetCodeByID st cid uid s =
      (case owned (alpha s) cid uid of None \<Rightarrow> Inl ErrNotFound | Some c \<Rightarrow> Inr c)"
    and available_spec: "invar s \<Longrightarrow> avail \<Longrightarrow>
      so_IsAliasAvailable st sc s = Inr (a_owner (alpha s) (key sc) = None)"
    and by_ref_found: "invar s \<Longrightarrow> avail \<Longrightarrow> owned (alpha s) cid uid = Some c \<Longrightarrow> ClientRef c \<noteq> '''' \<Longrightarrow>
      so_GetCodeByClientRef st uid (ClientRef c) s = Inr c"
    and by_ref_sound: "invar s \<Longrightarrow> so_GetCodeByClientRef st uid ref s = Inr c \<Longrightarrow>
      owned (alpha s) (code_ID c) uid = Some c \<and> ClientRef c = ref"
begin

lemma set_state_Inr:
  assumes "invar s" "so_SetCodeState st e cid uid stt s = Inr s'"
  shows "avail" "spec_SetCodeState (stamp (now e)) cid uid stt (alpha s) = Inr (alpha s')" "invar s'"
  using refines_Inr [OF set_state_refines [OF assms(1)] assms(2)] set_state_bad [of stt e cid uid s] assms(2) by auto

text \<open>Every run of operations keeps the driver's invariant.\<close>

lemma run_op_inv: "invar s \<Longrightarrow> invar (run_op st e op s)"
proof (cases op)
  case (OpCreate cs)
  then show "invar s \<Longrightarrow> ?thesis" using create_ok [of s e cs] by (auto split: sum.splits)
next
  case (OpSetState cid uid stt)
  then show "invar s \<Longrightarrow> ?thesis" using set_state_Inr(3) [of s e cid uid stt] by (auto simp: after_def split: sum.splits)
next
  case (OpUpdate cid uid dest v)
  then show "invar s \<Longrightarrow> ?thesis" using update_refines [of s e cid uid dest v]
    by (auto simp: after_def refines_def split: sum.splits)
next
  case (OpDelete cid uid)
  then show "invar s \<Longrightarrow> ?thesis" using delete_refines [of s e cid uid]
    by (auto simp: after_def refines_def split: sum.splits)
next
  case (OpRelease sc)
  then show "invar s \<Longrightarrow> ?thesis" using release_refines [of s e sc]
    by (auto simp: after_def refines_def split: sum.splits)
qed

text \<open>Whatever the operation, an existing code only evolves.\<close>

lemma run_op_astep: "invar s \<Longrightarrow> astep (alpha s) (alpha (run_op st e op s))"
proof (cases op)
  case (OpCreate cs)
  then show "invar s \<Longrightarrow> ?thesis" using create_ok [of s e cs] by (auto split: sum.splits dest: astep_spec_create)
next
  case (OpSetState cid uid stt)
  then show "invar s \<Longrightarrow> ?thesis" using set_state_Inr(2) [of s e cid uid stt] astep_spec(2) [OF inv_awf [of s]]
    by (auto simp: after_def split: sum.splits)
next
  case (OpUpdate cid uid dest v)
  then show "invar s \<Longrightarrow> ?thesis" using refines_Inr(2) [OF update_refines [of s e cid uid dest v]] astep_spec(1) [OF inv_awf [of s]]
    by (auto simp: after_def split: sum.splits)
next
  case (OpDelete cid uid)
  then show "invar s \<Longrightarrow> ?thesis" using refines_Inr(2) [OF delete_refines [of s e cid uid]] astep_spec(3) [OF inv_awf [of s]]
    by (auto simp: after_def split: sum.splits)
next
  case (OpRelease sc)
  then show "invar s \<Longrightarrow> ?thesis" using refines_Inr(2) [OF release_refines [of s e sc]] astep_spec(4) [OF inv_awf [of s]]
    by (auto simp: after_def split: sum.splits)
qed

text \<open>Whatever the operation, short of a release of it, a reservation in force stays.\<close>

lemma run_op_owner:
  assumes "invar s" "a_owner (alpha s) k = Some cid" "\<And>sc. op = OpRelease sc \<Longrightarrow> strings_ToLower sc \<noteq> k"
  shows "a_owner (alpha (run_op st e op s)) k = Some cid"
proof (cases op)
  case (OpCreate cs)
  then show ?thesis using assms create_ok [of s e cs] by (auto split: sum.splits dest: spec_create_owner)
next
  case (OpSetState cid uid stt)
  then show ?thesis using assms spec_owner(2) [OF set_state_Inr(2) [of s e cid uid stt]]
    by (auto simp: after_def split: sum.splits)
next
  case (OpUpdate cid uid dest v)
  then show ?thesis using assms spec_owner(1) [OF refines_Inr(2) [OF update_refines [of s e cid uid dest v]]]
    by (auto simp: after_def split: sum.splits)
next
  case (OpDelete cid uid)
  then show ?thesis using assms spec_owner(3) [OF refines_Inr(2) [OF delete_refines [of s e cid uid]]]
    by (auto simp: after_def split: sum.splits)
next
  case (OpRelease sc)
  then show ?thesis using assms spec_owner(4) [OF refines_Inr(2) [OF release_refines [of s e sc]]]
    by (auto simp: after_def split: sum.splits)
qed

end

lemma is_ascii_lower: "is_ascii (map ascii_lower s) \<Longrightarrow> is_ascii s"
  by (auto simp: is_ascii_def list_all_iff ascii_lower_def split: if_splits)

lemma spec_create_code: "spec_create cs a = Some b \<Longrightarrow> a_codes a i = Some x \<Longrightarrow> a_codes b i = Some x"
proof (induction cs a rule: spec_create.induct)
  case (2 c cs a)
  then have "fresh_code c a" "spec_create cs (spec_insert c a) = Some b" by (auto split: if_splits)
  moreover have "a_codes (spec_insert c a) i = Some x"
    using \<open>fresh_code c a\<close> 2(3) by (auto simp: spec_insert_def put_code_def fresh_code_def)
  ultimately show ?case using 2(1) by blast
qed simp

lemma spec_create_fresh_IDs: "spec_create cs a = Some b \<Longrightarrow> c \<in> set cs \<Longrightarrow> a_codes a (code_ID c) = None"
proof (induction cs a rule: spec_create.induct)
  case (2 d cs a)
  then have d: "fresh_code d a" "spec_create cs (spec_insert d a) = Some b" by (auto split: if_splits)
  show ?case
  proof (cases "c = d")
    case False
    then have "a_codes (spec_insert d a) (code_ID c) = None" using 2(1,3) d by auto
    then show ?thesis by (auto simp: spec_insert_def put_code_def split: if_splits)
  qed (use d in \<open>simp add: fresh_code_def\<close>)
qed simp

lemma spec_UpdateDestination_Inr:
  assumes "spec_UpdateDestination t cid uid dest v a = Inr b"
  obtains c where "a_codes a cid = Some c" "code_UserID c = uid" "code_State c \<noteq> CodeDeleted" "code_Version c = v"
    "b = put_code (c\<lparr>Destination := dest, code_Version := v + 1, code_UpdatedAt := t\<rparr>) a"
  using assms by (auto simp: spec_UpdateDestination_def owned_Some split: option.splits if_splits)

lemma spec_lookup_Inr: "spec_lookup k a = Inr c \<longleftrightarrow> (\<exists>cid. a_owner a k = Some cid \<and> a_codes a cid = Some c)"
  by (auto simp: spec_lookup_def bind_eq_Some_conv split: option.splits)

lemma spec_DeleteCode_Inr:
  assumes "spec_DeleteCode t cid uid a = Inr b" "awf a"
  obtains d where "owned b cid uid = Some d" "code_State d = CodeDeleted"
proof -
  obtain c where c: "a_codes a cid = Some c" "code_UserID c = uid"
    using assms(1) by (auto simp: spec_DeleteCode_def owned_Some split: option.splits)
  then show ?thesis
    using assms(1) awf_ID [OF assms(2) c(1)] that
    by (cases "code_State c = CodeDeleted") (auto simp: spec_DeleteCode_def owned_def put_code_def)
qed

lemma spec_create_present:
  assumes "spec_create cs a = Some b" "c \<in> set cs"
  shows "a_codes b (code_ID c) = Some c \<and> a_owner b (ShortCode c) = Some (code_ID c)"
  using assms
proof (induction cs a rule: spec_create.induct)
  case (2 d cs a)
  then have new: "spec_create cs (spec_insert d a) = Some b" and fr: "fresh_code d a" by (auto split: if_splits)
  show ?case
  proof (cases "c \<in> set cs")
    case False
    then have "c = d" using 2(3) by simp
    then show ?thesis using spec_create_code [OF new] spec_create_owner [OF new] by (simp add: spec_insert_def put_code_def)
  qed (use 2(1) fr new in blast)
qed simp

context code_store
begin

text \<open>A created code is found again under every upper- and lower-case spelling of its short code.\<close>

lemma create_then_lookup:
  assumes "invar s" "avail" "so_CreateCodes st e cs s = Inr (cs', s')" "c \<in> set cs'"
    and "map ascii_lower sc = ShortCode c" "clean_short (ShortCode c)"
  shows "so_GetCodeByShortCode st sc s' = Inr (undelete c)"
proof -
  note cr = create_ok [OF assms(1,3)]
  have "undelete c \<in> set (map undelete cs')" using assms(4) by simp
  from spec_create_present [OF conjunct2 [OF conjunct2 [OF cr]] this]
  show ?thesis using lookup_spec [of s' sc] key_any_case [of sc] cr assms(2,5,6)
    by (simp add: spec_lookup_def undelete_def)
qed

text \<open>The short codes in use are refused to a new code.\<close>

lemma create_never_steals:
  assumes "invar s" "so_CreateCodes st e cs s = Inr (cs', s')" "a_owner (alpha s) k = Some cid" "c \<in> set cs'"
  shows "ShortCode c \<noteq> k"
proof
  assume k: "ShortCode c = k"
  note sp = conjunct2 [OF conjunct2 [OF create_ok [OF assms(1,2)]]]
  have c: "undelete c \<in> set (map undelete cs')" using assms(4) by simp
  from spec_create_present [OF sp c] spec_create_owner [OF sp assms(3)] k
  have "code_ID c = cid" by (simp add: undelete_def)
  moreover obtain d where "a_codes (alpha s) cid = Some d" using awf_owner_code [OF inv_awf [OF assms(1)] assms(3)] by blast
  moreover have "a_codes (alpha s) (code_ID c) = None"
    using spec_create_fresh_IDs [OF sp c] by (simp add: undelete_def)
  ultimately show False by simp
qed

text \<open>Two updates made against the same version: the second one fails.\<close>

lemma no_lost_update:
  assumes "invar s" "so_UpdateDestination st e cid uid dest v s = Inr s'"
  shows "so_UpdateDestination st e' cid uid dest' v s' = Inl ErrConflict"
proof -
  note u = refines_Inr [OF update_refines [OF assms(1)] assms(2)]
  have "spec_UpdateDestination (stamp (now e')) cid uid dest' v (alpha s') = Inl ErrConflict"
  proof -
    obtain c where c: "a_codes (alpha s) cid = Some c" "code_UserID c = uid"
      "alpha s' = put_code (c\<lparr>Destination := dest, code_Version := v + 1, code_UpdatedAt := stamp (now e)\<rparr>) (alpha s)"
      using u(2) by (rule spec_UpdateDestination_Inr)
    then show ?thesis using awf_ID [OF inv_awf [OF assms(1)] c(1)]
      by (simp add: spec_UpdateDestination_def owned_def put_code_def)
  qed
  then show ?thesis using update_refines [OF u(3), of e' cid uid dest' v] u(1) refines_Inl by simp
qed

text \<open>A successful update is what the next lookup sees, and nothing else changes.\<close>

lemma update_visible:
  assumes "invar s" "so_UpdateDestination st e cid uid dest v s = Inr s'"
    and "so_GetCodeByShortCode st sc s = Inr c"
  shows "so_GetCodeByShortCode st sc s' =
    Inr (if code_ID c = cid then c\<lparr>Destination := dest, code_Version := v + 1, code_UpdatedAt := stamp (now e)\<rparr> else c)"
proof -
  note u = refines_Inr [OF update_refines [OF assms(1)] assms(2)]
  note wf = inv_awf [OF assms(1)]
  obtain i where i: "a_owner (alpha s) (key sc) = Some i" "a_codes (alpha s) i = Some c"
    using assms(3) lookup_spec [OF assms(1) u(1)] by (auto simp: spec_lookup_Inr)
  have id: "code_ID c = i" using awf_ID [OF wf i(2)] .
  obtain d where d: "a_codes (alpha s) cid = Some d" "code_Version d = v"
    and s': "alpha s' = put_code (d\<lparr>Destination := dest, code_Version := v + 1, code_UpdatedAt := stamp (now e)\<rparr>) (alpha s)"
    using u(2) by (rule spec_UpdateDestination_Inr)
  have "Option.bind (a_owner (alpha s') (key sc)) (a_codes (alpha s')) =
      Some (if code_ID c = cid then c\<lparr>Destination := dest, code_Version := v + 1, code_UpdatedAt := stamp (now e)\<rparr> else c)"
  proof (cases "i = cid")
    case True
    then have "c = d" using i(2) d(1) by simp
    then show ?thesis using True i(1) awf_ID [OF wf d(1)] by (simp add: s' put_code_def)
  next
    case False
    then show ?thesis using i awf_ID [OF wf d(1)] by (simp add: s' put_code_def id)
  qed
  then show ?thesis using lookup_spec [OF u(3,1), of sc] by (simp add: spec_lookup_def)
qed

text \<open>Another user's code cannot be told from one that does not exist.\<close>

lemma ownership:
  assumes "invar s" "avail" "owned (alpha s) cid uid = None"
  shows "so_GetCodeByID st cid uid s = Inl ErrNotFound"
    and "so_UpdateDestination st e cid uid dest v s = Inl ErrNotFound"
    and "stt \<in> {CodeActive, CodeDisabled} \<Longrightarrow> so_SetCodeState st e cid uid stt s = Inl ErrNotFound"
    and "so_DeleteCode st e cid uid s = Inl ErrNotFound"
proof -
  show "so_GetCodeByID st cid uid s = Inl ErrNotFound"
    using by_id_spec [OF assms(1,2), of cid uid] assms(3) by simp
  show "so_UpdateDestination st e cid uid dest v s = Inl ErrNotFound"
    using update_refines [OF assms(1), of e cid uid dest v] assms(2,3)
    by (simp add: refines_Inl spec_UpdateDestination_def)
  show "so_SetCodeState st e cid uid stt s = Inl ErrNotFound" if "stt \<in> {CodeActive, CodeDisabled}"
    using set_state_refines [OF assms(1) that, of e cid uid] assms(2,3)
    by (simp add: refines_Inl spec_SetCodeState_def)
  show "so_DeleteCode st e cid uid s = Inl ErrNotFound"
    using delete_refines [OF assms(1), of e cid uid] assms(2,3)
    by (simp add: refines_Inl spec_DeleteCode_def)
qed

text \<open>After a delete the code is frozen, its short code still resolves to it and stays taken.\<close>

lemma delete_final:
  assumes "invar s" "so_DeleteCode st e cid uid s = Inr s'"
  shows "so_UpdateDestination st e' cid uid dest v s' = Inl ErrConflict"
    and "stt \<in> {CodeActive, CodeDisabled} \<Longrightarrow> so_SetCodeState st e' cid uid stt s' = Inl ErrConflict"
    and "so_DeleteCode st e' cid uid s' = Inr s'' \<Longrightarrow> alpha s'' = alpha s'"
    and "so_GetCodeByShortCode st sc s = Inr c \<Longrightarrow> code_ID c = cid \<Longrightarrow>
      \<exists>d. so_GetCodeByShortCode st sc s' = Inr d \<and> code_ID d = cid \<and> code_State d = CodeDeleted"
    and "so_IsAliasAvailable st sc s' = so_IsAliasAvailable st sc s"
proof -
  note u = refines_Inr [OF delete_refines [OF assms(1)] assms(2)] and wf = inv_awf [OF assms(1)]
  obtain d where d: "owned (alpha s') cid uid = Some d" "code_State d = CodeDeleted"
    using spec_DeleteCode_Inr [OF u(2) wf] by blast
  show "so_UpdateDestination st e' cid uid dest v s' = Inl ErrConflict"
    using update_refines [OF u(3), of e' cid uid dest v] u(1) d by (simp add: spec_UpdateDestination_def refines_Inl)
  show "so_SetCodeState st e' cid uid stt s' = Inl ErrConflict" if "stt \<in> {CodeActive, CodeDisabled}"
    using set_state_refines [OF u(3) that, of e' cid uid] u(1) d by (simp add: spec_SetCodeState_def refines_Inl)
  show "alpha s'' = alpha s'" if "so_DeleteCode st e' cid uid s' = Inr s''"
    using refines_Inr(2) [OF delete_refines [OF u(3)] that] d by (simp add: spec_DeleteCode_def)
  have own: "a_owner (alpha s') = a_owner (alpha s)" using spec_owner(3) [OF u(2)] .
  show "so_IsAliasAvailable st sc s' = so_IsAliasAvailable st sc s"
    by (simp add: available_spec [OF u(3,1)] available_spec [OF assms(1) u(1)] own)
  show "\<exists>d. so_GetCodeByShortCode st sc s' = Inr d \<and> code_ID d = cid \<and> code_State d = CodeDeleted"
    if "so_GetCodeByShortCode st sc s = Inr c" "code_ID c = cid"
  proof -
    have "a_owner (alpha s) (key sc) = Some cid"
      using that lookup_spec [OF assms(1) u(1)] awf_ID [OF wf]
      by (auto simp: spec_lookup_Inr)
    moreover have dc: "a_codes (alpha s') cid = Some d" using d(1) by (simp add: owned_Some)
    ultimately have "so_GetCodeByShortCode st sc s' = Inr d"
      using lookup_spec [OF u(3,1), of sc] by (simp add: spec_lookup_def own)
    then show ?thesis using d(2) awf_ID [OF inv_awf [OF u(3)] dc] by blast
  qed
qed

text \<open>Releasing an alias makes it available; releasing one that is in use is refused.\<close>

lemma release_frees:
  assumes "invar s" "so_ReleaseAlias st e sc s = Inr s'" "clean_short (map ascii_lower sc)"
  shows "so_IsAliasAvailable st sc s' = Inr True" "so_GetCodeByShortCode st sc s' = Inl ErrNotFound"
proof -
  note u = refines_Inr [OF release_refines [OF assms(1)] assms(2)]
  have asc: "is_ascii sc" using clean_short_ascii [OF assms(3)] by (rule is_ascii_lower)
  then have "a_owner (alpha s') (map ascii_lower sc) = None"
    using spec_owner(4) [OF u(2)] by (simp add: strings_ToLower_ascii)
  then show "so_IsAliasAvailable st sc s' = Inr True" "so_GetCodeByShortCode st sc s' = Inl ErrNotFound"
    using available_spec [OF u(3,1), of sc] lookup_spec [OF u(3,1), of sc] key_any_case [OF assms(3)]
    by (simp_all add: spec_lookup_def)
qed

lemma release_live_refused:
  assumes "invar s" "avail" "so_GetCodeByShortCode st sc s = Inr c" "code_State c \<noteq> CodeDeleted"
    and "clean_short (map ascii_lower sc)"
  shows "so_ReleaseAlias st e sc s = Inl ErrConflict"
proof -
  obtain cid where "a_owner (alpha s) (map ascii_lower sc) = Some cid" "a_codes (alpha s) cid = Some c"
    using assms(3) lookup_spec [OF assms(1,2), of sc] key_any_case [OF assms(5)] by (auto simp: spec_lookup_Inr)
  then have "spec_ReleaseAlias (strings_ToLower sc) (alpha s) = Inl ErrConflict"
    using assms(4) is_ascii_lower [OF clean_short_ascii [OF assms(5)]]
    by (simp add: spec_ReleaseAlias_def strings_ToLower_ascii)
  then show ?thesis using release_refines [OF assms(1), of e sc] assms(2) by (simp add: refines_Inl)
qed

end

end
