(* ===== verification/Sqlite_Store.thy ===== *)
theory Sqlite_Store
  imports Sqlite_Analytics Store_Spec
begin

text \<open>
  The SQLite driver implements the store contract: the abstraction from the tables to the
  abstract store, the invariant of the tables, and the interpretation of \<open>code_store\<close>.
\<close>

subsection \<open>The driver as a store\<close>

definition sqlite_ops :: "engine \<Rightarrow> db store_ops" where
  "sqlite_ops eng = \<lparr>so_CreateUser = sq_CreateUser eng, so_GetUserByID = sq_GetUserByID eng,
     so_GetUserByEmail = sq_GetUserByEmail eng, so_BumpTokenVersion = sq_BumpTokenVersion eng,
     so_CountUsers = sq_CountUsers eng, so_CreateToken = sq_CreateToken eng,
     so_GetTokenByID = sq_GetTokenByID eng, so_ListTokens = sq_ListTokens eng,
     so_RevokeToken = sq_RevokeToken eng, so_TouchTokenLastUsed = sq_TouchTokenLastUsed eng,
     so_CreateCodes = sq_CreateCodes eng, so_GetCodeByShortCode = sq_GetCodeByShortCode eng,
     so_GetCodeByID = sq_GetCodeByID eng, so_GetCodeByClientRef = sq_GetCodeByClientRef eng,
     so_ListCodes = sq_ListCodes eng, so_UpdateDestination = sq_UpdateDestination eng, so_SetCodeState = sq_SetCodeState eng,
     so_DeleteCode = sq_DeleteCode eng, so_IsAliasAvailable = sq_IsAliasAvailable eng,
     so_ReleaseAlias = sq_ReleaseAlias eng, so_InsertScanBatch = sq_InsertScanBatch eng,
     so_QueryAnalytics = sq_QueryAnalytics eng, so_PruneScanEvents = sq_PruneScanEvents eng,
     so_ForEachUser = sq_ForEachUser eng, so_ForEachCode = sq_ForEachCode eng,
     so_ForEachRollup = sq_ForEachRollup eng, so_ForEachReservation = sq_ForEachReservation eng\<rparr>"

lemma sqlite_ops_simps [simp]:
  "so_CreateCodes (sqlite_ops eng) = sq_CreateCodes eng"
  "so_GetCodeByShortCode (sqlite_ops eng) = sq_GetCodeByShortCode eng"
  "so_GetCodeByID (sqlite_ops eng) = sq_GetCodeByID eng"
  "so_GetCodeByClientRef (sqlite_ops eng) = sq_GetCodeByClientRef eng"
  "so_UpdateDestination (sqlite_ops eng) = sq_UpdateDestination eng"
  "so_SetCodeState (sqlite_ops eng) = sq_SetCodeState eng"
  "so_DeleteCode (sqlite_ops eng) = sq_DeleteCode eng"
  "so_IsAliasAvailable (sqlite_ops eng) = sq_IsAliasAvailable eng"
  "so_ReleaseAlias (sqlite_ops eng) = sq_ReleaseAlias eng"
  by (simp_all add: sqlite_ops_def)

subsection \<open>Abstraction and invariant\<close>

definition sq_alpha :: "db \<Rightarrow> astore" where
  "sq_alpha s = \<lparr>a_codes = (\<lambda>cid. find (\<lambda>c. code_ID c = cid) (t_codes s)),
     a_owner = (\<lambda>k. map_option ar_CodeID
       (find (\<lambda>r. ar_ShortCode r = k \<and> ReleasedAt r = None) (t_reservations s)))\<rparr>"

definition sq_inv :: "db \<Rightarrow> bool" where
  "sq_inv s = (distinct (map code_ID (t_codes s)) \<and> distinct (map ar_ShortCode (t_reservations s)) \<and>
     (\<forall>c \<in> set (t_codes s). nocase (ShortCode c) = ShortCode c) \<and> awf (sq_alpha s))"

lemma sq_inv_dest:
  assumes "sq_inv s"
  shows "distinct (map code_ID (t_codes s))" "distinct (map ar_ShortCode (t_reservations s))"
    "c \<in> set (t_codes s) \<Longrightarrow> nocase (ShortCode c) = ShortCode c" "awf (sq_alpha s)"
  using assms by (auto simp: sq_inv_def)

lemma a_codes_sq:
  assumes "sq_inv s"
  shows "a_codes (sq_alpha s) cid = Some c \<longleftrightarrow> c \<in> set (t_codes s) \<and> code_ID c = cid"
proof
  assume "c \<in> set (t_codes s) \<and> code_ID c = cid"
  then show "a_codes (sq_alpha s) cid = Some c"
    using distinct_map_unique [OF sq_inv_dest(1) [OF assms]] by (auto simp: sq_alpha_def intro!: find_unique)
qed (auto simp: sq_alpha_def dest: find_Some_set)

lemma holder_owner: "holder sc s = a_owner (sq_alpha s) (nocase sc)"
  by (simp add: holder_def sq_alpha_def)

lemma owner_None:
  "a_owner (sq_alpha s) k = None \<longleftrightarrow> (\<forall>r \<in> set (t_reservations s). \<not> (ar_ShortCode r = k \<and> ReleasedAt r = None))"
  by (simp add: sq_alpha_def find_None_set)

subsection \<open>Lower-cased short codes\<close>

lemma encode_rune_no_upper:
  assumes "valid_rune r" "\<not> (65 \<le> r \<and> r \<le> 90)" "c \<in> set (encode_rune r)"
  shows "ascii_lower c = c"
proof (cases "r < 128")
  case True
  then show ?thesis using assms by (simp add: encode_rune_def ascii_lower_def)
next
  case False
  have "r < 1114112" using assms(1) by (auto simp: valid_rune_def)
  then have "128 \<le> byte c" using False assms(3) by (auto simp: encode_rune_def byte_char_of split: if_splits)
  then show ?thesis by (simp add: ascii_lower_def)
qed

lemma nocase_ToLower [simp]: "nocase (strings_ToLower s) = strings_ToLower s"
proof -
  have "ascii_lower c = c" if "c \<in> set (strings_ToLower s)" for c
  proof -
    obtain r where "r \<in> set (utf8_dec s)" "c \<in> set (encode_rune (unicode_ToLower r))"
      using \<open>c \<in> set (strings_ToLower s)\<close> by (auto simp: strings_ToLower_runes)
    then show ?thesis using encode_rune_no_upper unicode_ToLower_no_upper unicode_ToLower_valid utf8_dec_valid [of s]
      by (metis list_all_iff)
  qed
  then show ?thesis by (simp add: nocase_def map_idI)
qed

lemma nocase_twice [simp]: "nocase (nocase s) = nocase s"
  by (auto simp: nocase_def ascii_lower_def)

subsection \<open>Guarded updates\<close>

lemma sq_alpha_update_codes:
  assumes "sq_inv s" "\<And>c. code_ID (f c) = code_ID c" "\<And>c. g c \<Longrightarrow> code_ID c = cid"
    and "a_codes (sq_alpha s) cid = Some c" "g c"
  shows "sq_alpha (update_codes g f s) = put_code (f c) (sq_alpha s)"
proof -
  have "find (\<lambda>x. code_ID x = i) (map (\<lambda>x. if g x then f x else x) (t_codes s)) =
      ((a_codes (sq_alpha s))(code_ID (f c) \<mapsto> f c)) i" for i
  proof -
    have "find (\<lambda>x. code_ID x = i) (map (\<lambda>x. if g x then f x else x) (t_codes s)) =
        map_option (\<lambda>x. if g x then f x else x) (a_codes (sq_alpha s) i)"
      using assms(2) by (subst find_map_unchanged) (auto simp: sq_alpha_def)
    moreover have "map_option (\<lambda>x. if g x then f x else x) (a_codes (sq_alpha s) i) =
        ((a_codes (sq_alpha s))(code_ID (f c) \<mapsto> f c)) i"
    proof (cases "i = cid")
      case True
      then show ?thesis using assms(2) [of c] assms(3) [OF assms(5)] assms(4,5) by simp
    next
      case False
      have "\<not> g x" if "a_codes (sq_alpha s) i = Some x" for x
        using that False assms(3) [of x] by (auto simp: a_codes_sq [OF assms(1)])
      then show ?thesis using False assms(2) [of c] assms(3) [OF assms(5)]
        by (cases "a_codes (sq_alpha s) i") auto
    qed
    ultimately show ?thesis by simp
  qed
  then show ?thesis by (simp add: sq_alpha_def update_codes_def put_code_def fun_eq_iff)
qed

lemma list_ex_owned:
  assumes "sq_inv s"
  shows "list_ex (\<lambda>c. code_ID c = cid \<and> code_UserID c = uid \<and> h c) (t_codes s) \<longleftrightarrow>
    (\<exists>c. owned (sq_alpha s) cid uid = Some c \<and> h c)"
  by (auto simp: list_ex_iff owned_Some a_codes_sq [OF assms])

lemma ownedExists_owned: "sq_inv s \<Longrightarrow> ownedExists cid uid s \<longleftrightarrow> owned (sq_alpha s) cid uid \<noteq> None"
  using list_ex_owned [of s cid uid "\<lambda>_. True"] by (auto simp: ownedExists_def)

text \<open>The three guarded updates, once: the driver's statement is the specification's case
  distinction on the owned row.\<close>

lemma guarded_update_refines:
  assumes "sq_inv s"
    and f: "\<And>c. code_ID (f c) = code_ID c" "\<And>c. ShortCode (f c) = ShortCode c"
    and other: "\<And>t. r = Inr t \<Longrightarrow> t = s"
    and sp: "sp = (case owned (sq_alpha s) cid uid of None \<Rightarrow> Inl ErrNotFound
      | Some c \<Rightarrow> if h c then Inr (put_code (f c) (sq_alpha s)) else map_sum id sq_alpha r)"
    and wf: "\<And>b. sp = Inr b \<Longrightarrow> awf b"
  shows "refines (outage eng = None) sq_inv sq_alpha
    (withTx eng (guarded_update (\<lambda>c. code_ID c = cid \<and> code_UserID c = uid \<and> h c) f cid uid r) s) sp"
proof (cases "outage eng = None")
  case False
  then show ?thesis by (auto simp: refines_def withTx_def)
next
  case up: True
  let ?g = "\<lambda>c. code_ID c = cid \<and> code_UserID c = uid \<and> h c"
  show ?thesis
  proof (cases "owned (sq_alpha s) cid uid")
    case None
    then show ?thesis using up list_ex_owned [OF assms(1), of cid uid h] ownedExists_owned [OF assms(1), of cid uid]
      by (simp add: refines_def guarded_update_def sp)
  next
    case (Some c)
    then have c: "a_codes (sq_alpha s) cid = Some c" "code_UserID c = uid" "code_ID c = cid"
      by (auto simp: owned_Some a_codes_sq [OF assms(1)])
    show ?thesis
    proof (cases "h c")
      case True
      let ?t = "update_codes ?g f s"
      have al: "sq_alpha ?t = put_code (f c) (sq_alpha s)"
        by (rule sq_alpha_update_codes [OF assms(1), where cid = cid]) (use f c True in auto)
      have keys: "map code_ID (t_codes ?t) = map code_ID (t_codes s)" "t_reservations ?t = t_reservations s"
        using f(1) by (simp_all add: update_codes_def)
      have "nocase (ShortCode d) = ShortCode d" if "d \<in> set (t_codes ?t)" for d
        using that f(2) sq_inv_dest(3) [OF assms(1)] by (auto simp: update_codes_def)
      then have "sq_inv ?t" using wf al Some True sq_inv_dest(1,2) [OF assms(1)]
        unfolding sq_inv_def keys al sp by simp
      then show ?thesis using up Some True al list_ex_owned [OF assms(1), of cid uid h]
        by (simp add: refines_def guarded_update_def sp)
    next
      case False
      then show ?thesis using up Some other assms(1) list_ex_owned [OF assms(1), of cid uid h]
          ownedExists_owned [OF assms(1), of cid uid]
        by (auto simp: refines_def guarded_update_def sp)
    qed
  qed
qed

lemma sq_stamp [simp]: "fmtTime (sq_now e) = Truncate (now e) Microsecond"
  by (simp add: fmtTime_def sq_now_def)

lemma sq_UpdateDestination_refines:
  assumes "sq_inv s"
  shows "refines (outage eng = None) sq_inv sq_alpha (sq_UpdateDestination eng e cid uid dest v s)
    (spec_UpdateDestination (Truncate (now e) Microsecond) cid uid dest v (sq_alpha s))"
  unfolding sq_UpdateDestination_def
  by (rule guarded_update_refines [OF assms _ _ _ _ awf_spec_UpdateDestination [OF sq_inv_dest(4) [OF assms]]])
    (auto simp: spec_UpdateDestination_def not_deleted_def split: option.splits)

lemma sq_SetCodeState_refines:
  assumes "sq_inv s" "stt \<in> {CodeActive, CodeDisabled}"
  shows "refines (outage eng = None) sq_inv sq_alpha (sq_SetCodeState eng e cid uid stt s)
    (spec_SetCodeState (Truncate (now e) Microsecond) cid uid stt (sq_alpha s))"
proof -
  have "sq_SetCodeState eng e cid uid stt s = withTx eng (guarded_update
         (\<lambda>c. code_ID c = cid \<and> code_UserID c = uid \<and> not_deleted c)
         (\<lambda>c. c\<lparr>code_State := stt, code_Version := code_Version c + 1, code_UpdatedAt := fmtTime (sq_now e)\<rparr>)
         cid uid (Inl ErrConflict)) s"
    using assms(2) by (auto simp: sq_SetCodeState_def domain_consts)
  then show ?thesis
    by (simp only:) (rule guarded_update_refines [OF assms(1) _ _ _ _ awf_spec_SetCodeState [OF sq_inv_dest(4) [OF assms(1)]]],
      auto simp: spec_SetCodeState_def not_deleted_def split: option.splits)
qed

lemma sq_DeleteCode_refines:
  assumes "sq_inv s"
  shows "refines (outage eng = None) sq_inv sq_alpha (sq_DeleteCode eng e cid uid s)
    (spec_DeleteCode (Truncate (now e) Microsecond) cid uid (sq_alpha s))"
proof -
  have "sq_DeleteCode eng e cid uid s = withTx eng (guarded_update
       (\<lambda>c. code_ID c = cid \<and> code_UserID c = uid \<and> not_deleted c)
       (\<lambda>c. c\<lparr>code_State := CodeDeleted, code_DeletedAt := Some (fmtTime (sq_now e)),
          code_Version := code_Version c + 1, code_UpdatedAt := fmtTime (sq_now e)\<rparr>) cid uid (Inr s)) s"
    by (simp add: sq_DeleteCode_def Let_def withTx_def split: option.splits)
  then show ?thesis
    by (simp only:) (rule guarded_update_refines [OF assms _ _ _ _ awf_spec_DeleteCode [OF sq_inv_dest(4) [OF assms]]],
      auto simp: spec_DeleteCode_def not_deleted_def split: option.splits)
qed

subsection \<open>Reads\<close>

text \<open>The \<open>JOIN\<close> on the reservations and the \<open>ORDER BY\<close> of the redirect lookup come down to
  the code that holds the reservation.\<close>

lemma resolves_owner:
  assumes "sq_inv s" "c \<in> set (t_codes s)"
  shows "resolves sc s c \<longleftrightarrow> a_owner (sq_alpha s) (nocase sc) = Some (code_ID c)"
proof
  have c: "a_codes (sq_alpha s) (code_ID c) = Some c" using assms by (simp add: a_codes_sq)
  note wf = sq_inv_dest(4) [OF assms(1)]
  show "a_owner (sq_alpha s) (nocase sc) = Some (code_ID c)" if "resolves sc s c"
    using that awf_live_owner [OF wf c] sq_inv_dest(3) [OF assms]
    by (auto simp: resolves_def holder_owner not_deleted_def)
  show "resolves sc s c" if own: "a_owner (sq_alpha s) (nocase sc) = Some (code_ID c)"
    using awf_owner_code [OF wf own] c by (auto simp: resolves_def holder_owner own)
qed

lemma sq_lookup_spec:
  assumes "sq_inv s" "outage eng = None"
  shows "sq_GetCodeByShortCode eng sc s = spec_lookup (nocase sc) (sq_alpha s)"
proof (cases "a_owner (sq_alpha s) (nocase sc)")
  case None
  then have none: "filter (resolves sc s) (t_codes s) = []"
    using resolves_owner [OF assms(1)] by (auto simp: filter_empty_conv)
  show ?thesis unfolding sq_GetCodeByShortCode_def
    by (simp add: assms(2) none None spec_lookup_def translate_def)
next
  case (Some cid)
  then obtain c where c: "a_codes (sq_alpha s) cid = Some c" using awf_owner_code [OF sq_inv_dest(4) [OF assms(1)]] by blast
  have "filter (resolves sc s) (t_codes s) = filter (\<lambda>d. code_ID d = cid) (t_codes s)"
    using resolves_owner [OF assms(1)] Some by (intro filter_cong) auto
  also have "\<dots> = [c]"
    using c distinct_map_filter_one [OF sq_inv_dest(1) [OF assms(1)], of c] by (simp add: a_codes_sq [OF assms(1)])
  finally have one: "filter (resolves sc s) (t_codes s) = [c]" .
  show ?thesis unfolding sq_GetCodeByShortCode_def
    by (simp add: assms(2) one spec_lookup_def Some c)
qed

lemma sq_by_id_spec:
  assumes "sq_inv s" "outage eng = None"
  shows "sq_GetCodeByID eng cid uid s = (case owned (sq_alpha s) cid uid of None \<Rightarrow> Inl ErrNotFound | Some c \<Rightarrow> Inr c)"
proof (cases "owned (sq_alpha s) cid uid")
  case None
  then have "find (\<lambda>c. code_ID c = cid \<and> code_UserID c = uid) (t_codes s) = None"
    using list_ex_owned [OF assms(1), of cid uid "\<lambda>_. True"] by (auto simp: find_None_set list_ex_iff)
  then show ?thesis by (simp add: sq_GetCodeByID_def assms(2) None translate_def)
next
  case (Some c)
  then have "find (\<lambda>c. code_ID c = cid \<and> code_UserID c = uid) (t_codes s) = Some c"
    using distinct_map_unique [OF sq_inv_dest(1) [OF assms(1)]]
    by (intro find_unique) (auto simp: owned_Some a_codes_sq [OF assms(1)])
  then show ?thesis by (simp add: sq_GetCodeByID_def assms(2) Some)
qed

lemma live_with_key:
  assumes "sq_inv s"
  shows "(\<exists>c \<in> set (t_codes s). nocase (ShortCode c) = nocase sc \<and> not_deleted c) \<longleftrightarrow>
    (\<exists>cid c. a_owner (sq_alpha s) (nocase sc) = Some cid \<and> a_codes (sq_alpha s) cid = Some c \<and>
       code_State c \<noteq> CodeDeleted)" (is "?L \<longleftrightarrow> ?R")
proof
  assume ?L
  then obtain c where c: "c \<in> set (t_codes s)" "resolves sc s c" "not_deleted c" by (auto simp: resolves_def)
  then show ?R using resolves_owner [OF assms c(1)] by (auto simp: a_codes_sq [OF assms] not_deleted_def)
next
  assume ?R
  then obtain c where c: "c \<in> set (t_codes s)" "a_owner (sq_alpha s) (nocase sc) = Some (code_ID c)" "not_deleted c"
    by (auto simp: a_codes_sq [OF assms] not_deleted_def)
  then show ?L using resolves_owner [OF assms c(1)] by (auto simp: resolves_def)
qed

lemma sq_available_spec:
  assumes "sq_inv s" "outage eng = None"
  shows "sq_IsAliasAvailable eng sc s = Inr (a_owner (sq_alpha s) (nocase sc) = None)"
proof -
  have "(\<forall>c \<in> set (t_codes s). \<not> (nocase (ShortCode c) = nocase sc \<and> not_deleted c))"
    if "a_owner (sq_alpha s) (nocase sc) = None"
    using that live_with_key [OF assms(1), of sc] by auto
  then show ?thesis
    by (auto simp: sq_IsAliasAvailable_def assms(2) filter_empty_conv owner_None)
qed

subsection \<open>Releasing\<close>

lemma sq_alpha_release:
  assumes "distinct (map ar_ShortCode (t_reservations s))"
  shows "sq_alpha (s\<lparr>t_reservations := map (\<lambda>r. if ar_ShortCode r = k \<and> ReleasedAt r = None
      then r\<lparr>ReleasedAt := Some t\<rparr> else r) (t_reservations s)\<rparr>) =
    (sq_alpha s)\<lparr>a_owner := (a_owner (sq_alpha s))(k := None)\<rparr>"
proof -
  let ?f = "\<lambda>r. if ar_ShortCode r = k \<and> ReleasedAt r = None then r\<lparr>ReleasedAt := Some t\<rparr> else r"
  have rel: "find (\<lambda>r. ar_ShortCode r = j \<and> ReleasedAt r = None) (map ?f rs) =
      (if j = k then None else find (\<lambda>r. ar_ShortCode r = j \<and> ReleasedAt r = None) rs)" for j rs
    by (induction rs) auto
  show ?thesis by (simp add: sq_alpha_def rel fun_eq_iff)
qed

lemma sq_ReleaseAlias_refines:
  assumes "sq_inv s"
  shows "refines (outage eng = None) sq_inv sq_alpha (sq_ReleaseAlias eng e sc s)
    (spec_ReleaseAlias (strings_ToLower sc) (sq_alpha s))"
proof (cases "outage eng = None")
  case False
  then show ?thesis by (auto simp: refines_def withTx_def sq_ReleaseAlias_def Let_def)
next
  case up: True
  let ?k = "strings_ToLower sc"
  let ?t = "s\<lparr>t_reservations := map (\<lambda>r. if ar_ShortCode r = ?k \<and> ReleasedAt r = None
              then r\<lparr>ReleasedAt := Some (fmtTime (sq_now e))\<rparr> else r) (t_reservations s)\<rparr>"
  note al = sq_alpha_release [OF sq_inv_dest(2) [OF assms], of ?k "fmtTime (sq_now e)"]
  have run: "sq_ReleaseAlias eng e sc s =
      (if a_owner (sq_alpha s) ?k = None then Inl ErrNotFound
       else if \<exists>c \<in> set (t_codes s). nocase (ShortCode c) = nocase ?k \<and> not_deleted c then Inl ErrConflict
       else Inr ?t)"
    by (auto simp: sq_ReleaseAlias_def Let_def up owner_None list_ex_iff filter_empty_conv)
  have keys: "map ar_ShortCode (t_reservations ?t) = map ar_ShortCode (t_reservations s)" by simp
  show ?thesis
  proof (cases "a_owner (sq_alpha s) ?k")
    case None
    then show ?thesis by (simp add: run refines_def spec_ReleaseAlias_def)
  next
    case (Some cid)
    then obtain c where c: "a_codes (sq_alpha s) cid = Some c" using awf_owner_code [OF sq_inv_dest(4) [OF assms]] by blast
    have live: "(\<exists>c \<in> set (t_codes s). nocase (ShortCode c) = nocase ?k \<and> not_deleted c) \<longleftrightarrow> code_State c \<noteq> CodeDeleted"
      using live_with_key [OF assms, of ?k] Some c by simp
    show ?thesis
    proof (cases "code_State c = CodeDeleted")
      case False
      then show ?thesis using Some c live by (simp add: run refines_def spec_ReleaseAlias_def)
    next
      case True
      have sp: "spec_ReleaseAlias ?k (sq_alpha s) = Inr (sq_alpha ?t)"
        using True Some c by (simp add: spec_ReleaseAlias_def al)
      have "sq_inv ?t" unfolding sq_inv_def keys
        using sq_inv_dest [OF assms] awf_spec_ReleaseAlias [OF sq_inv_dest(4) [OF assms] sp] by simp
      moreover have "sq_ReleaseAlias eng e sc s = Inr ?t" using run live True Some by simp
      ultimately show ?thesis using sp up by (simp add: refines_def)
    qed
  qed
qed

subsection \<open>Creating\<close>

lemma reflect_stored: "reflect r = stored_code r"
  by (simp add: reflect_def stored_code_def fmtTime_def)

lemma stored_code_simps [simp]:
  "code_ID (stored_code r) = code_ID (cr_c r)" "ShortCode (stored_code r) = cr_shortCode r"
  "code_Version (stored_code r) = 1" "code_DeletedAt (stored_code r) = None"
  "undelete (stored_code r) = stored_code r"
  by (simp_all add: stored_code_def undelete_def)

lemma upsert_reservation_owner:
  assumes "distinct (map ar_ShortCode rs)" "upsert_reservation k cid t rs = Some rs'"
  shows "distinct (map ar_ShortCode rs')"
    and "find (\<lambda>r. ar_ShortCode r = k \<and> ReleasedAt r = None) rs = None"
    and "map_option ar_CodeID (find (\<lambda>r. ar_ShortCode r = j \<and> ReleasedAt r = None) rs') =
      (if j = k then Some cid else map_option ar_CodeID (find (\<lambda>r. ar_ShortCode r = j \<and> ReleasedAt r = None) rs))"
proof -
  let ?P = "\<lambda>j r. ar_ShortCode r = j \<and> ReleasedAt r = None"
  consider (new) "find (\<lambda>r. ar_ShortCode r = k) rs = None"
      "rs' = rs @ [\<lparr>ar_ShortCode = k, ar_CodeID = cid, ReservedAt = t, ReleasedAt = None\<rparr>]"
    | (old) r where "find (\<lambda>r. ar_ShortCode r = k) rs = Some r" "ReleasedAt r \<noteq> None"
      "rs' = map (\<lambda>r. if ar_ShortCode r = k then r\<lparr>ar_CodeID := cid, ReservedAt := t, ReleasedAt := None\<rparr> else r) rs"
    using assms(2) by (auto simp: upsert_reservation_def split: option.splits if_splits)
  then have "distinct (map ar_ShortCode rs') \<and> find (?P k) rs = None \<and>
      map_option ar_CodeID (find (?P j) rs') = (if j = k then Some cid else map_option ar_CodeID (find (?P j) rs))"
  proof cases
    case new
    have no: "\<forall>r \<in> set rs. ar_ShortCode r \<noteq> k" using new(1) by (simp add: find_None_set)
    have "find (?P j) (rs @ [x]) = (case find (?P j) rs of None \<Rightarrow> if ?P j x then Some x else None | y \<Rightarrow> y)" for x
      by (induction rs) auto
    moreover have "find (?P k) rs = None" using no by (auto simp: find_None_set)
    ultimately show ?thesis using assms(1) no by (auto simp: new(2) image_iff split: option.splits)
  next
    case (old r)
    have r: "r \<in> set rs" "ar_ShortCode r = k" using old(1) by (auto dest: find_Some_set)
    have uniq: "x = r" if "x \<in> set rs" "ar_ShortCode x = k" for x
      using distinct_map_unique [OF assms(1) that(1) r(1)] that(2) r(2) by simp
    let ?f = "\<lambda>r. if ar_ShortCode r = k then r\<lparr>ar_CodeID := cid, ReservedAt := t, ReleasedAt := None\<rparr> else r"
    have keys: "map ar_ShortCode rs' = map ar_ShortCode rs" by (simp add: old(3))
    have "find (?P k) rs = None" using uniq old(2) by (auto simp: find_None_set)
    moreover have hit: "map_option ar_CodeID (find (?P k) (map ?f xs)) = Some cid" if "r \<in> set xs" for xs
      using that r(2) by (induction xs) auto
    moreover have miss: "find (?P j) (map ?f xs) = find (?P j) xs" if "j \<noteq> k" for xs
      using that by (induction xs) auto
    moreover have "map_option ar_CodeID (find (?P j) rs') = (if j = k then Some cid else map_option ar_CodeID (find (?P j) rs))"
      using hit [OF r(1)] by (cases "j = k") (simp_all only: old(3) miss if_True if_False simp_thms)
    moreover have "distinct (map ar_ShortCode rs')" unfolding keys by (fact assms(1))
    ultimately show ?thesis by blast
  qed
  then show "distinct (map ar_ShortCode rs')" "find (?P k) rs = None"
    "map_option ar_CodeID (find (?P j) rs') = (if j = k then Some cid else map_option ar_CodeID (find (?P j) rs))"
    by blast+
qed

lemma insertCode_ok:
  assumes "sq_inv s" "insertCode eng e r s = Inr s'" "nocase (cr_shortCode r) = cr_shortCode r"
  shows "fresh_code (stored_code r) (sq_alpha s)" "sq_alpha s' = spec_insert (stored_code r) (sq_alpha s)" "sq_inv s'"
proof -
  let ?c = "stored_code r"
  let ?s1 = "s\<lparr>t_styling := t_styling s @ [sty_ID (cr_styling r)]\<rparr>"
  obtain rs where viol: "code_violations ?c ?s1 = []"
    and ups: "upsert_reservation (cr_shortCode r) (code_ID (cr_c r)) (fmtTime (sq_now e)) (t_reservations s) = Some rs"
    and s': "s' = s\<lparr>t_styling := t_styling s @ [sty_ID (cr_styling r)], t_codes := t_codes s @ [?c], t_reservations := rs\<rparr>"
    using assms(2) by (auto simp: insertCode_def Let_def split: sum.splits option.splits)
  note up = upsert_reservation_owner [OF sq_inv_dest(2) [OF assms(1)] ups]
  have id: "\<forall>d \<in> set (t_codes s). code_ID d \<noteq> code_ID ?c"
    and ref: "ClientRef ?c \<noteq> '''' \<Longrightarrow> \<forall>d \<in> set (t_codes s). \<not> (code_UserID d = code_UserID ?c \<and> ClientRef d = ClientRef ?c)"
    using viol by (auto simp: code_violations_def list_ex_iff split: if_splits)
  have noid: "a_codes (sq_alpha s) (code_ID ?c) = None" using id by (auto simp: sq_alpha_def find_None_set)
  have ran: "ran (a_codes (sq_alpha s)) \<subseteq> set (t_codes s)" using a_codes_sq [OF assms(1)] by (auto simp: ran_def)
  show fr: "fresh_code ?c (sq_alpha s)"
    using noid up(2) ref ran by (auto simp: fresh_code_def sq_alpha_def)
  have "find (\<lambda>d. code_ID d = i) (t_codes s @ [?c]) = ((a_codes (sq_alpha s))(code_ID ?c \<mapsto> ?c)) i" for i
  proof -
    have "find P (xs @ [x]) = (case find P xs of None \<Rightarrow> if P x then Some x else None | y \<Rightarrow> y)" for P xs and x :: code
      by (induction xs) auto
    then show ?thesis using noid by (auto simp: sq_alpha_def split: option.splits)
  qed
  then show al: "sq_alpha s' = spec_insert ?c (sq_alpha s)"
    using up(3) by (auto simp: s' sq_alpha_def spec_insert_def put_code_def fun_eq_iff)
  have "awf (sq_alpha s')" unfolding al
    by (rule awf_spec_insert [OF sq_inv_dest(4) [OF assms(1)] fr]) simp_all
  then show "sq_inv s'"
    using id sq_inv_dest(1,3) [OF assms(1)] up(1) assms(3) unfolding sq_inv_def by (auto simp: s')
qed

lemma foldM_insertCode_ok:
  assumes "sq_inv s" "foldM (insertCode eng e) rows s = Inr s'" "\<forall>r \<in> set rows. nocase (cr_shortCode r) = cr_shortCode r"
  shows "spec_create (map stored_code rows) (sq_alpha s) = Some (sq_alpha s') \<and> sq_inv s'"
  using assms
proof (induction rows arbitrary: s)
  case (Cons r rows)
  obtain u where u: "insertCode eng e r s = Inr u" "foldM (insertCode eng e) rows u = Inr s'"
    using Cons.prems(2) by (auto split: sum.splits)
  have nc: "nocase (cr_shortCode r) = cr_shortCode r" using Cons.prems(3) by simp
  note ins = insertCode_ok [OF Cons.prems(1) u(1) nc]
  show ?case using Cons.IH [OF ins(3) u(2)] Cons.prems(3) ins(1,2) by simp
qed simp

lemma newCodeRow_created:
  assumes "newCodeRow e c = Inr r"
  shows "created c (stored_code r)" "nocase (cr_shortCode r) = cr_shortCode r"
  using assms by (auto simp: newCodeRow_def created_def stored_code_def Let_def split: if_splits)

lemma newCodeRows_nocase:
  assumes "mapM (\<lambda>(i, c). newCodeRow (row_env e i) c) (enumerate 0 cs) = Inr rows"
  shows "\<forall>r \<in> set rows. nocase (cr_shortCode r) = cr_shortCode r"
proof
  fix r
  assume "r \<in> set rows"
  then obtain i where i: "i < length rows" "r = rows ! i" by (auto simp: in_set_conv_nth)
  then have "newCodeRow (row_env e i) (cs ! i) = Inr r"
    using assms unfolding mapM_ok by (simp add: list_all2_conv_all_nth nth_enumerate_eq)
  then show "nocase (cr_shortCode r) = cr_shortCode r" by (rule newCodeRow_created(2))
qed

lemma sq_CreateCodes_ok:
  assumes "sq_inv s" "sq_CreateCodes eng e cs s = Inr (cs', s')"
  shows "list_all2 created cs cs' \<and> sq_inv s' \<and> spec_create (map undelete cs') (sq_alpha s) = Some (sq_alpha s')"
proof (cases "cs = []")
  case True
  then show ?thesis using assms by (auto simp: sq_CreateCodes_def)
next
  case False
  obtain rows where rows: "mapM (\<lambda>(i, c). newCodeRow (row_env e i) c) (enumerate 0 cs) = Inr rows"
    and run: "foldM (insertCode eng e) rows s = Inr s'" and cs': "cs' = map stored_code rows"
    using assms(2) False by (auto simp: sq_CreateCodes_def withTx_Inr reflect_stored split: sum.splits)
  have rel: "list_all2 (\<lambda>x r. (\<lambda>(i, c). newCodeRow (row_env e i) c) x = Inr r) (enumerate 0 cs) rows"
    using rows by (simp only: mapM_ok)
  have "list_all2 created (map snd (enumerate 0 cs)) (map stored_code rows)"
    unfolding list.rel_map by (rule list_all2_mono [OF rel]) (auto dest: newCodeRow_created(1))
  then show ?thesis
    using foldM_insertCode_ok [OF assms(1) run newCodeRows_nocase [OF rows]] by (simp add: cs' comp_def)
qed

subsection \<open>The contract holds\<close>

lemma nocase_any_case: "clean_short (map ascii_lower sc) \<Longrightarrow> nocase sc = map ascii_lower sc"
  by (simp add: nocase_def)

lemma sq_by_ref_sound:
  assumes "sq_inv s" "sq_GetCodeByClientRef eng uid ref s = Inr c"
  shows "owned (sq_alpha s) (code_ID c) uid = Some c \<and> ClientRef c = ref"
proof -
  have f: "find (\<lambda>c. code_UserID c = uid \<and> ClientRef c = ref) (t_codes s) = Some c"
    using assms(2) by (auto simp: sq_GetCodeByClientRef_def withTx_def split: if_splits option.splits)
  then have c: "c \<in> set (t_codes s)" "code_UserID c = uid" "ClientRef c = ref" by (auto simp: find_Some_iff in_set_conv_nth)
  then show ?thesis using a_codes_sq [OF assms(1), of "code_ID c" c] by (simp add: owned_Some)
qed

lemma sq_by_ref_found:
  assumes "sq_inv s" "outage eng = None" "owned (sq_alpha s) cid uid = Some c" "ClientRef c \<noteq> ''''"
  shows "sq_GetCodeByClientRef eng uid (ClientRef c) s = Inr c"
proof -
  have c: "c \<in> set (t_codes s)" "code_UserID c = uid" "a_codes (sq_alpha s) cid = Some c"
    using assms(3) a_codes_sq [OF assms(1)] by (auto simp: owned_Some)
  obtain d where d: "find (\<lambda>c'. code_UserID c' = uid \<and> ClientRef c' = ClientRef c) (t_codes s) = Some d"
    using c by (cases "find (\<lambda>c'. code_UserID c' = uid \<and> ClientRef c' = ClientRef c) (t_codes s)") (auto simp: find_None_iff)
  then have get: "sq_GetCodeByClientRef eng uid (ClientRef c) s = Inr d"
    using assms(2,4) by (simp add: sq_GetCodeByClientRef_def withTx_def)
  have d2: "a_codes (sq_alpha s) (code_ID d) = Some d" "code_UserID d = uid" "ClientRef d = ClientRef c"
    using sq_by_ref_sound [OF assms(1) get] by (auto simp: owned_Some)
  have "code_ID d = cid" using awf_refs [OF sq_inv_dest(4) [OF assms(1)] d2(1) c(3)] d2 c assms(4) by simp
  then show ?thesis using get d2(1) c(3) by simp
qed

interpretation sqlite: code_store "sqlite_ops eng" sq_inv sq_alpha "outage eng = None"
  "\<lambda>t. Truncate t Microsecond" nocase
proof
  show "isl (so_SetCodeState (sqlite_ops eng) e cid uid stt s)" if "stt \<notin> {CodeActive, CodeDisabled}" for e cid uid stt s
    using that by (auto simp: sq_SetCodeState_def)
  show "owned (sq_alpha s) (code_ID c) uid = Some c \<and> ClientRef c = ref"
    if "sq_inv s" "so_GetCodeByClientRef (sqlite_ops eng) uid ref s = Inr c" for s uid ref c
    using sq_by_ref_sound [OF that(1), of eng uid ref c] that(2) by simp
qed (simp_all add: sq_inv_dest(4) nocase_any_case sq_CreateCodes_ok sq_UpdateDestination_refines
    sq_SetCodeState_refines sq_DeleteCode_refines sq_ReleaseAlias_refines sq_lookup_spec sq_by_id_spec sq_available_spec
    sq_by_ref_found)

subsection \<open>Every reachable database is well-formed\<close>

definition user_ids :: "db \<Rightarrow> string set" where "user_ids s = user_ID ` set (t_users s)"
definition code_ids :: "db \<Rightarrow> string set" where "code_ids s = code_ID ` set (t_codes s)"
definition code_owners :: "db \<Rightarrow> string set" where "code_owners s = code_UserID ` set (t_codes s)"

lemmas ids_defs = user_ids_def code_ids_def code_owners_def

definition wf_users :: "db \<Rightarrow> bool" where
  "wf_users s = (distinct (map user_ID (t_users s)) \<and> distinct (map (nocase \<circ> user_Email) (t_users s)) \<and>
     distinct (map tok_ID (t_tokens s)) \<and> tok_UserID ` set (t_tokens s) \<subseteq> user_ids s \<and>
     code_owners s \<subseteq> user_ids s)"

definition wf_scans :: "db \<Rightarrow> bool" where
  "wf_scans s = (distinct (map fst (t_events s)) \<and> (\<forall>x \<in> set (t_events s). fst x < next_event s) \<and>
     (ev_CodeID \<circ> snd) ` set (t_events s) \<subseteq> code_ids s \<and>
     distinct (map rollup_key_of (t_rollups s)) \<and>
     rd_CodeID ` set (t_rollups s) \<subseteq> code_ids s \<and> balanced (t_rollups s))"

definition wf_db :: "db \<Rightarrow> bool" where
  "wf_db s = (sq_inv s \<and> wf_users s \<and> wf_scans s)"

inductive sq_reachable :: "db \<Rightarrow> bool" where
  start: "sq_reachable empty_db"
| step: "sq_reachable s \<Longrightarrow> sq_reachable (run_store (sqlite_ops eng) e op s)"

text \<open>What a call on codes leaves alone, and what it does to the columns other tables refer to.\<close>

definition same_others :: "db \<Rightarrow> db \<Rightarrow> bool" where
  "same_others s t = (t_users t = t_users s \<and> t_tokens t = t_tokens s \<and> t_events t = t_events s \<and>
     next_event t = next_event s \<and> t_rollups t = t_rollups s \<and>
     code_ids s \<subseteq> code_ids t \<and> code_owners t \<subseteq> code_owners s \<union> user_ids s)"

lemma same_others_refl [simp]: "same_others s s"
  by (simp add: same_others_def)

lemma same_others_trans: "same_others s t \<Longrightarrow> same_others t u \<Longrightarrow> same_others s u"
  unfolding same_others_def user_ids_def by (elim conjE) (simp, blast)

lemma same_others_wf: "same_others s t \<Longrightarrow> wf_users s \<Longrightarrow> wf_scans s \<Longrightarrow> wf_users t \<and> wf_scans t"
proof -
  assume so: "same_others s t" and u: "wf_users s" and sc: "wf_scans s"
  have U: "user_ids t = user_ids s" and O: "code_owners t \<subseteq> code_owners s \<union> user_ids s" and C: "code_ids s \<subseteq> code_ids t"
    using so by (simp_all add: same_others_def user_ids_def)
  have "code_owners s \<subseteq> user_ids s" using u by (simp add: wf_users_def)
  then have "wf_users t" using u O so unfolding wf_users_def U by (simp add: same_others_def) blast
  moreover have "wf_scans t" using sc so subset_trans [OF _ C] unfolding wf_scans_def by (simp add: same_others_def)
  ultimately show ?thesis ..
qed

lemma guarded_update_others:
  assumes "guarded_update g f cid uid r s = Inr t" "\<And>u. r = Inr u \<Longrightarrow> u = s"
    and "\<And>c. code_ID (f c) = code_ID c \<and> code_UserID (f c) = code_UserID c"
  shows "same_others s t"
proof (cases "list_ex g (t_codes s)")
  case True
  have up: "t_codes (update_codes g f s) = map (\<lambda>c. if g c then f c else c) (t_codes s)" by (simp add: update_codes_def)
  have "code_ids (update_codes g f s) = code_ids s" "code_owners (update_codes g f s) = code_owners s"
    unfolding ids_defs up by (rule image_update_key, simp add: assms(3))+
  then show ?thesis using True assms(1) by (auto simp: guarded_update_def same_others_def update_codes_def)
qed (use assms(1,2) in \<open>auto simp: guarded_update_def split: if_splits\<close>)

lemma insertCode_others:
  assumes "insertCode eng e r s = Inr t"
  shows "same_others s t"
proof -
  let ?s1 = "s\<lparr>t_styling := t_styling s @ [sty_ID (cr_styling r)]\<rparr>"
  obtain rs where viol: "code_violations (stored_code r) ?s1 = []"
    and t: "t = s\<lparr>t_styling := t_styling s @ [sty_ID (cr_styling r)], t_codes := t_codes s @ [stored_code r], t_reservations := rs\<rparr>"
    using assms by (auto simp: insertCode_def Let_def split: sum.splits option.splits)
  have "list_ex (\<lambda>u. user_ID u = code_UserID (stored_code r)) (t_users s)"
    using viol by (auto simp: code_violations_def split: if_splits)
  then have "code_UserID (stored_code r) \<in> user_ids s" by (force simp: list_ex_iff user_ids_def)
  moreover have "code_ids t = insert (code_ID (cr_c r)) (code_ids s)"
      "code_owners t = insert (code_UserID (stored_code r)) (code_owners s)"
    by (simp_all add: t ids_defs)
  ultimately show ?thesis unfolding same_others_def by (auto simp: t)
qed

lemma sq_CreateCodes_others:
  assumes "sq_CreateCodes eng e cs s = Inr (cs', t)"
  shows "same_others s t"
proof (cases "cs = []")
  case False
  then obtain rows where "foldM (insertCode eng e) rows s = Inr t"
    using assms by (auto simp: sq_CreateCodes_def withTx_Inr split: sum.splits)
  from foldM_invariant [OF this, of "same_others s"] show ?thesis
    using insertCode_others same_others_trans by (metis same_others_refl)
qed (use assms in \<open>auto simp: sq_CreateCodes_def\<close>)

lemma run_op_others: "same_others s (run_op (sqlite_ops eng) e op s)"
proof (cases op)
  case (OpCreate cs)
  then show ?thesis by (auto split: sum.splits dest: sq_CreateCodes_others)
next
  case (OpUpdate cid uid dest v)
  then show ?thesis
    by (auto simp: after_def sq_UpdateDestination_def withTx_Inr split: sum.splits intro: guarded_update_others)
next
  case (OpSetState cid uid stt)
  then show ?thesis
    by (auto simp: after_def sq_SetCodeState_def withTx_Inr split: sum.splits if_splits intro: guarded_update_others)
next
  case (OpDelete cid uid)
  then show ?thesis
    by (auto simp: after_def sq_DeleteCode_def withTx_Inr Let_def split: sum.splits intro: guarded_update_others)
next
  case (OpRelease sc)
  then show ?thesis
    by (auto simp: after_def sq_ReleaseAlias_def withTx_Inr Let_def same_others_def ids_defs split: sum.splits if_splits)
qed

text \<open>The calls on users and tokens.\<close>

lemma sq_inv_cong: "t_codes t = t_codes s \<Longrightarrow> t_reservations t = t_reservations s \<Longrightarrow> sq_inv t = sq_inv s"
  by (simp add: sq_inv_def sq_alpha_def)

lemma wf_scans_cong:
  "t_codes t = t_codes s \<Longrightarrow> t_events t = t_events s \<Longrightarrow> next_event t = next_event s \<Longrightarrow> t_rollups t = t_rollups s \<Longrightarrow>
   wf_scans t = wf_scans s"
  by (simp add: wf_scans_def code_ids_def)

lemma row_keys [simp]:
  "user_ID (user_row e u) = user_ID u" "user_Email (user_row e u) = user_Email u"
  "tok_ID (token_row e t) = tok_ID t" "tok_UserID (token_row e t) = tok_UserID t"
  by (simp_all add: user_row_def token_row_def Let_def)

lemma sq_CreateUser_wf:
  assumes "wf_db s" "sq_CreateUser eng e u s = Inr t"
  shows "wf_db t"
proof -
  have t: "t = s\<lparr>t_users := t_users s @ [user_row e u]\<rparr>"
    and new: "user_ID u \<notin> user_ID ` set (t_users s)" "nocase (user_Email u) \<notin> (nocase \<circ> user_Email) ` set (t_users s)"
    using assms(2) by (auto simp: sq_CreateUser_def withTx_Inr split: sum.splits if_splits)
  have "wf_users t" using assms(1) new by (auto simp: t wf_db_def wf_users_def ids_defs)
  then show ?thesis using assms(1) sq_inv_cong [of t s] wf_scans_cong [of t s] by (simp add: wf_db_def t)
qed

lemma sq_BumpTokenVersion_wf:
  assumes "wf_db s" "sq_BumpTokenVersion eng uid s = Inr (v, t)"
  shows "wf_db t"
proof -
  let ?f = "\<lambda>x. if user_ID x = uid then x\<lparr>user_TokenVersion := user_TokenVersion x + 1\<rparr> else x"
  have t: "t = s\<lparr>t_users := map ?f (t_users s)\<rparr>"
    using assms(2) by (auto simp: sq_BumpTokenVersion_def withTx_Inr split: option.splits)
  have us: "t_users t = map ?f (t_users s)" by (simp add: t)
  have k: "map user_ID (t_users t) = map user_ID (t_users s)"
      "map (nocase \<circ> user_Email) (t_users t) = map (nocase \<circ> user_Email) (t_users s)" "user_ids t = user_ids s"
    unfolding ids_defs us by (rule map_update_key image_update_key, simp)+
  have "wf_users t" using assms(1) unfolding wf_db_def wf_users_def k by (simp add: t code_owners_def)
  then show ?thesis using assms(1) sq_inv_cong [of t s] wf_scans_cong [of t s] by (simp add: wf_db_def t)
qed

lemma token_update_wf:
  assumes "wf_db s" "\<And>x. tok_ID (f x) = tok_ID x \<and> tok_UserID (f x) = tok_UserID x"
  shows "wf_db (s\<lparr>t_tokens := map (\<lambda>x. if g x then f x else x) (t_tokens s)\<rparr>)" (is "wf_db ?t")
proof -
  have ts: "t_tokens ?t = map (\<lambda>x. if g x then f x else x) (t_tokens s)" by simp
  have k: "map tok_ID (t_tokens ?t) = map tok_ID (t_tokens s)"
      "tok_UserID ` set (t_tokens ?t) = tok_UserID ` set (t_tokens s)"
    unfolding ts by (rule map_update_key image_update_key, simp add: assms(2))+
  have "wf_users ?t" using assms(1) unfolding wf_db_def wf_users_def k by (simp add: ids_defs)
  then show ?thesis using assms(1) sq_inv_cong [of ?t s] wf_scans_cong [of ?t s] by (simp add: wf_db_def)
qed

lemma sq_CreateToken_wf:
  assumes "wf_db s" "sq_CreateToken eng e tk s = Inr t"
  shows "wf_db t"
proof -
  have t: "t = s\<lparr>t_tokens := t_tokens s @ [token_row e tk]\<rparr>"
    and new: "tok_ID tk \<notin> tok_ID ` set (t_tokens s)" "tok_UserID tk \<in> user_ids s"
    using assms(2) by (auto simp: sq_CreateToken_def withTx_Inr user_ids_def split: sum.splits if_splits)
  have "wf_users t" using assms(1) new by (auto simp: t wf_db_def wf_users_def user_ids_def code_owners_def)
  then show ?thesis using assms(1) sq_inv_cong [of t s] wf_scans_cong [of t s] by (simp add: wf_db_def t)
qed

lemma sq_RevokeToken_wf: "wf_db s \<Longrightarrow> sq_RevokeToken eng e tid uid s = Inr t \<Longrightarrow> wf_db t"
  by (auto simp: sq_RevokeToken_def withTx_Inr Let_def split: if_splits intro!: token_update_wf)

lemma sq_TouchTokenLastUsed_wf: "wf_db s \<Longrightarrow> sq_TouchTokenLastUsed eng tid t0 s = Inr t \<Longrightarrow> wf_db t"
  by (auto simp: sq_TouchTokenLastUsed_def withTx_Inr split: if_splits intro!: token_update_wf)

text \<open>The calls of the analytics pipeline.\<close>

lemma insert_event_wf:
  assumes "wf_scans s" "insert_event eng ev s = Inr t"
  shows "wf_scans t" "t_users t = t_users s \<and> t_tokens t = t_tokens s \<and> t_codes t = t_codes s \<and> t_reservations t = t_reservations s"
proof -
  have t: "t = s\<lparr>t_events := t_events s @ [(next_event s, ev\<lparr>OccurredAt := fmtTime (OccurredAt ev)\<rparr>)],
      next_event := Suc (next_event s)\<rparr>" and fk: "list_ex (\<lambda>c. code_ID c = ev_CodeID ev) (t_codes s)"
    using assms(2) by (auto simp: insert_event_def split: sum.splits if_splits)
  from fk have "ev_CodeID ev \<in> code_ids s" by (force simp: list_ex_iff code_ids_def)
  then show "wf_scans t" using assms(1) by (auto simp: wf_scans_def t code_ids_def less_Suc_eq)
  show "t_users t = t_users s \<and> t_tokens t = t_tokens s \<and> t_codes t = t_codes s \<and> t_reservations t = t_reservations s"
    by (simp add: t)
qed

lemma keys_upsert_rollup: "rollup_key_of ` set (upsert_rollup r rs) = insert (rollup_key_of r) (rollup_key_of ` set rs)"
  by (induction r rs rule: upsert_rollup.induct) (auto simp: rollup_key_of_def)

lemma distinct_upsert_rollup:
  "distinct (map rollup_key_of rs) \<Longrightarrow> distinct (map rollup_key_of (upsert_rollup r rs))"
proof (induction r rs rule: upsert_rollup.induct)
  case (2 r x xs)
  have "rollup_key_of (x\<lparr>rd_Count := n\<rparr>) = rollup_key_of x" for n by (simp add: rollup_key_of_def)
  then show ?case using 2 keys_upsert_rollup [of r xs] by auto
qed simp

definition wf_rollups :: "db \<Rightarrow> bool" where
  "wf_rollups s = (distinct (map rollup_key_of (t_rollups s)) \<and> rd_CodeID ` set (t_rollups s) \<subseteq> code_ids s)"

lemma insert_rollup_wf:
  assumes "wf_rollups s" "insert_rollup eng r s = Inr t"
  shows "wf_rollups t \<and> t = s\<lparr>t_rollups := t_rollups t\<rparr>"
proof -
  have t: "t = s\<lparr>t_rollups := upsert_rollup (stored_rollup r) (t_rollups s)\<rparr>"
    and fk: "list_ex (\<lambda>c. code_ID c = rd_CodeID r) (t_codes s)"
    using assms(2) by (auto simp: insert_rollup_def stored_rollup_def Let_def split: sum.splits if_splits)
  have "rd_CodeID ` set (upsert_rollup q rs) = insert (rd_CodeID q) (rd_CodeID ` set rs)" for q rs
    by (induction q rs rule: upsert_rollup.induct) (auto simp: rollup_key_of_def)
  moreover have "rd_CodeID (stored_rollup r) \<in> code_ids s"
    using fk by (force simp: list_ex_iff code_ids_def stored_rollup_def)
  ultimately show ?thesis using assms(1) distinct_upsert_rollup by (auto simp: wf_rollups_def t code_ids_def)
qed

lemma sq_InsertScanBatch_wf:
  assumes "wf_db s" "sq_InsertScanBatch eng \<lparr>Events = evs, Rollups = BuildRollups evs\<rparr> s = Inr t"
  shows "wf_db t"
proof (cases "evs = []")
  case True
  then have "t = s" using assms(2) by (simp add: sq_InsertScanBatch_def BuildRollups_def count_events_def)
  then show ?thesis using assms(1) by simp
next
  case False
  then obtain u where u: "foldM (insert_event eng) evs s = Inr u" and t: "foldM (insert_rollup eng) (BuildRollups evs) u = Inr t"
    using assms(2) by (auto simp: sq_InsertScanBatch_def withTx_Inr split: if_splits sum.splits)
  have bal: "balanced (t_rollups t)"
    using assms(1) sq_InsertScanBatch_sum [OF assms(2)] BuildRollups_balanced
    by (simp add: balanced_def stored_BuildRollups wf_db_def wf_scans_def)
  let ?P = "\<lambda>x. wf_scans x \<and> t_users x = t_users s \<and> t_tokens x = t_tokens s \<and> t_codes x = t_codes s \<and>
    t_reservations x = t_reservations s"
  have P: "?P u"
    by (rule foldM_invariant [OF u, of ?P]) (use assms(1) insert_event_wf in \<open>auto simp: wf_db_def\<close>)
  let ?Q = "\<lambda>x. wf_rollups x \<and> x = u\<lparr>t_rollups := t_rollups x\<rparr>"
  have "wf_rollups u" using P by (simp add: wf_scans_def wf_rollups_def)
  then have Q0: "?Q u" by simp
  have Q: "?Q t"
  proof (rule foldM_invariant [OF t, of ?Q, OF Q0])
    fix r x y
    assume x: "?Q x" and y: "insert_rollup eng r x = Inr y"
    from insert_rollup_wf [OF conjunct1 [OF x] y] have y': "wf_rollups y" "y = x\<lparr>t_rollups := t_rollups y\<rparr>" by auto
    moreover have "y = u\<lparr>t_rollups := t_rollups y\<rparr>"
      by (subst y'(2), subst conjunct2 [OF x]) simp
    ultimately show "?Q y" by blast
  qed
  obtain rl where tt: "t = u\<lparr>t_rollups := rl\<rparr>" using Q by blast
  have "wf_scans u" "wf_rollups t" using P Q by blast+
  then have "wf_scans t" using bal by (simp add: tt wf_scans_def wf_rollups_def code_ids_def)
  moreover have "sq_inv t" using assms(1) P sq_inv_cong [of t s] by (simp add: tt wf_db_def)
  moreover have "wf_users t" using assms(1) P by (simp add: tt wf_db_def wf_users_def ids_defs)
  ultimately show ?thesis by (simp add: wf_db_def)
qed

lemma sq_PruneScanEvents_wf:
  assumes "wf_db s" "sq_PruneScanEvents eng before limit s = Inr (n, t)"
  shows "wf_db t"
proof (cases "0 < limit")
  case True
  have ids: "distinct (map fst (t_events s))" using assms(1) by (simp add: wf_db_def wf_scans_def)
  obtain f where t: "t = s\<lparr>t_events := filter f (t_events s)\<rparr>"
    using sq_PruneScanEvents_ok(1) [OF ids True assms(2)] by blast
  have "wf_scans t" using assms(1) by (auto simp: wf_db_def wf_scans_def t code_ids_def distinct_map_filter)
  then show ?thesis using assms(1) sq_inv_cong [of t s] by (simp add: wf_db_def wf_users_def ids_defs t)
qed (use assms in \<open>simp add: sq_PruneScanEvents_def\<close>)

lemma after_inv: "P s \<Longrightarrow> (\<And>t. r = Inr t \<Longrightarrow> P t) \<Longrightarrow> P (after r s)"
  by (auto simp: after_def split: sum.splits)

lemma run_store_wf:
  assumes "wf_db s"
  shows "wf_db (run_store (sqlite_ops eng) e op s)"
proof (cases op)
  case (OpCode c)
  have "sq_inv (run_op (sqlite_ops eng) e c s)" using assms sqlite.run_op_inv by (simp add: wf_db_def)
  then show ?thesis using same_others_wf [OF run_op_others] assms OpCode by (simp add: wf_db_def)
next
  case (OpBumpTokenVersion uid)
  then show ?thesis using assms sq_BumpTokenVersion_wf by (auto simp: sqlite_ops_def map_sum_eq_Inr intro!: after_inv [of wf_db])
next
  case (OpPrune before limit)
  then show ?thesis using assms sq_PruneScanEvents_wf by (auto simp: sqlite_ops_def map_sum_eq_Inr intro!: after_inv [of wf_db])
next
  case (OpCreateUser u)
  then show ?thesis using after_inv [of wf_db, OF assms sq_CreateUser_wf [OF assms]] by (simp add: sqlite_ops_def)
next
  case (OpCreateToken t)
  then show ?thesis using after_inv [of wf_db, OF assms sq_CreateToken_wf [OF assms]] by (simp add: sqlite_ops_def)
next
  case (OpRevokeToken tid uid)
  then show ?thesis using after_inv [of wf_db, OF assms sq_RevokeToken_wf [OF assms]] by (simp add: sqlite_ops_def)
next
  case (OpTouchToken tid t)
  then show ?thesis using after_inv [of wf_db, OF assms sq_TouchTokenLastUsed_wf [OF assms]] by (simp add: sqlite_ops_def)
next
  case (OpInsertScans evs)
  then show ?thesis using after_inv [of wf_db, OF assms sq_InsertScanBatch_wf [OF assms]] by (simp add: sqlite_ops_def)
qed

lemma wf_empty: "wf_db empty_db"
  by (simp add: wf_db_def sq_inv_def wf_users_def wf_scans_def empty_db_def balanced_def sq_alpha_def awf_def ids_defs)

lemma reachable_wf: "sq_reachable s \<Longrightarrow> wf_db s"
  by (induction rule: sq_reachable.induct) (simp_all add: wf_empty run_store_wf)

lemma reachable_inv: "sq_reachable s \<Longrightarrow> sq_inv s"
  using reachable_wf by (simp add: wf_db_def)

text \<open>The calls on users, tokens and events leave the codes alone.\<close>

lemma scan_inserts_codes:
  "insert_event eng ev s = Inr t \<Longrightarrow> t_codes t = t_codes s \<and> t_reservations t = t_reservations s"
  "insert_rollup eng r s = Inr t \<Longrightarrow> t_codes t = t_codes s \<and> t_reservations t = t_reservations s"
  by (auto simp: insert_event_def insert_rollup_def Let_def split: sum.splits if_splits)

lemma foldM_codes:
  assumes "\<And>x s t. f x s = Inr t \<Longrightarrow> t_codes t = t_codes s \<and> t_reservations t = t_reservations s"
  shows "foldM f xs s = Inr t \<Longrightarrow> t_codes t = t_codes s \<and> t_reservations t = t_reservations s"
  by (induction xs arbitrary: s) (auto split: sum.splits dest: assms)

lemma after_same_codes:
  "(\<And>t. r = Inr t \<Longrightarrow> t_codes t = t_codes s \<and> t_reservations t = t_reservations s) \<Longrightarrow>
   t_codes (after r s) = t_codes s \<and> t_reservations (after r s) = t_reservations s"
  by (simp add: after_def split: sum.splits)

lemma other_op_codes:
  assumes "\<And>op. sop \<noteq> OpCode op"
  shows "t_codes (run_store (sqlite_ops eng) e sop s) = t_codes s \<and>
    t_reservations (run_store (sqlite_ops eng) e sop s) = t_reservations s"
proof (cases sop)
  case (OpCode op)
  then show ?thesis using assms by blast
next
  case (OpCreateUser u)
  then show ?thesis
    by (auto simp: sqlite_ops_def sq_CreateUser_def withTx_Inr split: sum.splits if_splits intro!: after_same_codes)
next
  case (OpBumpTokenVersion uid)
  then show ?thesis
    by (auto simp: sqlite_ops_def sq_BumpTokenVersion_def withTx_Inr map_sum_eq_Inr split: option.splits intro!: after_same_codes)
next
  case (OpCreateToken t)
  then show ?thesis
    by (auto simp: sqlite_ops_def sq_CreateToken_def withTx_Inr split: sum.splits if_splits intro!: after_same_codes)
next
  case (OpRevokeToken tid uid)
  then show ?thesis
    by (auto simp: sqlite_ops_def sq_RevokeToken_def withTx_Inr Let_def split: if_splits intro!: after_same_codes)
next
  case (OpTouchToken tid t)
  then show ?thesis
    by (auto simp: sqlite_ops_def sq_TouchTokenLastUsed_def withTx_Inr split: if_splits intro!: after_same_codes)
next
  case (OpInsertScans evs)
  have "t_codes t = t_codes s \<and> t_reservations t = t_reservations s"
    if run: "sq_InsertScanBatch eng b s = Inr t" for b t
  proof (cases "Events b = [] \<and> Rollups b = []")
    case False
    then obtain u where "foldM (insert_event eng) (Events b) s = Inr u" "foldM (insert_rollup eng) (Rollups b) u = Inr t"
      using run by (auto simp: sq_InsertScanBatch_def withTx_Inr split: sum.splits if_splits)
    from foldM_codes [OF scan_inserts_codes(1) this(1)] foldM_codes [OF scan_inserts_codes(2) this(2)]
    show ?thesis by simp
  qed (use run in \<open>simp add: sq_InsertScanBatch_def\<close>)
  then show ?thesis using OpInsertScans by (simp add: sqlite_ops_def after_same_codes)
next
  case (OpPrune before limit)
  then show ?thesis
    by (auto simp: sqlite_ops_def sq_PruneScanEvents_def withTx_Inr map_sum_eq_Inr Let_def split: if_splits intro!: after_same_codes)
qed

end
