(* ===== verification/Sqlite_Props.thy ===== *)
theory Sqlite_Props
  imports Sqlite_Store
begin

text \<open>
  The properties of the SQLite driver as a store of codes, for every reachable database:
  each follows from the driver's interpretation of the store contract.
\<close>

subsection \<open>When a creation succeeds, and how it fails\<close>

text \<open>The engine reports one of the constraints the row violates.\<close>

definition engine_ok :: "engine \<Rightarrow> bool" where
  "engine_ok eng = (\<forall>vs. vs \<noteq> [] \<longrightarrow> report eng vs \<in> set vs)"

lemma engine_ok_single: "engine_ok eng \<Longrightarrow> report eng [v] = v"
  unfolding engine_ok_def by (drule spec [of _ "[v]"]) simp

lemma upsert_reservation_free:
  assumes "a_owner (sq_alpha s) k = None"
  shows "\<exists>rs. upsert_reservation k cid t (t_reservations s) = Some rs"
proof (cases "find (\<lambda>r. ar_ShortCode r = k) (t_reservations s)")
  case (Some r)
  then have "ReleasedAt r \<noteq> None" using assms find_Some_set [OF Some] by (auto simp: owner_None)
  then show ?thesis using Some by (simp add: upsert_reservation_def)
qed (simp add: upsert_reservation_def)

lemma upsert_reservation_held:
  assumes "sq_inv s" "a_owner (sq_alpha s) k = Some i"
  shows "upsert_reservation k cid t (t_reservations s) = None"
proof -
  obtain r where r: "r \<in> set (t_reservations s)" "ar_ShortCode r = k" "ReleasedAt r = None"
    using assms(2) by (auto simp: sq_alpha_def dest: find_Some_set)
  then have "find (\<lambda>r. ar_ShortCode r = k) (t_reservations s) = Some r"
    using distinct_map_unique [OF sq_inv_dest(2) [OF assms(1)]] by (intro find_unique) auto
  then show ?thesis using r(3) by (simp add: upsert_reservation_def)
qed

lemma insertCode_succeeds:
  assumes "sq_inv s" "fresh_code (stored_code r) (sq_alpha s)" "nocase (cr_shortCode r) = cr_shortCode r"
    and "sty_ID (cr_styling r) \<notin> set (t_styling s)" "code_UserID (stored_code r) \<in> user_ids s"
  shows "\<exists>t. insertCode eng e r s = Inr t \<and> t_styling t = t_styling s @ [sty_ID (cr_styling r)] \<and> t_users t = t_users s"
proof -
  let ?c = "stored_code r"
  have own: "a_owner (sq_alpha s) (cr_shortCode r) = None" and noid: "a_codes (sq_alpha s) (code_ID ?c) = None"
    using assms(2) by (auto simp: fresh_code_def)
  have "\<not> list_ex (\<lambda>d. code_ID d = code_ID ?c) (t_codes s)"
    using noid by (auto simp: sq_alpha_def find_None_set list_ex_iff)
  moreover have "\<not> list_ex (\<lambda>d. not_deleted d \<and> nocase (ShortCode d) = nocase (ShortCode ?c)) (t_codes s)"
    using live_with_key [OF assms(1), of "cr_shortCode r"] own assms(3) by (auto simp: list_ex_iff)
  moreover have "\<not> list_ex (\<lambda>d. code_UserID d = code_UserID ?c \<and> ClientRef d = ClientRef ?c) (t_codes s)" if "ClientRef ?c \<noteq> ''''"
    using assms(2) that a_codes_sq [OF assms(1)] by (fastforce simp: fresh_code_def ran_def list_ex_iff)
  moreover have "list_ex (\<lambda>u. user_ID u = code_UserID ?c) (t_users s)"
    using assms(5) by (auto simp: user_ids_def list_ex_iff)
  ultimately have "code_violations ?c (s\<lparr>t_styling := t_styling s @ [sty_ID (cr_styling r)]\<rparr>) = []"
    by (auto simp: code_violations_def)
  moreover have "styling_violations (cr_styling r) s = []" using assms(4) by (simp add: styling_violations_def)
  moreover obtain rs where "upsert_reservation (cr_shortCode r) (code_ID (cr_c r)) (fmtTime (sq_now e)) (t_reservations s) = Some rs"
    using upsert_reservation_free [OF own] by blast
  ultimately show ?thesis by (simp add: insertCode_def violated_def)
qed

lemma foldM_insertCode_succeeds:
  assumes "sq_inv s" "spec_create (map stored_code rows) (sq_alpha s) \<noteq> None"
    and "\<forall>r \<in> set rows. nocase (cr_shortCode r) = cr_shortCode r \<and> code_UserID (stored_code r) \<in> user_ids s"
    and "distinct (map (\<lambda>r. sty_ID (cr_styling r)) rows)" "\<forall>r \<in> set rows. sty_ID (cr_styling r) \<notin> set (t_styling s)"
  shows "\<exists>t. foldM (insertCode eng e) rows s = Inr t"
  using assms
proof (induction rows arbitrary: s)
  case (Cons r rows)
  have fr: "fresh_code (stored_code r) (sq_alpha s)"
    and sp: "spec_create (map stored_code rows) (spec_insert (stored_code r) (sq_alpha s)) \<noteq> None"
    using Cons.prems(2) by (auto split: if_splits)
  have nc: "nocase (cr_shortCode r) = cr_shortCode r" and us: "code_UserID (stored_code r) \<in> user_ids s"
    using Cons.prems(3) by auto
  obtain u where u: "insertCode eng e r s = Inr u" "t_styling u = t_styling s @ [sty_ID (cr_styling r)]" "t_users u = t_users s"
    using insertCode_succeeds [OF Cons.prems(1) fr nc _ us, of eng e] Cons.prems(5) by auto
  note ok = insertCode_ok [OF Cons.prems(1) u(1) nc]
  have "sty_ID (cr_styling q) \<noteq> sty_ID (cr_styling r)" if "q \<in> set rows" for q
    using Cons.prems(4) that by (metis (mono_tags, lifting) distinct.simps(2) image_eqI list.simps(9) set_map)
  then have "\<exists>t. foldM (insertCode eng e) rows u = Inr t"
    by (intro Cons.IH [OF ok(3)]) (use Cons.prems(3-5) sp u ok(2) in \<open>auto simp: user_ids_def\<close>)
  then show ?case using u(1) by simp
qed simp

subsection \<open>Runs\<close>

text \<open>A run of calls on codes, with the state of the engine and the clock at each call.\<close>

fun sq_run :: "(engine \<times> call_env \<times> code_op) list \<Rightarrow> db \<Rightarrow> db" where
  "sq_run [] s = s"
| "sq_run ((eng, e, op) # ops) s = sq_run ops (run_op (sqlite_ops eng) e op s)"

definition never_released :: "string \<Rightarrow> ('x \<times> call_env \<times> code_op) list \<Rightarrow> bool" where
  "never_released k ops = list_all (\<lambda>(_, _, op). case op of OpRelease sc \<Rightarrow> strings_ToLower sc \<noteq> k | _ \<Rightarrow> True) ops"

lemma sq_run_keeps:
  assumes "sq_inv s" "a_owner (sq_alpha s) k = Some cid" "never_released k ops"
  shows "sq_inv (sq_run ops s) \<and> a_owner (sq_alpha (sq_run ops s)) k = Some cid \<and>
    astep (sq_alpha s) (sq_alpha (sq_run ops s))"
  using assms
proof (induction ops s rule: sq_run.induct)
  case (2 eng e op ops s)
  let ?u = "run_op (sqlite_ops eng) e op s"
  have nr: "strings_ToLower sc \<noteq> k" if "op = OpRelease sc" for sc
    using 2(4) that by (auto simp: never_released_def)
  have "never_released k ops" using 2(4) by (simp add: never_released_def)
  from 2(1) [OF sqlite.run_op_inv [OF 2(2)] sqlite.run_op_owner [OF 2(2,3) nr] this]
  show ?case using astep_trans [OF sqlite.run_op_astep [OF 2(2)]] by auto
qed simp

subsection \<open>A reachable sample\<close>

definition sample_ops :: "store_op list" where
  "sample_ops = [OpCreateUser sample_user, OpCode (OpCreate [sample_code ''cod_1'' ''Menu'']),
     OpInsertScans [sample_event]]"

definition sample_state :: db where
  "sample_state = fold (run_store (sqlite_ops sample_engine) sample_env) sample_ops empty_db"

lemma fold_reachable: "sq_reachable s \<Longrightarrow> sq_reachable (fold (run_store (sqlite_ops eng) e) ops s)"
  by (induction ops arbitrary: s) (auto intro: sq_reachable.step)

lemma sample_reachable: "sq_reachable sample_state"
  by (simp only: sample_state_def fold_reachable sq_reachable.start)

lemma sample_up [simp]: "outage sample_engine = None"
  by (simp add: sample_engine_def)

subsection \<open>Properties\<close>

text \<open>C13. In every state the program can bring the database to, whatever calls it makes, with
  whatever arguments, and whenever the engine fails: short codes of live codes are unique in
  every upper- and lower-case spelling, each live code holds the reservation of its short code,
  each reservation in force belongs to a code with that short code, every code and token
  belongs to a user, users have distinct addresses, and every event and counter belongs to a code.\<close>

theorem reachable_database_sound:
  assumes "sq_reachable s"
  shows "(\<forall>c \<in> set (t_codes s). \<forall>d \<in> set (t_codes s). not_deleted c \<longrightarrow> not_deleted d \<longrightarrow>
      nocase (ShortCode c) = nocase (ShortCode d) \<longrightarrow> c = d) \<and>
    (\<forall>c \<in> set (t_codes s). not_deleted c \<longrightarrow> (\<exists>r \<in> set (t_reservations s).
      ar_ShortCode r = ShortCode c \<and> ReleasedAt r = None \<and> ar_CodeID r = code_ID c)) \<and>
    (\<forall>r \<in> set (t_reservations s). ReleasedAt r = None \<longrightarrow> (\<exists>c \<in> set (t_codes s).
      code_ID c = ar_CodeID r \<and> ShortCode c = ar_ShortCode r)) \<and>
    code_UserID ` set (t_codes s) \<union> tok_UserID ` set (t_tokens s) \<subseteq> user_ID ` set (t_users s) \<and>
    distinct (map (nocase \<circ> user_Email) (t_users s)) \<and>
    ev_CodeID ` snd ` set (t_events s) \<union> rd_CodeID ` set (t_rollups s) \<subseteq> code_ID ` set (t_codes s)"
proof -
  note wf = reachable_wf [OF assms]
  have inv: "sq_inv s" and us: "wf_users s" and sc: "wf_scans s" using wf by (auto simp: wf_db_def)
  have live: "a_owner (sq_alpha s) (nocase (ShortCode c)) = Some (code_ID c)" if "c \<in> set (t_codes s)" "not_deleted c" for c
    using resolves_owner [OF inv that(1), of "ShortCode c"] that(2) by (simp add: resolves_def)
  have "c = d" if "c \<in> set (t_codes s)" "d \<in> set (t_codes s)" "not_deleted c" "not_deleted d"
      "nocase (ShortCode c) = nocase (ShortCode d)" for c d
    using live [OF that(1,3)] live [OF that(2,4)] that(5) distinct_map_unique [OF sq_inv_dest(1) [OF inv] that(1,2)] by simp
  moreover have "\<exists>r \<in> set (t_reservations s). ar_ShortCode r = ShortCode c \<and> ReleasedAt r = None \<and> ar_CodeID r = code_ID c"
    if "c \<in> set (t_codes s)" "not_deleted c" for c
    using live [OF that] sq_inv_dest(3) [OF inv that(1)] by (auto simp: sq_alpha_def dest!: find_Some_set)
  moreover have "\<exists>c \<in> set (t_codes s). code_ID c = ar_CodeID r \<and> ShortCode c = ar_ShortCode r"
    if r: "r \<in> set (t_reservations s)" "ReleasedAt r = None" for r
  proof -
    have "find (\<lambda>x. ar_ShortCode x = ar_ShortCode r \<and> ReleasedAt x = None) (t_reservations s) = Some r"
      using r distinct_map_unique [OF sq_inv_dest(2) [OF inv]] by (intro find_unique) auto
    then have "a_owner (sq_alpha s) (ar_ShortCode r) = Some (ar_CodeID r)" by (simp add: sq_alpha_def)
    from awf_owner_code [OF sq_inv_dest(4) [OF inv] this] show ?thesis by (auto simp: a_codes_sq [OF inv])
  qed
  ultimately show ?thesis using us sc unfolding wf_users_def wf_scans_def ids_defs
    by (auto simp: image_comp)
qed

theorem reachable_database_sound_witness:
  "code_UserID ` set (t_codes sample_state) \<subseteq> user_ID ` set (t_users sample_state) \<and> t_codes sample_state \<noteq> []"
proof -
  have "t_codes sample_state \<noteq> []" by code_simp
  then show ?thesis using reachable_database_sound [OF sample_reachable] by blast
qed

text \<open>A created code is found again by its short code, in every upper- and lower-case
  spelling, exactly as the creation returned it.\<close>

lemma sqlite_create_then_lookup:
  assumes "sq_reachable s" "outage eng = None" "sq_CreateCodes eng e cs s = Inr (cs', s')" "c \<in> set cs'"
    and "map ascii_lower sc = ShortCode c" "clean_short (ShortCode c)"
  shows "sq_GetCodeByShortCode eng sc s' = Inr (c\<lparr>code_DeletedAt := None\<rparr>)"
  using sqlite.create_then_lookup [of s eng e cs cs' s' c sc] assms reachable_inv by (simp add: undelete_def)

text \<open>A batch of codes is created whenever nothing stands in its way: all required fields
  are set, the owners exist, the styling identifiers are new, and one after the other the
  rows' identifiers, short codes and client references are free.\<close>

lemma sqlite_create_succeeds:
  assumes "sq_reachable s" "outage eng = None"
    and "mapM (\<lambda>(i, c). newCodeRow (row_env e i) c) (enumerate 0 cs) = Inr rows"
    and "\<forall>r \<in> set rows. code_UserID (stored_code r) \<in> user_ID ` set (t_users s)"
    and "distinct (map (\<lambda>r. sty_ID (cr_styling r)) rows)" "\<forall>r \<in> set rows. sty_ID (cr_styling r) \<notin> set (t_styling s)"
    and "spec_create (map stored_code rows) (sq_alpha s) \<noteq> None"
  shows "\<exists>s'. sq_CreateCodes eng e cs s = Inr (map stored_code rows, s')"
proof (cases "cs = []")
  case True
  then show ?thesis using assms(3) by (simp add: sq_CreateCodes_def)
next
  case False
  have "\<forall>r \<in> set rows. nocase (cr_shortCode r) = cr_shortCode r \<and> code_UserID (stored_code r) \<in> user_ids s"
    using newCodeRows_nocase [OF assms(3)] assms(4) by (simp add: user_ids_def)
  then obtain t where "foldM (insertCode eng e) rows s = Inr t"
    using foldM_insertCode_succeeds [OF reachable_inv [OF assms(1)] assms(7) _ assms(5,6)] by blast
  then show ?thesis using False assms(2,3) by (simp add: sq_CreateCodes_def reflect_stored cong: map_cong)
qed

text \<open>A short code whose reservation is in force is refused with \<open>ErrAliasTaken\<close>, whether
  the code that holds it is live or deleted, when it is the only obstacle.\<close>

lemma sqlite_taken_alias_refused:
  assumes "sq_reachable s" "outage eng = None" "engine_ok eng" "newCodeRow (row_env e 0) c = Inr r"
    and "a_owner (sq_alpha s) (cr_shortCode r) \<noteq> None" "a_codes (sq_alpha s) (code_ID c) = None"
    and "ClientRef c = ''''" "code_UserID c \<in> user_ID ` set (t_users s)" "sty_ID (cr_styling r) \<notin> set (t_styling s)"
  shows "sq_CreateCodes eng e [c] s = Inl ErrAliasTaken"
proof -
  note inv = reachable_inv [OF assms(1)]
  have c: "cr_c r = c" using assms(4) by (auto simp: newCodeRow_def Let_def split: if_splits)
  let ?s1 = "s\<lparr>t_styling := t_styling s @ [sty_ID (cr_styling r)]\<rparr>"
  have viol: "code_violations (stored_code r) ?s1 \<in> {[], [unique_failed ''codes.short_code'']}"
    using assms(6-8) c by (auto simp: code_violations_def stored_code_def list_ex_iff sq_alpha_def find_None_set)
  obtain i where i: "a_owner (sq_alpha s) (cr_shortCode r) = Some i" using assms(5) by blast
  have "insertCode eng e r s = Inl ErrAliasTaken"
  proof (cases "code_violations (stored_code r) ?s1 = []")
    case True
    then show ?thesis using upsert_reservation_held [OF inv i] assms(9)
      by (simp add: insertCode_def violated_def styling_violations_def Let_def)
  next
    case False
    then have v: "code_violations (stored_code r) ?s1 = [unique_failed ''codes.short_code'']" using viol by simp
    have "report eng [unique_failed ''codes.short_code''] = unique_failed ''codes.short_code''"
      using engine_ok_single [OF assms(3)] .
    moreover have "translate (unique_failed ''codes.short_code'') = ErrAliasTaken" by code_simp
    ultimately show ?thesis using assms(9) v by (simp add: insertCode_def violated_def styling_violations_def Let_def)
  qed
  then show ?thesis using assms(2,4) by (simp add: sq_CreateCodes_def)
qed

text \<open>Lost updates are impossible: when two updates of a code start from the same version,
  whichever comes second fails with a conflict, and what the first one wrote is what every
  later lookup of the short code returns.\<close>

lemma sqlite_no_lost_update:
  assumes "sq_reachable s" "sq_UpdateDestination eng e cid uid dest v s = Inr s'"
    and "sq_GetCodeByShortCode eng sc s = Inr c" "code_ID c = cid"
  shows "sq_UpdateDestination eng e' cid uid dest' v s' = Inl ErrConflict \<and>
    sq_GetCodeByShortCode eng sc s' =
      Inr (c\<lparr>Destination := dest, code_Version := v + 1, code_UpdatedAt := Truncate (now e) Microsecond\<rparr>)"
  using sqlite.no_lost_update [OF reachable_inv [OF assms(1)], of eng e cid uid dest v s' e' dest']
    sqlite.update_visible [OF reachable_inv [OF assms(1)], of eng e cid uid dest v s' sc c] assms by simp

text \<open>A code that belongs to someone else cannot be told from one that does not exist: to
  read, redirect, disable or delete it is answered \<open>ErrNotFound\<close> in both cases.\<close>

lemma sqlite_owner_isolation:
  assumes "sq_reachable s" "outage eng = None"
    and "\<forall>c \<in> set (t_codes s). code_ID c = cid \<longrightarrow> code_UserID c \<noteq> uid" "stt = CodeActive \<or> stt = CodeDisabled"
  shows "sq_GetCodeByID eng cid uid s = Inl ErrNotFound \<and>
    sq_UpdateDestination eng e cid uid dest v s = Inl ErrNotFound \<and>
    sq_SetCodeState eng e cid uid stt s = Inl ErrNotFound \<and> sq_DeleteCode eng e cid uid s = Inl ErrNotFound"
proof -
  note inv = reachable_inv [OF assms(1)]
  have "owned (sq_alpha s) cid uid = None"
    using assms(3) by (auto simp: owned_def a_codes_sq [OF inv] split: option.splits)
  from sqlite.ownership [OF inv assms(2) this] show ?thesis using assms(4) by auto
qed

text \<open>Deleting is final and keeps the short code taken: the code cannot be redirected or
  enabled again, its short code still resolves to the deleted code (so a printed code leads
  to the landing page and not to a stranger), is not available for a new code, and becomes
  available only after an explicit release.\<close>

lemma sqlite_delete_keeps_short_code:
  assumes "sq_reachable s" "sq_DeleteCode eng e cid uid s = Inr s'" "sq_GetCodeByShortCode eng sc s = Inr c" "code_ID c = cid"
    and "clean_short (map ascii_lower sc)"
  shows "sq_UpdateDestination eng e' cid uid dest v s' = Inl ErrConflict \<and>
    sq_SetCodeState eng e' cid uid CodeActive s' = Inl ErrConflict \<and>
    (\<exists>d. sq_GetCodeByShortCode eng sc s' = Inr d \<and> code_ID d = cid \<and> code_State d = CodeDeleted) \<and>
    sq_IsAliasAvailable eng sc s' = Inr False \<and>
    (\<exists>s''. sq_ReleaseAlias eng e' sc s' = Inr s'' \<and> sq_IsAliasAvailable eng sc s'' = Inr True)"
proof -
  note inv = reachable_inv [OF assms(1)]
  note del = sqlite.delete_final [OF inv, of eng e cid uid s', simplified, OF assms(2)]
  note s' = refines_Inr [OF sq_DeleteCode_refines [OF inv] assms(2)]
  obtain d where d: "sq_GetCodeByShortCode eng sc s' = Inr d" "code_ID d = cid" "code_State d = CodeDeleted"
    using del(4) assms(3,4) by blast
  obtain i where i: "a_owner (sq_alpha s') (nocase sc) = Some i" "a_codes (sq_alpha s') i = Some d"
    using d(1) sq_lookup_spec [OF s'(3,1)] by (auto simp: spec_lookup_Inr)
  have lower: "strings_ToLower sc = nocase sc"
    using is_ascii_lower [OF clean_short_ascii [OF assms(5)]] by (simp add: strings_ToLower_ascii nocase_def)
  have "spec_ReleaseAlias (strings_ToLower sc) (sq_alpha s') = Inr ((sq_alpha s')\<lparr>a_owner := (a_owner (sq_alpha s'))(nocase sc := None)\<rparr>)"
    using i d(3) by (simp add: spec_ReleaseAlias_def lower)
  then obtain s'' where s'': "sq_ReleaseAlias eng e' sc s' = Inr s''"
    using sq_ReleaseAlias_refines [OF s'(3), of eng e' sc] s'(1) refines_ok by fastforce
  have "sq_IsAliasAvailable eng sc s'' = Inr True"
    using sqlite.release_frees(1) [OF s'(3), of eng e' sc s''] s'' assms(5) by simp
  moreover have "sq_IsAliasAvailable eng sc s' = Inr False" using sq_available_spec [OF s'(3,1), of sc] i(1) by simp
  ultimately show ?thesis using del(1) [where e' = e' and dest = dest and v = v] del(2) [where e' = e' and stt = CodeActive] d s'' by simp
qed

text \<open>C14. A printed code keeps its meaning: through any run of creations, updates, state
  changes, deletions and releases, by any user and with engine failures at any point, a short
  code keeps resolving to the same code, of the same owner, with the same image, as long as
  that short code itself is not released; the code's version only grows.\<close>

theorem sqlite_printed_code_is_stable:
  assumes "sq_reachable s" "outage eng = None" "sq_GetCodeByShortCode eng sc s = Inr c" "never_released (nocase sc) ops"
  shows "\<exists>d. sq_GetCodeByShortCode eng sc (sq_run ops s) = Inr d \<and> code_ID d = code_ID c \<and>
    code_UserID d = code_UserID c \<and> ShortCode d = ShortCode c \<and> BlobKey d = BlobKey c \<and>
    code_Version c \<le> code_Version d \<and> (code_State c = CodeDeleted \<longrightarrow> d = c)"
proof -
  note inv = reachable_inv [OF assms(1)]
  obtain i where i: "a_owner (sq_alpha s) (nocase sc) = Some i" "a_codes (sq_alpha s) i = Some c"
    using assms(3) sq_lookup_spec [OF inv assms(2)] by (auto simp: spec_lookup_Inr)
  have run: "sq_inv (sq_run ops s)" "a_owner (sq_alpha (sq_run ops s)) (nocase sc) = Some i"
    "astep (sq_alpha s) (sq_alpha (sq_run ops s))" using sq_run_keeps [OF inv i(1) assms(4)] by auto
  obtain d where d: "a_codes (sq_alpha (sq_run ops s)) i = Some d" "evolves c d"
    using run(3) i(2) by (auto simp: astep_def)
  have "sq_GetCodeByShortCode eng sc (sq_run ops s) = Inr d"
    using sq_lookup_spec [OF run(1) assms(2)] run(2) d(1) by (simp add: spec_lookup_def)
  then show ?thesis using d(2) by (auto simp: evolves_def)
qed

theorem sqlite_printed_code_is_stable_witness:
  "\<exists>d. sq_GetCodeByShortCode sample_engine ''menu''
      (sq_run [(sample_engine, sample_env, OpDelete ''cod_1'' ''usr_1''),
        (sample_engine, sample_env, OpCreate [sample_code ''cod_2'' ''menu''])] sample_state) = Inr d \<and> code_ID d = ''cod_1''"
proof -
  have g: "case sq_GetCodeByShortCode sample_engine ''menu'' sample_state of Inl _ \<Rightarrow> False | Inr c \<Rightarrow> code_ID c = ''cod_1''"
    by code_simp
  then obtain c where c: "sq_GetCodeByShortCode sample_engine ''menu'' sample_state = Inr c" "code_ID c = ''cod_1''"
    by (auto split: sum.splits)
  have "never_released (nocase ''menu'') [(sample_engine, sample_env, OpDelete ''cod_1'' ''usr_1''),
        (sample_engine, sample_env, OpCreate [sample_code ''cod_2'' ''menu''])]" by (simp add: never_released_def)
  from sqlite_printed_code_is_stable [OF sample_reachable sample_up c(1) this] c(2) show ?thesis by auto
qed

text \<open>C29. In every reachable state, whatever the range and the bucket size, each of the four
  breakdowns of an analytics answer adds up to its total, and so does the time series.\<close>

theorem reachable_analytics_add_up:
  assumes "sq_reachable s" "sq_QueryAnalytics eng q s = Inr res" "dm \<in> breakdown_dims"
  shows "(\<exists>vs. Breakdowns res dm = Some vs \<and> (\<Sum>x \<leftarrow> vs. snd x) = Total res) \<and>
    (\<Sum>x \<leftarrow> Series res. snd x) = Total res"
proof -
  have "balanced (t_rollups s)" using reachable_wf [OF assms(1)] by (simp add: wf_db_def wf_scans_def)
  then show ?thesis using assms(2,3) by (rule balanced_answer_adds_up)
qed

theorem reachable_analytics_add_up_witness:
  "\<exists>res vs. sq_QueryAnalytics sample_engine sample_query sample_state = Inr res \<and> Total res = 1 \<and>
     Breakdowns res DimIsBot = Some vs \<and> (\<Sum>x \<leftarrow> vs. snd x) = Total res"
proof -
  have "case sq_QueryAnalytics sample_engine sample_query sample_state of Inl _ \<Rightarrow> False | Inr res \<Rightarrow> Total res = 1"
    by code_simp
  then obtain res where res: "sq_QueryAnalytics sample_engine sample_query sample_state = Inr res" "Total res = 1"
    by (auto split: sum.splits)
  have "DimIsBot \<in> breakdown_dims" by (simp add: breakdown_dims_def)
  then show ?thesis using reachable_analytics_add_up [OF sample_reachable res(1)] res by blast
qed

end
