(* ===== verification/Memstore.thy ===== *)
theory Memstore
  imports Store_Spec Listing "HOL-Library.AList"
begin

text \<open>
  The in-memory store of \<^verbatim>\<open>src/internal/store/storetest/memstore.go\<close>, which the packages above
  the store are tested against: the maps of the Go struct as association lists with one entry
  per key, every operation with its checks in the order of the code. The theory shows that it
  promises what the SQLite driver promises, by interpreting the same contract.

  The argument \<open>ctx\<close> is what \<open>ctx.Err()\<close> returns at the start of the call. The mutex makes
  every operation one step.
\<close>

record reservation =
  rv_codeID :: string
  rv_reservedAt :: gotime
  rv_releasedAt :: "gotime option"

definition taken :: "reservation \<Rightarrow> bool" where
  "taken r = (rv_releasedAt r = None)"

type_synonym ref_key = "string \<times> string"

record mem_store =
  m_users :: "(string \<times> user) list"
  m_emails :: "(string \<times> string) list"
  m_tokens :: "(string \<times> api_token) list"
  m_codes :: "(string \<times> code) list"
  m_byCode :: "(string \<times> string) list"
  m_byRef :: "(ref_key \<times> string) list"
  m_reservations :: "(string \<times> reservation) list"
  m_events :: "(int \<times> scan_event) list"
  m_nextSeq :: int
  m_rollups :: "(rollup_key \<times> int) list"

definition NewMemStore :: mem_store where
  "NewMemStore = \<lparr>m_users = [], m_emails = [], m_tokens = [], m_codes = [], m_byCode = [], m_byRef = [],
     m_reservations = [], m_events = [], m_nextSeq = 0, m_rollups = []\<rparr>"

type_synonym ctx = "store_error option"

definition with_ctx :: "ctx \<Rightarrow> (mem_store \<Rightarrow> store_error + 'a) \<Rightarrow> mem_store \<Rightarrow> store_error + 'a" where
  "with_ctx ctx f m = (case ctx of Some err \<Rightarrow> Inl err | None \<Rightarrow> f m)"

subsection \<open>Users\<close>

definition mem_CreateUser :: "ctx \<Rightarrow> call_env \<Rightarrow> user \<Rightarrow> mem_store \<Rightarrow> store_error + mem_store" where
  "mem_CreateUser ctx e u = with_ctx ctx (\<lambda>m.
     if user_ID u = '''' \<or> user_Email u = '''' then Inl (StoreErr ''memstore: user id and email are required'')
     else if map_of (m_users m) (user_ID u) \<noteq> None then Inl ErrConflict
     else let key = strings_ToLower (user_Email u) in
       if map_of (m_emails m) key \<noteq> None then Inl ErrConflict
       else let cp = (if user_CreatedAt u = 0 then u\<lparr>user_CreatedAt := now e\<rparr> else u)
            in Inr (m\<lparr>m_users := AList.update (user_ID cp) cp (m_users m),
                      m_emails := AList.update key (user_ID cp) (m_emails m)\<rparr>))"

definition mem_GetUserByID :: "ctx \<Rightarrow> string \<Rightarrow> mem_store \<Rightarrow> store_error + user" where
  "mem_GetUserByID ctx uid = with_ctx ctx (\<lambda>m.
     case map_of (m_users m) uid of None \<Rightarrow> Inl ErrNotFound | Some u \<Rightarrow> Inr u)"

text \<open>Dereferencing a map entry that is missing is a panic in Go.\<close>

definition nil_panic :: "'a option \<Rightarrow> store_error + 'a" where
  "nil_panic x = (case x of None \<Rightarrow> Inl (StoreErr ''panic: nil pointer dereference'') | Some a \<Rightarrow> Inr a)"

definition mem_GetUserByEmail :: "ctx \<Rightarrow> string \<Rightarrow> mem_store \<Rightarrow> store_error + user" where
  "mem_GetUserByEmail ctx email = with_ctx ctx (\<lambda>m.
     case map_of (m_emails m) (strings_ToLower email) of
       None \<Rightarrow> Inl ErrNotFound | Some uid \<Rightarrow> nil_panic (map_of (m_users m) uid))"

definition mem_BumpTokenVersion :: "ctx \<Rightarrow> string \<Rightarrow> mem_store \<Rightarrow> store_error + (int \<times> mem_store)" where
  "mem_BumpTokenVersion ctx uid = with_ctx ctx (\<lambda>m.
     case map_of (m_users m) uid of
       None \<Rightarrow> Inl ErrNotFound
     | Some u \<Rightarrow> let u' = u\<lparr>user_TokenVersion := user_TokenVersion u + 1\<rparr>
                 in Inr (user_TokenVersion u', m\<lparr>m_users := AList.update uid u' (m_users m)\<rparr>))"

definition mem_CountUsers :: "ctx \<Rightarrow> mem_store \<Rightarrow> store_error + int" where
  "mem_CountUsers ctx = with_ctx ctx (\<lambda>m. Inr (int (length (m_users m))))"

subsection \<open>Tokens\<close>

definition mem_CreateToken :: "ctx \<Rightarrow> call_env \<Rightarrow> api_token \<Rightarrow> mem_store \<Rightarrow> store_error + mem_store" where
  "mem_CreateToken ctx e t = with_ctx ctx (\<lambda>m.
     if tok_ID t = '''' \<or> tok_UserID t = '''' then Inl (StoreErr ''memstore: token id and user id are required'')
     else if map_of (m_tokens m) (tok_ID t) \<noteq> None then Inl ErrConflict
     else let cp = (if tok_CreatedAt t = 0 then t\<lparr>tok_CreatedAt := now e\<rparr> else t)
          in Inr (m\<lparr>m_tokens := AList.update (tok_ID cp) cp (m_tokens m)\<rparr>))"

definition mem_GetTokenByID :: "ctx \<Rightarrow> string \<Rightarrow> mem_store \<Rightarrow> store_error + api_token" where
  "mem_GetTokenByID ctx tid = with_ctx ctx (\<lambda>m.
     case map_of (m_tokens m) tid of None \<Rightarrow> Inl ErrNotFound | Some t \<Rightarrow> Inr t)"

definition mem_ListTokens :: "ctx \<Rightarrow> string \<Rightarrow> mem_store \<Rightarrow> store_error + api_token list" where
  "mem_ListTokens ctx uid = with_ctx ctx (\<lambda>m.
     Inr (sort_key (\<lambda>t. (tok_CreatedAt t, tok_ID t)) (filter (\<lambda>t. tok_UserID t = uid) (map snd (m_tokens m)))))"

definition mem_RevokeToken :: "ctx \<Rightarrow> call_env \<Rightarrow> string \<Rightarrow> string \<Rightarrow> mem_store \<Rightarrow> store_error + mem_store" where
  "mem_RevokeToken ctx e tid uid = with_ctx ctx (\<lambda>m.
     case map_of (m_tokens m) tid of
       None \<Rightarrow> Inl ErrNotFound
     | Some t \<Rightarrow>
         if tok_UserID t \<noteq> uid then Inl ErrNotFound
         else Inr (if tok_RevokedAt t = None
           then m\<lparr>m_tokens := AList.update tid (t\<lparr>tok_RevokedAt := Some (now e)\<rparr>) (m_tokens m)\<rparr> else m))"

definition mem_TouchTokenLastUsed :: "ctx \<Rightarrow> string \<Rightarrow> gotime \<Rightarrow> mem_store \<Rightarrow> store_error + mem_store" where
  "mem_TouchTokenLastUsed ctx tid t0 = with_ctx ctx (\<lambda>m.
     case map_of (m_tokens m) tid of
       None \<Rightarrow> Inl ErrNotFound
     | Some t \<Rightarrow> Inr (m\<lparr>m_tokens := AList.update tid (t\<lparr>tok_LastUsedAt := Some t0\<rparr>) (m_tokens m)\<rparr>))"

subsection \<open>Codes\<close>

text \<open>The first loop of \<open>CreateCodes\<close>: every row is checked against the store and against the
  rows before it.\<close>

fun mem_check :: "mem_store \<Rightarrow> string list \<Rightarrow> string list \<Rightarrow> ref_key list \<Rightarrow> code list \<Rightarrow> store_error option" where
  "mem_check m seenID seenCode seenRef [] = None"
| "mem_check m seenID seenCode seenRef (c # cs) =
    (let key = strings_ToLower (ShortCode c); rk = (code_UserID c, ClientRef c) in
     if code_ID c = '''' \<or> ShortCode c = '''' \<or> code_UserID c = ''''
     then Some (StoreErr ''memstore: code id, short code and user id are required'')
     else if map_of (m_codes m) (code_ID c) \<noteq> None \<or> code_ID c \<in> set seenID then Some ErrConflict
     else if map_of (m_byCode m) key \<noteq> None \<or> key \<in> set seenCode then Some ErrAliasTaken
     else if (case map_of (m_reservations m) key of None \<Rightarrow> False | Some r \<Rightarrow> taken r) then Some ErrAliasTaken
     else if ClientRef c \<noteq> '''' \<and> (map_of (m_byRef m) rk \<noteq> None \<or> rk \<in> set seenRef) then Some ErrClientRefTaken
     else mem_check m (code_ID c # seenID) (key # seenCode)
       (if ClientRef c \<noteq> '''' then rk # seenRef else seenRef) cs)"

text \<open>The row the second loop writes, what it reflects back to the caller, and the loop.\<close>

definition mem_row :: "call_env \<Rightarrow> code \<Rightarrow> code" where
  "mem_row e c =
    (let created = (if code_CreatedAt c = 0 then now e else code_CreatedAt c)
     in c\<lparr>ShortCode := strings_ToLower (ShortCode c), code_CreatedAt := created,
          code_UpdatedAt := (if code_UpdatedAt c = 0 then created else code_UpdatedAt c),
          code_State := (if code_State c = '''' then CodeActive else code_State c),
          code_Mode := (if code_Mode c = '''' then ModeDynamic else code_Mode c),
          code_Styling := (if sty_ID (code_Styling c) = ''''
            then (code_Styling c)\<lparr>sty_ID := NewID ''sty'' (rnd e)\<rparr> else code_Styling c),
          code_Version := 1, code_DeletedAt := None\<rparr>)"

definition mem_reflect :: "code \<Rightarrow> code \<Rightarrow> code" where
  "mem_reflect c cp = c\<lparr>ShortCode := ShortCode cp, code_Version := code_Version cp, code_State := code_State cp,
     code_Mode := code_Mode cp, code_Styling := code_Styling cp, code_CreatedAt := code_CreatedAt cp,
     code_UpdatedAt := code_UpdatedAt cp\<rparr>"

definition mem_put :: "gotime \<Rightarrow> code \<Rightarrow> mem_store \<Rightarrow> mem_store" where
  "mem_put t cp m = m\<lparr>m_codes := AList.update (code_ID cp) cp (m_codes m),
     m_byCode := AList.update (ShortCode cp) (code_ID cp) (m_byCode m),
     m_byRef := (if ClientRef cp \<noteq> '''' then AList.update (code_UserID cp, ClientRef cp) (code_ID cp) (m_byRef m) else m_byRef m),
     m_reservations := AList.update (ShortCode cp)
       \<lparr>rv_codeID = code_ID cp, rv_reservedAt = t, rv_releasedAt = None\<rparr> (m_reservations m)\<rparr>"

definition mem_CreateCodes :: "ctx \<Rightarrow> call_env \<Rightarrow> code list \<Rightarrow> mem_store \<Rightarrow> store_error + (code list \<times> mem_store)" where
  "mem_CreateCodes ctx e cs = with_ctx ctx (\<lambda>m.
     case mem_check m [] [] [] cs of
       Some err \<Rightarrow> Inl err
     | None \<Rightarrow>
         let rows = map (\<lambda>(i, c). mem_row (row_env e i) c) (enumerate 0 cs)
         in Inr (map2 mem_reflect cs rows, fold (mem_put (now e)) rows m))"

definition mem_GetCodeByClientRef :: "ctx \<Rightarrow> string \<Rightarrow> string \<Rightarrow> mem_store \<Rightarrow> store_error + code" where
  "mem_GetCodeByClientRef ctx uid ref = with_ctx ctx (\<lambda>m.
     case map_of (m_byRef m) (uid, ref) of
       None \<Rightarrow> Inl ErrNotFound
     | Some cid \<Rightarrow> if ref = '''' then Inl ErrNotFound else nil_panic (map_of (m_codes m) cid))"

definition mem_GetCodeByShortCode :: "ctx \<Rightarrow> string \<Rightarrow> mem_store \<Rightarrow> store_error + code" where
  "mem_GetCodeByShortCode ctx sc = with_ctx ctx (\<lambda>m.
     case map_of (m_byCode m) (strings_ToLower sc) of
       None \<Rightarrow> Inl ErrNotFound
     | Some cid \<Rightarrow> nil_panic (map_of (m_codes m) cid))"

definition mem_encodeCursor :: "cursorPos \<Rightarrow> string" where
  "mem_encodeCursor p = base64_EncodeToString base64url (Format_nano (cp_createdAt p) @ [CHR 0x00] @ cp_id p)"

definition mem_decodeCursor :: "string \<Rightarrow> store_error + cursorPos" where
  "mem_decodeCursor s = (case base64_DecodeString base64url s of
     None \<Rightarrow> Inl (StoreErr ''memstore: invalid cursor'')
   | Some raw \<Rightarrow> (case cut_nul raw of
       None \<Rightarrow> Inl (StoreErr ''memstore: invalid cursor'')
     | Some (ts, cid) \<Rightarrow>
         if cid = '''' then Inl (StoreErr ''memstore: invalid cursor'')
         else (case time_Parse ts of
             None \<Rightarrow> Inl (StoreErr ''memstore: invalid cursor'')
           | Some t \<Rightarrow> Inr \<lparr>cp_createdAt = t, cp_id = cid\<rparr>)))"

definition beforeInListing :: "code \<Rightarrow> cursorPos \<Rightarrow> bool" where
  "beforeInListing c p = (if code_CreatedAt c \<noteq> cp_createdAt p then code_CreatedAt c < cp_createdAt p
     else code_ID c < cp_id p)"

definition mem_matches :: "code_filter \<Rightarrow> code \<Rightarrow> bool" where
  "mem_matches f c = (code_UserID c = cf_UserID f \<and> code_State c \<noteq> CodeDeleted \<and>
     (case CreatedAfter f of None \<Rightarrow> True | Some t \<Rightarrow> t < code_CreatedAt c) \<and>
     (case CreatedBefore f of None \<Rightarrow> True | Some t \<Rightarrow> code_CreatedAt c < t) \<and>
     (let dest = strings_ToLower (cf_Destination f) in
      dest = '''' \<or> strings_Contains (strings_ToLower (Destination c)) dest))"

definition mem_ListCodes :: "ctx \<Rightarrow> code_filter \<Rightarrow> mem_store \<Rightarrow> store_error + (code list \<times> string)" where
  "mem_ListCodes ctx f = with_ctx ctx (\<lambda>m.
     let limit = (if cf_Limit f \<le> 0 then defaultListLimit else cf_Limit f) in
     case (if cf_Cursor f = '''' then Inr None else map_sum id Some (mem_decodeCursor (cf_Cursor f))) of
       Inl err \<Rightarrow> Inl err
     | Inr p \<Rightarrow>
         (let after = (\<lambda>c. case p of None \<Rightarrow> True | Some p \<Rightarrow> beforeInListing c p);
              rows = rev (sort_key (\<lambda>c. (code_CreatedAt c, code_ID c))
                (filter (\<lambda>c. mem_matches f c \<and> after c) (map snd (m_codes m))))
          in if limit < int (length rows)
             then let rows = take (nat limit) rows; final = rows ! (length rows - 1)
                  in Inr (rows, mem_encodeCursor \<lparr>cp_createdAt = code_CreatedAt final, cp_id = code_ID final\<rparr>)
             else Inr (rows, '''')))"

definition mem_owned :: "string \<Rightarrow> string \<Rightarrow> mem_store \<Rightarrow> store_error + code" where
  "mem_owned cid uid m = (case map_of (m_codes m) cid of
     None \<Rightarrow> Inl ErrNotFound
   | Some c \<Rightarrow> if code_UserID c \<noteq> uid then Inl ErrNotFound else Inr c)"

definition mem_GetCodeByID :: "ctx \<Rightarrow> string \<Rightarrow> string \<Rightarrow> mem_store \<Rightarrow> store_error + code" where
  "mem_GetCodeByID ctx cid uid = with_ctx ctx (mem_owned cid uid)"

definition mem_set :: "string \<Rightarrow> code \<Rightarrow> mem_store \<Rightarrow> mem_store" where
  "mem_set cid c m = m\<lparr>m_codes := AList.update cid c (m_codes m)\<rparr>"

definition mem_UpdateDestination ::
  "ctx \<Rightarrow> call_env \<Rightarrow> string \<Rightarrow> string \<Rightarrow> string \<Rightarrow> int \<Rightarrow> mem_store \<Rightarrow> store_error + mem_store" where
  "mem_UpdateDestination ctx e cid uid dest expectedVersion = with_ctx ctx (\<lambda>m.
     case mem_owned cid uid m of
       Inl err \<Rightarrow> Inl err
     | Inr c \<Rightarrow>
         if code_State c = CodeDeleted then Inl ErrConflict
         else if code_Version c \<noteq> expectedVersion then Inl ErrConflict
         else Inr (mem_set cid (c\<lparr>Destination := dest, code_Version := code_Version c + 1, code_UpdatedAt := now e\<rparr>) m))"

definition mem_SetCodeState ::
  "ctx \<Rightarrow> call_env \<Rightarrow> string \<Rightarrow> string \<Rightarrow> string \<Rightarrow> mem_store \<Rightarrow> store_error + mem_store" where
  "mem_SetCodeState ctx e cid uid stt = with_ctx ctx (\<lambda>m.
     if stt = CodeActive \<or> stt = CodeDisabled then
       (case mem_owned cid uid m of
          Inl err \<Rightarrow> Inl err
        | Inr c \<Rightarrow>
            if code_State c = CodeDeleted then Inl ErrConflict
            else Inr (mem_set cid (c\<lparr>code_State := stt, code_Version := code_Version c + 1, code_UpdatedAt := now e\<rparr>) m))
     else if stt = CodeDeleted then Inl (StoreErr ''memstore: use DeleteCode to delete'')
     else Inl (StoreErr (''memstore: unknown state '' @ stt)))"

definition mem_DeleteCode :: "ctx \<Rightarrow> call_env \<Rightarrow> string \<Rightarrow> string \<Rightarrow> mem_store \<Rightarrow> store_error + mem_store" where
  "mem_DeleteCode ctx e cid uid = with_ctx ctx (\<lambda>m.
     case mem_owned cid uid m of
       Inl err \<Rightarrow> Inl err
     | Inr c \<Rightarrow>
         if code_State c = CodeDeleted then Inr m
         else Inr (mem_set cid (c\<lparr>code_State := CodeDeleted, code_DeletedAt := Some (now e),
                code_Version := code_Version c + 1, code_UpdatedAt := now e\<rparr>) m))"

subsection \<open>Aliases\<close>

definition mem_IsAliasAvailable :: "ctx \<Rightarrow> string \<Rightarrow> mem_store \<Rightarrow> store_error + bool" where
  "mem_IsAliasAvailable ctx sc = with_ctx ctx (\<lambda>m.
     let key = strings_ToLower sc in
     if map_of (m_byCode m) key \<noteq> None then Inr False
     else if (case map_of (m_reservations m) key of None \<Rightarrow> False | Some r \<Rightarrow> taken r) then Inr False
     else Inr True)"

definition mem_ReleaseAlias :: "ctx \<Rightarrow> call_env \<Rightarrow> string \<Rightarrow> mem_store \<Rightarrow> store_error + mem_store" where
  "mem_ReleaseAlias ctx e sc = with_ctx ctx (\<lambda>m.
     let key = strings_ToLower sc in
     case map_of (m_reservations m) key of
       None \<Rightarrow> Inl ErrNotFound
     | Some r \<Rightarrow>
         if \<not> taken r then Inl ErrNotFound
         else if (case map_of (m_codes m) (rv_codeID r) of None \<Rightarrow> False | Some c \<Rightarrow> code_State c \<noteq> CodeDeleted)
         then Inl ErrConflict
         else let m1 = m\<lparr>m_reservations := AList.update key (r\<lparr>rv_releasedAt := Some (now e)\<rparr>) (m_reservations m)\<rparr> in
           (case map_of (m_byCode m) key of
              None \<Rightarrow> Inr m1
            | Some cid \<Rightarrow>
                (case map_of (m_codes m) cid of
                   None \<Rightarrow> Inr m1
                 | Some c \<Rightarrow> Inr (if code_State c = CodeDeleted
                     then m1\<lparr>m_byCode := AList.delete key (m_byCode m)\<rparr> else m1))))"

subsection \<open>Analytics\<close>

definition mem_InsertScanBatch :: "ctx \<Rightarrow> scan_batch \<Rightarrow> mem_store \<Rightarrow> store_error + mem_store" where
  "mem_InsertScanBatch ctx b = with_ctx ctx (\<lambda>m.
     case find (\<lambda>ev. map_of (m_codes m) (ev_CodeID ev) = None \<or> OccurredAt ev = 0) (Events b) of
       Some ev \<Rightarrow> Inl (if map_of (m_codes m) (ev_CodeID ev) = None then ErrNotFound
                   else StoreErr ''memstore: event has zero OccurredAt'')
     | None \<Rightarrow>
         (case find (\<lambda>r. map_of (m_codes m) (rd_CodeID r) = None \<or> Dimension r = '''' \<or> HourBucket r = 0) (Rollups b) of
            Some r \<Rightarrow> Inl (if map_of (m_codes m) (rd_CodeID r) = None then ErrNotFound
                       else StoreErr ''memstore: rollup is malformed'')
          | None \<Rightarrow>
              Inr (m\<lparr>m_events := m_events m @ map (\<lambda>(i, ev). (m_nextSeq m + 1 + int i, ev)) (enumerate 0 (Events b)),
                     m_nextSeq := m_nextSeq m + int (length (Events b)),
                     m_rollups := fold (\<lambda>r. al_bump (rd_CodeID r, Truncate (HourBucket r) Hour, Dimension r, rd_Value r) (rd_Count r))
                       (Rollups b) (m_rollups m)\<rparr>)))"

definition mem_QueryAnalytics :: "ctx \<Rightarrow> analytics_query \<Rightarrow> mem_store \<Rightarrow> store_error + analytics_result" where
  "mem_QueryAnalytics ctx q = with_ctx ctx (\<lambda>m.
     let bucket = (if aq_Bucket q = '''' then BucketDay else aq_Bucket q);
         rows = filter (\<lambda>((cid, hour, _, _), _). cid = aq_CodeID q \<and> \<not> hour < aq_From q \<and> hour < aq_To q) (m_rollups m)
     in Inr (agg_result (aggregate bucket (map delta_of rows))))"

definition mem_PruneScanEvents :: "ctx \<Rightarrow> gotime \<Rightarrow> int \<Rightarrow> mem_store \<Rightarrow> store_error + (int \<times> mem_store)" where
  "mem_PruneScanEvents ctx before limit = with_ctx ctx (\<lambda>m.
     if limit \<le> 0 then Inr (0, m)
     else let evs = m_events m;
              victims = sort_key (\<lambda>i. (OccurredAt (snd (evs ! i)), fst (evs ! i)))
                (filter (\<lambda>i. OccurredAt (snd (evs ! i)) < before) [0..<length evs]);
              victims = take (nat limit) victims
          in Inr (int (length victims), m\<lparr>m_events := map (\<lambda>i. evs ! i) (filter (\<lambda>i. i \<notin> set victims) [0..<length evs])\<rparr>))"

text \<open>The walkers hand out a snapshot.\<close>

definition mem_ForEachUser :: "ctx \<Rightarrow> mem_store \<Rightarrow> store_error + user list" where
  "mem_ForEachUser ctx = with_ctx ctx (\<lambda>m. Inr (sort_key user_ID (map snd (m_users m))))"

definition mem_ForEachCode :: "ctx \<Rightarrow> mem_store \<Rightarrow> store_error + code list" where
  "mem_ForEachCode ctx = with_ctx ctx (\<lambda>m. Inr (sort_key code_ID (map snd (m_codes m))))"

definition mem_ForEachRollup :: "ctx \<Rightarrow> mem_store \<Rightarrow> store_error + rollup_delta list" where
  "mem_ForEachRollup ctx = with_ctx ctx (\<lambda>m. Inr (sort_key rollup_key_of (map delta_of (m_rollups m))))"

definition mem_ForEachReservation :: "ctx \<Rightarrow> mem_store \<Rightarrow> store_error + alias_reservation list" where
  "mem_ForEachReservation ctx = with_ctx ctx (\<lambda>m. Inr (sort_key ar_ShortCode (map (\<lambda>(sc, r).
     \<lparr>ar_ShortCode = sc, ar_CodeID = rv_codeID r, ReservedAt = rv_reservedAt r, ReleasedAt = rv_releasedAt r\<rparr>) (m_reservations m))))"

definition mem_ops :: "ctx \<Rightarrow> mem_store store_ops" where
  "mem_ops ctx = \<lparr>so_CreateUser = mem_CreateUser ctx, so_GetUserByID = mem_GetUserByID ctx,
     so_GetUserByEmail = mem_GetUserByEmail ctx, so_BumpTokenVersion = mem_BumpTokenVersion ctx,
     so_CountUsers = mem_CountUsers ctx, so_CreateToken = mem_CreateToken ctx,
     so_GetTokenByID = mem_GetTokenByID ctx, so_ListTokens = mem_ListTokens ctx,
     so_RevokeToken = mem_RevokeToken ctx, so_TouchTokenLastUsed = mem_TouchTokenLastUsed ctx,
     so_CreateCodes = mem_CreateCodes ctx, so_GetCodeByShortCode = mem_GetCodeByShortCode ctx,
     so_GetCodeByID = mem_GetCodeByID ctx, so_GetCodeByClientRef = mem_GetCodeByClientRef ctx,
     so_ListCodes = mem_ListCodes ctx, so_UpdateDestination = mem_UpdateDestination ctx, so_SetCodeState = mem_SetCodeState ctx,
     so_DeleteCode = mem_DeleteCode ctx, so_IsAliasAvailable = mem_IsAliasAvailable ctx,
     so_ReleaseAlias = mem_ReleaseAlias ctx, so_InsertScanBatch = mem_InsertScanBatch ctx,
     so_QueryAnalytics = mem_QueryAnalytics ctx, so_PruneScanEvents = mem_PruneScanEvents ctx,
     so_ForEachUser = mem_ForEachUser ctx, so_ForEachCode = mem_ForEachCode ctx,
     so_ForEachRollup = mem_ForEachRollup ctx, so_ForEachReservation = mem_ForEachReservation ctx\<rparr>"

subsection \<open>Abstraction and invariant\<close>

definition mem_alpha :: "mem_store \<Rightarrow> astore" where
  "mem_alpha m = \<lparr>a_codes = map_of (m_codes m), a_owner = map_of (m_byCode m)\<rparr>"

text \<open>The two maps on short codes agree, and the index of client references is exact.\<close>

definition held :: "mem_store \<Rightarrow> string \<Rightarrow> string option" where
  "held m k = (case map_of (m_reservations m) k of None \<Rightarrow> None
     | Some r \<Rightarrow> if taken r then Some (rv_codeID r) else None)"

definition refs_exact :: "mem_store \<Rightarrow> bool" where
  "refs_exact m = (\<forall>u r cid. map_of (m_byRef m) (u, r) = Some cid \<longleftrightarrow>
     r \<noteq> '''' \<and> (\<exists>c. map_of (m_codes m) cid = Some c \<and> code_UserID c = u \<and> ClientRef c = r))"

definition mem_inv :: "mem_store \<Rightarrow> bool" where
  "mem_inv m = (awf (mem_alpha m) \<and> (\<forall>k. map_of (m_byCode m) k = held m k) \<and> refs_exact m)"

lemma mem_invD:
  assumes "mem_inv m"
  shows "awf (mem_alpha m)" "held m k = map_of (m_byCode m) k" "refs_exact m"
  using assms by (simp_all add: mem_inv_def)

lemma mem_alpha_simps [simp]:
  "a_codes (mem_alpha m) = map_of (m_codes m)" "a_owner (mem_alpha m) = map_of (m_byCode m)"
  by (simp_all add: mem_alpha_def)

lemma reserved_held: "(case map_of (m_reservations m) k of None \<Rightarrow> False | Some r \<Rightarrow> taken r) \<longleftrightarrow> held m k \<noteq> None"
  by (auto simp: held_def split: option.splits)

lemma mem_owned_spec: "mem_owned cid uid m = (case owned (mem_alpha m) cid uid of None \<Rightarrow> Inl ErrNotFound | Some c \<Rightarrow> Inr c)"
  by (auto simp: mem_owned_def owned_def split: option.splits)

subsection \<open>Updates\<close>

lemma mem_set_alpha: "code_ID c = cid \<Longrightarrow> mem_alpha (mem_set cid c m) = put_code c (mem_alpha m)"
  by (simp add: mem_alpha_def mem_set_def put_code_def update_conv')

lemma refs_exact_set:
  assumes "refs_exact m" "map_of (m_codes m) cid = Some c" "code_UserID d = code_UserID c" "ClientRef d = ClientRef c"
  shows "refs_exact (mem_set cid d m)"
proof -
  have "(\<exists>x. ((map_of (m_codes m))(cid \<mapsto> d)) i = Some x \<and> code_UserID x = u \<and> ClientRef x = r) \<longleftrightarrow>
      (\<exists>x. map_of (m_codes m) i = Some x \<and> code_UserID x = u \<and> ClientRef x = r)" for i u r
    using assms(2-4) by (cases "i = cid") auto
  then show ?thesis using assms(1) by (simp add: refs_exact_def mem_set_def update_conv')
qed

lemma mem_update_refines:
  assumes "mem_inv m" "\<And>c. code_ID (f c) = code_ID c \<and> code_UserID (f c) = code_UserID c \<and> ClientRef (f c) = ClientRef c"
    and run: "r = (case mem_owned cid uid m of Inl err \<Rightarrow> Inl err
      | Inr c \<Rightarrow> if h c then Inr (mem_set cid (f c) m) else w)"
    and sp: "sp = (case owned (mem_alpha m) cid uid of None \<Rightarrow> Inl ErrNotFound
      | Some c \<Rightarrow> if h c then Inr (put_code (f c) (mem_alpha m)) else map_sum id mem_alpha w)"
    and "\<And>m'. w = Inr m' \<Longrightarrow> m' = m" "\<And>b. sp = Inr b \<Longrightarrow> awf b"
  shows "refines (ctx = None) mem_inv mem_alpha (with_ctx ctx (\<lambda>_. r) m) sp"
proof (cases "owned (mem_alpha m) cid uid")
  case None
  then show ?thesis by (simp add: refines_def run sp with_ctx_def mem_owned_spec split: option.splits)
next
  case (Some c)
  then have c: "map_of (m_codes m) cid = Some c" by (simp add: owned_Some)
  have id: "code_ID (f c) = cid" using awf_ID [OF mem_invD(1) [OF assms(1)], of cid c] c assms(2) by simp
  have "mem_inv (mem_set cid (f c) m)" if "h c"
  proof -
    have "awf (mem_alpha (mem_set cid (f c) m))" using assms(6) Some that id by (simp add: sp mem_set_alpha)
    moreover have "held (mem_set cid (f c) m) = held m" "m_byCode (mem_set cid (f c) m) = m_byCode m"
      by (simp_all add: held_def mem_set_def fun_eq_iff)
    moreover have "refs_exact (mem_set cid (f c) m)"
      using refs_exact_set [OF mem_invD(3) [OF assms(1)] c] assms(2) by simp
    ultimately show ?thesis using mem_invD(2) [OF assms(1)] by (simp add: mem_inv_def)
  qed
  then show ?thesis using Some assms(1,5) id
    by (auto simp: refines_def run sp with_ctx_def mem_owned_spec mem_set_alpha split: option.splits)
qed

lemma with_ctx_const: "with_ctx ctx f m = with_ctx ctx (\<lambda>_. f m) m"
  by (simp add: with_ctx_def split: option.splits)

lemma mem_UpdateDestination_refines:
  assumes "mem_inv m"
  shows "refines (ctx = None) mem_inv mem_alpha (mem_UpdateDestination ctx e cid uid dest v m)
    (spec_UpdateDestination (now e) cid uid dest v (mem_alpha m))"
  unfolding mem_UpdateDestination_def
  by (subst with_ctx_const, rule mem_update_refines [where w = "Inl ErrConflict"
        and h = "\<lambda>c. \<not> (code_State c = CodeDeleted \<or> code_Version c \<noteq> v)"
        and f = "\<lambda>c. c\<lparr>Destination := dest, code_Version := code_Version c + 1, code_UpdatedAt := now e\<rparr>",
      OF assms _ _ _ _ awf_spec_UpdateDestination [OF mem_invD(1) [OF assms]]])
    (auto simp: spec_UpdateDestination_def split: sum.splits option.splits)

lemma mem_SetCodeState_refines:
  assumes "mem_inv m" "stt \<in> {CodeActive, CodeDisabled}"
  shows "refines (ctx = None) mem_inv mem_alpha (mem_SetCodeState ctx e cid uid stt m)
    (spec_SetCodeState (now e) cid uid stt (mem_alpha m))"
  unfolding mem_SetCodeState_def
  by (subst with_ctx_const, rule mem_update_refines [where w = "Inl ErrConflict" and h = "\<lambda>c. code_State c \<noteq> CodeDeleted"
        and f = "\<lambda>c. c\<lparr>code_State := stt, code_Version := code_Version c + 1, code_UpdatedAt := now e\<rparr>",
      OF assms(1) _ _ _ _ awf_spec_SetCodeState [OF mem_invD(1) [OF assms(1)]]])
    (use assms(2) in \<open>auto simp: spec_SetCodeState_def split: sum.splits option.splits\<close>)

lemma mem_DeleteCode_refines:
  assumes "mem_inv m"
  shows "refines (ctx = None) mem_inv mem_alpha (mem_DeleteCode ctx e cid uid m)
    (spec_DeleteCode (now e) cid uid (mem_alpha m))"
  unfolding mem_DeleteCode_def
  by (subst with_ctx_const, rule mem_update_refines [where w = "Inr m" and h = "\<lambda>c. code_State c \<noteq> CodeDeleted"
        and f = "\<lambda>c. c\<lparr>code_State := CodeDeleted, code_DeletedAt := Some (now e),
                code_Version := code_Version c + 1, code_UpdatedAt := now e\<rparr>",
      OF assms _ _ _ _ awf_spec_DeleteCode [OF mem_invD(1) [OF assms]]])
    (auto simp: spec_DeleteCode_def split: sum.splits option.splits)

lemma mem_ReleaseAlias_refines:
  assumes "mem_inv m"
  shows "refines (ctx = None) mem_inv mem_alpha (mem_ReleaseAlias ctx e sc m)
    (spec_ReleaseAlias (strings_ToLower sc) (mem_alpha m))"
proof (cases "held m (strings_ToLower sc)")
  case None
  then show ?thesis using mem_invD(2) [OF assms, of "strings_ToLower sc"]
    by (auto simp: refines_def mem_ReleaseAlias_def with_ctx_def spec_ReleaseAlias_def held_def
        split: option.splits if_splits)
next
  case (Some cid)
  let ?k = "strings_ToLower sc"
  obtain r where r: "map_of (m_reservations m) ?k = Some r" "taken r" "rv_codeID r = cid"
    using Some by (auto simp: held_def split: option.splits if_splits)
  have own: "map_of (m_byCode m) ?k = Some cid" using Some mem_invD(2) [OF assms, of ?k] by simp
  then obtain c where c: "map_of (m_codes m) cid = Some c" using awf_owner_code [OF mem_invD(1) [OF assms], of ?k cid] by auto
  let ?m = "m\<lparr>m_reservations := AList.update ?k (r\<lparr>rv_releasedAt := Some (now e)\<rparr>) (m_reservations m),
      m_byCode := AList.delete ?k (m_byCode m)\<rparr>"
  have al: "mem_alpha ?m = (mem_alpha m)\<lparr>a_owner := (a_owner (mem_alpha m))(?k := None)\<rparr>"
    by (simp add: mem_alpha_def delete_conv')
  have run: "ctx = None \<Longrightarrow> mem_ReleaseAlias ctx e sc m = (if code_State c \<noteq> CodeDeleted then Inl ErrConflict else Inr ?m)"
    using r c unfolding mem_ReleaseAlias_def by (simp add: with_ctx_def own Let_def)
  have sp: "spec_ReleaseAlias ?k (mem_alpha m) = (if code_State c \<noteq> CodeDeleted then Inl ErrConflict else Inr (mem_alpha ?m))"
    using own c by (simp add: spec_ReleaseAlias_def al)
  have inv: "mem_inv ?m" if "code_State c = CodeDeleted"
  proof -
    have "awf (mem_alpha ?m)" using awf_spec_ReleaseAlias [OF mem_invD(1) [OF assms]] sp that by auto
    moreover have "map_of (m_byCode ?m) j = held ?m j" for j
      using mem_invD(2) [OF assms, of j] by (auto simp: held_def delete_conv' update_conv' taken_def split: option.splits)
    moreover have "refs_exact ?m" using mem_invD(3) [OF assms] by (simp add: refs_exact_def)
    ultimately show ?thesis by (simp add: mem_inv_def)
  qed
  show ?thesis
  proof (cases ctx)
    case None
    then show ?thesis using run sp inv by (auto simp: refines_def)
  qed (auto simp: refines_def mem_ReleaseAlias_def with_ctx_def)
qed

subsection \<open>Creating\<close>

text \<open>The checks of the first loop, made against the store as it was and against the rows
  seen so far, decide the same as checks made against the store with those rows written.\<close>

definition tracks :: "mem_store \<Rightarrow> string list \<Rightarrow> string list \<Rightarrow> ref_key list \<Rightarrow> mem_store \<Rightarrow> bool" where
  "tracks m seenID seenCode seenRef m' = (
     dom (map_of (m_codes m')) \<subseteq> dom (map_of (m_codes m)) \<union> set seenID \<and>
     dom (map_of (m_byCode m')) \<subseteq> dom (map_of (m_byCode m)) \<union> set seenCode \<and>
     dom (map_of (m_byRef m')) \<subseteq> dom (map_of (m_byRef m)) \<union> set seenRef)"

lemma tracks_absent:
  assumes "tracks m sID sCode sRef m'"
  shows "map_of (m_codes m) i = None \<Longrightarrow> i \<notin> set sID \<Longrightarrow> map_of (m_codes m') i = None"
    and "map_of (m_byCode m) k = None \<Longrightarrow> k \<notin> set sCode \<Longrightarrow> map_of (m_byCode m') k = None"
    and "map_of (m_byRef m) r = None \<Longrightarrow> r \<notin> set sRef \<Longrightarrow> map_of (m_byRef m') r = None"
  using assms unfolding tracks_def by (meson Un_iff domIff subset_iff)+

lemma mem_put_alpha: "mem_alpha (mem_put t c m) = spec_insert c (mem_alpha m)"
  by (simp add: mem_alpha_def mem_put_def spec_insert_def put_code_def update_conv')

lemma mem_put_inv:
  assumes "mem_inv m" "fresh_code c (mem_alpha m)" "code_Version c = 1" "code_DeletedAt c = None"
  shows "mem_inv (mem_put t c m)"
proof -
  have "awf (mem_alpha (mem_put t c m))"
    unfolding mem_put_alpha by (rule awf_spec_insert [OF mem_invD(1) [OF assms(1)] assms(2-4)])
  moreover have "map_of (m_byCode (mem_put t c m)) k = held (mem_put t c m) k" for k
    using mem_invD(2) [OF assms(1), of k] by (auto simp: held_def mem_put_def update_conv' taken_def split: option.splits)
  moreover have "refs_exact (mem_put t c m)"
  proof -
    have ref: "\<not> (code_UserID d = code_UserID c \<and> ClientRef d = ClientRef c)"
      if "map_of (m_codes m) i = Some d" "ClientRef c \<noteq> ''''" for i d
      using that assms(2) by (auto simp: fresh_code_def ran_def)
    have free: "map_of (m_codes m) (code_ID c) = None" using assms(2) by (simp add: fresh_code_def)
    show ?thesis unfolding refs_exact_def
    proof (intro allI)
      fix u r cid
      note ex = mem_invD(3) [OF assms(1), unfolded refs_exact_def, rule_format, of u r cid]
      show "map_of (m_byRef (mem_put t c m)) (u, r) = Some cid \<longleftrightarrow> r \<noteq> '''' \<and>
          (\<exists>d. map_of (m_codes (mem_put t c m)) cid = Some d \<and> code_UserID d = u \<and> ClientRef d = r)"
      proof (cases "u = code_UserID c \<and> r = ClientRef c \<and> r \<noteq> ''''")
        case True
        then show ?thesis using ref by (auto simp: mem_put_def update_conv')
      next
        case False
        then show ?thesis using ex free by (auto simp: mem_put_def update_conv' split: if_splits)
      qed
    qed
  qed
  ultimately show ?thesis by (simp add: mem_inv_def)
qed

lemma mem_check_create:
  assumes "mem_check m sID sCode sRef cs = None" "tracks m sID sCode sRef m'" "mem_inv m'" "length es = length cs"
  shows "spec_create (map2 mem_row es cs) (mem_alpha m') = Some (mem_alpha (fold (mem_put t) (map2 mem_row es cs) m')) \<and>
    mem_inv (fold (mem_put t) (map2 mem_row es cs) m')"
  using assms
proof (induction cs arbitrary: sID sCode sRef m' es)
  case (Cons c cs)
  obtain e es' where es: "es = e # es'" "length es' = length cs" using Cons.prems(4) by (cases es) auto
  let ?r = "mem_row e c" and ?k = "strings_ToLower (ShortCode c)" and ?rk = "(code_UserID c, ClientRef c)"
  have row: "code_ID ?r = code_ID c" "ShortCode ?r = ?k" "code_UserID ?r = code_UserID c" "ClientRef ?r = ClientRef c"
    "code_Version ?r = 1" "code_DeletedAt ?r = None" by (simp_all add: mem_row_def Let_def)
  have ok: "\<not> (map_of (m_codes m) (code_ID c) \<noteq> None \<or> code_ID c \<in> set sID)"
    "\<not> (map_of (m_byCode m) ?k \<noteq> None \<or> ?k \<in> set sCode)"
    "\<not> (ClientRef c \<noteq> '''' \<and> (map_of (m_byRef m) ?rk \<noteq> None \<or> ?rk \<in> set sRef))"
    and rest: "mem_check m (code_ID c # sID) (?k # sCode) (if ClientRef c \<noteq> '''' then ?rk # sRef else sRef) cs = None"
    using Cons.prems(1) by (simp_all add: Let_def split: if_splits)
  have noref: "\<not> (code_UserID d = code_UserID c \<and> ClientRef d = ClientRef c)"
    if "map_of (m_codes m') i = Some d" "ClientRef c \<noteq> ''''" for i d
  proof
    assume "code_UserID d = code_UserID c \<and> ClientRef d = ClientRef c"
    then have "map_of (m_byRef m') ?rk = Some i"
      using mem_invD(3) [OF Cons.prems(3)] that by (auto simp: refs_exact_def)
    then show False using tracks_absent(3) [OF Cons.prems(2), of ?rk] ok(3) that(2) by auto
  qed
  have fr: "fresh_code ?r (mem_alpha m')"
    using tracks_absent(1,2) [OF Cons.prems(2)] ok(1,2) noref by (auto simp: fresh_code_def row ran_def)
  have tr: "tracks m (code_ID c # sID) (?k # sCode) (if ClientRef c \<noteq> '''' then ?rk # sRef else sRef) (mem_put t ?r m')"
  proof -
    have "dom (map_of (m_codes (mem_put t ?r m'))) = insert (code_ID c) (dom (map_of (m_codes m')))"
      "dom (map_of (m_byCode (mem_put t ?r m'))) = insert ?k (dom (map_of (m_byCode m')))"
      "dom (map_of (m_byRef (mem_put t ?r m'))) =
        (if ClientRef c \<noteq> '''' then insert ?rk (dom (map_of (m_byRef m'))) else dom (map_of (m_byRef m')))"
      by (simp_all add: mem_put_def row update_conv')
    then show ?thesis using Cons.prems(2) unfolding tracks_def by (cases "ClientRef c = ''''") (simp_all, blast+)
  qed
  from Cons.IH [OF rest tr mem_put_inv [OF Cons.prems(3) fr row(5,6)] es(2)]
  show ?case using fr by (simp add: es(1) mem_put_alpha)
qed simp

lemma mem_reflect_row: "undelete (mem_reflect c (mem_row e c)) = mem_row e c"
  by (simp add: undelete_def mem_reflect_def mem_row_def Let_def)

lemma created_mem_reflect: "created c (mem_reflect c (mem_row e c))"
  by (simp add: created_def mem_reflect_def mem_row_def Let_def)

lemma mem_CreateCodes_ok:
  assumes "mem_inv m" "mem_CreateCodes ctx e cs m = Inr (cs', m')"
  shows "list_all2 created cs cs' \<and> mem_inv m' \<and> spec_create (map undelete cs') (mem_alpha m) = Some (mem_alpha m')"
proof -
  let ?es = "map (\<lambda>i. row_env e i) [0..<length cs]"
  have rows: "map (\<lambda>(i, c). mem_row (row_env e i) c) (enumerate 0 cs) = map2 mem_row ?es cs"
    by (rule nth_equalityI) (simp_all add: nth_enumerate_eq)
  have chk: "mem_check m [] [] [] cs = None" and cs': "cs' = map2 mem_reflect cs (map2 mem_row ?es cs)"
    and m': "m' = fold (mem_put (now e)) (map2 mem_row ?es cs) m"
    using assms(2) rows by (auto simp: mem_CreateCodes_def with_ctx_def Let_def split: option.splits)
  have "map undelete cs' = map2 mem_row ?es cs"
    by (rule nth_equalityI) (simp_all add: cs' mem_reflect_row)
  moreover have "list_all2 created cs cs'"
    by (simp add: cs' list_all2_conv_all_nth created_mem_reflect)
  moreover have "tracks m [] [] [] m" by (simp add: tracks_def)
  ultimately show ?thesis using mem_check_create [OF chk _ assms(1), of ?es "now e"] m' by simp
qed

subsection \<open>The contract holds\<close>

lemma mem_lookup_spec:
  assumes "mem_inv m"
  shows "mem_GetCodeByShortCode None sc m = spec_lookup (strings_ToLower sc) (mem_alpha m)"
  using awf_owner_code [OF mem_invD(1) [OF assms], of "strings_ToLower sc"]
  by (auto simp: mem_GetCodeByShortCode_def with_ctx_def spec_lookup_def nil_panic_def split: option.splits)

lemma ToLower_any_case: "clean_short (map ascii_lower sc) \<Longrightarrow> strings_ToLower sc = map ascii_lower sc"
  using is_ascii_lower [OF clean_short_ascii] by (auto simp: strings_ToLower_ascii)

lemma mem_available_spec:
  assumes "mem_inv m"
  shows "mem_IsAliasAvailable None sc m = Inr (a_owner (mem_alpha m) (strings_ToLower sc) = None)"
  using mem_invD(2) [OF assms, of "strings_ToLower sc"]
  by (auto simp: mem_IsAliasAvailable_def with_ctx_def reserved_held Let_def)

lemma mem_by_ref_sound:
  assumes "mem_inv m" "mem_GetCodeByClientRef ctx uid ref m = Inr c"
  shows "owned (mem_alpha m) (code_ID c) uid = Some c \<and> ClientRef c = ref"
proof -
  obtain cid where r: "map_of (m_byRef m) (uid, ref) = Some cid" "map_of (m_codes m) cid = Some c"
    using assms(2) by (auto simp: mem_GetCodeByClientRef_def with_ctx_def nil_panic_def split: option.splits if_splits)
  then have "code_UserID c = uid" "ClientRef c = ref" using assms(1) by (auto simp: mem_inv_def refs_exact_def)
  moreover have "a_codes (mem_alpha m) cid = Some c" using r(2) by (simp add: mem_alpha_def)
  moreover from this have "code_ID c = cid" by (rule awf_ID [OF mem_invD(1) [OF assms(1)]])
  ultimately show ?thesis by (simp add: owned_Some)
qed

lemma mem_by_ref_found:
  assumes "mem_inv m" "owned (mem_alpha m) cid uid = Some c" "ClientRef c \<noteq> ''''"
  shows "mem_GetCodeByClientRef None uid (ClientRef c) m = Inr c"
proof -
  have c: "map_of (m_codes m) cid = Some c" "code_UserID c = uid" using assms(2) by (auto simp: owned_Some mem_alpha_def)
  then have "map_of (m_byRef m) (uid, ClientRef c) = Some cid" using assms(1,3) by (auto simp: mem_inv_def refs_exact_def)
  then show ?thesis using c(1) assms(3) by (simp add: mem_GetCodeByClientRef_def with_ctx_def nil_panic_def)
qed

interpretation memstore: code_store "mem_ops ctx" mem_inv mem_alpha "ctx = None" "\<lambda>t. t" strings_ToLower
proof
  show "isl (so_SetCodeState (mem_ops ctx) e cid uid stt s)" if "stt \<notin> {CodeActive, CodeDisabled}" for e cid uid stt s
    using that by (auto simp: mem_ops_def mem_SetCodeState_def with_ctx_def split: option.splits)
  show "owned (mem_alpha s) (code_ID c) uid = Some c \<and> ClientRef c = ref"
    if "mem_inv s" "so_GetCodeByClientRef (mem_ops ctx) uid ref s = Inr c" for s uid ref c
    using mem_by_ref_sound [OF that(1), of ctx uid ref c] that(2) by (simp add: mem_ops_def)
  show "so_GetCodeByID (mem_ops ctx) cid uid s = (case owned (mem_alpha s) cid uid of None \<Rightarrow> Inl ErrNotFound | Some c \<Rightarrow> Inr c)"
    if "ctx = None" for s cid uid
    using that by (simp add: mem_ops_def mem_GetCodeByID_def with_ctx_def mem_owned_spec)
qed (simp_all add: mem_ops_def mem_invD(1) ToLower_any_case mem_CreateCodes_ok mem_UpdateDestination_refines
    mem_SetCodeState_refines mem_DeleteCode_refines mem_ReleaseAlias_refines mem_lookup_spec mem_available_spec mem_by_ref_found)

end
