(* ===== verification/Drivers.thy ===== *)
theory Drivers
  imports Sqlite_Props Memstore
begin

text \<open>
  The two drivers of the store agree: both refine the same abstract store, so on states with the
  same abstraction they give the same answers and go to states with the same abstraction.
\<close>

lemma refines_same:
  assumes "refines True I1 a1 r (sp (a1 s))" "refines True I2 a2 q (sp (a2 t))" "a1 s = a2 t"
  shows "map_sum id a1 r = map_sum id a2 q"
  using assms by (simp add: refines_def)

definition sample_mem :: mem_store where
  "sample_mem = run_op (mem_ops None) sample_env (OpCreate [sample_code ''cod_1'' ''Menu'']) NewMemStore"

lemma sample_mem_inv: "mem_inv sample_mem"
  unfolding sample_mem_def
  by (rule memstore.run_op_inv) (simp add: mem_inv_def NewMemStore_def mem_alpha_def awf_def held_def refs_exact_def)

lemma sample_alpha: "sq_alpha sample_state = mem_alpha sample_mem"
proof -
  have "t_codes sample_state = [sample_code ''cod_1'' ''menu'']" "map ar_ShortCode (t_reservations sample_state) = [''menu'']"
    "map ar_CodeID (t_reservations sample_state) = [''cod_1'']" "map ReleasedAt (t_reservations sample_state) = [None]"
    "m_codes sample_mem = [(''cod_1'', sample_code ''cod_1'' ''menu'')]" "m_byCode sample_mem = [(''menu'', ''cod_1'')]" by code_simp+
  then show ?thesis by (auto simp: sq_alpha_def mem_alpha_def fun_eq_iff sample_code_def)
qed



end
