(* ===== verification/V1_Json.thy ===== *)
theory V1_Json
  imports Http
begin

text \<open>
  Request bodies, \<^verbatim>\<open>src/internal/httpapi/v1/json.go\<close>, and what \<open>encoding/json\<close> does to fill a struct. The
  lexical part of \<open>encoding/json\<close> is an argument: \<open>dec b\<close> is the first value of the bytes \<open>b\<close> and whether
  more follows, or \<open>None\<close> for malformed input.
\<close>

subsection \<open>Bodies\<close>

type_synonym json_decoder = "string \<Rightarrow> (json \<times> bool) option"

definition maxJSONBody :: nat where "maxJSONBody = 65536"

definition decodeJSONLimit :: "json_decoder \<Rightarrow> (json \<Rightarrow> 'a option) \<Rightarrow> nat \<Rightarrow> request \<Rightarrow> response + 'a" where
  "decodeJSONLimit dec struct limit r =
    (case dec (take limit (rq_Body r)) of
       None \<Rightarrow> Inl (WriteError [] CodeInvalidRequest ''The request body is not valid JSON for this endpoint.'' [(''field'', JStr ''body'')])
     | Some (v, trailing) \<Rightarrow>
         (case struct v of
            None \<Rightarrow> Inl (WriteError [] CodeInvalidRequest ''The request body is not valid JSON for this endpoint.'' [(''field'', JStr ''body'')])
          | Some x \<Rightarrow>
              if trailing then Inl (WriteError [] CodeInvalidRequest ''The request body must contain a single JSON object.'' [(''field'', JStr ''body'')])
              else Inr x))"

definition decodeJSON :: "json_decoder \<Rightarrow> (json \<Rightarrow> 'a option) \<Rightarrow> request \<Rightarrow> response + 'a" where
  "decodeJSON dec struct = decodeJSONLimit dec struct maxJSONBody"

text \<open>Decoding into a struct: keys match the field names up to case, an unknown key is an error, a later
  occurrence of a key overwrites an earlier one, and \<open>null\<close> leaves a field that is no pointer alone.\<close>

definition object_of :: "string list \<Rightarrow> json \<Rightarrow> (string \<times> json) list option" where
  "object_of names v = (case v of
     JNull \<Rightarrow> Some []
   | JObj kvs \<Rightarrow> if list_all (\<lambda>kv. list_ex (strings_EqualFold (fst kv)) names) kvs then Some kvs else None
   | _ \<Rightarrow> None)"

definition values_of :: "string \<Rightarrow> (string \<times> json) list \<Rightarrow> json list" where
  "values_of name kvs = map snd (filter (\<lambda>kv. strings_EqualFold (fst kv) name) kvs)"

fun set_value :: "(json \<Rightarrow> 'a option) \<Rightarrow> 'a \<Rightarrow> json list \<Rightarrow> 'a option" where
  "set_value f x [] = Some x"
| "set_value f x (JNull # vs) = set_value f x vs"
| "set_value f x (v # vs) = (case f v of None \<Rightarrow> None | Some y \<Rightarrow> set_value f y vs)"

fun set_pointer :: "(json \<Rightarrow> 'a option) \<Rightarrow> 'a option \<Rightarrow> json list \<Rightarrow> 'a option option" where
  "set_pointer f x [] = Some x"
| "set_pointer f x (JNull # vs) = set_pointer f None vs"
| "set_pointer f x (v # vs) = (case f v of None \<Rightarrow> None | Some y \<Rightarrow> set_pointer f (Some y) vs)"

definition as_string :: "json \<Rightarrow> string option" where
  "as_string v = (case v of JStr s \<Rightarrow> Some s | _ \<Rightarrow> None)"

definition as_time :: "(string \<Rightarrow> gotime option) \<Rightarrow> json \<Rightarrow> gotime option" where
  "as_time rfc v = (case v of JStr s \<Rightarrow> rfc s | _ \<Rightarrow> None)"

definition string_field :: "string \<Rightarrow> (string \<times> json) list \<Rightarrow> string option" where
  "string_field name kvs = set_value as_string '''' (values_of name kvs)"

end
