(* ===== verification/Qr.thy ===== *)
theory Qr
  imports Domain Encoding
begin

text \<open>
  The renderer, \<^verbatim>\<open>src/internal/qr\<close>: the validation of options and the resource bounds (\<open>policy.go\<close>,
  \<open>render.go\<close>), the error-correction level a logo needs and the modules it covers (\<open>logo.go\<close>), the
  encoded symbol (\<open>encode.go\<close>), its shapes (\<open>shape.go\<close>) and the SVG document (\<open>render_svg.go\<close>).

  Arguments of the model, in the record \<open>qr_env\<close>, are the packages the renderer calls: the QR encoder
  \<open>go-qr\<close>, the image decoders, the painting of a PNG with \<open>x/image\<close> and \<open>image/png\<close>, and the
  floating-point functions behind the contrast ratio and the square root of a logo's area; further
  what \<open>ctx.Err()\<close> answers at each place the code asks. A \<open>float64\<close> constant is the double nearest to
  its decimal text.
\<close>

subsection \<open>Errors and levels\<close>

datatype qr_error =
    ContentTooLargeError int int string
  | DimensionsExceededError int int
  | RenderTimeoutError duration
  | InvalidOptionError string string
  | ContrastTooLowError rat rat
  | LogoTooLargeError rat rat string
  | ContextCanceled
  | DeadlineExceeded
  | QrOther string

definition Capacity :: "string \<Rightarrow> int" where
  "Capacity ec = (if ec = ECLow then 2953 else if ec = ECMedium then 2331 else if ec = ECQuartile then 1663
     else if ec = ECHigh then 1273 else 0)"

definition levelOrder :: "string list" where
  "levelOrder = [ECLow, ECMedium, ECQuartile, ECHigh]"

fun level_index :: "int \<Rightarrow> string list \<Rightarrow> string \<Rightarrow> int" where
  "level_index i [] ec = - 1"
| "level_index i (l # ls) ec = (if l = ec then i else level_index (i + 1) ls ec)"

definition levelRank :: "string \<Rightarrow> int" where
  "levelRank ec = level_index 0 levelOrder ec"

subsection \<open>Bounds\<close>

record bounds =
  MaxPx :: int
  MaxDuration :: duration
  MaxPayload :: int

definition DefaultBounds :: bounds where
  "DefaultBounds = \<lparr>MaxPx = 4096, MaxDuration = 2 * Second, MaxPayload = 2953\<rparr>"

definition normalised :: "bounds \<Rightarrow> bounds" where
  "normalised b =
    (let b = (if MaxPx b \<le> 0 then b\<lparr>MaxPx := MaxPx DefaultBounds\<rparr> else b)
     in if MaxPayload b \<le> 0 then b\<lparr>MaxPayload := MaxPayload DefaultBounds\<rparr> else b)"

definition checkSize :: "bounds \<Rightarrow> int \<Rightarrow> qr_error option" where
  "checkSize b px = (if MaxPx b < px then Some (DimensionsExceededError px (MaxPx b)) else None)"

definition payloadLimit :: "bounds \<Rightarrow> string \<Rightarrow> int" where
  "payloadLimit b ec = (let limit = Capacity ec in if MaxPayload b < limit then MaxPayload b else limit)"

definition checkPayload :: "bounds \<Rightarrow> int \<Rightarrow> string \<Rightarrow> qr_error option" where
  "checkPayload b n ec = (let limit = payloadLimit b ec in
     if limit < n then Some (ContentTooLargeError limit n ec) else None)"

definition budgetError :: "bounds \<Rightarrow> qr_error \<Rightarrow> qr_error" where
  "budgetError b err = (if err = DeadlineExceeded then RenderTimeoutError (MaxDuration b) else err)"

definition ContrastFloor :: rat where "ContrastFloor = 3"
definition DefaultMinContrast :: rat where "DefaultMinContrast = 9 / 2"

subsection \<open>Logos\<close>

record logo =
  lg_Image :: bytes
  lg_Scale :: rat
  AutoRaise :: bool

definition MaxLogoBytes :: nat where "MaxLogoBytes = 2097152"
definition MaxLogoPixels :: int where "MaxLogoPixels = 2048"
definition MaxLogoScale :: rat where "MaxLogoScale = 1 / 4"

definition LogoBudget :: "string \<Rightarrow> rat" where
  "LogoBudget ec =
    (if ec = ECLow then 3602879701896397 / 72057594037927936
     else if ec = ECMedium then 8646911284551352 / 72057594037927936
     else if ec = ECQuartile then 3602879701896397 / 18014398509481984
     else if ec = ECHigh then 1 / 4 else 0)"

definition resolveLogoLevel :: "string \<Rightarrow> rat \<Rightarrow> bool \<Rightarrow> qr_error + string" where
  "resolveLogoLevel requested scale autoRaise =
    (if scale \<le> LogoBudget requested then Inr requested
     else if \<not> autoRaise then Inl (LogoTooLargeError scale (LogoBudget requested) requested)
     else case find (\<lambda>l. scale \<le> LogoBudget l) (drop (nat (levelRank requested + 1)) levelOrder) of
       Some l \<Rightarrow> Inr l
     | None \<Rightarrow> Inl (LogoTooLargeError scale (LogoBudget ECHigh) ECHigh))"

definition rawDataModules :: "int \<Rightarrow> int" where
  "rawDataModules v =
    (let result = (16 * v + 128) * v + 64 in
     if 2 \<le> v then
       let numAlign = v div 7 + 2;
           result = result - ((25 * numAlign - 10) * numAlign - 55)
       in if 7 \<le> v then result - 36 else result
     else result)"

record rectangle =
  Min_X :: int
  Min_Y :: int
  Max_X :: int
  Max_Y :: int

definition in_rect :: "int \<Rightarrow> int \<Rightarrow> rectangle \<Rightarrow> bool" where
  "in_rect x y r = (Min_X r \<le> x \<and> x < Max_X r \<and> Min_Y r \<le> y \<and> y < Max_Y r)"

definition logoHole :: "(rat \<Rightarrow> int \<Rightarrow> int) \<Rightarrow> int \<Rightarrow> rat \<Rightarrow> rectangle" where
  "logoHole rootOf n scale =
    (let side = rootOf scale (rawDataModules ((n - 17) div 4));
         side = (if side mod 2 = 0 then side - 1 else side);
         side = (if side < 3 then 3 else side);
         side = (if n - 16 < side then (let s = n - 16 in if s mod 2 = 0 then s - 1 else s) else side);
         start = (n - side) div 2
     in \<lparr>Min_X = start, Min_Y = start, Max_X = start + side, Max_Y = start + side\<rparr>)"

record image_config =
  ic_Width :: int
  ic_Height :: int
  ic_Format :: string

record decoded_logo =
  dl_raw :: bytes
  dl_mime :: string

subsection \<open>Symbols\<close>

record symbol =
  sy_size :: nat
  sy_version :: int
  sy_level :: string
  sy_dark :: "bool list"

definition symbol_Module :: "symbol \<Rightarrow> int \<Rightarrow> int \<Rightarrow> bool" where
  "symbol_Module s x y =
    (if x < 0 \<or> y < 0 \<or> int (sy_size s) \<le> x \<or> int (sy_size s) \<le> y then False
     else sy_dark s ! nat (y * int (sy_size s) + x))"

datatype goqr_error = ErrDataTooLong | GoqrOther string

record qr_env =
  qe_goqr :: "bytes \<Rightarrow> string \<Rightarrow> goqr_error + nat \<times> (nat \<Rightarrow> nat \<Rightarrow> bool)"
  qe_DecodeConfig :: "bytes \<Rightarrow> image_config option"
  qe_decodes :: "string \<Rightarrow> bytes \<Rightarrow> bool"
  qe_ContrastRatio :: "(nat \<times> nat \<times> nat) \<Rightarrow> (nat \<times> nat \<times> nat) \<Rightarrow> rat"
  qe_round2 :: "rat \<Rightarrow> rat"
  qe_root :: "rat \<Rightarrow> int \<Rightarrow> int"

definition decodeLogo :: "qr_env \<Rightarrow> bytes \<Rightarrow> qr_error + decoded_logo" where
  "decodeLogo q data =
    (if data = [] then Inl (InvalidOptionError ''logo'' ''image is empty'')
     else if MaxLogoBytes < length data
     then Inl (InvalidOptionError ''logo'' (''image exceeds '' @ digits MaxLogoBytes @ '' bytes''))
     else case qe_DecodeConfig q data of
       None \<Rightarrow> Inl (InvalidOptionError ''logo'' ''image is not a valid PNG or JPEG'')
     | Some cfg \<Rightarrow>
         if ic_Format cfg \<noteq> ''png'' \<and> ic_Format cfg \<noteq> ''jpeg'' then Inl (InvalidOptionError ''logo'' ''image must be PNG or JPEG'')
         else if ic_Width cfg \<le> 0 \<or> ic_Height cfg \<le> 0 \<or> MaxLogoPixels < ic_Width cfg \<or> MaxLogoPixels < ic_Height cfg
         then Inl (InvalidOptionError ''logo'' (''image must be at most '' @ FormatInt MaxLogoPixels @ [char_of (195 :: nat), char_of (151 :: nat)] @
           FormatInt MaxLogoPixels @ '' pixels''))
         else let mime = ''image/'' @ ic_Format cfg in
           if \<not> qe_decodes q mime data then Inl (InvalidOptionError ''logo'' ''image could not be decoded'')
           else Inr \<lparr>dl_raw = data, dl_mime = mime\<rparr>)"

text \<open>\<open>Encode\<close>; the texts of errors other than the sentinel are left out.\<close>

definition qr_Encode :: "qr_env \<Rightarrow> bytes \<Rightarrow> string \<Rightarrow> qr_error + symbol" where
  "qr_Encode q content ec =
    (if ec \<notin> set levelOrder then Inl (InvalidOptionError ''ec_level'' ''unknown level'')
     else if content = [] then Inl (InvalidOptionError ''content'' ''must not be empty'')
     else if Capacity ec < int (length content) then Inl (ContentTooLargeError (Capacity ec) (int (length content)) ec)
     else case qe_goqr q content ec of
       Inl ErrDataTooLong \<Rightarrow> Inl (ContentTooLargeError (Capacity ec) (int (length content)) ec)
     | Inl (GoqrOther m) \<Rightarrow> Inl (QrOther (''qr: encode: '' @ m))
     | Inr (n, grid) \<Rightarrow>
         Inr \<lparr>sy_size = n, sy_version = (int n - 17) div 4, sy_level = ec,
           sy_dark = concat (map (\<lambda>y. map (\<lambda>x. grid x y) [0..<n]) [0..<n])\<rparr>)"

subsection \<open>Shapes\<close>

definition cornerTL :: "8 word" where "cornerTL = 1"
definition cornerTR :: "8 word" where "cornerTR = 2"
definition cornerBR :: "8 word" where "cornerBR = 4"
definition cornerBL :: "8 word" where "cornerBL = 8"

record run =
  Run_X :: int
  Run_Y :: int
  Run_W :: int
  Corners :: "8 word"

record dot =
  Dot_X :: int
  Dot_Y :: int

record geometry =
  geo_Total :: int
  Runs :: "run list"
  Dots :: "dot list"
  Hole :: "rectangle option"

definition inFinder :: "int \<Rightarrow> int \<Rightarrow> int \<Rightarrow> bool" where
  "inFinder n x y = (x < 7 \<and> y < 7 \<or> n - 7 \<le> x \<and> y < 7 \<or> x < 7 \<and> n - 7 \<le> y)"

definition dark_module :: "symbol \<Rightarrow> rectangle option \<Rightarrow> int \<Rightarrow> int \<Rightarrow> bool" where
  "dark_module smb hole x y = (case hole of
     Some h \<Rightarrow> if in_rect x y h then False else symbol_Module smb x y
   | None \<Rightarrow> symbol_Module smb x y)"

text \<open>The inner loop that extends a run: its width.\<close>

definition run_width :: "symbol \<Rightarrow> rectangle option \<Rightarrow> string \<Rightarrow> nat \<Rightarrow> nat \<Rightarrow> nat" where
  "run_width smb hole shape y x =
    (let n = sy_size smb in
     1 + length (takeWhile (\<lambda>i. dark_module smb hole (int i) (int y) \<and>
       (shape = ShapeSquare \<or> inFinder (int n) (int i) (int y) = inFinder (int n) (int x) (int y))) [x + 1..<n]))"

definition run_corners :: "symbol \<Rightarrow> rectangle option \<Rightarrow> string \<Rightarrow> int \<Rightarrow> int \<Rightarrow> int \<Rightarrow> 8 word" where
  "run_corners smb hole shape y x w =
    (if shape = ShapeRounded \<and> \<not> inFinder (int (sy_size smb)) x y
     then (if dark_module smb hole x (y - 1) then 0 else cornerTL) OR
          (if dark_module smb hole (x + w - 1) (y - 1) then 0 else cornerTR) OR
          (if dark_module smb hole (x + w - 1) (y + 1) then 0 else cornerBR) OR
          (if dark_module smb hole x (y + 1) then 0 else cornerBL)
     else 0)"

function row_shapes :: "symbol \<Rightarrow> rectangle option \<Rightarrow> string \<Rightarrow> int \<Rightarrow> nat \<Rightarrow> nat \<Rightarrow> run list \<times> dot list" where
  "row_shapes smb hole shape margin y x =
    (if sy_size smb \<le> x then ([], [])
     else if \<not> dark_module smb hole (int x) (int y) then row_shapes smb hole shape margin y (x + 1)
     else if shape = ShapeDot \<and> \<not> inFinder (int (sy_size smb)) (int x) (int y)
     then let (rs, ds) = row_shapes smb hole shape margin y (x + 1)
          in (rs, \<lparr>Dot_X = int x + margin, Dot_Y = int y + margin\<rparr> # ds)
     else let w = run_width smb hole shape y x;
              (rs, ds) = row_shapes smb hole shape margin y (x + w)
          in (\<lparr>Run_X = int x + margin, Run_Y = int y + margin, Run_W = int w,
               Corners = run_corners smb hole shape (int y) (int x) (int w)\<rparr> # rs, ds))"
  by pat_completeness auto

termination
  by (relation "measure (\<lambda>(smb, _, _, _, _, x). sy_size smb - x)") (auto simp: run_width_def Let_def)

declare row_shapes.simps [simp del]

definition computeGeometry :: "symbol \<Rightarrow> string \<Rightarrow> int \<Rightarrow> rectangle option \<Rightarrow> geometry" where
  "computeGeometry smb shape margin hole =
    (let rows = map (\<lambda>y. row_shapes smb hole shape margin y 0) [0..<sy_size smb] in
     \<lparr>geo_Total = int (sy_size smb) + 2 * margin, Runs = concat (map fst rows), Dots = concat (map snd rows),
      Hole = map_option (\<lambda>h. \<lparr>Min_X = Min_X h + margin, Min_Y = Min_Y h + margin, Max_X = Max_X h + margin, Max_Y = Max_Y h + margin\<rparr>) hole\<rparr>)"

subsection \<open>Rendering\<close>

definition FormatPNG :: string where "FormatPNG = ''png''"
definition FormatSVG :: string where "FormatSVG = ''svg''"

definition format_ContentType :: "string \<Rightarrow> string" where
  "format_ContentType f = (if f = FormatSVG then ''image/svg+xml'' else ''image/png'')"

record qr_options =
  op_Content :: bytes
  op_Format :: string
  op_FgColor :: string
  op_BgColor :: string
  op_Shape :: string
  op_Margin :: int
  op_SizePx :: int
  op_ECLevel :: string
  op_Logo :: "logo option"

type_synonym color = "nat \<times> nat \<times> nat"

definition hexNibble :: "char \<Rightarrow> nat option" where
  "hexNibble c = (let b = byte c in
     if 48 \<le> b \<and> b \<le> 57 then Some (b - 48)
     else if 97 \<le> b \<and> b \<le> 102 then Some (b - 97 + 10)
     else if 65 \<le> b \<and> b \<le> 70 then Some (b - 65 + 10) else None)"

definition hex_byte :: "char \<Rightarrow> char \<Rightarrow> nat option" where
  "hex_byte hi lo = (case (hexNibble hi, hexNibble lo) of (Some a, Some b) \<Rightarrow> Some (16 * a + b) | _ \<Rightarrow> None)"

definition ParseHexColor :: "string \<Rightarrow> color option" where
  "ParseHexColor s = (case s of
     [h, a, b, c, d, e, f] \<Rightarrow>
       (if h \<noteq> CHR ''#'' then None
        else case (hex_byte a b, hex_byte c d, hex_byte e f) of
          (Some r, Some g, Some bl) \<Rightarrow> Some (r, g, bl) | _ \<Rightarrow> None)
   | _ \<Rightarrow> None)"

text \<open>\<open>normalise\<close>: the defaults, and every field checked in the order of the code. (The code fills a
  default just before it checks the field; no check reads a field filled later.) The quoted values
  in the texts of the reasons are left out.\<close>

definition fill_options :: "qr_options \<Rightarrow> qr_options" where
  "fill_options o0 = o0\<lparr>
     op_Format := (if op_Format o0 = '''' then FormatPNG else op_Format o0),
     op_FgColor := (if op_FgColor o0 = '''' then ''#000000'' else op_FgColor o0),
     op_BgColor := (if op_BgColor o0 = '''' then ''#FFFFFF'' else op_BgColor o0),
     op_Shape := (if op_Shape o0 = '''' then ShapeSquare else op_Shape o0),
     op_SizePx := (if op_SizePx o0 = 0 then 512 else op_SizePx o0),
     op_ECLevel := (if op_ECLevel o0 = '''' then ECMedium else op_ECLevel o0)\<rparr>"

definition normalise :: "qr_options \<Rightarrow> qr_error + qr_options \<times> color \<times> color" where
  "normalise o0 =
    (let o1 = fill_options o0 in
     if op_Format o1 \<noteq> FormatPNG \<and> op_Format o1 \<noteq> FormatSVG then Inl (InvalidOptionError ''format'' ''unsupported format'')
     else case ParseHexColor (op_FgColor o1) of
       None \<Rightarrow> Inl (InvalidOptionError ''fg_color'' ''not of the form #RRGGBB'')
     | Some fg \<Rightarrow>
    (case ParseHexColor (op_BgColor o1) of
       None \<Rightarrow> Inl (InvalidOptionError ''bg_color'' ''not of the form #RRGGBB'')
     | Some bg \<Rightarrow>
       if op_Shape o1 \<notin> {ShapeSquare, ShapeDot, ShapeRounded} then Inl (InvalidOptionError ''module_shape'' ''unknown shape'')
       else if op_Margin o1 < 0 \<or> 64 < op_Margin o1 then Inl (InvalidOptionError ''margin_modules'' ''must be between 0 and 64'')
       else if op_SizePx o1 < 1 then Inl (InvalidOptionError ''size_px'' ''must be positive'')
       else if levelRank (op_ECLevel o1) < 0 then Inl (InvalidOptionError ''ec_level'' ''unknown level'')
       else if (case op_Logo o1 of None \<Rightarrow> False | Some l \<Rightarrow> lg_Scale l \<le> 0 \<or> MaxLogoScale < lg_Scale l)
       then Inl (InvalidOptionError ''logo.scale'' ''must be between 0.01 and 0.25'')
       else Inr (o1, fg, bg)))"

record renderer =
  re_bounds :: bounds
  re_minContrast :: rat

definition NewRenderer :: "bounds \<Rightarrow> rat option \<Rightarrow> renderer" where
  "NewRenderer b ratio = \<lparr>re_bounds = normalised b, re_minContrast = (case ratio of
     None \<Rightarrow> DefaultMinContrast | Some r \<Rightarrow> if r < ContrastFloor then ContrastFloor else r)\<rparr>"

definition checkContrast :: "qr_env \<Rightarrow> color \<Rightarrow> color \<Rightarrow> rat \<Rightarrow> qr_error option" where
  "checkContrast q fg bg minimum = (let ratio = qe_ContrastRatio q fg bg in
     if ratio < minimum then Some (ContrastTooLowError (qe_round2 q ratio) minimum) else None)"

record prepared_symbol =
  ps_opts :: qr_options
  ps_fg :: color
  ps_bg :: color
  ps_sym :: symbol
  ps_geo :: geometry
  ps_logo :: "decoded_logo option"
  ps_effective :: string

type_synonym ctx_answers = "nat \<Rightarrow> qr_error option"

definition Prepare :: "qr_env \<Rightarrow> renderer \<Rightarrow> ctx_answers \<Rightarrow> qr_options \<Rightarrow> qr_error + prepared_symbol" where
  "Prepare q r ctx opts0 =
    (case normalise opts0 of Inl err \<Rightarrow> Inl err | Inr (opts, fg, bg) \<Rightarrow>
    (case checkSize (re_bounds r) (op_SizePx opts) of Some err \<Rightarrow> Inl err | None \<Rightarrow>
    (case checkContrast q fg bg (re_minContrast r) of Some err \<Rightarrow> Inl err | None \<Rightarrow>
    (case (case op_Logo opts of
             None \<Rightarrow> Inr (op_ECLevel opts, None)
           | Some l \<Rightarrow> (case resolveLogoLevel (op_ECLevel opts) (lg_Scale l) (AutoRaise l) of
               Inl err \<Rightarrow> Inl err
             | Inr lv \<Rightarrow> (case decodeLogo q (lg_Image l) of Inl err \<Rightarrow> Inl err | Inr d \<Rightarrow> Inr (lv, Some (l, d))))) of
       Inl err \<Rightarrow> Inl err
     | Inr (effective, lg) \<Rightarrow>
    (case checkPayload (re_bounds r) (int (length (op_Content opts))) effective of Some err \<Rightarrow> Inl err | None \<Rightarrow>
    (case ctx 0 of Some err \<Rightarrow> Inl err | None \<Rightarrow>
    (case qr_Encode q (op_Content opts) effective of Inl err \<Rightarrow> Inl err | Inr smb \<Rightarrow>
     (let hole = map_option (\<lambda>(l, _). logoHole (qe_root q) (int (sy_size smb)) (lg_Scale l)) lg in
      case ctx 1 of Some err \<Rightarrow> Inl err | None \<Rightarrow>
      Inr \<lparr>ps_opts = opts, ps_fg = fg, ps_bg = bg, ps_sym = smb,
        ps_geo = computeGeometry smb (op_Shape opts) (op_Margin opts) hole,
        ps_logo = map_option snd lg, ps_effective = effective\<rparr>))))))))"

subsection \<open>The SVG document\<close>

definition svg_hex :: "nat \<Rightarrow> char" where
  "svg_hex n = ''0123456789abcdef'' ! n"

definition hexString :: "color \<Rightarrow> string" where
  "hexString = (\<lambda>(r, g, b). CHR ''#'' # concat (map (\<lambda>v. [svg_hex (v div 16 mod 16), svg_hex (v mod 16)]) [r, g, b]))"

definition half :: "int \<Rightarrow> string" where "half n = FormatInt n @ ''.5''"

text \<open>A coordinate counted in half modules, as \<open>strconv.FormatFloat\<close> writes it.\<close>

definition halves :: "int \<Rightarrow> string" where
  "halves h = FormatInt (h div 2) @ (if h mod 2 = 0 then '''' else ''.5'')"

definition plain_run :: "run \<Rightarrow> string" where
  "plain_run r = ''M'' @ FormatInt (Run_X r) @ '' '' @ FormatInt (Run_Y r) @ ''h'' @ FormatInt (Run_W r) @ ''v1h-'' @ FormatInt (Run_W r) @ ''z''"

definition writeRoundedRun :: "run \<Rightarrow> string" where
  "writeRoundedRun r =
    (let x0 = 2 * Run_X r; x1 = 2 * (Run_X r + Run_W r); y0 = 2 * Run_Y r; y1 = 2 * (Run_Y r + 1);
         rad = (\<lambda>flag. if Corners r AND flag \<noteq> 0 then 1 else 0);
         tl = rad cornerTL; tr = rad cornerTR; br = rad cornerBR; bl = rad cornerBL;
         arc = (\<lambda>x y. ''A0.5 0.5 0 0 1 '' @ halves x @ '' '' @ halves y)
     in ''M'' @ halves (x0 + tl) @ '' '' @ halves y0 @
        ''L'' @ halves (x1 - tr) @ '' '' @ halves y0 @ (if 0 < tr then arc x1 (y0 + tr) else '''') @
        ''L'' @ halves x1 @ '' '' @ halves (y1 - br) @ (if 0 < br then arc (x1 - br) y1 else '''') @
        ''L'' @ halves (x0 + bl) @ '' '' @ halves y1 @ (if 0 < bl then arc x0 (y1 - bl) else '''') @
        ''L'' @ halves x0 @ '' '' @ halves (y0 + tl) @ (if 0 < tl then arc (x0 + tl) y0 else '''') @ ''z'')"

definition writeSVGHead :: "int \<Rightarrow> int \<Rightarrow> color \<Rightarrow> string" where
  "writeSVGHead sizePx totl bg =
    (let px = FormatInt sizePx; t = FormatInt totl in
     ''<svg xmlns=\"http://www.w3.org/2000/svg\" width=\"'' @ px @ ''\" height=\"'' @ px @ ''\" viewBox=\"0 0 '' @ t @ '' '' @ t @ ''\">'' @
     ''<rect width=\"'' @ t @ ''\" height=\"'' @ t @ ''\" fill=\"'' @ hexString bg @ ''\"/>'')"

text \<open>A loop over \<open>m\<close> items that asks for the state of the context before every 1024th; \<open>k\<close>
  questions were asked before it.\<close>

definition ask :: "ctx_answers \<Rightarrow> nat \<Rightarrow> nat \<Rightarrow> qr_error + nat" where
  "ask ctx m k = (let c = (m + 1023) div 1024 in
     case find (\<lambda>i. ctx i \<noteq> None) [k..<k + c] of Some i \<Rightarrow> Inl (the (ctx i)) | None \<Rightarrow> Inr (k + c))"

definition base64_Std :: "bytes \<Rightarrow> string" where
  "base64_Std bs = (let r = base64_EncodeToString base64std bs in r @ replicate ((4 - length r mod 4) mod 4) CHR ''='')"

definition svg_text :: "prepared_symbol \<Rightarrow> run list \<Rightarrow> run list \<Rightarrow> string" where
  "svg_text p plain rounded =
    (let g = ps_geo p; fg = hexString (ps_fg p) in
     writeSVGHead (op_SizePx (ps_opts p)) (geo_Total g) (ps_bg p) @
     (if plain = [] then '''' else ''<path fill=\"'' @ fg @ ''\" d=\"'' @ concat (map plain_run plain) @ ''\"/>'') @
     (if rounded = [] then '''' else ''<path fill=\"'' @ fg @ ''\" d=\"'' @ concat (map writeRoundedRun rounded) @ ''\"/>'') @
     (if Dots g = [] then ''''
      else ''<g fill=\"'' @ fg @ ''\">'' @
        concat (map (\<lambda>d. ''<circle cx=\"'' @ half (Dot_X d) @ ''\" cy=\"'' @ half (Dot_Y d) @ ''\" r=\"0.45\"/>'') (Dots g)) @ ''</g>'') @
     (case (ps_logo p, Hole g) of
        (Some l, Some h) \<Rightarrow>
          ''<image x=\"'' @ FormatInt (Min_X h + 1) @ ''\" y=\"'' @ FormatInt (Min_Y h + 1) @ ''\" width=\"'' @
          FormatInt (Max_X h - Min_X h - 2) @ ''\" height=\"'' @ FormatInt (Max_Y h - Min_Y h - 2) @
          ''\" preserveAspectRatio=\"xMidYMid meet\" href=\"data:'' @ dl_mime l @ '';base64,'' @ base64_Std (dl_raw l) @ ''\"/>''
      | _ \<Rightarrow> '''') @
     ''</svg>'' @ [CHR 0x0A])"

definition renderSVG :: "ctx_answers \<Rightarrow> prepared_symbol \<Rightarrow> qr_error + bytes" where
  "renderSVG ctx p =
    (let g = ps_geo p;
         plain = filter (\<lambda>r. Corners r = 0) (Runs g);
         rounded = filter (\<lambda>r. Corners r \<noteq> 0) (Runs g)
     in case ask ctx (length plain) 2 of Inl err \<Rightarrow> Inl err | Inr k \<Rightarrow>
       (case ask ctx (length rounded) k of Inl err \<Rightarrow> Inl err | Inr k \<Rightarrow>
        (case ask ctx (length (Dots g)) k of Inl err \<Rightarrow> Inl err | Inr k \<Rightarrow> Inr (svg_text p plain rounded))))"

record result =
  rt_Bytes :: bytes
  rt_ContentType :: string
  rt_ECLevel :: string
  rt_ECLevelEffective :: string
  rt_Version :: int

definition render_image ::
  "qr_env \<Rightarrow> (ctx_answers \<Rightarrow> prepared_symbol \<Rightarrow> qr_error + bytes) \<Rightarrow> renderer \<Rightarrow> ctx_answers \<Rightarrow> qr_options \<Rightarrow> qr_error + result" where
  "render_image q renderPNG r ctx opts =
    (case Prepare q r ctx opts of Inl err \<Rightarrow> Inl err | Inr p \<Rightarrow>
     (case (if op_Format (ps_opts p) = FormatSVG then renderSVG ctx p else renderPNG ctx p) of
        Inl err \<Rightarrow> Inl err
      | Inr out \<Rightarrow> Inr \<lparr>rt_Bytes = out, rt_ContentType = format_ContentType (op_Format (ps_opts p)),
          rt_ECLevel = op_ECLevel (ps_opts p), rt_ECLevelEffective = ps_effective p, rt_Version = sy_version (ps_sym p)\<rparr>))"

text \<open>\<open>Render\<close>: \<open>expired\<close> is the context's error when the time or the client gave up before the worker
  was done.\<close>

definition Render ::
  "qr_env \<Rightarrow> (ctx_answers \<Rightarrow> prepared_symbol \<Rightarrow> qr_error + bytes) \<Rightarrow> renderer \<Rightarrow> qr_error option \<Rightarrow> ctx_answers \<Rightarrow> qr_options \<Rightarrow> qr_error + result" where
  "Render q renderPNG r expired ctx opts =
    (case expired of
       Some err \<Rightarrow> Inl (budgetError (re_bounds r) err)
     | None \<Rightarrow> map_sum (budgetError (re_bounds r)) id (render_image q renderPNG r ctx opts))"

subsection \<open>The shapes draw the symbol\<close>

definition run_covers :: "int \<Rightarrow> int \<Rightarrow> run \<Rightarrow> bool" where
  "run_covers x y r = (Run_Y r = y \<and> Run_X r \<le> x \<and> x < Run_X r + Run_W r)"

definition dot_covers :: "int \<Rightarrow> int \<Rightarrow> dot \<Rightarrow> bool" where
  "dot_covers x y d = (Dot_X d = x \<and> Dot_Y d = y)"

text \<open>How many shapes cover a module.\<close>

definition drawn :: "int \<Rightarrow> int \<Rightarrow> run list \<times> dot list \<Rightarrow> nat" where
  "drawn x y = (\<lambda>(rs, ds). length (filter (run_covers x y) rs) + length (filter (dot_covers x y) ds))"

lemma drawn_simps [simp]:
  "drawn x y ([], []) = 0"
  "drawn x y (r # rs, ds) = (if run_covers x y r then 1 else 0) + drawn x y (rs, ds)"
  "drawn x y (rs, d # ds) = (if dot_covers x y d then 1 else 0) + drawn x y (rs, ds)"
  by (simp_all add: drawn_def)

lemma takeWhile_upt: "takeWhile P [a..<n] = [a..<a + length (takeWhile P [a..<n])]"
proof -
  have "takeWhile P [a..<n] = take (length (takeWhile P [a..<n])) [a..<n]" by (rule takeWhile_eq_take)
  moreover have "a + length (takeWhile P [a..<n]) \<le> n \<or> length (takeWhile P [a..<n]) = 0"
    using length_takeWhile_le [of P "[a..<n]"] by (cases "n \<le> a") auto
  ultimately show ?thesis by (metis add.right_neutral take0 take_upt upt_rec less_irrefl)
qed

lemma run_width_facts:
  assumes "x < sy_size smb"
  shows "x + run_width smb hole shape y x \<le> sy_size smb" "0 < run_width smb hole shape y x"
    and "\<And>i. x < i \<Longrightarrow> i < x + run_width smb hole shape y x \<Longrightarrow> dark_module smb hole (int i) (int y) \<and>
      (shape = ShapeSquare \<or> inFinder (int (sy_size smb)) (int i) (int y) = inFinder (int (sy_size smb)) (int x) (int y))"
proof -
  let ?n = "sy_size smb"
  let ?P = "\<lambda>i. dark_module smb hole (int i) (int y) \<and>
      (shape = ShapeSquare \<or> inFinder (int ?n) (int i) (int y) = inFinder (int ?n) (int x) (int y))"
  let ?t = "takeWhile ?P [x + 1..<?n]"
  have w: "run_width smb hole shape y x = 1 + length ?t" by (simp add: run_width_def Let_def)
  show "0 < run_width smb hole shape y x" by (simp add: w)
  have "length ?t \<le> ?n - (x + 1)" using length_takeWhile_le [of ?P "[x + 1..<?n]"] by simp
  then show "x + run_width smb hole shape y x \<le> ?n" using assms unfolding w by linarith
  fix i assume i: "x < i" "i < x + run_width smb hole shape y x"
  have "i \<in> {x + 1..<x + 1 + length ?t}" using i unfolding w atLeastLessThan_iff by linarith
  moreover have "set ?t = set [x + 1..<x + 1 + length ?t]" by (rule arg_cong [OF takeWhile_upt])
  ultimately have "i \<in> set ?t" by (simp only: set_upt)
  then show "?P i" by (rule set_takeWhileD [THEN conjunct2])
qed

lemma row_shapes_run:
  assumes "\<not> (shape = ShapeDot \<and> \<not> inFinder (int (sy_size smb)) (int x) (int y))" "x < sy_size smb"
    and "dark_module smb hole (int x) (int y)" "row_shapes smb hole shape margin y (x + run_width smb hole shape y x) = (rs, ds)"
  shows "row_shapes smb hole shape margin y x =
    (\<lparr>Run_X = int x + margin, Run_Y = int y + margin, Run_W = int (run_width smb hole shape y x),
      Corners = run_corners smb hole shape (int y) (int x) (int (run_width smb hole shape y x))\<rparr> # rs, ds)"
  using assms by (subst row_shapes.simps) (simp only: not_le if_False not_not if_True Let_def prod.case split: if_split, simp)

lemma row_shapes_drawn:
  "drawn (i + margin) (int y + margin) (row_shapes smb hole shape margin y x) =
     (if int x \<le> i \<and> i < int (sy_size smb) \<and> dark_module smb hole i (int y) then 1 else 0)"
proof (induction smb hole shape margin y x arbitrary: i rule: row_shapes.induct)
  case (1 smb hole shape margin y x)
  show ?case
  proof (cases "x < sy_size smb \<and> dark_module smb hole (int x) (int y)")
    case False
    show ?thesis
    proof (cases "sy_size smb \<le> x")
      case True
      then show ?thesis by (subst row_shapes.simps) simp
    next
      case False
      with \<open>\<not> (x < sy_size smb \<and> dark_module smb hole (int x) (int y))\<close> have nd: "\<not> dark_module smb hole (int x) (int y)" by simp
      then have "row_shapes smb hole shape margin y x = row_shapes smb hole shape margin y (x + 1)"
        using False by (subst row_shapes.simps) simp
      moreover have "int x \<le> i \<and> i < int (sy_size smb) \<and> dark_module smb hole i (int y) \<longleftrightarrow>
          int (x + 1) \<le> i \<and> i < int (sy_size smb) \<and> dark_module smb hole i (int y)"
        using nd by (cases "i = int x") auto
      ultimately show ?thesis using 1(1) [OF False nd, of i] by simp
    qed
  next
    case True
    note x = True [THEN conjunct1] and d = True [THEN conjunct2]
    show ?thesis
    proof (cases "shape = ShapeDot \<and> \<not> inFinder (int (sy_size smb)) (int x) (int y)")
      case True
      obtain rs ds where r: "row_shapes smb hole shape margin y (x + 1) = (rs, ds)" by fastforce
      have "row_shapes smb hole shape margin y x = (rs, \<lparr>Dot_X = int x + margin, Dot_Y = int y + margin\<rparr> # ds)"
        using True x d r by (subst row_shapes.simps) simp
      then show ?thesis using 1(2) [of i] True x d r by (auto simp: dot_covers_def)
    next
      case False
      define w where "w = run_width smb hole shape y x"
      obtain rs ds where r: "row_shapes smb hole shape margin y (x + w) = (rs, ds)" by fastforce
      let ?r = "\<lparr>Run_X = int x + margin, Run_Y = int y + margin, Run_W = int w,
               Corners = run_corners smb hole shape (int y) (int x) (int w)\<rparr>"
      have e: "row_shapes smb hole shape margin y x = (?r # rs, ds)"
        unfolding w_def by (rule row_shapes_run [OF False x d r [unfolded w_def]])
      have IH: "drawn (i + margin) (int y + margin) (rs, ds) =
          (if int (x + w) \<le> i \<and> i < int (sy_size smb) \<and> dark_module smb hole i (int y) then 1 else 0)"
        using 1(3) [of w i] False x d r by (simp add: w_def)
      have "dark_module smb hole i (int y)" "i < int (sy_size smb)" if "int x \<le> i" "i < int (x + w)"
      proof -
        have n: "int (nat i) = i" using that(1) by linarith
        show "dark_module smb hole i (int y)"
          using run_width_facts(3) [OF x, of "nat i" hole shape y] d that n by (cases "nat i = x") (auto simp: w_def)
        show "i < int (sy_size smb)" using run_width_facts(1) [OF x, of hole shape y] that(2) by (simp add: w_def)
      qed
      then show ?thesis unfolding e using IH by (auto simp: run_covers_def)
    qed
  qed
qed

lemma row_shapes_row:
  "(\<forall>r \<in> set (fst (row_shapes smb hole shape margin y x)). Run_Y r = int y + margin \<and>
      (Corners r \<noteq> 0 \<longrightarrow> (\<forall>i. Run_X r \<le> i + margin \<and> i + margin < Run_X r + Run_W r \<longrightarrow> \<not> inFinder (int (sy_size smb)) i (int y)))) \<and>
   (\<forall>d \<in> set (snd (row_shapes smb hole shape margin y x)). Dot_Y d = int y + margin \<and>
      \<not> inFinder (int (sy_size smb)) (Dot_X d - margin) (int y))"
proof (induction smb hole shape margin y x rule: row_shapes.induct)
  case (1 smb hole shape margin y x)
  show ?case
  proof (cases "x < sy_size smb \<and> dark_module smb hole (int x) (int y)")
    case False
    then show ?thesis using 1(1) by (cases "sy_size smb \<le> x") (simp_all add: row_shapes.simps [of smb hole shape margin y x])
  next
    case True
    note x = True [THEN conjunct1] and d = True [THEN conjunct2]
    show ?thesis
    proof (cases "shape = ShapeDot \<and> \<not> inFinder (int (sy_size smb)) (int x) (int y)")
      case True
      then show ?thesis using 1(2) x d by (subst (1 2) row_shapes.simps) (auto split: prod.splits)
    next
      case False
      define w where "w = run_width smb hole shape y x"
      let ?r = "\<lparr>Run_X = int x + margin, Run_Y = int y + margin, Run_W = int w,
               Corners = run_corners smb hole shape (int y) (int x) (int w)\<rparr>"
      obtain rs ds where r: "row_shapes smb hole shape margin y (x + w) = (rs, ds)" by fastforce
      have e: "row_shapes smb hole shape margin y x = (?r # rs, ds)"
        unfolding w_def by (rule row_shapes_run [OF False x d r [unfolded w_def]])
      have "\<not> inFinder (int (sy_size smb)) i (int y)"
        if c: "Corners ?r \<noteq> 0" "int x \<le> i" "i < int x + int w" for i
      proof -
        have sh: "shape = ShapeRounded" "\<not> inFinder (int (sy_size smb)) (int x) (int y)"
          using c(1) by (auto simp: run_corners_def split: if_splits)
        have n: "int (nat i) = i" using c(2) by linarith
        show ?thesis
          using run_width_facts(3) [OF x, of "nat i" hole shape y] sh c n by (cases "nat i = x") (auto simp: w_def domain_consts)
      qed
      moreover have "(\<forall>r \<in> set rs. Run_Y r = int y + margin \<and>
          (Corners r \<noteq> 0 \<longrightarrow> (\<forall>i. Run_X r \<le> i + margin \<and> i + margin < Run_X r + Run_W r \<longrightarrow> \<not> inFinder (int (sy_size smb)) i (int y)))) \<and>
         (\<forall>d \<in> set ds. Dot_Y d = int y + margin \<and> \<not> inFinder (int (sy_size smb)) (Dot_X d - margin) (int y))"
        using 1(3) [of w] False x d r by (simp add: w_def)
      ultimately show ?thesis unfolding e by auto
    qed
  qed
qed

text \<open>C10. The shapes of a symbol, whatever the module shape, are the symbol: every dark module outside
  the logo's hole is covered by exactly one run or dot, shifted by the quiet zone, and no light
  module, no module of the hole and nothing of the quiet zone by any; in the three finder patterns
  every shape is a plain rectangle.\<close>

theorem shapes_draw_the_symbol:
  "(let g = computeGeometry smb shape margin hole; n = int (sy_size smb) in
    geo_Total g = n + 2 * margin \<and>
    (\<forall>x y. length (filter (run_covers (x + margin) (y + margin)) (Runs g)) + length (filter (dot_covers (x + margin) (y + margin)) (Dots g)) =
       (if symbol_Module smb x y \<and> (\<forall>h. hole = Some h \<longrightarrow> \<not> in_rect x y h) then 1 else 0)) \<and>
    (\<forall>x y. inFinder n x y \<longrightarrow> (\<forall>r \<in> set (Runs g). run_covers (x + margin) (y + margin) r \<longrightarrow> Corners r = 0) \<and>
       (\<forall>d \<in> set (Dots g). \<not> dot_covers (x + margin) (y + margin) d)))"
proof -
  let ?row = "\<lambda>y. row_shapes smb hole shape margin y 0" and ?n = "sy_size smb"
  define g where "g = computeGeometry smb shape margin hole"
  have g: "Runs g = concat (map (\<lambda>y. fst (?row y)) [0..<?n])" "Dots g = concat (map (\<lambda>y. snd (?row y)) [0..<?n])"
    "geo_Total g = int ?n + 2 * margin" by (simp_all add: g_def computeGeometry_def Let_def comp_def)
  have dark: "dark_module smb hole x y \<longleftrightarrow> symbol_Module smb x y \<and> (\<forall>h. hole = Some h \<longrightarrow> \<not> in_rect x y h)" for x y
    by (auto simp: dark_module_def split: option.splits)
  have other: "drawn (x + margin) (y + margin) (?row k) = 0" if "y \<noteq> int k" for x y k
    using row_shapes_row [of smb hole shape margin k 0] that
    by (auto simp: drawn_def filter_empty_conv run_covers_def dot_covers_def split: prod.splits)
  have rowc: "drawn (x + margin) (y + margin) (?row k) = (if y = int k \<and> dark_module smb hole x y then 1 else 0)" for x y k
  proof (cases "y = int k")
    case True
    have "dark_module smb hole x y \<Longrightarrow> 0 \<le> x \<and> x < int ?n" using dark by (auto simp: symbol_Module_def split: if_splits)
    then show ?thesis using True row_shapes_drawn [of x margin k smb hole shape 0] by auto
  qed (simp add: other)
  have count: "length (filter (run_covers (x + margin) (y + margin)) (Runs g)) + length (filter (dot_covers (x + margin) (y + margin)) (Dots g)) =
      sum_list (map (\<lambda>k. drawn (x + margin) (y + margin) (?row k)) [0..<?n])" for x y
    unfolding g filter_concat length_concat map_map comp_def
    by (simp add: drawn_def split_def sum_list_addf)
  have "sum_list (map (\<lambda>k. drawn (x + margin) (y + margin) (?row k)) [0..<?n]) = (if dark_module smb hole x y then 1 else 0)" for x y
  proof (cases "dark_module smb hole x y")
    case True
    then have y: "0 \<le> y" "nat y < ?n" using dark by (auto simp: symbol_Module_def split: if_splits)
    have "sum_list (map (\<lambda>k. drawn (x + margin) (y + margin) (?row k)) [0..<?n]) = (\<Sum>k\<in>{0..<?n}. if k = nat y then 1 else 0)"
      unfolding interv_sum_list_conv_sum_set_nat set_upt rowc using True y by (intro sum.cong) auto
    then show ?thesis using True y by simp
  qed (simp add: rowc sum_list_0)
  moreover have "(\<forall>r \<in> set (Runs g). run_covers (x + margin) (y + margin) r \<longrightarrow> Corners r = 0) \<and>
      (\<forall>d \<in> set (Dots g). \<not> dot_covers (x + margin) (y + margin) d)" if f: "inFinder (int ?n) x y" for x y
  proof (intro conjI ballI impI notI)
    fix r assume "r \<in> set (Runs g)" "run_covers (x + margin) (y + margin) r"
    then obtain k where "r \<in> set (fst (?row k))" "Run_Y r = y + margin" "Run_X r \<le> x + margin" "x + margin < Run_X r + Run_W r"
      by (auto simp: g run_covers_def)
    then show "Corners r = 0" using row_shapes_row [of smb hole shape margin k 0] f by auto
  next
    fix d assume "d \<in> set (Dots g)" "dot_covers (x + margin) (y + margin) d"
    then obtain k where "d \<in> set (snd (?row k))" "Dot_Y d = y + margin" "Dot_X d = x + margin" by (auto simp: g dot_covers_def)
    then show False using row_shapes_row [of smb hole shape margin k 0] f by auto
  qed
  ultimately show ?thesis unfolding Let_def g_def [symmetric] using g(3) count dark by simp
qed


definition sample_symbol :: symbol where
  "sample_symbol = \<lparr>sy_size = 9, sy_version = 1, sy_level = ''M'', sy_dark = map (\<lambda>i. i mod 3 \<noteq> 0) [0..<81]\<rparr>"

theorem shapes_draw_the_symbol_witness:
  "length (filter (run_covers 12 12) (Runs (computeGeometry sample_symbol ShapeRounded 4 None))) = 1 \<and>
   length (filter (run_covers 10 11) (Runs (computeGeometry sample_symbol ShapeRounded 4 None))) = 0"
proof -
  have m: "symbol_Module sample_symbol 8 8" "\<not> symbol_Module sample_symbol 6 7" "Dots (computeGeometry sample_symbol ShapeRounded 4 None) = []" by code_simp+
  show ?thesis
    using shapes_draw_the_symbol [of sample_symbol ShapeRounded 4 None, unfolded Let_def, THEN conjunct2, THEN conjunct1, THEN spec, THEN spec, of 8 8]
      shapes_draw_the_symbol [of sample_symbol ShapeRounded 4 None, unfolded Let_def, THEN conjunct2, THEN conjunct1, THEN spec, THEN spec, of 6 7] m
    by simp
qed

subsection \<open>The policy\<close>

lemma level_ranks [simp]: "levelRank ECLow = 0" "levelRank ECMedium = 1" "levelRank ECQuartile = 2" "levelRank ECHigh = 3"
  by (simp_all add: levelRank_def levelOrder_def domain_consts)

lemma levelRank_nonneg: "0 \<le> levelRank ec \<longleftrightarrow> ec \<in> set levelOrder"
  by (auto simp: levelRank_def levelOrder_def domain_consts)

lemma resolveLogoLevel_least:
  assumes "resolveLogoLevel requested scale raise = Inr lv" "requested \<in> set levelOrder"
  shows "lv \<in> set levelOrder" "scale \<le> LogoBudget lv" "levelRank requested \<le> levelRank lv"
    and "\<And>k. k \<in> set levelOrder \<Longrightarrow> levelRank requested \<le> levelRank k \<Longrightarrow> levelRank k < levelRank lv \<Longrightarrow> LogoBudget k < scale"
    and "\<not> raise \<Longrightarrow> lv = requested"
  using assms by (auto simp: resolveLogoLevel_def levelOrder_def split: if_splits option.splits)

lemma logoHole_facts:
  assumes "n = 4 * v + 17" "1 \<le> v"
  shows "Min_X (logoHole root_of n scale) = Min_Y (logoHole root_of n scale)" "Max_X (logoHole root_of n scale) = Max_Y (logoHole root_of n scale)"
    and "Min_X (logoHole root_of n scale) + Max_X (logoHole root_of n scale) = n" "8 \<le> Min_X (logoHole root_of n scale)"
    and "3 \<le> Max_X (logoHole root_of n scale) - Min_X (logoHole root_of n scale)"
    and "Max_X (logoHole root_of n scale) - Min_X (logoHole root_of n scale) \<le> max 3 (root_of scale (rawDataModules v))"
proof -
  define s0 where "s0 = root_of scale (rawDataModules v)"
  define s1 where "s1 = (if s0 mod 2 = 0 then s0 - 1 else s0)"
  define s2 where "s2 = (if s1 < 3 then 3 else s1)"
  define s where "s = (if n - 16 < s2 then n - 16 else s2)"
  have n16: "(n - 16) mod 2 = 1" "5 \<le> n - 16" "(n - 17) div 4 = v" using assms by presburger+
  have s1: "s1 mod 2 = 1" "s1 \<le> s0" unfolding s1_def by presburger+
  have s2: "s2 mod 2 = 1" "3 \<le> s2" "s2 \<le> max 3 s0" using s1 unfolding s2_def by auto
  have s: "s mod 2 = 1" "3 \<le> s" "s \<le> n - 16" "s \<le> max 3 s0" using s2 n16 unfolding s_def by auto
  have e: "logoHole root_of n scale = \<lparr>Min_X = (n - s) div 2, Min_Y = (n - s) div 2, Max_X = (n - s) div 2 + s, Max_Y = (n - s) div 2 + s\<rparr>"
    using n16 by (simp add: logoHole_def Let_def s_def s2_def s1_def s0_def)
  have h: "2 * ((n - s) div 2) = n - s" using s(1) assms by presburger
  show "Min_X (logoHole root_of n scale) = Min_Y (logoHole root_of n scale)" "Max_X (logoHole root_of n scale) = Max_Y (logoHole root_of n scale)"
    by (simp_all add: e)
  show "Min_X (logoHole root_of n scale) + Max_X (logoHole root_of n scale) = n" using h by (simp add: e)
  show "8 \<le> Min_X (logoHole root_of n scale)" using h s(3) by (simp add: e)
  show "3 \<le> Max_X (logoHole root_of n scale) - Min_X (logoHole root_of n scale)" using s(2) by (simp add: e)
  show "Max_X (logoHole root_of n scale) - Min_X (logoHole root_of n scale) \<le> max 3 (root_of scale (rawDataModules v))"
    using s(4) by (simp add: e s0_def)
qed

lemma logoHole_spares_finders:
  assumes "n = 4 * v + 17" "1 \<le> v" "in_rect x y (logoHole root_of n scale)"
  shows "\<not> inFinder n x y"
proof -
  have "8 \<le> x" "8 \<le> y" "x < n - 8" "y < n - 8"
    using logoHole_facts [OF assms(1,2), of root_of scale] assms(3) by (simp_all add: in_rect_def)
  then show ?thesis by (simp add: inFinder_def)
qed

lemma fill_options_simps [simp]:
  "op_Content (fill_options o0) = op_Content o0" "op_Margin (fill_options o0) = op_Margin o0" "op_Logo (fill_options o0) = op_Logo o0"
  by (simp_all add: fill_options_def)

lemma normalise_facts:
  assumes "normalise o0 = Inr (o1, fg, bg)"
  shows "o1 = fill_options o0" "op_ECLevel o1 \<in> set levelOrder" "0 \<le> op_Margin o1" "op_Margin o1 \<le> 64" "1 \<le> op_SizePx o1"
    and "op_Logo o1 = Some l \<Longrightarrow> 0 < lg_Scale l \<and> lg_Scale l \<le> MaxLogoScale"
  unfolding levelRank_nonneg [symmetric]
  using assms by (auto simp: normalise_def Let_def not_le not_less split: if_splits option.splits)

text \<open>C11. Whatever the request, a symbol the renderer agrees to draw is within the policy of the instance:
  the image is no larger than the configured maximum, the colours have at least the configured contrast,
  which is never below 3:1, and the content is not empty and fits the level it is encoded at. The level is
  the requested one unless a logo is larger than its budget; then it is the least level above whose
  budget suffices, and only when raising was allowed. The hole for the logo, for every size a QR symbol can
  have, is a centred square of odd side that spares the finder patterns, with at least three modules and no
  more than the budgeted share of the codeword area, if that is at least three modules.\<close>

theorem prepared_within_policy:
  assumes "Prepare q (NewRenderer b ratio) ctx opts = Inr p"
  shows "op_SizePx (ps_opts p) \<le> MaxPx (normalised b) \<and> 3 \<le> qe_ContrastRatio q (ps_fg p) (ps_bg p) \<and>
      (\<forall>r. ratio = Some r \<longrightarrow> r \<le> qe_ContrastRatio q (ps_fg p) (ps_bg p)) \<and>
      op_Content opts \<noteq> [] \<and> int (length (op_Content opts)) \<le> min (Capacity (ps_effective p)) (MaxPayload (normalised b)) \<and>
      sy_level (ps_sym p) = ps_effective p \<and>
      (op_Logo opts = None \<longrightarrow> ps_effective p = op_ECLevel (ps_opts p) \<and> ps_geo p = computeGeometry (ps_sym p) (op_Shape (ps_opts p)) (op_Margin opts) None) \<and>
      (\<forall>l. op_Logo opts = Some l \<longrightarrow>
         lg_Scale l \<le> LogoBudget (ps_effective p) \<and> levelRank (op_ECLevel (ps_opts p)) \<le> levelRank (ps_effective p) \<and>
         (\<not> AutoRaise l \<longrightarrow> ps_effective p = op_ECLevel (ps_opts p)) \<and>
         (\<forall>k \<in> set levelOrder. levelRank (op_ECLevel (ps_opts p)) \<le> levelRank k \<and> levelRank k < levelRank (ps_effective p) \<longrightarrow> LogoBudget k < lg_Scale l) \<and>
         (\<exists>h. ps_geo p = computeGeometry (ps_sym p) (op_Shape (ps_opts p)) (op_Margin opts) (Some h) \<and>
           (\<forall>v. int (sy_size (ps_sym p)) = 4 * v + 17 \<and> 1 \<le> v \<longrightarrow>
             (\<forall>x y. in_rect x y h \<longrightarrow> \<not> inFinder (int (sy_size (ps_sym p))) x y) \<and> Min_X h + Max_X h = 4 * v + 17 \<and> 3 \<le> Max_X h - Min_X h \<and>
             Max_X h - Min_X h \<le> max 3 (qe_root q (lg_Scale l) (rawDataModules v)))))"
proof -
  let ?r = "NewRenderer b ratio"
  obtain opts' fg bg where nm: "normalise opts = Inr (opts', fg, bg)" using assms by (auto simp: Prepare_def split: sum.splits)
  obtain eff lg smb where lv: "(case op_Logo opts' of
             None \<Rightarrow> Inr (op_ECLevel opts', None)
           | Some l \<Rightarrow> (case resolveLogoLevel (op_ECLevel opts') (lg_Scale l) (AutoRaise l) of
               Inl err \<Rightarrow> Inl err
             | Inr lv \<Rightarrow> (case decodeLogo q (lg_Image l) of Inl err \<Rightarrow> Inl err | Inr d \<Rightarrow> Inr (lv, Some (l, d))))) = Inr (eff, lg)"
    and sz: "checkSize (re_bounds ?r) (op_SizePx opts') = None" and ct: "checkContrast q fg bg (re_minContrast ?r) = None"
    and pl: "checkPayload (re_bounds ?r) (int (length (op_Content opts'))) eff = None" and en: "qr_Encode q (op_Content opts') eff = Inr smb"
    and p: "p = \<lparr>ps_opts = opts', ps_fg = fg, ps_bg = bg, ps_sym = smb, ps_geo = computeGeometry smb (op_Shape opts') (op_Margin opts')
        (map_option (\<lambda>(l, _). logoHole (qe_root q) (int (sy_size smb)) (lg_Scale l)) lg), ps_logo = map_option snd lg, ps_effective = eff\<rparr>"
    using assms nm unfolding Prepare_def by (auto simp: Let_def split: sum.splits option.splits)
  note nf = normalise_facts [OF nm]
  have o: "op_Content opts' = op_Content opts" "op_Margin opts' = op_Margin opts" "op_Logo opts' = op_Logo opts" by (simp_all add: nf(1))
  have size: "op_SizePx opts' \<le> MaxPx (normalised b)" using sz by (simp add: checkSize_def NewRenderer_def split: if_splits)
  have con: "re_minContrast ?r \<le> qe_ContrastRatio q fg bg" using ct by (simp add: checkContrast_def Let_def split: if_splits)
  have min: "3 \<le> re_minContrast ?r" "ratio = Some r \<Longrightarrow> r \<le> re_minContrast ?r" for r
    by (auto simp: NewRenderer_def DefaultMinContrast_def ContrastFloor_def split: option.splits)
  have enc: "op_Content opts \<noteq> []" "sy_level smb = eff" using en o by (auto simp: qr_Encode_def split: if_splits sum.splits goqr_error.splits)
  have pay: "int (length (op_Content opts)) \<le> min (Capacity eff) (MaxPayload (normalised b))"
    using pl o by (simp add: checkPayload_def payloadLimit_def NewRenderer_def Let_def split: if_splits)
  have none: "eff = op_ECLevel opts' \<and> lg = None" if "op_Logo opts = None" using lv that o by simp
  have some: "resolveLogoLevel (op_ECLevel opts') (lg_Scale l) (AutoRaise l) = Inr eff \<and> (\<exists>d. lg = Some (l, d))" if "op_Logo opts = Some l" for l
    using lv that o by (auto split: sum.splits)
  have logo: "lg_Scale l \<le> LogoBudget eff \<and> levelRank (op_ECLevel opts') \<le> levelRank eff \<and> (\<not> AutoRaise l \<longrightarrow> eff = op_ECLevel opts') \<and>
      (\<forall>k \<in> set levelOrder. levelRank (op_ECLevel opts') \<le> levelRank k \<and> levelRank k < levelRank eff \<longrightarrow> LogoBudget k < lg_Scale l)"
    if "op_Logo opts = Some l" for l
    using resolveLogoLevel_least [OF some [OF that, THEN conjunct1] nf(2)] by blast
  have hole: "\<exists>h. ps_geo p = computeGeometry smb (op_Shape opts') (op_Margin opts) (Some h) \<and>
      (\<forall>v. int (sy_size smb) = 4 * v + 17 \<and> 1 \<le> v \<longrightarrow>
        (\<forall>x y. in_rect x y h \<longrightarrow> \<not> inFinder (int (sy_size smb)) x y) \<and> Min_X h + Max_X h = 4 * v + 17 \<and> 3 \<le> Max_X h - Min_X h \<and>
        Max_X h - Min_X h \<le> max 3 (qe_root q (lg_Scale l) (rawDataModules v)))"
    if "op_Logo opts = Some l" for l
  proof (intro exI conjI allI impI)
    let ?h = "logoHole (qe_root q) (int (sy_size smb)) (lg_Scale l)"
    show "ps_geo p = computeGeometry smb (op_Shape opts') (op_Margin opts) (Some ?h)" using some [OF that] by (auto simp: p o)
    fix v assume v: "int (sy_size smb) = 4 * v + 17 \<and> 1 \<le> v"
    note f = logoHole_facts [OF v [THEN conjunct1] v [THEN conjunct2], of "qe_root q" "lg_Scale l"]
    show "Min_X ?h + Max_X ?h = 4 * v + 17" "3 \<le> Max_X ?h - Min_X ?h" "Max_X ?h - Min_X ?h \<le> max 3 (qe_root q (lg_Scale l) (rawDataModules v))"
      using f(3,5,6) v by simp_all
    fix x y assume "in_rect x y ?h"
    then show "\<not> inFinder (int (sy_size smb)) x y" using logoHole_spares_finders v by blast
  qed
  have proj: "ps_opts p = opts'" "ps_fg p = fg" "ps_bg p = bg" "ps_sym p = smb" "ps_effective p = eff" by (simp_all add: p)
  have plain: "op_Logo opts = None \<longrightarrow> eff = op_ECLevel opts' \<and> ps_geo p = computeGeometry smb (op_Shape opts') (op_Margin opts) None"
    using none by (simp add: p o)
  have ratio: "3 \<le> qe_ContrastRatio q fg bg" "\<forall>r. ratio = Some r \<longrightarrow> r \<le> qe_ContrastRatio q fg bg" using con min order_trans by blast+
  show ?thesis unfolding proj using size ratio enc pay plain logo hole by blast
qed


definition sample_qr :: qr_env where
  "sample_qr = \<lparr>qe_goqr = (\<lambda>_ _. Inr (21, \<lambda>x y. (x + y) mod 2 = 0)), qe_DecodeConfig = (\<lambda>_. Some \<lparr>ic_Width = 64, ic_Height = 64, ic_Format = ''png''\<rparr>),
     qe_decodes = (\<lambda>_ _. True), qe_ContrastRatio = (\<lambda>_ _. 21), qe_round2 = id, qe_root = (\<lambda>_ _. 6)\<rparr>"

definition sample_options :: qr_options where
  "sample_options = \<lparr>op_Content = ''https://x'', op_Format = '''', op_FgColor = '''', op_BgColor = '''', op_Shape = ''dot'', op_Margin = 4,
     op_SizePx = 0, op_ECLevel = ''L'', op_Logo = Some \<lparr>lg_Image = ''P'', lg_Scale = 3 / 20, AutoRaise = True\<rparr>\<rparr>"

theorem prepared_within_policy_witness:
  "\<exists>p. Prepare sample_qr (NewRenderer DefaultBounds None) (\<lambda>_. None) sample_options = Inr p \<and> ps_effective p = ECQuartile \<and>
     3 / 20 \<le> LogoBudget (ps_effective p)"
proof -
  have r: "resolveLogoLevel ECLow (3 / 20) True = Inr ECQuartile" by code_simp
  have c: "ParseHexColor ''#000000'' = Some (0, 0, 0)" "ParseHexColor ''#FFFFFF'' = Some (255, 255, 255)" by code_simp+
  have n: "normalise sample_options = Inr (fill_options sample_options, (0, 0, 0), (255, 255, 255))"
    unfolding normalise_def using c
    by (simp add: fill_options_def sample_options_def FormatPNG_def FormatSVG_def domain_consts levelRank_def levelOrder_def MaxLogoScale_def)
  have "\<exists>p. Prepare sample_qr (NewRenderer DefaultBounds None) (\<lambda>_. None) sample_options = Inr p \<and> ps_effective p = ECQuartile"
    unfolding Prepare_def n using r [unfolded ECLow_def]
    by (simp add: fill_options_def sample_options_def sample_qr_def checkSize_def checkContrast_def NewRenderer_def normalised_def DefaultBounds_def
        DefaultMinContrast_def decodeLogo_def MaxLogoBytes_def MaxLogoPixels_def checkPayload_def payloadLimit_def Capacity_def qr_Encode_def levelOrder_def
        domain_consts Let_def)
  then show ?thesis using prepared_within_policy [of sample_qr DefaultBounds None "\<lambda>_. None" sample_options]
    by (auto simp: sample_options_def)
qed

end
