(* ===== verification/V1_Qr.thy ===== *)
theory V1_Qr
  imports V1_Json Qr "HOL-Library.Monad_Syntax"
begin

text \<open>
  The ephemeral endpoint \<open>/v1/qr\<close>, \<^verbatim>\<open>src/internal/httpapi/v1/qr.go\<close>: parameters from the query, a JSON body
  or a form, their validation, and the mapping of the renderer's errors onto the error catalogue.

  Arguments, in the record \<open>qr_http\<close>: the media type parser of \<open>mime\<close>, the form parser of
  \<open>mime/multipart\<close>, \<open>strconv.ParseFloat\<close> (finite values only), and how \<open>fmt\<close> writes a float.
\<close>

subsection \<open>Numbers\<close>

text \<open>\<open>strconv.Atoi\<close>.\<close>

definition Atoi :: "string \<Rightarrow> int option" where
  "Atoi s =
    (let neg = HasPrefix s ''-''; ds = (if neg \<or> HasPrefix s ''+'' then drop 1 s else s) in
     if ds = [] \<or> \<not> list_all is_digit ds then None
     else let i = (if neg then - int (decimal ds) else int (decimal ds)) in
       if - (2 ^ 63) \<le> i \<and> i < 2 ^ 63 then Some i else None)"

definition ParseBool :: "string \<Rightarrow> bool option" where
  "ParseBool s = (if s \<in> {''1'', ''t'', ''T'', ''TRUE'', ''true'', ''True''} then Some True
     else if s \<in> {''0'', ''f'', ''F'', ''FALSE'', ''false'', ''False''} then Some False else None)"

definition as_int :: "json \<Rightarrow> int option" where
  "as_int v = (case v of JInt i \<Rightarrow> if - (2 ^ 63) \<le> i \<and> i < 2 ^ 63 then Some i else None | _ \<Rightarrow> None)"

definition as_float :: "json \<Rightarrow> rat option" where
  "as_float v = (case v of JInt i \<Rightarrow> Some (of_int i) | JFrac q \<Rightarrow> Some q | _ \<Rightarrow> None)"

definition as_bool :: "json \<Rightarrow> bool option" where
  "as_bool v = (case v of JBool b \<Rightarrow> Some b | _ \<Rightarrow> None)"

text \<open>A pointer to a struct: a value is decoded into the struct the pointer already has.\<close>

fun set_struct :: "('a \<Rightarrow> json \<Rightarrow> 'a option) \<Rightarrow> 'a \<Rightarrow> 'a option \<Rightarrow> json list \<Rightarrow> 'a option option" where
  "set_struct f z x [] = Some x"
| "set_struct f z x (JNull # vs) = set_struct f z None vs"
| "set_struct f z x (v # vs) = (case f (case x of None \<Rightarrow> z | Some y \<Rightarrow> y) v of None \<Rightarrow> None | Some y \<Rightarrow> set_struct f z (Some y) vs)"

subsection \<open>Logos\<close>

record logo_spec =
  ls_ImageBase64 :: string
  ls_Scale :: "rat option"
  ls_AutoRaise :: "bool option"

definition zero_logo :: logo_spec where
  "zero_logo = \<lparr>ls_ImageBase64 = '''', ls_Scale = None, ls_AutoRaise = None\<rparr>"

definition logo_into :: "logo_spec \<Rightarrow> json \<Rightarrow> logo_spec option" where
  "logo_into l v = do {
     kvs \<leftarrow> object_of [''image_base64'', ''scale'', ''auto_raise''] v;
     img \<leftarrow> set_value as_string (ls_ImageBase64 l) (values_of ''image_base64'' kvs);
     sc \<leftarrow> set_pointer as_float (ls_Scale l) (values_of ''scale'' kvs);
     ar \<leftarrow> set_pointer as_bool (ls_AutoRaise l) (values_of ''auto_raise'' kvs);
     Some \<lparr>ls_ImageBase64 = img, ls_Scale = sc, ls_AutoRaise = ar\<rparr>
   }"

datatype qr_fail = FieldError string string | RenderError qr_error

text \<open>\<open>0.01\<close> and \<open>0.15\<close> as the nearest doubles.\<close>

definition defaultLogoScale :: rat where "defaultLogoScale = 5404319552844595 / 36028797018963968"
definition min_logo_scale :: rat where "min_logo_scale = 5764607523034235 / 576460752303423488"

definition validateLogo :: "logo \<Rightarrow> qr_fail option" where
  "validateLogo l = (if lg_Scale l < min_logo_scale \<or> MaxLogoScale < lg_Scale l
     then Some (FieldError ''logo.scale'' ''must be between 0.01 and 0.25'') else None)"

text \<open>\<open>base64.StdEncoding\<close>: line ends are skipped, the padding is required.\<close>

definition base64_DecodeStd :: "string \<Rightarrow> bytes option" where
  "base64_DecodeStd s =
    (let cs = filter not_newline s; core = takeWhile (\<lambda>c. c \<noteq> CHR ''='') cs; padding = dropWhile (\<lambda>c. c \<noteq> CHR ''='') cs in
     if padding = replicate ((4 - length core mod 4) mod 4) CHR ''='' \<and> length core mod 4 \<noteq> 1
     then base64_DecodeString base64std core else None)"

definition logo_decode :: "logo_spec \<Rightarrow> qr_fail + logo" where
  "logo_decode l =
    (if ls_ImageBase64 l = '''' then Inl (FieldError ''logo.image_base64'' ''is required'')
     else if MaxLogoBytes * 4 div 3 + 4 < length (ls_ImageBase64 l)
     then Inl (FieldError ''logo.image_base64'' (''must decode to at most '' @ digits MaxLogoBytes @ '' bytes''))
     else case base64_DecodeStd (ls_ImageBase64 l) of
       None \<Rightarrow> Inl (FieldError ''logo.image_base64'' ''is not valid base64'')
     | Some data \<Rightarrow>
         let lg = \<lparr>lg_Image = data, lg_Scale = (case ls_Scale l of None \<Rightarrow> defaultLogoScale | Some x \<Rightarrow> x),
               AutoRaise = (case ls_AutoRaise l of None \<Rightarrow> True | Some b \<Rightarrow> b)\<rparr>
         in case validateLogo lg of Some err \<Rightarrow> Inl err | None \<Rightarrow> Inr lg)"

subsection \<open>Requests\<close>

record styling_request =
  sr_FgColor :: "string option"
  sr_BgColor :: "string option"
  sr_ModuleShape :: "string option"
  sr_MarginModules :: "int option"
  sr_SizePx :: "int option"
  sr_ECLevel :: "string option"
  sr_Logo :: "logo_spec option"

definition zero_styling :: styling_request where
  "zero_styling = \<lparr>sr_FgColor = None, sr_BgColor = None, sr_ModuleShape = None, sr_MarginModules = None, sr_SizePx = None,
     sr_ECLevel = None, sr_Logo = None\<rparr>"

definition styling_into :: "styling_request \<Rightarrow> json \<Rightarrow> styling_request option" where
  "styling_into s v = do {
     kvs \<leftarrow> object_of [''fg_color'', ''bg_color'', ''module_shape'', ''margin_modules'', ''size_px'', ''ec_level'', ''logo''] v;
     fg \<leftarrow> set_pointer as_string (sr_FgColor s) (values_of ''fg_color'' kvs);
     bg \<leftarrow> set_pointer as_string (sr_BgColor s) (values_of ''bg_color'' kvs);
     sh \<leftarrow> set_pointer as_string (sr_ModuleShape s) (values_of ''module_shape'' kvs);
     ma \<leftarrow> set_pointer as_int (sr_MarginModules s) (values_of ''margin_modules'' kvs);
     sz \<leftarrow> set_pointer as_int (sr_SizePx s) (values_of ''size_px'' kvs);
     ec \<leftarrow> set_pointer as_string (sr_ECLevel s) (values_of ''ec_level'' kvs);
     lg \<leftarrow> set_struct logo_into zero_logo (sr_Logo s) (values_of ''logo'' kvs);
     Some \<lparr>sr_FgColor = fg, sr_BgColor = bg, sr_ModuleShape = sh, sr_MarginModules = ma, sr_SizePx = sz, sr_ECLevel = ec, sr_Logo = lg\<rparr>
   }"

record generate_request =
  gr_Content :: string
  gr_Format :: "string option"
  gr_Styling :: "styling_request option"

definition generate_body :: "json \<Rightarrow> generate_request option" where
  "generate_body v = do {
     kvs \<leftarrow> object_of [''content'', ''format'', ''styling''] v;
     c \<leftarrow> string_field ''content'' kvs;
     f \<leftarrow> set_pointer as_string None (values_of ''format'' kvs);
     s \<leftarrow> set_struct styling_into zero_styling None (values_of ''styling'' kvs);
     Some \<lparr>gr_Content = c, gr_Format = f, gr_Styling = s\<rparr>
   }"

definition hex_char :: "char \<Rightarrow> bool" where "hex_char c = (hexNibble c \<noteq> None)"

definition hexColorRe :: "string \<Rightarrow> bool" where
  "hexColorRe s = (length s = 7 \<and> hd s = CHR ''#'' \<and> list_all hex_char (drop 1 s))"

definition out_of :: "'a option \<Rightarrow> ('a \<Rightarrow> bool) \<Rightarrow> bool" where
  "out_of x ok = (case x of None \<Rightarrow> False | Some y \<Rightarrow> \<not> ok y)"

definition or_else :: "'a option \<Rightarrow> 'a \<Rightarrow> 'a" where
  "or_else x d = (case x of None \<Rightarrow> d | Some y \<Rightarrow> y)"

definition toOptions :: "generate_request \<Rightarrow> qr_fail + qr_options" where
  "toOptions g =
    (let s = or_else (gr_Styling g) zero_styling in
     if gr_Content g = '''' then Inl (FieldError ''content'' ''is required'')
     else if out_of (gr_Format g) (\<lambda>f. f = FormatPNG \<or> f = FormatSVG) then Inl (FieldError ''format'' ''must be png or svg'')
     else if out_of (sr_FgColor s) hexColorRe then Inl (FieldError ''fg_color'' ''must be #RRGGBB'')
     else if out_of (sr_BgColor s) hexColorRe then Inl (FieldError ''bg_color'' ''must be #RRGGBB'')
     else if out_of (sr_ModuleShape s) (\<lambda>x. x \<in> {ShapeSquare, ShapeDot, ShapeRounded}) then Inl (FieldError ''module_shape'' ''must be square, dot or rounded'')
     else if out_of (sr_MarginModules s) (\<lambda>m. 4 \<le> m \<and> m \<le> 64) then Inl (FieldError ''margin_modules'' ''must be between 4 and 64'')
     else if out_of (sr_SizePx s) (\<lambda>n. 64 \<le> n) then Inl (FieldError ''size_px'' ''must be at least 64'')
     else if out_of (sr_ECLevel s) (\<lambda>l. l \<in> {ECLow, ECMedium, ECQuartile, ECHigh}) then Inl (FieldError ''ec_level'' ''must be L, M, Q or H'')
     else let opts = \<lparr>op_Content = gr_Content g, op_Format = or_else (gr_Format g) FormatPNG, op_FgColor = or_else (sr_FgColor s) '''',
            op_BgColor = or_else (sr_BgColor s) '''', op_Shape = or_else (sr_ModuleShape s) '''', op_Margin = or_else (sr_MarginModules s) 4,
            op_SizePx = or_else (sr_SizePx s) 512, op_ECLevel = or_else (sr_ECLevel s) ECMedium, op_Logo = None\<rparr>
       in case sr_Logo s of
            None \<Rightarrow> Inr opts
          | Some l \<Rightarrow> (case logo_decode l of Inl err \<Rightarrow> Inl err | Inr lg \<Rightarrow> Inr (opts\<lparr>op_Logo := Some lg\<rparr>)))"

text \<open>The query: a parameter that is present counts even when it is empty.\<close>

definition num_param :: "(string \<Rightarrow> string option) \<Rightarrow> string \<Rightarrow> qr_fail + int option" where
  "num_param str k = (case str k of
     None \<Rightarrow> Inr None
   | Some s \<Rightarrow> (case Atoi s of None \<Rightarrow> Inl (FieldError k ''must be an integer'') | Some n \<Rightarrow> Inr (Some n)))"

definition request_of :: "(string \<Rightarrow> string option) \<Rightarrow> qr_fail + generate_request" where
  "request_of str =
    (case num_param str ''margin_modules'' of Inl err \<Rightarrow> Inl err | Inr ma \<Rightarrow>
    (case num_param str ''size_px'' of Inl err \<Rightarrow> Inl err | Inr sz \<Rightarrow>
     Inr \<lparr>gr_Content = or_else (str ''content'') '''', gr_Format = str ''format'',
       gr_Styling = Some \<lparr>sr_FgColor = str ''fg_color'', sr_BgColor = str ''bg_color'', sr_ModuleShape = str ''module_shape'',
         sr_MarginModules = ma, sr_SizePx = sz, sr_ECLevel = str ''ec_level'', sr_Logo = None\<rparr>\<rparr>))"

definition parseQuery :: "request \<Rightarrow> qr_fail + qr_options" where
  "parseQuery r = (case request_of (map_of (rq_Query r)) of Inl err \<Rightarrow> Inl err | Inr g \<Rightarrow> toOptions g)"

subsection \<open>Bodies\<close>

record multipart_form =
  mf_Value :: "(string \<times> string) list"
  mf_Logo :: "bytes option"

record qr_http =
  qh_dec :: json_decoder
  qh_MediaType :: "string \<Rightarrow> string option"
  qh_Multipart :: "request \<Rightarrow> multipart_form option"
  qh_ParseFloat :: "string \<Rightarrow> rat option"
  qh_fixed :: "nat \<Rightarrow> rat \<Rightarrow> string"
  qh_percent :: "rat \<Rightarrow> string"

definition maxBody :: nat where "maxBody = 65536 + MaxLogoBytes * 4 div 3"

text \<open>The reason the JSON decoder gives is left out of the text.\<close>

definition parseJSON :: "qr_http \<Rightarrow> request \<Rightarrow> qr_fail + qr_options" where
  "parseJSON h r = (case qh_dec h (take (maxBody + 1) (rq_Body r)) of
     None \<Rightarrow> Inl (FieldError ''body'' ''malformed JSON'')
   | Some (v, trailing) \<Rightarrow> (case generate_body v of
       None \<Rightarrow> Inl (FieldError ''body'' ''malformed JSON'')
     | Some g \<Rightarrow> if trailing then Inl (FieldError ''body'' ''trailing data after the JSON object'') else toOptions g))"

definition form_logo :: "qr_http \<Rightarrow> (string \<Rightarrow> string option) \<Rightarrow> bytes \<Rightarrow> qr_fail + logo" where
  "form_logo h str data =
    (if MaxLogoBytes < length data then Inl (FieldError ''logo'' (''must be at most '' @ digits MaxLogoBytes @ '' bytes''))
     else case (case str ''logo_scale'' of None \<Rightarrow> Some defaultLogoScale | Some s \<Rightarrow> qh_ParseFloat h s) of
       None \<Rightarrow> Inl (FieldError ''logo_scale'' ''must be a number'')
     | Some sc \<Rightarrow> (case (case str ''logo_auto_raise'' of None \<Rightarrow> Some True | Some s \<Rightarrow> ParseBool s) of
         None \<Rightarrow> Inl (FieldError ''logo_auto_raise'' ''must be true or false'')
       | Some ar \<Rightarrow>
           let lg = \<lparr>lg_Image = data, lg_Scale = sc, AutoRaise = ar\<rparr>
           in case validateLogo lg of Some err \<Rightarrow> Inl err | None \<Rightarrow> Inr lg))"

definition parseMultipart :: "qr_http \<Rightarrow> request \<Rightarrow> qr_fail + qr_options" where
  "parseMultipart h r = (case qh_Multipart h r of
     None \<Rightarrow> Inl (FieldError ''body'' ''malformed or oversized multipart body'')
   | Some f \<Rightarrow>
       let str = map_of (mf_Value f) in
       (case request_of str of Inl err \<Rightarrow> Inl err | Inr g \<Rightarrow>
       (case toOptions g of Inl err \<Rightarrow> Inl err | Inr opts \<Rightarrow>
       (case mf_Logo f of
          None \<Rightarrow> Inr opts
        | Some data \<Rightarrow> (case form_logo h str data of Inl err \<Rightarrow> Inl err | Inr lg \<Rightarrow> Inr (opts\<lparr>op_Logo := Some lg\<rparr>))))))"

definition parseBody :: "qr_http \<Rightarrow> request \<Rightarrow> qr_fail + qr_options" where
  "parseBody h r = (case qh_MediaType h (header_Get (rq_Header r) ''Content-Type'') of
     None \<Rightarrow> Inl (FieldError ''content-type'' ''is missing or malformed'')
   | Some mt \<Rightarrow>
       if mt = ''application/json'' then parseJSON h r
       else if mt = ''multipart/form-data'' then parseMultipart h r
       else Inl (FieldError ''content-type'' ''must be application/json or multipart/form-data''))"

subsection \<open>Answers\<close>

record error_detail =
  ed_Code :: ErrorCode
  ed_Message :: string
  ed_Details :: "(string \<times> json) list"

text \<open>\<open>Duration.Milliseconds\<close> rounds towards zero; a duration here is not negative.\<close>

definition Milliseconds :: "duration \<Rightarrow> int" where "Milliseconds d = d div 1000000"

fun qrErrorDetail :: "qr_http \<Rightarrow> qr_fail \<Rightarrow> error_detail option" where
  "qrErrorDetail h (RenderError (ContrastTooLowError ratio minimum)) = Some \<lparr>ed_Code = CodeContrastTooLow,
     ed_Message = ''Foreground/background contrast is '' @ qh_fixed h 2 ratio @ '':1; at least '' @ qh_fixed h 1 minimum @ '':1 is required.'',
     ed_Details = [(''ratio'', JFrac ratio), (''minimum'', JFrac minimum)]\<rparr>"
| "qrErrorDetail h (RenderError (LogoTooLargeError sc mx lv)) = Some \<lparr>ed_Code = CodeLogoTooLarge,
     ed_Message = ''Logo covers '' @ qh_percent h sc @ ''% of the symbol; the maximum at error correction level '' @ lv @ '' is '' @ qh_percent h mx @ ''%.'',
     ed_Details = [(''scale'', JFrac sc), (''max_scale'', JFrac mx), (''ec_level'', JStr lv)]\<rparr>"
| "qrErrorDetail h (FieldError field msg) = Some \<lparr>ed_Code = CodeInvalidRequest,
     ed_Message = ''Parameter '' @ [CHR 0x27] @ field @ [CHR 0x27] @ '' '' @ msg @ ''.'', ed_Details = [(''field'', JStr field)]\<rparr>"
| "qrErrorDetail h (RenderError (InvalidOptionError field why)) = Some \<lparr>ed_Code = CodeInvalidRequest,
     ed_Message = ''Parameter '' @ [CHR 0x27] @ field @ [CHR 0x27] @ '' is invalid: '' @ why @ ''.'', ed_Details = [(''field'', JStr field)]\<rparr>"
| "qrErrorDetail h (RenderError (ContentTooLargeError limit actual lv)) = Some \<lparr>ed_Code = CodeContentTooLarge,
     ed_Message = ''Content is '' @ FormatInt actual @ '' bytes; the maximum at error correction level '' @ lv @ '' is '' @ FormatInt limit @ '' bytes.'',
     ed_Details = [(''limit_bytes'', JInt limit), (''actual_bytes'', JInt actual), (''ec_level'', JStr lv)]\<rparr>"
| "qrErrorDetail h (RenderError (DimensionsExceededError requested maximum)) = Some \<lparr>ed_Code = CodeDimensionsExceeded,
     ed_Message = ''Requested size '' @ FormatInt requested @ ''px exceeds the configured maximum of '' @ FormatInt maximum @ ''px.'',
     ed_Details = [(''requested'', JInt requested), (''maximum'', JInt maximum)]\<rparr>"
| "qrErrorDetail h (RenderError (RenderTimeoutError t)) = Some \<lparr>ed_Code = CodeRenderTimeout,
     ed_Message = ''Rendering exceeded the '' @ FormatInt (Milliseconds t) @ ''ms budget.'', ed_Details = [(''timeout_ms'', JInt (Milliseconds t))]\<rparr>"
| "qrErrorDetail h (RenderError ContextCanceled) = None"
| "qrErrorDetail h (RenderError DeadlineExceeded) = None"
| "qrErrorDetail h (RenderError (QrOther m)) = None"

text \<open>Nothing is written for a client that went away.\<close>

definition writeQRError :: "qr_http \<Rightarrow> header \<Rightarrow> qr_fail \<Rightarrow> response option" where
  "writeQRError h hdr err =
    (if err = RenderError ContextCanceled then None
     else Some (case qrErrorDetail h err of
       None \<Rightarrow> Internal hdr | Some d \<Rightarrow> WriteError hdr (ed_Code d) (ed_Message d) (ed_Details d)))"

fun match_tags :: "string list \<Rightarrow> string \<Rightarrow> bool" where
  "match_tags [] etag = False"
| "match_tags (t # ts) etag =
    (let tag = strings_TrimSpace t in
     if tag = ''*'' then True
     else let tag = (if HasPrefix tag ''W/'' then drop 2 tag else tag) in
       if tag = etag then True else match_tags ts etag)"

definition v1_etagMatches :: "string \<Rightarrow> string \<Rightarrow> bool" where
  "v1_etagMatches header etag = (if header = '''' then False else match_tags (split_on (CHR '','') header) etag)"

definition writeImage :: "(bytes \<Rightarrow> string) \<Rightarrow> request \<Rightarrow> result \<Rightarrow> response" where
  "writeImage sha256hex r res =
    (let etag = ''\"'' @ sha256hex (rt_Bytes res) @ ''\"'';
         hdr = header_Set ''X-Content-Type-Options'' ''nosniff'' (header_Set ''Cache-Control'' ''public, max-age=31536000, immutable''
           (header_Set ''ETag'' etag []))
     in if v1_etagMatches (header_Get (rq_Header r) ''If-None-Match'') etag
        then \<lparr>rs_Status = 304, rs_Header = hdr, rs_Cookies = [], rs_Body = NoBody\<rparr>
        else \<lparr>rs_Status = 200, rs_Header = header_Set ''Content-Length'' (digits (length (rt_Bytes res))) (header_Set ''Content-Type'' (rt_ContentType res) hdr),
              rs_Cookies = [], rs_Body = RawBody (rt_Bytes res)\<rparr>)"

definition handle_qr :: "qr_http \<Rightarrow> (bytes \<Rightarrow> string) \<Rightarrow> (qr_options \<Rightarrow> qr_error + result) \<Rightarrow> request \<Rightarrow> response option" where
  "handle_qr h sha256hex render r =
    (if rq_Method r \<noteq> ''GET'' \<and> rq_Method r \<noteq> ''POST''
     then Some (WriteError (header_Set ''Allow'' ''GET, POST'' []) CodeInvalidRequest ''Method not allowed.'' [])
     else case (if rq_Method r = ''GET'' then parseQuery r else parseBody h r) of
       Inl err \<Rightarrow> writeQRError h [] err
     | Inr opts \<Rightarrow> (case render opts of
         Inl err \<Rightarrow> writeQRError h [] (RenderError err)
       | Inr res \<Rightarrow> Some (writeImage sha256hex r res)))"

text \<open>\<open>ServeHTTP\<close>: with a private instance a credential is needed; \<open>limiter\<close> wraps a public one.\<close>

definition qr_ServeHTTP ::
  "qr_http \<Rightarrow> (bytes \<Rightarrow> string) \<Rightarrow> (qr_options \<Rightarrow> qr_error + result) \<Rightarrow> bool \<Rightarrow> (request \<Rightarrow> bool) \<Rightarrow>
   ((request \<Rightarrow> response option) \<Rightarrow> request \<Rightarrow> response option) option \<Rightarrow> request \<Rightarrow> response option" where
  "qr_ServeHTTP h sha256hex render public isAuthed limiter r =
    (if \<not> public \<and> \<not> isAuthed r then Some (WriteError [] CodeUnauthorized ''A valid credential is required.'' [])
     else (case limiter of
        Some wrap \<Rightarrow> if public then wrap (handle_qr h sha256hex render) r else handle_qr h sha256hex render r
      | None \<Rightarrow> handle_qr h sha256hex render r))"

end
