(* ===== verification/Blob.thy ===== *)
theory Blob
  imports Domain
begin

text \<open>
  Object storage, \<^verbatim>\<open>src/internal/blob\<close>: the rules on keys, the Go interface \<open>BlobStore\<close> as a record
  of functions, the in-memory store of \<^verbatim>\<open>blobtest/memblob.go\<close> and the filesystem driver of
  \<^verbatim>\<open>fsblob/fsblob.go\<close>. The locale \<open>blob_store\<close> states what a client may rely on; both stores
  are interpretations of it.

  The digest \<open>sha\<close> of \<open>crypto/sha256\<close> is an argument: nothing depends on which function it is.
  The filesystem driver takes \<open>io\<close>, the error of its \<open>n\<close>-th system call, if that fails, so that
  the theorems cover a failure at every point.
\<close>

datatype blob_error = ErrBlobNotFound | ErrInvalidKey | BlobErr string

subsection \<open>Keys\<close>

definition ValidateKey :: "string \<Rightarrow> blob_error option" where
  "ValidateKey key =
    (if key = '''' \<or> 512 < length key \<or> CHR 0x00 \<in> set key \<or> HasPrefix key ''/'' \<or>
        HasPrefix key [CHR 0x5C] \<or> strings_Contains key [CHR 0x5C] \<or> strings_Contains key ''//''
     then Some ErrInvalidKey
     else if list_ex (\<lambda>seg. seg = ''.'' \<or> seg = ''..'') (split_on (CHR ''/'') key) then Some ErrInvalidKey
     else if path_Clean key \<noteq> key then Some ErrInvalidKey
     else None)"

subsection \<open>The interface\<close>

record blob_info =
  bi_Key :: string
  bi_Size :: int
  bi_ContentType :: string
  bi_ETag :: string
  bi_ModTime :: gotime

record 'b blob_ops =
  bo_Put :: "call_env \<Rightarrow> string \<Rightarrow> bytes \<Rightarrow> int \<Rightarrow> string \<Rightarrow> 'b \<Rightarrow> (blob_error + string) \<times> 'b"
  bo_Get :: "string \<Rightarrow> 'b \<Rightarrow> blob_error + (bytes \<times> blob_info)"
  bo_Stat :: "string \<Rightarrow> 'b \<Rightarrow> blob_error + blob_info"
  bo_Delete :: "string \<Rightarrow> 'b \<Rightarrow> blob_error option \<times> 'b"

definition hex_digit :: "nat \<Rightarrow> char" where
  "hex_digit n = ''0123456789abcdef'' ! n"

definition hex_EncodeToString :: "bytes \<Rightarrow> string" where
  "hex_EncodeToString bs = concat (map (\<lambda>b. [hex_digit (byte b div 16), hex_digit (byte b mod 16)]) bs)"

subsection \<open>The in-memory store\<close>

record mem_entry =
  me_data :: bytes
  me_contentType :: string
  me_etag :: string
  me_modTime :: gotime

type_synonym mem_blob = "string \<Rightarrow> mem_entry option"

definition etagFor :: "(bytes \<Rightarrow> bytes) \<Rightarrow> bytes \<Rightarrow> string" where
  "etagFor sha data = hex_EncodeToString (sha data)"

definition memblob_Put ::
  "(bytes \<Rightarrow> bytes) \<Rightarrow> call_env \<Rightarrow> string \<Rightarrow> bytes \<Rightarrow> int \<Rightarrow> string \<Rightarrow> mem_blob \<Rightarrow> (blob_error + string) \<times> mem_blob" where
  "memblob_Put sha e key data sz ct m = (case ValidateKey key of
     Some err \<Rightarrow> (Inl err, m)
   | None \<Rightarrow> let etag = etagFor sha data in
       (Inr etag, m(key \<mapsto> \<lparr>me_data = data, me_contentType = ct, me_etag = etag, me_modTime = now e\<rparr>)))"

definition mem_info :: "string \<Rightarrow> mem_entry \<Rightarrow> blob_info" where
  "mem_info key x = \<lparr>bi_Key = key, bi_Size = int (length (me_data x)), bi_ContentType = me_contentType x,
     bi_ETag = me_etag x, bi_ModTime = me_modTime x\<rparr>"

definition memblob_Get :: "string \<Rightarrow> mem_blob \<Rightarrow> blob_error + (bytes \<times> blob_info)" where
  "memblob_Get key m = (case ValidateKey key of
     Some err \<Rightarrow> Inl err
   | None \<Rightarrow> (case m key of None \<Rightarrow> Inl ErrBlobNotFound | Some x \<Rightarrow> Inr (me_data x, mem_info key x)))"

definition memblob_Stat :: "string \<Rightarrow> mem_blob \<Rightarrow> blob_error + blob_info" where
  "memblob_Stat key m = (case ValidateKey key of
     Some err \<Rightarrow> Inl err
   | None \<Rightarrow> (case m key of None \<Rightarrow> Inl ErrBlobNotFound | Some x \<Rightarrow> Inr (mem_info key x)))"

definition memblob_Delete :: "string \<Rightarrow> mem_blob \<Rightarrow> blob_error option \<times> mem_blob" where
  "memblob_Delete key m = (case ValidateKey key of
     Some err \<Rightarrow> (Some err, m)
   | None \<Rightarrow> (case m key of None \<Rightarrow> (Some ErrBlobNotFound, m) | Some _ \<Rightarrow> (None, m(key := None))))"

definition memblob_ops :: "(bytes \<Rightarrow> bytes) \<Rightarrow> mem_blob blob_ops" where
  "memblob_ops sha = \<lparr>bo_Put = memblob_Put sha, bo_Get = memblob_Get, bo_Stat = memblob_Stat, bo_Delete = memblob_Delete\<rparr>"

definition memblob_PublicURL :: "string \<Rightarrow> string \<Rightarrow> blob_error + string" where
  "memblob_PublicURL key base = (case ValidateKey key of
     Some err \<Rightarrow> Inl err
   | None \<Rightarrow> if base = '''' then Inl (BlobErr ''memblob: public base URL is empty'')
             else Inr (TrimRightByte base (CHR ''/'') @ ''/'' @ key))"

subsection \<open>The filesystem driver\<close>

text \<open>The files under the root: objects by path, and the sidecars, each a decoded \<open>meta\<close>, by path.\<close>

record fs_meta =
  fm_ContentType :: string
  fm_ETag :: string
  fm_Size :: int

record fs_store =
  fs_objects :: "string \<Rightarrow> (bytes \<times> gotime) option"
  fs_metas :: "string \<Rightarrow> fs_meta option"

record fs_env =
  fs_root :: string
  fs_sha :: "bytes \<Rightarrow> bytes"
  fs_ctx :: "blob_error option"
  fs_io :: "nat \<Rightarrow> string option"

text \<open>\<open>paths\<close>: for a valid key \<open>filepath.Join\<close> only puts slashes between its arguments.\<close>

definition fs_rel :: "fs_env \<Rightarrow> string \<Rightarrow> string" where
  "fs_rel E key = (let h = hex_EncodeToString (take 4 (fs_sha E key)) in
     take 2 h @ ''/'' @ take 2 (drop 2 h) @ ''/'' @ key)"

definition fs_paths :: "fs_env \<Rightarrow> string \<Rightarrow> blob_error + (string \<times> string)" where
  "fs_paths E key = (case ValidateKey key of
     Some err \<Rightarrow> Inl err
   | None \<Rightarrow> Inr (fs_root E @ ''/objects/'' @ fs_rel E key, fs_root E @ ''/meta/'' @ fs_rel E key @ ''.json''))"

text \<open>The first error among a run of system calls.\<close>

definition io_err :: "fs_env \<Rightarrow> nat list \<Rightarrow> blob_error option" where
  "io_err E is = map_option (\<lambda>i. BlobErr (''fsblob: '' @ the (fs_io E i))) (find (\<lambda>i. fs_io E i \<noteq> None) is)"

text \<open>\<open>Put\<close>. Calls 0 to 3 are the two \<open>MkdirAll\<close>, \<open>CreateTemp\<close> and \<open>Copy\<close>; 4 to 6 \<open>Sync\<close>, \<open>Close\<close> and
  the rename of the object; 7 and 8 its \<open>syncDir\<close>; 9 to 13 the sidecar's temporary file up to
  its rename; 14 and 15 the sidecar's \<open>syncDir\<close>. Temporary files are removed on every failure
  and are not part of the state.\<close>

definition fs_Put ::
  "fs_env \<Rightarrow> call_env \<Rightarrow> string \<Rightarrow> bytes \<Rightarrow> int \<Rightarrow> string \<Rightarrow> fs_store \<Rightarrow> (blob_error + string) \<times> fs_store" where
  "fs_Put E e key data sz ct s =
    (case fs_paths E key of Inl err \<Rightarrow> (Inl err, s) | Inr (objPath, metaPath) \<Rightarrow>
     case fs_ctx E of Some err \<Rightarrow> (Inl err, s) | None \<Rightarrow>
     case io_err E [0, 1, 2, 3] of Some err \<Rightarrow> (Inl err, s) | None \<Rightarrow>
     if 0 \<le> sz \<and> int (length data) \<noteq> sz then (Inl (BlobErr ''fsblob: wrote too few or too many bytes''), s) else
     case io_err E [4, 5, 6] of Some err \<Rightarrow> (Inl err, s) | None \<Rightarrow>
     let etag = hex_EncodeToString (fs_sha E data);
         s1 = s\<lparr>fs_objects := (fs_objects s)(objPath \<mapsto> (data, now e))\<rparr> in
     case io_err E [7, 8, 9, 10, 11, 12, 13] of Some err \<Rightarrow> (Inl err, s1) | None \<Rightarrow>
     let s2 = s1\<lparr>fs_metas := (fs_metas s1)(metaPath \<mapsto>
           \<lparr>fm_ContentType = ct, fm_ETag = etag, fm_Size = int (length data)\<rparr>)\<rparr> in
     case io_err E [14, 15] of Some err \<Rightarrow> (Inl err, s2) | None \<Rightarrow> (Inr etag, s2))"

definition fs_stat :: "fs_env \<Rightarrow> string \<Rightarrow> fs_store \<Rightarrow> blob_error + (blob_info \<times> string)" where
  "fs_stat E key s =
    (case fs_paths E key of Inl err \<Rightarrow> Inl err | Inr (objPath, metaPath) \<Rightarrow>
     case fs_objects s objPath of None \<Rightarrow> Inl ErrBlobNotFound | Some (data, t) \<Rightarrow>
     case fs_metas s metaPath of None \<Rightarrow> Inl ErrBlobNotFound | Some m \<Rightarrow>
     Inr (\<lparr>bi_Key = key, bi_Size = int (length data), bi_ContentType = fm_ContentType m,
           bi_ETag = fm_ETag m, bi_ModTime = t\<rparr>, objPath))"

definition fs_Get :: "fs_env \<Rightarrow> string \<Rightarrow> fs_store \<Rightarrow> blob_error + (bytes \<times> blob_info)" where
  "fs_Get E key s =
    (case fs_ctx E of Some err \<Rightarrow> Inl err | None \<Rightarrow>
     case fs_stat E key s of Inl err \<Rightarrow> Inl err | Inr (info, objPath) \<Rightarrow>
     case fs_objects s objPath of None \<Rightarrow> Inl ErrBlobNotFound | Some (data, _) \<Rightarrow> Inr (data, info))"

definition fs_Stat :: "fs_env \<Rightarrow> string \<Rightarrow> fs_store \<Rightarrow> blob_error + blob_info" where
  "fs_Stat E key s = (case fs_ctx E of Some err \<Rightarrow> Inl err | None \<Rightarrow> map_sum id fst (fs_stat E key s))"

definition fs_Delete :: "fs_env \<Rightarrow> string \<Rightarrow> fs_store \<Rightarrow> blob_error option \<times> fs_store" where
  "fs_Delete E key s =
    (case fs_paths E key of Inl err \<Rightarrow> (Some err, s) | Inr (objPath, metaPath) \<Rightarrow>
     case fs_ctx E of Some err \<Rightarrow> (Some err, s) | None \<Rightarrow>
     if fs_objects s objPath = None then (Some ErrBlobNotFound, s) else
     case io_err E [0] of Some err \<Rightarrow> (Some err, s) | None \<Rightarrow>
     let s1 = s\<lparr>fs_objects := (fs_objects s)(objPath := None)\<rparr> in
     case (if fs_metas s metaPath = None then None else io_err E [1]) of Some err \<Rightarrow> (Some err, s1) | None \<Rightarrow>
     let s2 = s1\<lparr>fs_metas := (fs_metas s1)(metaPath := None)\<rparr> in
     (io_err E [2, 3], s2))"

definition fs_ops :: "fs_env \<Rightarrow> fs_store blob_ops" where
  "fs_ops E = \<lparr>bo_Put = fs_Put E, bo_Get = fs_Get E, bo_Stat = fs_Stat E, bo_Delete = fs_Delete E\<rparr>"

subsection \<open>What the drivers promise\<close>

text \<open>The view of a store: for each key, what a read of it finds.\<close>

locale blob_store =
  fixes bl :: "'b blob_ops"
    and view :: "'b \<Rightarrow> string \<Rightarrow> (bytes \<times> string \<times> string) option"
  assumes put_ok: "bo_Put bl e key d n ct b = (Inr etag, b') \<Longrightarrow>
      ValidateKey key = None \<and> view b' = (view b)(key \<mapsto> (d, ct, etag))"
    and put_fail: "bo_Put bl e key d n ct b = (Inl err, b') \<Longrightarrow> k \<noteq> key \<Longrightarrow> view b' k = view b k"
    and delete_ok: "bo_Delete bl key b = (None, b') \<Longrightarrow> view b' = (view b)(key := None)"
    and delete_fail: "bo_Delete bl key b = (Some err, b') \<Longrightarrow> k \<noteq> key \<Longrightarrow> view b' k = view b k"
    and get_ok: "bo_Get bl key b = Inr (d, info) \<Longrightarrow>
      view b key = Some (d, bi_ContentType info, bi_ETag info) \<and> bi_Key info = key \<and> bi_Size info = int (length d)"
    and get_missing: "view b key = None \<Longrightarrow> isl (bo_Get bl key b)"
begin

text \<open>Whether it succeeds or not, a write or a removal touches no other object.\<close>

lemma put_frame: "k \<noteq> key \<Longrightarrow> view (snd (bo_Put bl e key d n ct b)) k = view b k"
  using put_ok [of e key d n ct b] put_fail [of e key d n ct b]
  by (cases "bo_Put bl e key d n ct b"; cases "fst (bo_Put bl e key d n ct b)") auto

lemma delete_frame: "k \<noteq> key \<Longrightarrow> view (snd (bo_Delete bl key b)) k = view b k"
  using delete_ok [of key b] delete_fail [of key b]
  by (cases "bo_Delete bl key b"; cases "fst (bo_Delete bl key b)") auto

lemma put_then_get:
  assumes "bo_Put bl e key d n ct b = (Inr etag, b')" "bo_Get bl key b' = Inr (d', info)"
  shows "d' = d \<and> bi_ContentType info = ct \<and> bi_ETag info = etag \<and> bi_Size info = int (length d)"
  using put_ok [OF assms(1)] get_ok [OF assms(2)] by auto

end

definition memblob_view :: "mem_blob \<Rightarrow> string \<Rightarrow> (bytes \<times> string \<times> string) option" where
  "memblob_view m key = map_option (\<lambda>x. (me_data x, me_contentType x, me_etag x)) (m key)"

interpretation memblob: blob_store "memblob_ops sha" memblob_view
  by unfold_locales
    (auto simp: memblob_ops_def memblob_Put_def memblob_Delete_def memblob_Get_def memblob_view_def mem_info_def
      Let_def split: option.splits intro!: ext)

lemma first_slash:
  "CHR ''/'' \<notin> set a \<Longrightarrow> CHR ''/'' \<notin> set b \<Longrightarrow> a @ CHR ''/'' # xs = b @ CHR ''/'' # ys \<Longrightarrow> a = b \<and> xs = ys"
proof (induction a arbitrary: b)
  case Nil
  then show ?case by (cases b) auto
next
  case (Cons c a)
  then show ?case by (cases b) auto
qed

lemma hex_digit_no_slash: "n < 16 \<Longrightarrow> hex_digit n \<noteq> CHR ''/''"
proof -
  assume "n < 16"
  then have "hex_digit n \<in> set ''0123456789abcdef''" unfolding hex_digit_def by (intro nth_mem) simp
  then show ?thesis by auto
qed

lemma hex_no_slash: "CHR ''/'' \<notin> set (hex_EncodeToString bs)"
proof (induction bs)
  case (Cons b bs)
  have "byte b div 16 < 16" "byte b mod 16 < 16"
    using nat_of_char_less_256 [of b] by (simp_all add: div_less_iff_less_mult)
  then have "hex_digit (byte b div 16) \<noteq> CHR ''/''" "hex_digit (byte b mod 16) \<noteq> CHR ''/''"
    by (simp_all add: hex_digit_no_slash)
  then show ?case using Cons by (simp add: hex_EncodeToString_def)
qed (simp add: hex_EncodeToString_def)

lemma fs_rel_inj:
  assumes "fs_rel E k = fs_rel E k'"
  shows "k = k'"
proof -
  let ?h = "\<lambda>k. hex_EncodeToString (take 4 (fs_sha E k))"
  have no: "CHR ''/'' \<notin> set (take 2 (?h k))" "CHR ''/'' \<notin> set (take 2 (drop 2 (?h k)))" for k
    using hex_no_slash by (metis in_set_takeD, metis in_set_dropD in_set_takeD)
  have "take 2 (?h k) @ CHR ''/'' # (take 2 (drop 2 (?h k)) @ CHR ''/'' # k) =
      take 2 (?h k') @ CHR ''/'' # (take 2 (drop 2 (?h k')) @ CHR ''/'' # k')"
    using assms by (simp add: fs_rel_def Let_def)
  from first_slash [OF no(1) no(1) this] first_slash [OF no(2) no(2)] show ?thesis by blast
qed

lemma fs_paths_inj:
  assumes "fs_paths E k = Inr (o1, m1)" "fs_paths E k' = Inr (o2, m2)" "k \<noteq> k'"
  shows "o1 \<noteq> o2" "m1 \<noteq> m2"
  using assms fs_rel_inj [of E k k'] by (auto simp: fs_paths_def split: option.splits)

definition fs_view :: "fs_env \<Rightarrow> fs_store \<Rightarrow> string \<Rightarrow> (bytes \<times> string \<times> string) option" where
  "fs_view E s key = (case fs_paths E key of Inl _ \<Rightarrow> None | Inr (objPath, metaPath) \<Rightarrow>
     case fs_objects s objPath of None \<Rightarrow> None | Some (data, _) \<Rightarrow>
     case fs_metas s metaPath of None \<Rightarrow> None | Some m \<Rightarrow> Some (data, fm_ContentType m, fm_ETag m))"

lemma fs_view_other:
  assumes "fs_paths E key = Inr (p, q)" "k \<noteq> key"
    and "\<And>x. x \<noteq> p \<Longrightarrow> fs_objects t x = fs_objects s x" "\<And>x. x \<noteq> q \<Longrightarrow> fs_metas t x = fs_metas s x"
  shows "fs_view E t k = fs_view E s k"
  using assms fs_paths_inj [OF _ assms(1) assms(2)]
  by (auto simp: fs_view_def split: sum.splits option.splits)

lemma fs_Put_frame: "k \<noteq> key \<Longrightarrow> fs_view E (snd (fs_Put E e key d n ct s)) k = fs_view E s k"
proof (cases "fs_paths E key")
  case (Inr pq)
  obtain p q where pq: "pq = (p, q)" by (cases pq)
  assume "k \<noteq> key"
  then show ?thesis using Inr pq
    by (intro fs_view_other [of E key p q]) (auto simp: fs_Put_def Let_def split: option.splits)
qed (simp add: fs_Put_def)

lemma fs_Delete_frame: "k \<noteq> key \<Longrightarrow> fs_view E (snd (fs_Delete E key s)) k = fs_view E s k"
proof (cases "fs_paths E key")
  case (Inr pq)
  obtain p q where pq: "pq = (p, q)" by (cases pq)
  assume "k \<noteq> key"
  then show ?thesis using Inr pq
    by (intro fs_view_other [of E key p q]) (auto simp: fs_Delete_def Let_def split: option.splits)
qed (simp add: fs_Delete_def)

lemma fs_Put_ok:
  assumes "fs_Put E e key d n ct s = (Inr etag, t)"
  shows "ValidateKey key = None" "fs_view E t = (fs_view E s)(key \<mapsto> (d, ct, etag))"
proof -
  obtain p q where pq: "fs_paths E key = Inr (p, q)"
    using assms by (auto simp: fs_Put_def split: sum.splits)
  then show "ValidateKey key = None" by (auto simp: fs_paths_def split: option.splits)
  have "fs_view E t key = Some (d, ct, etag)"
    using assms pq by (auto simp: fs_Put_def fs_view_def Let_def split: option.splits if_splits)
  then show "fs_view E t = (fs_view E s)(key \<mapsto> (d, ct, etag))"
    using fs_Put_frame [of _ key E e d n ct s] assms by (auto simp: fun_eq_iff)
qed

interpretation fsblob: blob_store "fs_ops E" "fs_view E"
proof
  fix e key d n ct b b' k err etag info
  show "bo_Put (fs_ops E) e key d n ct b = (Inr etag, b') \<Longrightarrow>
      ValidateKey key = None \<and> fs_view E b' = (fs_view E b)(key \<mapsto> (d, ct, etag))"
    using fs_Put_ok [of E e key d n ct b etag b'] by (simp add: fs_ops_def)
  show "bo_Put (fs_ops E) e key d n ct b = (Inl err, b') \<Longrightarrow> k \<noteq> key \<Longrightarrow> fs_view E b' k = fs_view E b k"
    using fs_Put_frame [of k key E e d n ct b] by (simp add: fs_ops_def)
  show "bo_Delete (fs_ops E) key b = (None, b') \<Longrightarrow> fs_view E b' = (fs_view E b)(key := None)"
  proof -
    assume del: "bo_Delete (fs_ops E) key b = (None, b')"
    have "fs_view E b' key = None"
      using del by (auto simp: fs_ops_def fs_Delete_def fs_view_def Let_def split: sum.splits option.splits if_splits)
    then show ?thesis using fs_Delete_frame [of _ key E b] del by (auto simp: fs_ops_def fun_eq_iff)
  qed
  show "bo_Delete (fs_ops E) key b = (Some err, b') \<Longrightarrow> k \<noteq> key \<Longrightarrow> fs_view E b' k = fs_view E b k"
    using fs_Delete_frame [of k key E b] by (simp add: fs_ops_def)
  show "bo_Get (fs_ops E) key b = Inr (d, info) \<Longrightarrow>
      fs_view E b key = Some (d, bi_ContentType info, bi_ETag info) \<and> bi_Key info = key \<and> bi_Size info = int (length d)"
    by (auto simp: fs_ops_def fs_Get_def fs_stat_def fs_view_def split: sum.splits option.splits)
  show "fs_view E b key = None \<Longrightarrow> isl (bo_Get (fs_ops E) key b)"
    by (auto simp: fs_ops_def fs_Get_def fs_stat_def fs_view_def split: sum.splits option.splits)
qed

subsection \<open>Which keys are accepted\<close>

definition plain_seg :: "string \<Rightarrow> bool" where
  "plain_seg seg = (seg \<noteq> [] \<and> seg \<noteq> ''.'' \<and> seg \<noteq> ''..'')"

declare split_on_nonempty [simp]

lemma Join_Cons_char: "strings_Join ((c # x) # xs) sep = c # strings_Join (x # xs) sep"
  by (cases xs) simp_all

lemma Join_split: "strings_Join (split_on d s) [d] = s"
proof (induction s)
  case (Cons c cs)
  obtain x xs where "split_on d cs = x # xs" by (cases "split_on d cs") auto
  then show ?case using Cons by (auto simp: Join_Cons_char)
qed simp

lemma split_on_pieces: "seg \<in> set (split_on d s) \<Longrightarrow> d \<notin> set seg"
proof (induction s arbitrary: seg)
  case (Cons c cs)
  obtain x xs where x: "split_on d cs = x # xs" by (cases "split_on d cs") auto
  then have "d \<notin> set x" "\<And>y. y \<in> set xs \<Longrightarrow> d \<notin> set y" using Cons.IH by auto
  then show ?case using Cons.prems x by (auto split: if_splits)
qed simp

lemma split_on_plain: "d \<notin> set x \<Longrightarrow> split_on d x = [x]"
  by (induction x) auto

lemma split_on_first: "d \<notin> set x \<Longrightarrow> split_on d (x @ d # s) = x # split_on d s"
  by (induction x) auto

lemma split_Join: "\<forall>x \<in> set xs. d \<notin> set x \<Longrightarrow> xs \<noteq> [] \<Longrightarrow> split_on d (strings_Join xs [d]) = xs"
proof (induction xs "[d]" rule: strings_Join.induct)
  case (3 x y ys)
  then show ?case by (simp add: split_on_first)
qed (simp_all add: split_on_plain)

lemma clean_segs_plain: "list_all plain_seg segs \<Longrightarrow> clean_segs rooted out segs = rev out @ segs"
  by (induction segs arbitrary: out) (auto simp: plain_seg_def)

lemma clean_segs_set:
  "set (clean_segs rooted out segs) \<subseteq> set out \<union> {seg \<in> set segs. seg \<noteq> [] \<and> seg \<noteq> ''.''} \<union> {''..''}"
  by (induction rooted out segs rule: clean_segs.induct) (auto split: list.splits if_splits)

lemma contains_byte: "strings_Contains s [d] \<longleftrightarrow> d \<in> set s"
  by (induction s) (auto simp: HasPrefix_def)

lemma contains_double: "strings_Contains s [d, d] \<Longrightarrow> \<exists>a b. s = a @ d # d # b"
proof (induction s)
  case (Cons c cs)
  then consider "HasPrefix (c # cs) [d, d]" | "strings_Contains cs [d, d]" by auto
  then show ?case
  proof cases
    case 1
    then show ?thesis by (auto simp: HasPrefix_append)
  next
    case 2
    then show ?thesis using Cons.IH by (metis append_Cons)
  qed
qed simp

lemma split_on_double: "[] \<in> set (tl (split_on d (a @ d # d # b)))"
proof (induction a)
  case (Cons c a)
  obtain x xs where "split_on d (a @ d # d # b) = x # xs" by (cases "split_on d (a @ d # d # b)") auto
  then show ?case using Cons by auto
qed simp

lemma plain_no_double: "list_all plain_seg (split_on d s) \<Longrightarrow> \<not> strings_Contains s [d, d]"
proof
  assume p: "list_all plain_seg (split_on d s)" and "strings_Contains s [d, d]"
  then obtain a b where s: "s = a @ d # d # b" using contains_double by blast
  have "[] \<in> set (split_on d s)" using split_on_double [of d a b] unfolding s by (meson list.set_sel(2) split_on_nonempty)
  then show False using p by (auto simp: list_all_iff plain_seg_def)
qed

lemma path_Clean_plain:
  assumes "list_all plain_seg (split_on (CHR ''/'') key)"
  shows "key \<noteq> []" "hd key \<noteq> CHR ''/''" "path_Clean key = key"
proof -
  show k: "key \<noteq> []" "hd key \<noteq> CHR ''/''"
    using assms by (cases key; auto simp: plain_seg_def split: if_splits)+
  then show "path_Clean key = key"
    using clean_segs_plain [OF assms, of False "[]"] Join_split [of "CHR ''/''" key] by (simp add: path_Clean_def)
qed

lemma path_Clean_segs:
  assumes "path_Clean key = key" "\<not> HasPrefix key ''/''" "seg \<in> set (split_on (CHR ''/'') key)"
  shows "seg = ''.'' \<or> seg = ''..'' \<or> plain_seg seg"
proof -
  let ?out = "clean_segs False [] (split_on (CHR ''/'') key)"
  have ne: "key \<noteq> []" using assms(1) by (auto simp: path_Clean_def)
  have hd: "hd key \<noteq> CHR ''/''" using assms(2) ne by (cases key) (auto simp: HasPrefix_def)
  show ?thesis
  proof (cases "?out = []")
    case True
    then have "key = ''.''" using assms(1) ne hd by (simp add: path_Clean_def)
    then show ?thesis using assms(3) by simp
  next
    case False
    have sub: "set ?out \<subseteq> {seg \<in> set (split_on (CHR ''/'') key). seg \<noteq> [] \<and> seg \<noteq> ''.''} \<union> {''..''}"
      using clean_segs_set [of False "[]" "split_on (CHR ''/'') key"] by simp
    then have "\<forall>x \<in> set ?out. CHR ''/'' \<notin> set x" using split_on_pieces by fastforce
    from split_Join [OF this False] have sj: "split_on (CHR ''/'') (strings_Join ?out ''/'') = ?out" by simp
    have "strings_Join ?out ''/'' \<noteq> []"
    proof
      assume "strings_Join ?out ''/'' = []"
      then have "?out = [[]]" using sj by simp
      then show False using sub by simp
    qed
    then have "key = strings_Join ?out ''/''" using assms(1) ne hd by (simp add: path_Clean_def)
    then have "seg \<in> set ?out" using assms(3) sj by simp
    then show ?thesis using sub by (auto simp: plain_seg_def)
  qed
qed

lemma ValidateKey_plain:
  assumes "length key \<le> 512" "CHR 0x00 \<notin> set key" "CHR 0x5C \<notin> set key" and p: "list_all plain_seg (split_on (CHR ''/'') key)"
  shows "ValidateKey key = None"
proof -
  note k = path_Clean_plain [OF p]
  have "\<not> HasPrefix key ''/''" "\<not> HasPrefix key [CHR 0x5C]" using k(1,2) assms by (cases key; auto simp: HasPrefix_def)+
  moreover have "\<not> list_ex (\<lambda>seg. seg = ''.'' \<or> seg = ''..'') (split_on (CHR ''/'') key)"
    using p by (auto simp: list_all_iff list_ex_iff plain_seg_def)
  ultimately show "ValidateKey key = None"
    using assms k plain_no_double [OF p] by (simp add: ValidateKey_def contains_byte)
qed

subsection \<open>Properties\<close>

text \<open>\<open>ValidateKey\<close> accepts exactly the keys of 1 to 512 bytes without NUL and backslash
  whose path segments are all non-empty and neither \<open>.\<close> nor \<open>..\<close>: no accepted key can leave
  the directory it is resolved in.\<close>

lemma ValidateKey_accepts:
  "ValidateKey key = None \<longleftrightarrow> length key \<le> 512 \<and> CHR 0x00 \<notin> set key \<and> CHR 0x5C \<notin> set key \<and>
     list_all plain_seg (split_on (CHR ''/'') key)"
proof
  assume v: "ValidateKey key = None"
  have "plain_seg seg" if "seg \<in> set (split_on (CHR ''/'') key)" for seg
    using path_Clean_segs [OF _ _ that] v that by (auto simp: ValidateKey_def list_ex_iff split: if_splits)
  then show "length key \<le> 512 \<and> CHR 0x00 \<notin> set key \<and> CHR 0x5C \<notin> set key \<and> list_all plain_seg (split_on (CHR ''/'') key)"
    using v by (auto simp: ValidateKey_def list_all_iff contains_byte split: if_splits)
qed (blast intro: ValidateKey_plain)

text \<open>C31. On the filesystem driver a successful write is durable and isolated: a read returns
  exactly the bytes, the content type and the digest, and every other key reads as before,
  whatever system calls failed along the way; a write that fails before the object is renamed
  into place changes nothing at all.\<close>

theorem fs_Put_durable_and_isolated:
  assumes "fs_Put E e key d n ct s = (r, t)" "fs_ctx E' = None" "fs_root E' = fs_root E" "fs_sha E' = fs_sha E"
  shows "(\<forall>etag. r = Inr etag \<longrightarrow> etag = hex_EncodeToString (fs_sha E d) \<and>
      fs_Get E' key t = Inr (d, \<lparr>bi_Key = key, bi_Size = int (length d), bi_ContentType = ct, bi_ETag = etag, bi_ModTime = now e\<rparr>)) \<and>
    (\<forall>k. k \<noteq> key \<longrightarrow> fs_Get E' k t = fs_Get E' k s) \<and>
    (isl r \<and> (\<forall>i \<in> {7..15}. fs_io E i = None) \<longrightarrow> t = s)"
proof -
  have paths: "fs_paths E' = fs_paths E" by (simp add: fun_eq_iff fs_paths_def fs_rel_def assms(3,4) split: option.splits)
  have "etag = hex_EncodeToString (fs_sha E d) \<and>
      fs_Get E' key t = Inr (d, \<lparr>bi_Key = key, bi_Size = int (length d), bi_ContentType = ct, bi_ETag = etag, bi_ModTime = now e\<rparr>)"
    if re: "r = Inr etag" for etag
  proof -
    obtain p q where "fs_paths E key = Inr (p, q)" using assms(1) re by (auto simp: fs_Put_def split: sum.splits)
    then show ?thesis using assms(1,2) re
      by (auto simp: fs_Put_def fs_Get_def fs_stat_def paths Let_def split: option.splits if_splits)
  qed
  moreover have "fs_Get E' k t = fs_Get E' k s" if "k \<noteq> key" for k
  proof (cases "fs_paths E key")
    case (Inl err)
    then show ?thesis using assms(1) by (simp add: fs_Put_def)
  next
    case (Inr pq)
    obtain p q where pq: "pq = (p, q)" by (cases pq)
    have "\<And>x. x \<noteq> p \<Longrightarrow> fs_objects t x = fs_objects s x" "\<And>x. x \<noteq> q \<Longrightarrow> fs_metas t x = fs_metas s x"
      using assms(1) Inr pq by (auto simp: fs_Put_def Let_def split: option.splits if_splits)
    then show ?thesis using fs_paths_inj [of E k _ _ key p q] Inr pq that
      by (auto simp: fs_Get_def fs_stat_def paths split: sum.splits option.splits)
  qed
  moreover have "t = s" if "isl r" "\<forall>i \<in> {7..15}. fs_io E i = None"
  proof -
    have "io_err E [7, 8, 9, 10, 11, 12, 13] = None" "io_err E [14, 15] = None"
      using that(2) by (simp_all add: io_err_def)
    then show ?thesis using assms(1) that(1) by (auto simp: fs_Put_def Let_def split: sum.splits option.splits if_splits)
  qed
  ultimately show ?thesis by blast
qed

definition sample_fs :: "(nat \<Rightarrow> string option) \<Rightarrow> fs_env" where
  "sample_fs io = \<lparr>fs_root = ''/data'', fs_sha = (\<lambda>_. ''abcdefgh''), fs_ctx = None, fs_io = io\<rparr>"

theorem fs_Put_durable_and_isolated_witness:
  "\<exists>etag t. fs_Put (sample_fs (\<lambda>_. None)) \<lparr>now = 5, rnd = (\<lambda>_. 0)\<rparr> ''codes/a.png'' ''xyz'' 3 ''image/png''
      \<lparr>fs_objects = (\<lambda>_. None), fs_metas = (\<lambda>_. None)\<rparr> = (Inr etag, t) \<and> etag = ''6162636465666768'' \<and>
    fst (projr (fs_Get (sample_fs (\<lambda>_. None)) ''codes/a.png'' t)) = ''xyz''"
proof -
  let ?p = "fs_Put (sample_fs (\<lambda>_. None)) \<lparr>now = 5, rnd = (\<lambda>_. 0)\<rparr> ''codes/a.png'' ''xyz'' 3 ''image/png''
      \<lparr>fs_objects = (\<lambda>_. None), fs_metas = (\<lambda>_. None)\<rparr>"
  have "fst ?p = Inr ''6162636465666768''" by code_simp
  then obtain t where p: "?p = (Inr ''6162636465666768'', t)" by (cases ?p) auto
  then show ?thesis using fs_Put_durable_and_isolated [OF p, of "sample_fs (\<lambda>_. None)"] by (auto simp: sample_fs_def)
qed

end
