(* ===== verification/Codes_Service.thy ===== *)
theory Codes_Service
  imports Store_Spec Blob Qr
begin

text \<open>
  The code service, \<^verbatim>\<open>src/internal/codes\<close>: validation of destinations, creation (single and in
  batches), updates, and the resolution of a scan through the cache. The service is a record of
  what \<open>NewService\<close> wires together; a use case is a function from the world (the store's, the
  blob store's and the cache's states) to its answer and the new world.

  The renderer (\<open>sv_render\<close>) is an interface value, which \<open>main.go\<close> fills with the renderer of \<open>Qr\<close>
  (\<open>codesRenderer_Render\<close>). Arguments of the model, with no definition here: \<open>url.Parse\<close> (\<open>sv_parse\<close>),
  \<open>http.DetectContentType\<close> (\<open>sv_detect\<close>) and the otter cache (\<open>otter\<close>). What the
  theorems need of the cache library is the predicate \<open>otter_ok\<close>.
\<close>

subsection \<open>URLs\<close>

record url =
  u_Scheme :: string
  u_Host :: string
  u_Path :: string

text \<open>\<open>Hostname\<close> and \<open>Port\<close> of \<open>net/url\<close>: split at the last colon when digits follow it, then
  drop the brackets of an IPv6 literal.\<close>

fun last_colon :: "string \<Rightarrow> (string \<times> string) option" where
  "last_colon [] = None"
| "last_colon (c # cs) = (case last_colon cs of
     Some (h, p) \<Rightarrow> Some (c # h, p)
   | None \<Rightarrow> if c = CHR '':'' then Some ([], cs) else None)"

definition splitHostPort :: "string \<Rightarrow> string \<times> string" where
  "splitHostPort hostPort =
    (let (host, port) = (case last_colon hostPort of
           Some (h, p) \<Rightarrow> if list_all is_digit p then (h, p) else (hostPort, [])
         | None \<Rightarrow> (hostPort, []))
     in (if HasPrefix host ''['' \<and> HasSuffix host '']'' then (butlast (tl host), port) else (host, port)))"

definition Hostname :: "url \<Rightarrow> string" where "Hostname u = fst (splitHostPort (u_Host u))"
definition Port :: "url \<Rightarrow> string" where "Port u = snd (splitHostPort (u_Host u))"

subsection \<open>The cache\<close>

record resolution =
  r_CodeID :: string
  r_Destination :: string
  r_State :: string
  r_Found :: bool

definition not_found :: resolution where
  "not_found = \<lparr>r_CodeID = '''', r_Destination = '''', r_State = '''', r_Found = False\<rparr>"

definition CacheTTL :: duration where "CacheTTL = 30 * Second"

text \<open>The library's cache: reading at a time, storing at a time, dropping a key.\<close>

record 'c otter =
  GetIfPresent :: "gotime \<Rightarrow> string \<Rightarrow> 'c \<Rightarrow> resolution option"
  otter_Set :: "gotime \<Rightarrow> string \<Rightarrow> resolution \<Rightarrow> 'c \<Rightarrow> 'c"
  otter_Invalidate :: "string \<Rightarrow> 'c \<Rightarrow> 'c"

definition otter_ok :: "'c otter \<Rightarrow> bool" where
  "otter_ok o1 = (
    (\<forall>t t' k k' r c x. GetIfPresent o1 t k (otter_Set o1 t' k' r c) = Some x \<longrightarrow>
       (k = k' \<and> x = r) \<or> GetIfPresent o1 t k c = Some x) \<and>
    (\<forall>t k k' c x. GetIfPresent o1 t k (otter_Invalidate o1 k' c) = Some x \<longrightarrow>
       k \<noteq> k' \<and> GetIfPresent o1 t k c = Some x))"

definition cacheKey :: "string \<Rightarrow> string" where
  "cacheKey sc = strings_ToLower (strings_TrimSpace sc)"

definition cache_Get :: "'c otter \<Rightarrow> gotime \<Rightarrow> string \<Rightarrow> 'c \<Rightarrow> resolution option" where
  "cache_Get o1 t sc c = GetIfPresent o1 t (cacheKey sc) c"

definition cache_Set :: "'c otter \<Rightarrow> gotime \<Rightarrow> string \<Rightarrow> resolution \<Rightarrow> 'c \<Rightarrow> 'c" where
  "cache_Set o1 t sc r c = otter_Set o1 t (cacheKey sc) r c"

definition cache_Invalidate :: "'c otter \<Rightarrow> string \<Rightarrow> 'c \<Rightarrow> 'c" where
  "cache_Invalidate o1 sc c = otter_Invalidate o1 (cacheKey sc) c"

subsection \<open>The service\<close>

record urler =
  ur_PublicURL :: "string \<Rightarrow> string \<Rightarrow> blob_error + string"
  ur_PresignedURL :: "string \<Rightarrow> duration \<Rightarrow> blob_error + string"

record ('s, 'b, 'c) service =
  sv_store :: "'s store_ops"
  sv_blob :: "'b blob_ops"
  sv_urler :: "urler option"
  sv_render :: "string \<Rightarrow> styling \<Rightarrow> bytes option \<Rightarrow> bool \<Rightarrow> qr_error + (bytes \<times> string)"
  sv_cache :: "'c otter"
  sv_parse :: "string \<Rightarrow> url option"
  sv_detect :: "bytes \<Rightarrow> string"
  sv_base :: "url option"
  sv_baseRaw :: string
  sv_schemes :: "string list"
  sv_urlMode :: string
  sv_publicBase :: string
  sv_presignTTL :: duration
  sv_batchMax :: int

record ('s, 'b, 'c) world =
  w_store :: 's
  w_blob :: 'b
  w_cache :: 'c

definition URLModeInstance :: string where "URLModeInstance = ''instance''"
definition URLModePublic :: string where "URLModePublic = ''public''"
definition URLModePresigned :: string where "URLModePresigned = ''presigned''"

definition DefaultBatchMax :: int where "DefaultBatchMax = 500"
definition DefaultPresignTTL :: duration where "DefaultPresignTTL = Hour"
definition MaxClientRefLen :: nat where "MaxClientRefLen = 128"
definition MaxDestinationLength :: nat where "MaxDestinationLength = 2048"
definition generateAttempts :: nat where "generateAttempts = 5"
definition lastWriteWinsAttempts :: nat where "lastWriteWinsAttempts = 3"

text \<open>\<open>0.15\<close> as the nearest double.\<close>

definition DefaultLogoScale :: rat where
  "DefaultLogoScale = 5404319552844595 / 36028797018963968"

text \<open>What \<open>NewService\<close> makes of the configuration; the parsed base is what \<open>ParseScanOrigin\<close>
  returned and its text.\<close>

record svc_config =
  cfg_AllowedSchemes :: "string list"
  cfg_URLMode :: string
  cfg_PublicBaseURL :: string
  cfg_PresignTTL :: duration
  cfg_BatchMax :: int

definition service_schemes :: "string list \<Rightarrow> string list" where
  "service_schemes allowed =
    (let ks = remdups (map (\<lambda>s. strings_ToLower (strings_TrimSpace s)) allowed)
     in if ks = [] then [''http'', ''https''] else ks)"

definition NewService ::
  "'s store_ops \<Rightarrow> 'b blob_ops \<Rightarrow> urler option \<Rightarrow> (string \<Rightarrow> styling \<Rightarrow> bytes option \<Rightarrow> bool \<Rightarrow> qr_error + (bytes \<times> string)) \<Rightarrow>
   'c otter \<Rightarrow> (string \<Rightarrow> url option) \<Rightarrow> (bytes \<Rightarrow> string) \<Rightarrow> (url \<times> string) option \<Rightarrow> svc_config \<Rightarrow> ('s, 'b, 'c) service" where
  "NewService st bl ur render ca parse detect base cfg =
    \<lparr>sv_store = st, sv_blob = bl, sv_urler = ur, sv_render = render, sv_cache = ca, sv_parse = parse, sv_detect = detect,
     sv_base = map_option fst base, sv_baseRaw = (case base of None \<Rightarrow> '''' | Some (_, raw) \<Rightarrow> raw),
     sv_schemes = service_schemes (cfg_AllowedSchemes cfg),
     sv_urlMode = (if cfg_URLMode cfg = '''' then URLModeInstance else cfg_URLMode cfg),
     sv_publicBase = TrimRightByte (cfg_PublicBaseURL cfg) (CHR ''/''),
     sv_presignTTL = (if cfg_PresignTTL cfg \<le> 0 then DefaultPresignTTL else cfg_PresignTTL cfg),
     sv_batchMax = (if cfg_BatchMax cfg \<le> 0 then DefaultBatchMax else cfg_BatchMax cfg)\<rparr>"

datatype svc_error =
    SvcStore store_error
  | SvcAliasTaken string
  | SvcLostRace store_error
  | ErrUnsupportedScheme string
  | ErrSelfReferential
  | ErrInvalidDestination
  | ErrDestinationTooLong
  | SvcAliasInvalid string alias_error
  | SvcAliasReserved string
  | ErrInvalidMode
  | ErrScanURLNotConfigured
  | ErrDirectImmutable
  | ErrClientRefInvalid string string
  | ClientRefConflict string string
  | ContentTooLarge int int string
  | SvcRender qr_error
  | SvcBlob string blob_error
  | VersionConflict int int
  | KeptLosingRace
  | SvcOther string

subsection \<open>Addresses and keys\<close>

definition ScanURL :: "('s, 'b, 'c) service \<Rightarrow> string \<Rightarrow> string" where
  "ScanURL sv sc = sv_baseRaw sv @ ''/r/'' @ sc"

definition InstanceImageURL :: "('s, 'b, 'c) service \<Rightarrow> string \<Rightarrow> string" where
  "InstanceImageURL sv cid = sv_baseRaw sv @ ''/i/'' @ cid @ ''.png''"

definition publicURL :: "('s, 'b, 'c) service \<Rightarrow> code \<Rightarrow> string option" where
  "publicURL sv c = (case sv_urler sv of None \<Rightarrow> None | Some ur \<Rightarrow>
     if sv_publicBase sv = '''' \<or> BlobKey c = '''' then None
     else (case ur_PublicURL ur (BlobKey c) (sv_publicBase sv) of Inl _ \<Rightarrow> None | Inr u \<Rightarrow> Some u))"

definition presignedURL :: "('s, 'b, 'c) service \<Rightarrow> code \<Rightarrow> string option" where
  "presignedURL sv c = (case sv_urler sv of None \<Rightarrow> None | Some ur \<Rightarrow>
     if BlobKey c = '''' then None
     else (case ur_PresignedURL ur (BlobKey c) (sv_presignTTL sv) of Inl _ \<Rightarrow> None | Inr u \<Rightarrow> Some u))"

definition ImageURL :: "('s, 'b, 'c) service \<Rightarrow> code \<Rightarrow> string" where
  "ImageURL sv c =
    (case (if sv_urlMode sv = URLModePublic then publicURL sv c
           else if sv_urlMode sv = URLModePresigned then presignedURL sv c else None) of
       Some u \<Rightarrow> u | None \<Rightarrow> InstanceImageURL sv (code_ID c))"

definition StorageURL :: "('s, 'b, 'c) service \<Rightarrow> code \<Rightarrow> string option" where
  "StorageURL sv c =
    (if sv_urler sv = None \<or> BlobKey c = '''' then None
     else if sv_publicBase sv \<noteq> '''' then publicURL sv c
     else presignedURL sv c)"

definition shard :: "string \<Rightarrow> string" where
  "shard cid = (let rn = (case IndexByte cid (CHR ''_'') of Some i \<Rightarrow> drop (i + 1) cid | None \<Rightarrow> cid);
       rn = rn @ replicate (4 - length rn) (CHR ''0'')
     in take 2 rn @ ''/'' @ take 2 (drop 2 rn) @ ''/'')"

definition BlobKeyFor :: "string \<Rightarrow> string" where
  "BlobKeyFor cid = ''codes/'' @ shard cid @ cid @ ''.png''"

definition LogoBlobKeyFor :: "string \<Rightarrow> string" where
  "LogoBlobKeyFor cid = ''logos/'' @ shard cid @ cid"

subsection \<open>Destinations\<close>

definition effectivePort :: "url \<Rightarrow> string" where
  "effectivePort u =
    (if Port u \<noteq> '''' then Port u
     else let sch = strings_ToLower (u_Scheme u) in
       if sch = ''http'' \<or> sch = '''' then ''80'' else if sch = ''https'' then ''443'' else '''')"

definition sameOrigin :: "url \<Rightarrow> url \<Rightarrow> bool" where
  "sameOrigin a b =
    (if \<not> strings_EqualFold (Hostname a) (Hostname b) then False
     else (if u_Scheme a = '''' \<and> Port a = '''' then effectivePort b else effectivePort a) = effectivePort b)"

definition isSelfReferential :: "('s, 'b, 'c) service \<Rightarrow> url \<Rightarrow> bool" where
  "isSelfReferential sv u =
    (let p = strings_ToLower (path_Clean (''/'' @ u_Path u));
         onScanPath = (p = ''/r'' \<or> HasPrefix p ''/r/'')
     in if \<not> onScanPath then False
        else if u_Host u = '''' then True
        else case sv_base sv of None \<Rightarrow> False | Some base \<Rightarrow> sameOrigin u base)"

definition ValidateDestination :: "('s, 'b, 'c) service \<Rightarrow> string \<Rightarrow> svc_error option" where
  "ValidateDestination sv raw0 =
    (let raw = strings_TrimSpace raw0 in
     if raw = '''' then Some ErrInvalidDestination
     else if MaxDestinationLength < RuneCountInString raw then Some ErrDestinationTooLong
     else case sv_parse sv raw of
       None \<Rightarrow> Some ErrInvalidDestination
     | Some u \<Rightarrow>
         if isSelfReferential sv u then Some ErrSelfReferential
         else if strings_ToLower (u_Scheme u) \<notin> set (sv_schemes sv)
         then Some (ErrUnsupportedScheme (strings_ToLower (u_Scheme u)))
         else if u_Host u = '''' then Some ErrInvalidDestination
         else None)"

subsection \<open>Styling\<close>

definition DefaultStyling :: styling where
  "DefaultStyling = \<lparr>sty_ID = '''', FgColor = ''#000000'', BgColor = ''#FFFFFF'', ModuleShape = ShapeSquare,
     MarginModules = 4, SizePx = 512, sty_ECLevel = ECMedium, ECLevelEffective = '''', LogoBlobKey = '''', LogoScale = 0\<rparr>"

definition fillStyling :: "styling \<Rightarrow> styling" where
  "fillStyling s =
    (let d = DefaultStyling;
         s = (if FgColor s = '''' then s\<lparr>FgColor := FgColor d\<rparr> else s);
         s = (if BgColor s = '''' then s\<lparr>BgColor := BgColor d\<rparr> else s);
         s = (if ModuleShape s = '''' then s\<lparr>ModuleShape := ModuleShape d\<rparr> else s);
         s = (if MarginModules s = 0 then s\<lparr>MarginModules := MarginModules d\<rparr> else s);
         s = (if SizePx s = 0 then s\<lparr>SizePx := SizePx d\<rparr> else s);
         s = (if sty_ECLevel s = '''' then s\<lparr>sty_ECLevel := sty_ECLevel d\<rparr> else s)
     in (if ECLevelEffective s = '''' then s\<lparr>ECLevelEffective := sty_ECLevel s\<rparr> else s))"

subsection \<open>Creation\<close>

text \<open>A logo is a byte slice that may be \<open>nil\<close>; the service asks for its length only.\<close>

definition logo_bytes :: "bytes option \<Rightarrow> bytes" where
  "logo_bytes l = (case l of None \<Rightarrow> [] | Some b \<Rightarrow> b)"

record create_input =
  ci_UserID :: string
  ci_Mode :: string
  ci_Destination :: string
  ci_Alias :: string
  ci_Styling :: styling
  ci_Logo :: "bytes option"
  ci_LogoAutoRaise :: bool
  ci_ClientRef :: string

record prepared =
  p_mode :: string
  p_destination :: string
  p_styling :: styling
  p_isAlias :: bool
  p_shortCode :: string
  p_logo :: "bytes option"
  p_autoRaise :: bool
  p_clientRef :: string

definition prepare_alias :: "prepared \<Rightarrow> string \<Rightarrow> svc_error + prepared" where
  "prepare_alias p al =
    (if al = '''' then Inr p
     else let sc = NormalizeAlias al in
       case ValidateAlias sc of
         Some ErrAliasReserved \<Rightarrow> Inl (SvcAliasReserved sc)
       | Some err \<Rightarrow> Inl (SvcAliasInvalid sc err)
       | None \<Rightarrow> Inr (p\<lparr>p_isAlias := True, p_shortCode := sc\<rparr>))"

definition prepare :: "('s, 'b, 'c) service \<Rightarrow> create_input \<Rightarrow> svc_error + prepared" where
  "prepare sv i =
    (if ci_UserID i = '''' then Inl (SvcOther ''codes: user id is required'')
     else let mode = (if ci_Mode i = '''' then ModeDynamic else ci_Mode i) in
       if mode \<noteq> ModeDynamic \<and> mode \<noteq> ModeDirect then Inl ErrInvalidMode
       else if mode = ModeDynamic \<and> sv_base sv = None then Inl ErrScanURLNotConfigured
       else if MaxClientRefLen < length (ci_ClientRef i) then Inl (ErrClientRefInvalid ''too_long'' '''')
       else case ValidateDestination sv (ci_Destination i) of
         Some err \<Rightarrow> Inl err
       | None \<Rightarrow>
           let dest = strings_TrimSpace (ci_Destination i);
               sty = (fillStyling (ci_Styling i))\<lparr>LogoBlobKey := ''''\<rparr>;
               sty = (if logo_bytes (ci_Logo i) = [] then sty\<lparr>LogoScale := 0\<rparr>
                      else if LogoScale sty = 0 then sty\<lparr>LogoScale := DefaultLogoScale\<rparr> else sty);
               p = \<lparr>p_mode = mode, p_destination = dest, p_styling = sty, p_isAlias = False, p_shortCode = '''',
                    p_logo = ci_Logo i, p_autoRaise = ci_LogoAutoRaise i, p_clientRef = ci_ClientRef i\<rparr>
           in if mode = ModeDirect \<and> Capacity (sty_ECLevel sty) < int (length dest)
              then Inl (ContentTooLarge (Capacity (sty_ECLevel sty)) (int (length dest)) (sty_ECLevel sty))
              else prepare_alias p (ci_Alias i))"

text \<open>\<open>removeBlobs\<close>: errors are logged, never returned.\<close>

definition removeBlobs :: "('s, 'b, 'c) service \<Rightarrow> string list \<Rightarrow> 'b \<Rightarrow> 'b" where
  "removeBlobs sv keys b = fold (\<lambda>k b. if k = '''' then b else snd (bo_Delete (sv_blob sv) k b)) keys b"

definition blobKeysOf :: "code \<Rightarrow> string list" where
  "blobKeysOf c = [BlobKey c, LogoBlobKey (code_Styling c)]"

definition put_logo ::
  "('s, 'b, 'c) service \<Rightarrow> call_env \<Rightarrow> string \<Rightarrow> bytes \<Rightarrow> 'b \<Rightarrow> (svc_error + string) \<times> 'b" where
  "put_logo sv e cid logo b =
    (if logo = [] then (Inr '''', b)
     else case bo_Put (sv_blob sv) e (LogoBlobKeyFor cid) logo (int (length logo)) (sv_detect sv logo) b of
       (Inl err, b') \<Rightarrow> (Inl (SvcBlob ''codes: store logo'' err), b')
     | (Inr _, b') \<Rightarrow> (Inr (LogoBlobKeyFor cid), b'))"

definition materialise ::
  "('s, 'b, 'c) service \<Rightarrow> call_env \<Rightarrow> string \<Rightarrow> string \<Rightarrow> string \<Rightarrow> prepared \<Rightarrow> 'b \<Rightarrow> (svc_error + code) \<times> 'b" where
  "materialise sv e uid cid sc p b =
    (let content = (if p_mode p = ModeDirect then p_destination p else ScanURL sv sc) in
     case sv_render sv content (p_styling p) (p_logo p) (p_autoRaise p) of
       Inl err \<Rightarrow> (Inl (SvcRender err), b)
     | Inr (png, effective) \<Rightarrow>
         let sty = (if effective \<noteq> '''' then (p_styling p)\<lparr>ECLevelEffective := effective\<rparr> else p_styling p) in
         case put_logo sv e cid (logo_bytes (p_logo p)) b of
           (Inl err, b1) \<Rightarrow> (Inl err, removeBlobs sv [] b1)
         | (Inr logoKey, b1) \<Rightarrow>
             let sty = (if logo_bytes (p_logo p) = [] then sty else sty\<lparr>LogoBlobKey := logoKey\<rparr>);
                 written = (if logo_bytes (p_logo p) = [] then [] else [logoKey]) in
             case bo_Put (sv_blob sv) e (BlobKeyFor cid) png (int (length png)) ''image/png'' b1 of
               (Inl err, b2) \<Rightarrow> (Inl (SvcBlob ''codes: store image'' err), removeBlobs sv written b2)
             | (Inr etag, b2) \<Rightarrow>
                 (Inr \<lparr>code_ID = cid, ShortCode = sc, IsAlias = p_isAlias p, code_UserID = uid, code_Mode = p_mode p,
                    ClientRef = p_clientRef p, Destination = p_destination p, code_State = CodeActive,
                    code_Styling = sty, BlobKey = BlobKeyFor cid, BlobETag = etag, code_Version = 0,
                    code_CreatedAt = now e, code_UpdatedAt = now e, code_DeletedAt = None\<rparr>, b2))"

text \<open>Successive draws from \<open>crypto/rand\<close> read on in the stream.\<close>

definition skip :: "nat \<Rightarrow> call_env \<Rightarrow> call_env" where
  "skip n e = e\<lparr>rnd := (\<lambda>k. rnd e (n + k))\<rparr>"

definition choose_code :: "call_env \<Rightarrow> prepared \<Rightarrow> string" where
  "choose_code e p = (if p_isAlias p then p_shortCode p else Generate (rnd e))"

definition choose_id :: "call_env \<Rightarrow> string" where
  "choose_id e = NewCodeID (rnd (skip GeneratedLen e))"

definition store_env :: "call_env \<Rightarrow> call_env" where
  "store_env e = skip (GeneratedLen + idRandomLen) e"

text \<open>The loop of \<open>Create\<close>: \<open>n\<close> attempts left, attempt \<open>i\<close> sees the clock and randomness \<open>E i\<close>.\<close>

fun create_loop ::
  "('s, 'b, 'c) service \<Rightarrow> (nat \<Rightarrow> call_env) \<Rightarrow> string \<Rightarrow> prepared \<Rightarrow> svc_error \<Rightarrow> nat \<Rightarrow> nat \<Rightarrow> ('s, 'b, 'c) world \<Rightarrow>
   (svc_error + code) \<times> ('s, 'b, 'c) world" where
  "create_loop sv E uid p lastErr i 0 w = (Inl lastErr, w)"
| "create_loop sv E uid p lastErr i (Suc n) w =
    (let sc = choose_code (E i) p in
     case materialise sv (E i) uid (choose_id (E i)) sc p (w_blob w) of
       (Inl err, b) \<Rightarrow> (Inl err, w\<lparr>w_blob := b\<rparr>)
     | (Inr c, b) \<Rightarrow>
         (case so_CreateCode (sv_store sv) (store_env (E i)) c (w_store w) of
            Inr (c', s') \<Rightarrow> (Inr c', w\<lparr>w_store := s', w_blob := b, w_cache := cache_Invalidate (sv_cache sv) sc (w_cache w)\<rparr>)
          | Inl err \<Rightarrow>
              let w' = w\<lparr>w_blob := removeBlobs sv (blobKeysOf c) b\<rparr> in
              if err \<noteq> ErrAliasTaken then (Inl (SvcStore err), w')
              else if p_isAlias p then (Inl (SvcAliasTaken sc), w')
              else create_loop sv E uid p (SvcStore err) (Suc i) n w'))"

definition sv_Create ::
  "('s, 'b, 'c) service \<Rightarrow> (nat \<Rightarrow> call_env) \<Rightarrow> create_input \<Rightarrow> ('s, 'b, 'c) world \<Rightarrow> (svc_error + code) \<times> ('s, 'b, 'c) world" where
  "sv_Create sv E i w = (case prepare sv i of
     Inl err \<Rightarrow> (Inl err, w)
   | Inr p \<Rightarrow> create_loop sv E (ci_UserID i) p (SvcOther '''') 0 (if p_isAlias p then 1 else generateAttempts) w)"

subsection \<open>Batches\<close>

datatype batch_status = BatchCreated | BatchExisting | BatchError

record batch_result =
  br_Index :: nat
  br_Status :: batch_status
  br_Code :: "code option"
  br_Err :: "svc_error option"

definition batch_err :: "nat \<Rightarrow> svc_error \<Rightarrow> batch_result" where
  "batch_err i err = \<lparr>br_Index = i, br_Status = BatchError, br_Code = None, br_Err = Some err\<rparr>"

definition batch_ok :: "nat \<Rightarrow> batch_status \<Rightarrow> code \<Rightarrow> batch_result" where
  "batch_ok i stt c = \<lparr>br_Index = i, br_Status = stt, br_Code = Some c, br_Err = None\<rparr>"

definition mode_or_default :: "string \<Rightarrow> string" where
  "mode_or_default m = (if m = '''' then ModeDynamic else m)"

text \<open>Phases 1 and 2 on one item: its outcome, or the prepared item that goes on to phase 3,
  and the references and aliases seen so far.\<close>

type_synonym seen = "string list \<times> string list"

definition batch_ref ::
  "('s, 'b, 'c) service \<Rightarrow> string \<Rightarrow> nat \<Rightarrow> create_input \<Rightarrow> string list \<Rightarrow> 's \<Rightarrow> (batch_result + unit) \<times> string list" where
  "batch_ref sv uid i it seenRef s =
    (let ref = ci_ClientRef it in
     if ref \<noteq> '''' \<and> length ref \<le> MaxClientRefLen then
       if ref \<in> set seenRef then (Inl (batch_err i (ErrClientRefInvalid ''duplicate_in_batch'' ref)), seenRef)
       else (case so_GetCodeByClientRef (sv_store sv) uid ref s of
          Inr existing \<Rightarrow>
            (if Destination existing = strings_TrimSpace (ci_Destination it) \<and>
                mode_or_default (code_Mode existing) = mode_or_default (ci_Mode it)
             then (Inl (batch_ok i BatchExisting existing), ref # seenRef)
             else (Inl (batch_err i (ClientRefConflict ref (code_ID existing))), ref # seenRef))
        | Inl ErrNotFound \<Rightarrow> (Inr (), ref # seenRef)
        | Inl err \<Rightarrow> (Inl (batch_err i (SvcStore err)), ref # seenRef))
     else (Inr (), seenRef))"

definition batch_alias ::
  "('s, 'b, 'c) service \<Rightarrow> nat \<Rightarrow> prepared \<Rightarrow> string list \<Rightarrow> 's \<Rightarrow> (batch_result + prepared) \<times> string list" where
  "batch_alias sv i p seenAlias s =
    (if \<not> p_isAlias p then (Inr p, seenAlias)
     else if p_shortCode p \<in> set seenAlias then (Inl (batch_err i (SvcAliasTaken (p_shortCode p))), seenAlias)
     else case so_IsAliasAvailable (sv_store sv) (p_shortCode p) s of
       Inl err \<Rightarrow> (Inl (batch_err i (SvcStore err)), seenAlias)
     | Inr free \<Rightarrow>
         if \<not> free then (Inl (batch_err i (SvcAliasTaken (p_shortCode p))), seenAlias)
         else (Inr p, p_shortCode p # seenAlias))"

fun batch_prepare ::
  "('s, 'b, 'c) service \<Rightarrow> string \<Rightarrow> nat \<Rightarrow> create_input list \<Rightarrow> seen \<Rightarrow> 's \<Rightarrow> (batch_result + prepared) list" where
  "batch_prepare sv uid i [] seen s = []"
| "batch_prepare sv uid i (it # its) (seenRef, seenAlias) s =
    (case batch_ref sv uid i it seenRef s of
       (Inl res, seenRef') \<Rightarrow> Inl res # batch_prepare sv uid (Suc i) its (seenRef', seenAlias) s
     | (Inr _, seenRef') \<Rightarrow>
         (case prepare sv (it\<lparr>ci_UserID := uid\<rparr>) of
            Inl err \<Rightarrow> Inl (batch_err i err) # batch_prepare sv uid (Suc i) its (seenRef', seenAlias) s
          | Inr p \<Rightarrow>
              (case batch_alias sv i p seenAlias s of
                 (r, seenAlias') \<Rightarrow> r # batch_prepare sv uid (Suc i) its (seenRef', seenAlias') s)))"

text \<open>Phase 3: the surviving items are rendered and stored. The goroutines write to slots and
  blobs of their own; the model runs them in the order of the items.\<close>

fun batch_render ::
  "('s, 'b, 'c) service \<Rightarrow> (nat \<Rightarrow> call_env) \<Rightarrow> string \<Rightarrow> nat \<Rightarrow> (batch_result + prepared) list \<Rightarrow> 'b \<Rightarrow>
   (batch_result + code) list \<times> 'b" where
  "batch_render sv E uid i [] b = ([], b)"
| "batch_render sv E uid i (Inl res # xs) b =
    (let (ys, b') = batch_render sv E uid (Suc i) xs b in (Inl res # ys, b'))"
| "batch_render sv E uid i (Inr p # xs) b =
    (case materialise sv (E i) uid (choose_id (E i)) (choose_code (E i) p) p b of
       (Inl err, b1) \<Rightarrow> (let (ys, b') = batch_render sv E uid (Suc i) xs b1 in (Inl (batch_err i err) # ys, b'))
     | (Inr c, b1) \<Rightarrow> (let (ys, b') = batch_render sv E uid (Suc i) xs b1 in (Inr c # ys, b')))"

text \<open>Phase 4: one transaction for all rendered items; its answer goes to each of them.\<close>

definition rendered_codes :: "(batch_result + code) list \<Rightarrow> code list" where
  "rendered_codes xs = concat (map (\<lambda>x. case x of Inl _ \<Rightarrow> [] | Inr c \<Rightarrow> [c]) xs)"

fun batch_results :: "nat \<Rightarrow> (batch_result + code) list \<Rightarrow> code list \<Rightarrow> batch_result list" where
  "batch_results i [] cs = []"
| "batch_results i (Inl res # xs) cs = res # batch_results (Suc i) xs cs"
| "batch_results i (Inr c # xs) [] = batch_ok i BatchCreated c # batch_results (Suc i) xs []"
| "batch_results i (Inr c # xs) (c' # cs) = batch_ok i BatchCreated c' # batch_results (Suc i) xs cs"

definition batch_failed :: "svc_error \<Rightarrow> (batch_result + code) list \<Rightarrow> batch_result list" where
  "batch_failed err xs = map (\<lambda>(i, x). case x of Inl res \<Rightarrow> res | Inr _ \<Rightarrow> batch_err i err) (enumerate 0 xs)"

definition sv_CreateBatch ::
  "('s, 'b, 'c) service \<Rightarrow> (nat \<Rightarrow> call_env) \<Rightarrow> call_env \<Rightarrow> string \<Rightarrow> create_input list \<Rightarrow> ('s, 'b, 'c) world \<Rightarrow>
   batch_result list \<times> ('s, 'b, 'c) world" where
  "sv_CreateBatch sv E e uid items w =
    (if uid = '''' then (map (\<lambda>i. batch_err i (SvcOther ''codes: user id is required'')) [0..<length items], w)
     else let (rendered, b) = batch_render sv E uid 0 (batch_prepare sv uid 0 items ([], []) (w_store w)) (w_blob w);
              toInsert = rendered_codes rendered
          in if toInsert = [] then (batch_failed (SvcOther '''') rendered, w\<lparr>w_blob := b\<rparr>)
             else case so_CreateCodes (sv_store sv) e toInsert (w_store w) of
               Inl err \<Rightarrow>
                 (batch_failed (if err = ErrAliasTaken \<or> err = ErrClientRefTaken then SvcLostRace err else SvcStore err) rendered,
                  w\<lparr>w_blob := fold (\<lambda>c. removeBlobs sv (blobKeysOf c)) toInsert b\<rparr>)
             | Inr (cs, s') \<Rightarrow>
                 (batch_results 0 rendered cs,
                  w\<lparr>w_store := s', w_blob := b,
                    w_cache := fold (\<lambda>c. cache_Invalidate (sv_cache sv) (ShortCode c)) cs (w_cache w)\<rparr>))"

subsection \<open>Changes\<close>

definition sv_Get :: "('s, 'b, 'c) service \<Rightarrow> string \<Rightarrow> string \<Rightarrow> ('s, 'b, 'c) world \<Rightarrow> svc_error + code" where
  "sv_Get sv cid uid w = map_sum SvcStore id (so_GetCodeByID (sv_store sv) cid uid (w_store w))"

definition sv_List ::
  "('s, 'b, 'c) service \<Rightarrow> code_filter \<Rightarrow> ('s, 'b, 'c) world \<Rightarrow> svc_error + (code list \<times> string)" where
  "sv_List sv f w = map_sum SvcStore id (so_ListCodes (sv_store sv) f (w_store w))"

text \<open>The loop of \<open>UpdateDestination\<close>. \<open>others i\<close> is what other requests did to the world between
  the read and the write of attempt \<open>i\<close>.\<close>

fun update_loop ::
  "('s, 'b, 'c) service \<Rightarrow> (nat \<Rightarrow> call_env) \<Rightarrow> (nat \<Rightarrow> ('s, 'b, 'c) world \<Rightarrow> ('s, 'b, 'c) world) \<Rightarrow> string \<Rightarrow> string \<Rightarrow> string \<Rightarrow> int \<Rightarrow> code \<Rightarrow> nat \<Rightarrow> nat \<Rightarrow>
   ('s, 'b, 'c) world \<Rightarrow> (svc_error + code) \<times> ('s, 'b, 'c) world" where
  "update_loop sv E others cid uid dest ev cur i 0 w = (Inl KeptLosingRace, w)"
| "update_loop sv E others cid uid dest ev cur i (Suc n) w =
    (case (if 0 < i then so_GetCodeByID (sv_store sv) cid uid (w_store w) else Inr cur) of
       Inl err \<Rightarrow> (Inl (SvcStore err), w)
     | Inr cur \<Rightarrow>
         let v = (if ev \<le> 0 then code_Version cur else ev);
             w = others i w in
         (case so_UpdateDestination (sv_store sv) (E i) cid uid dest v (w_store w) of
            Inr s' \<Rightarrow>
              let w' = w\<lparr>w_store := s', w_cache := cache_Invalidate (sv_cache sv) (ShortCode cur) (w_cache w)\<rparr>
              in (sv_Get sv cid uid w', w')
          | Inl err \<Rightarrow>
              if err \<noteq> ErrConflict then (Inl (SvcStore err), w)
              else if 0 < ev \<or> code_State cur = CodeDeleted then
                (case so_GetCodeByID (sv_store sv) cid uid (w_store w) of
                   Inl gerr \<Rightarrow> (Inl (SvcStore gerr), w)
                 | Inr latest \<Rightarrow> (Inl (VersionConflict v (code_Version latest)), w))
              else update_loop sv E others cid uid dest ev cur (Suc i) n w))"

definition sv_UpdateDestination ::
  "('s, 'b, 'c) service \<Rightarrow> (nat \<Rightarrow> call_env) \<Rightarrow> (nat \<Rightarrow> ('s, 'b, 'c) world \<Rightarrow> ('s, 'b, 'c) world) \<Rightarrow> string \<Rightarrow> string \<Rightarrow> string \<Rightarrow> int \<Rightarrow>
   ('s, 'b, 'c) world \<Rightarrow> (svc_error + code) \<times> ('s, 'b, 'c) world" where
  "sv_UpdateDestination sv E others cid uid dest ev w =
    (case so_GetCodeByID (sv_store sv) cid uid (w_store w) of
       Inl err \<Rightarrow> (Inl (SvcStore err), w)
     | Inr cur \<Rightarrow>
         if code_Mode cur = ModeDirect then (Inl ErrDirectImmutable, w)
         else case ValidateDestination sv dest of
           Some err \<Rightarrow> (Inl err, w)
         | None \<Rightarrow> update_loop sv E others cid uid (strings_TrimSpace dest) ev cur 0
             (if ev \<le> 0 then lastWriteWinsAttempts else 1) w)"

definition sv_SetState ::
  "('s, 'b, 'c) service \<Rightarrow> call_env \<Rightarrow> string \<Rightarrow> string \<Rightarrow> string \<Rightarrow> ('s, 'b, 'c) world \<Rightarrow> (svc_error + code) \<times> ('s, 'b, 'c) world" where
  "sv_SetState sv e cid uid stt w =
    (case so_GetCodeByID (sv_store sv) cid uid (w_store w) of
       Inl err \<Rightarrow> (Inl (SvcStore err), w)
     | Inr cur \<Rightarrow>
         if code_Mode cur = ModeDirect then (Inl ErrDirectImmutable, w)
         else case so_SetCodeState (sv_store sv) e cid uid stt (w_store w) of
           Inl err \<Rightarrow> (Inl (SvcStore err), w)
         | Inr s' \<Rightarrow>
             (case so_GetCodeByID (sv_store sv) cid uid s' of
                Inl err \<Rightarrow> (Inl (SvcStore err), w\<lparr>w_store := s'\<rparr>)
              | Inr c \<Rightarrow> (Inr c, w\<lparr>w_store := s', w_cache := cache_Invalidate (sv_cache sv) (ShortCode c) (w_cache w)\<rparr>)))"

definition sv_Delete ::
  "('s, 'b, 'c) service \<Rightarrow> call_env \<Rightarrow> string \<Rightarrow> string \<Rightarrow> ('s, 'b, 'c) world \<Rightarrow> svc_error option \<times> ('s, 'b, 'c) world" where
  "sv_Delete sv e cid uid w =
    (case so_GetCodeByID (sv_store sv) cid uid (w_store w) of
       Inl err \<Rightarrow> (Some (SvcStore err), w)
     | Inr c \<Rightarrow>
         (case so_DeleteCode (sv_store sv) e cid uid (w_store w) of
            Inl err \<Rightarrow> (Some (SvcStore err), w)
          | Inr s' \<Rightarrow> (None, w\<lparr>w_store := s', w_cache := cache_Invalidate (sv_cache sv) (ShortCode c) (w_cache w)\<rparr>)))"

subsection \<open>The scan path\<close>

definition resolution_of :: "code \<Rightarrow> resolution" where
  "resolution_of c = \<lparr>r_CodeID = code_ID c, r_Destination = Destination c, r_State = code_State c, r_Found = True\<rparr>"

definition sv_Resolve ::
  "('s, 'b, 'c) service \<Rightarrow> gotime \<Rightarrow> string \<Rightarrow> ('s, 'b, 'c) world \<Rightarrow> (store_error + resolution) \<times> ('s, 'b, 'c) world" where
  "sv_Resolve sv t sc w =
    (case cache_Get (sv_cache sv) t sc (w_cache w) of
       Some r \<Rightarrow> (Inr r, w)
     | None \<Rightarrow>
         (case so_GetCodeByShortCode (sv_store sv) sc (w_store w) of
            Inl ErrNotFound \<Rightarrow> (Inr not_found, w\<lparr>w_cache := cache_Set (sv_cache sv) t sc not_found (w_cache w)\<rparr>)
          | Inl err \<Rightarrow> (Inl err, w)
          | Inr c \<Rightarrow> (Inr (resolution_of c),
              w\<lparr>w_cache := cache_Set (sv_cache sv) t (ShortCode c) (resolution_of c) (w_cache w)\<rparr>)))"

end
