(* ===== verification/Codes_Cache.thy ===== *)
theory Codes_Cache
  imports Codes_Service
begin

text \<open>
  The resolver cache is coherent: after every use case of the service, whatever the cache still
  holds under a short code is what the store says, so a scan is answered with the current
  destination and state. The facts are proved in the context of the store contract and hold for
  every driver that satisfies it.
\<close>

subsection \<open>Coherence\<close>

definition current :: "astore \<Rightarrow> string \<Rightarrow> resolution" where
  "current a k = (case spec_lookup k a of Inr c \<Rightarrow> resolution_of c | Inl _ \<Rightarrow> not_found)"

definition coherent :: "'c otter \<Rightarrow> astore \<Rightarrow> 'c \<Rightarrow> bool" where
  "coherent ca a c = (\<forall>t k r. clean_short k \<longrightarrow> GetIfPresent ca t k c = Some r \<longrightarrow> r = current a k)"

definition clean_store :: "astore \<Rightarrow> bool" where
  "clean_store a = (\<forall>cid c. a_codes a cid = Some c \<longrightarrow> clean_short (ShortCode c))"

text \<open>A spelling of a short code that the cache and the store read alike: letters of either
  case, digits and hyphens.\<close>

definition plain_spelling :: "string \<Rightarrow> bool" where
  "plain_spelling sc = clean_short (map ascii_lower sc)"

lemma trimmed_of_clean: "clean_short (map ascii_lower sc) \<Longrightarrow> strings_TrimSpace sc = sc"
proof -
  assume c: "clean_short (map ascii_lower sc)"
  have asc: "is_ascii sc" using is_ascii_lower [OF clean_short_ascii [OF c]] .
  have "\<not> ascii_space x" if "x \<in> set sc" for x
  proof
    assume "ascii_space x"
    then have "ascii_lower x = x" by (auto simp: ascii_space_def ascii_lower_def)
    moreover have "isAliasChar (ascii_lower x)" using c that by (auto simp: clean_short_def list_all_iff)
    ultimately show False using \<open>ascii_space x\<close> isAliasChar_not_space by metis
  qed
  then have "dropWhile ascii_space xs = xs" if "set xs \<subseteq> set sc" for xs
    using that by (cases xs) auto
  then show ?thesis using asc by (simp add: strings_TrimSpace_ascii)
qed

lemma cacheKey_plain: "plain_spelling sc \<Longrightarrow> cacheKey sc = map ascii_lower sc"
  unfolding plain_spelling_def cacheKey_def
  using trimmed_of_clean is_ascii_lower [OF clean_short_ascii] by (auto simp: strings_ToLower_ascii)

lemma clean_lower: "clean_short s \<Longrightarrow> map ascii_lower s = s"
  by (auto simp: clean_short_def list_all_iff isAliasChar_lower intro: map_idI)

lemma cacheKey_clean: "clean_short k \<Longrightarrow> cacheKey k = k"
  by (simp add: cacheKey_def)

lemma otter_ok_set:
  "otter_ok ca \<Longrightarrow> GetIfPresent ca t k (otter_Set ca t' k' r c) = Some x \<Longrightarrow> k = k' \<and> x = r \<or> GetIfPresent ca t k c = Some x"
  unfolding otter_ok_def by blast

lemma otter_ok_invalidate:
  "otter_ok ca \<Longrightarrow> GetIfPresent ca t k (otter_Invalidate ca k' c) = Some x \<Longrightarrow> k \<noteq> k' \<and> GetIfPresent ca t k c = Some x"
  unfolding otter_ok_def by blast

lemma coherent_invalidate:
  assumes "otter_ok ca" "coherent ca a c" "\<And>k. clean_short k \<Longrightarrow> k \<noteq> cacheKey sc \<Longrightarrow> current b k = current a k"
  shows "coherent ca b (cache_Invalidate ca sc c)"
  unfolding coherent_def cache_Invalidate_def
proof (intro allI impI)
  fix t k r
  assume k: "clean_short k" and "GetIfPresent ca t k (otter_Invalidate ca (cacheKey sc) c) = Some r"
  then have "k \<noteq> cacheKey sc" "GetIfPresent ca t k c = Some r" using otter_ok_invalidate [OF assms(1)] by blast+
  then show "r = current b k" using assms(2,3) k by (auto simp: coherent_def)
qed

lemma coherent_set:
  assumes "otter_ok ca" "coherent ca a c" "clean_short (cacheKey sc) \<Longrightarrow> r = current a (cacheKey sc)"
  shows "coherent ca a (cache_Set ca t sc r c)"
  unfolding coherent_def cache_Set_def
proof (intro allI impI)
  fix t' k x
  assume "clean_short k" "GetIfPresent ca t' k (otter_Set ca t (cacheKey sc) r c) = Some x"
  then show "x = current a k" using otter_ok_set [OF assms(1)] assms(2,3) by (fastforce simp: coherent_def)
qed

text \<open>Rewriting a code changes the resolution of its short code only.\<close>

lemma current_put_code:
  assumes "awf a" "a_codes a cid = Some c" "code_ID d = cid" "k \<noteq> ShortCode c"
  shows "current (put_code d a) k = current a k"
proof -
  have "a_owner a k \<noteq> Some cid" using awf_owner_code [OF assms(1), of k cid] assms(2,4) by auto
  then show ?thesis using assms(3)
    by (cases "a_owner a k") (auto simp: current_def spec_lookup_def put_code_def)
qed

lemma clean_store_put_code:
  "clean_store a \<Longrightarrow> a_codes a cid = Some c \<Longrightarrow> ShortCode d = ShortCode c \<Longrightarrow> clean_store (put_code d a)"
  by (auto simp: clean_store_def put_code_def)

lemma current_spec_insert:
  assumes "awf a" "fresh_code c a" "k \<noteq> ShortCode c"
  shows "current (spec_insert c a) k = current a k"
proof -
  have "i \<noteq> code_ID c" if "a_owner a k = Some i" for i
    using awf_owner_code [OF assms(1) that] assms(2) by (auto simp: fresh_code_def)
  then show ?thesis using assms(3)
    by (cases "a_owner a k") (auto simp: current_def spec_lookup_def spec_insert_def put_code_def)
qed

lemma current_spec_create:
  assumes "awf a" "spec_create cs a = Some b" "\<forall>c \<in> set cs. code_Version c = 1 \<and> code_DeletedAt c = None"
    and "k \<notin> ShortCode ` set cs"
  shows "current b k = current a k"
  using assms
proof (induction cs a rule: spec_create.induct)
  case (2 c cs a)
  then have fr: "fresh_code c a" and sp: "spec_create cs (spec_insert c a) = Some b" by (auto split: if_splits)
  have "awf (spec_insert c a)" using 2(2,4) fr by (simp add: awf_spec_insert)
  then have "current b k = current (spec_insert c a) k" using 2(1) [OF fr _ sp] 2(4,5) by simp
  then show ?case using current_spec_insert [OF 2(2) fr] 2(5) by simp
qed simp

lemma clean_store_create:
  "clean_store a \<Longrightarrow> spec_create cs a = Some b \<Longrightarrow> \<forall>c \<in> set cs. clean_short (ShortCode c) \<Longrightarrow> clean_store b"
proof (induction cs a rule: spec_create.induct)
  case (2 c cs a)
  then have fr: "fresh_code c a" and sp: "spec_create cs (spec_insert c a) = Some b" by (auto split: if_splits)
  have "clean_store (spec_insert c a)" using 2(2,4) by (simp add: clean_store_def spec_insert_def put_code_def)
  then show ?case using 2(1) [OF fr _ sp] 2(4) by simp
qed simp

subsection \<open>Scans\<close>

text \<open>The service's view of the contract: a service wired to a store that satisfies it.\<close>

locale code_service = code_store st invar alpha avail stamp key
  for st :: "'s store_ops" and invar alpha avail stamp key +
  fixes sv :: "('s, 'b, 'c) service"
  assumes wired: "sv_store sv = st"
begin

lemma lookup_plain:
  assumes "invar s" "avail" "plain_spelling sc"
  shows "so_GetCodeByShortCode st sc s = spec_lookup (cacheKey sc) (alpha s)"
  using lookup_spec [OF assms(1,2), of sc] key_any_case [of sc] cacheKey_plain [OF assms(3)] assms(3)
  by (simp add: plain_spelling_def)

lemma resolve_current:
  assumes ok: "otter_ok (sv_cache sv)" and "invar (w_store w)" "avail"
    and "clean_store (alpha (w_store w))" "coherent (sv_cache sv) (alpha (w_store w)) (w_cache w)" "plain_spelling sc"
    and run: "sv_Resolve sv t sc w = (r, w')"
  shows "r = Inr (current (alpha (w_store w)) (map ascii_lower sc))" "w_store w' = w_store w"
    "coherent (sv_cache sv) (alpha (w_store w)) (w_cache w')"
proof -
  let ?k = "map ascii_lower sc"
  have ck: "cacheKey sc = ?k" "clean_short ?k" using assms(6) cacheKey_plain by (auto simp: plain_spelling_def)
  note look = lookup_plain [OF assms(2,3,6)]
  have "r = Inr (current (alpha (w_store w)) ?k) \<and> w_store w' = w_store w \<and>
      coherent (sv_cache sv) (alpha (w_store w)) (w_cache w')"
  proof (cases "cache_Get (sv_cache sv) t sc (w_cache w)")
    case (Some x)
    then have "x = current (alpha (w_store w)) ?k"
      using assms(5) ck by (auto simp: coherent_def cache_Get_def)
    then show ?thesis using run Some assms(5) by (auto simp: sv_Resolve_def)
  next
    case None
    show ?thesis
    proof (cases "spec_lookup ?k (alpha (w_store w))")
      case (Inl err)
      then have "err = ErrNotFound" by (auto simp: spec_lookup_def split: option.splits)
      then have cur: "current (alpha (w_store w)) ?k = not_found" using Inl by (simp add: current_def)
      then show ?thesis using run None Inl look wired ck \<open>err = ErrNotFound\<close>
          coherent_set [OF ok assms(5), of sc not_found t] by (auto simp: sv_Resolve_def)
    next
      case (Inr c)
      then have cur: "current (alpha (w_store w)) ?k = resolution_of c" by (simp add: current_def)
      obtain i where i: "a_owner (alpha (w_store w)) ?k = Some i" "a_codes (alpha (w_store w)) i = Some c"
        using Inr by (auto simp: spec_lookup_Inr)
      then have "ShortCode c = ?k" using awf_owner_code [OF inv_awf [OF assms(2)] i(1)] by auto
      then have "coherent (sv_cache sv) (alpha (w_store w))
          (cache_Set (sv_cache sv) t (ShortCode c) (resolution_of c) (w_cache w))"
        using coherent_set [OF ok assms(5), of "ShortCode c" "resolution_of c" t] cur ck cacheKey_clean [OF ck(2)] by simp
      then show ?thesis using run None Inr look wired ck cur by (auto simp: sv_Resolve_def)
    qed
  qed
  then show "r = Inr (current (alpha (w_store w)) ?k)" "w_store w' = w_store w"
    "coherent (sv_cache sv) (alpha (w_store w)) (w_cache w')" by blast+
qed

end

subsection \<open>Use cases keep the world good\<close>

definition good_world :: "('s \<Rightarrow> bool) \<Rightarrow> ('s \<Rightarrow> astore) \<Rightarrow> 'c otter \<Rightarrow> ('s, 'b, 'c) world \<Rightarrow> bool" where
  "good_world invar alpha ca w = (invar (w_store w) \<and> clean_store (alpha (w_store w)) \<and>
     coherent ca (alpha (w_store w)) (w_cache w))"

lemma spec_put_code:
  assumes "awf a"
  shows "spec_UpdateDestination t cid uid dest v a = Inr b \<Longrightarrow> \<exists>c d. a_codes a cid = Some c \<and> code_ID d = cid \<and> ShortCode d = ShortCode c \<and> code_UserID d = code_UserID c \<and> b = put_code d a"
    and "spec_SetCodeState t cid uid st a = Inr b \<Longrightarrow> \<exists>c d. a_codes a cid = Some c \<and> code_ID d = cid \<and> ShortCode d = ShortCode c \<and> code_UserID d = code_UserID c \<and> b = put_code d a"
proof -
  show "\<exists>c d. a_codes a cid = Some c \<and> code_ID d = cid \<and> ShortCode d = ShortCode c \<and> code_UserID d = code_UserID c \<and> b = put_code d a"
    if up: "spec_UpdateDestination t cid uid dest v a = Inr b"
  proof -
    obtain c where c: "a_codes a cid = Some c"
      "b = put_code (c\<lparr>Destination := dest, code_Version := v + 1, code_UpdatedAt := t\<rparr>) a"
      using up by (rule spec_UpdateDestination_Inr)
    then show ?thesis using awf_ID [OF assms c(1)]
      by (intro exI [of _ c] exI [of _ "c\<lparr>Destination := dest, code_Version := v + 1, code_UpdatedAt := t\<rparr>"]) simp
  qed
  show "\<exists>c d. a_codes a cid = Some c \<and> code_ID d = cid \<and> ShortCode d = ShortCode c \<and> code_UserID d = code_UserID c \<and> b = put_code d a"
    if up: "spec_SetCodeState t cid uid st a = Inr b"
  proof -
    obtain c where c: "a_codes a cid = Some c"
      "b = put_code (c\<lparr>code_State := st, code_Version := code_Version c + 1, code_UpdatedAt := t\<rparr>) a"
      using up by (auto simp: spec_SetCodeState_def owned_Some split: option.splits if_splits)
    then show ?thesis using awf_ID [OF assms c(1)]
      by (intro exI [of _ c] exI [of _ "c\<lparr>code_State := st, code_Version := code_Version c + 1, code_UpdatedAt := t\<rparr>"]) simp
  qed
qed

lemma spec_DeleteCode_put:
  assumes "awf a" "spec_DeleteCode t cid uid a = Inr b"
  shows "\<exists>c d. a_codes a cid = Some c \<and> code_ID d = cid \<and> ShortCode d = ShortCode c \<and> code_UserID d = code_UserID c \<and> b = put_code d a"
proof -
  obtain c where c: "a_codes a cid = Some c" using assms(2) by (auto simp: spec_DeleteCode_def owned_Some split: option.splits)
  have id: "code_ID c = cid" using awf_ID [OF assms(1) c] .
  show ?thesis
  proof (cases "code_State c = CodeDeleted")
    case True
    have "put_code c a = a" using c id by (simp add: put_code_def fun_upd_idem)
    then show ?thesis using True c id assms(2) by (auto simp: spec_DeleteCode_def owned_Some split: option.splits if_splits)
  next
    case False
    let ?d = "c\<lparr>code_State := CodeDeleted, code_DeletedAt := Some t, code_Version := code_Version c + 1, code_UpdatedAt := t\<rparr>"
    have "b = put_code ?d a" using False c assms(2) by (auto simp: spec_DeleteCode_def owned_Some split: option.splits if_splits)
    then show ?thesis using c id by (intro exI [of _ c] exI [of _ ?d]) simp
  qed
qed

text \<open>One rewritten row, with its short code dropped from the cache.\<close>

lemma good_world_put:
  assumes "otter_ok ca" "good_world invar alpha ca w" "awf (alpha (w_store w))" "invar s'"
    and "a_codes (alpha (w_store w)) cid = Some c" "code_ID d = cid" "ShortCode d = ShortCode c"
    and "alpha s' = put_code d (alpha (w_store w))" "sc = ShortCode c"
  shows "good_world invar alpha ca (w\<lparr>w_store := s', w_cache := cache_Invalidate ca sc (w_cache w)\<rparr>)"
proof -
  have cl: "clean_store (alpha (w_store w))" "coherent ca (alpha (w_store w)) (w_cache w)"
    using assms(2) by (auto simp: good_world_def)
  have "cacheKey sc = ShortCode c" using cl(1) assms(5,9) by (simp add: clean_store_def cacheKey_clean)
  then have "coherent ca (alpha s') (cache_Invalidate ca sc (w_cache w))"
    using current_put_code [OF assms(3,5,6)] by (intro coherent_invalidate [OF assms(1) cl(2)]) (simp add: assms(8))
  then show ?thesis using assms(4,8) clean_store_put_code [OF cl(1) assms(5,7)] by (simp add: good_world_def)
qed

context code_service
begin

lemma good_SetState:
  assumes ok: "otter_ok (sv_cache sv)" and g: "good_world invar alpha (sv_cache sv) w"
  shows "good_world invar alpha (sv_cache sv) (snd (sv_SetState sv e cid uid stt w))"
proof (cases "\<exists>cur s'. so_GetCodeByID st cid uid (w_store w) = Inr cur \<and> code_Mode cur \<noteq> ModeDirect \<and>
    so_SetCodeState st e cid uid stt (w_store w) = Inr s'")
  case False
  then have "snd (sv_SetState sv e cid uid stt w) = w"
    using wired by (auto simp: sv_SetState_def split: sum.splits)
  then show ?thesis using g by simp
next
  case True
  then obtain cur s' where cur: "so_GetCodeByID st cid uid (w_store w) = Inr cur" "code_Mode cur \<noteq> ModeDirect"
    "so_SetCodeState st e cid uid stt (w_store w) = Inr s'" by blast
  have inv: "invar (w_store w)" using g by (simp add: good_world_def)
  note s' = set_state_Inr [OF inv cur(3)]
  obtain c d where cd: "a_codes (alpha (w_store w)) cid = Some c" "code_ID d = cid" "ShortCode d = ShortCode c"
    "alpha s' = put_code d (alpha (w_store w))" and us: "code_UserID d = code_UserID c"
    using spec_put_code(2) [OF inv_awf [OF inv] s'(2)] by blast
  have own: "owned (alpha (w_store w)) cid uid = Some c"
    using s'(2) cd(1) by (auto simp: spec_SetCodeState_def owned_def split: option.splits if_splits)
  have "a_codes (alpha s') cid = Some d" using cd(2,4) by (simp add: put_code_def)
  moreover have "code_UserID d = uid"
    using own us by (simp add: owned_Some)
  ultimately have get: "so_GetCodeByID st cid uid s' = Inr d"
    using by_id_spec [OF s'(3,1)] by (simp add: owned_def)
  have "snd (sv_SetState sv e cid uid stt w) = w\<lparr>w_store := s', w_cache := cache_Invalidate (sv_cache sv) (ShortCode d) (w_cache w)\<rparr>"
    using cur get wired by (simp add: sv_SetState_def)
  then show ?thesis using good_world_put [OF ok g inv_awf [OF inv] s'(3) cd, of "ShortCode d"] cd(3) by simp
qed

lemma good_Delete:
  assumes ok: "otter_ok (sv_cache sv)" and g: "good_world invar alpha (sv_cache sv) w"
  shows "good_world invar alpha (sv_cache sv) (snd (sv_Delete sv e cid uid w))"
proof (cases "\<exists>c s'. so_GetCodeByID st cid uid (w_store w) = Inr c \<and> so_DeleteCode st e cid uid (w_store w) = Inr s'")
  case False
  then have "snd (sv_Delete sv e cid uid w) = w" using wired by (auto simp: sv_Delete_def split: sum.splits)
  then show ?thesis using g by simp
next
  case True
  then obtain x s' where x: "so_GetCodeByID st cid uid (w_store w) = Inr x" "so_DeleteCode st e cid uid (w_store w) = Inr s'" by blast
  have inv: "invar (w_store w)" using g by (simp add: good_world_def)
  note s' = refines_Inr [OF delete_refines [OF inv] x(2)]
  obtain c d where cd: "a_codes (alpha (w_store w)) cid = Some c" "code_ID d = cid" "ShortCode d = ShortCode c"
    "alpha s' = put_code d (alpha (w_store w))" using spec_DeleteCode_put [OF inv_awf [OF inv] s'(2)] by blast
  have "x = c" using x(1) by_id_spec [OF inv s'(1), of cid uid] cd(1) by (auto simp: owned_def split: if_splits)
  then have "snd (sv_Delete sv e cid uid w) = w\<lparr>w_store := s', w_cache := cache_Invalidate (sv_cache sv) (ShortCode c) (w_cache w)\<rparr>"
    using x wired by (simp add: sv_Delete_def)
  then show ?thesis using good_world_put [OF ok g inv_awf [OF inv] s'(3) cd, of "ShortCode c"] by simp
qed

lemma good_update_loop:
  assumes ok: "otter_ok (sv_cache sv)" and "good_world invar alpha (sv_cache sv) w"
    and others: "\<And>i w. good_world invar alpha (sv_cache sv) w \<Longrightarrow>
      good_world invar alpha (sv_cache sv) (others i w) \<and> astep (alpha (w_store w)) (alpha (w_store (others i w)))"
    and "avail \<Longrightarrow> \<exists>c. a_codes (alpha (w_store w)) cid = Some c \<and> ShortCode c = ShortCode cur"
  shows "good_world invar alpha (sv_cache sv) (snd (update_loop sv E others cid uid dest ev cur i n w))"
  using assms(2,4)
proof (induction n arbitrary: i cur w)
  case (Suc n)
  let ?rd = "if 0 < i then so_GetCodeByID st cid uid (w_store w) else Inr cur"
  show ?case
  proof (cases ?rd)
    case (Inl err)
    then show ?thesis using Suc.prems(1) by (simp only: update_loop.simps wired sum.case snd_conv)
  next
    case rd: (Inr cur')
    let ?w = "others i w" and ?v = "if ev \<le> 0 then code_Version cur' else ev"
    have g: "good_world invar alpha (sv_cache sv) ?w" and evo: "astep (alpha (w_store w)) (alpha (w_store ?w))"
      using others [OF Suc.prems(1)] by auto
    have inv: "invar (w_store w)" "invar (w_store ?w)" using Suc.prems(1) g by (auto simp: good_world_def)
    have sc: "\<exists>c. a_codes (alpha (w_store ?w)) cid = Some c \<and> ShortCode c = ShortCode cur'" if "avail"
    proof -
      obtain c0 where c0: "a_codes (alpha (w_store w)) cid = Some c0" "ShortCode c0 = ShortCode cur"
        using Suc.prems(2) [OF \<open>avail\<close>] by blast
      have "ShortCode cur' = ShortCode c0"
        using rd c0 by_id_spec [OF inv(1) \<open>avail\<close>, of cid uid] by (cases "0 < i") (auto simp: owned_def split: if_splits)
      then show ?thesis using evo c0(1) by (auto simp: astep_def evolves_def)
    qed
    show ?thesis
    proof (cases "so_UpdateDestination st (E i) cid uid dest ?v (w_store ?w)")
      case up: (Inr s')
      note s' = refines_Inr [OF update_refines [OF inv(2)] up]
      obtain c d where cd: "a_codes (alpha (w_store ?w)) cid = Some c" "code_ID d = cid" "ShortCode d = ShortCode c"
        "alpha s' = put_code d (alpha (w_store ?w))" using spec_put_code(1) [OF inv_awf [OF inv(2)] s'(2)] by blast
      have "ShortCode cur' = ShortCode c" using sc [OF s'(1)] cd(1) by auto
      then show ?thesis using good_world_put [OF ok g inv_awf [OF inv(2)] s'(3) cd, of "ShortCode cur'"]
        by (simp only: update_loop.simps wired rd sum.case Let_def up snd_conv simp_thms)
    next
      case fail: (Inl err)
      show ?thesis
      proof (cases "err = ErrConflict \<and> \<not> (0 < ev \<or> code_State cur' = CodeDeleted)")
        case True
        then show ?thesis using Suc.IH [OF g sc, of "Suc i"]
          by (simp only: update_loop.simps wired rd sum.case Let_def fail simp_thms if_True if_False)
      next
        case False
        then have "snd (update_loop sv E others cid uid dest ev cur i (Suc n) w) = ?w"
          by (auto simp only: update_loop.simps wired rd sum.case Let_def fail snd_conv split: if_splits sum.splits)
        then show ?thesis using g by simp
      qed
    qed
  qed
qed simp

lemma good_UpdateDestination:
  assumes ok: "otter_ok (sv_cache sv)" and g: "good_world invar alpha (sv_cache sv) w"
    and others: "\<And>i w. good_world invar alpha (sv_cache sv) w \<Longrightarrow>
      good_world invar alpha (sv_cache sv) (others i w) \<and> astep (alpha (w_store w)) (alpha (w_store (others i w)))"
  shows "good_world invar alpha (sv_cache sv) (snd (sv_UpdateDestination sv E others cid uid dest ev w))"
proof (cases "so_GetCodeByID st cid uid (w_store w)")
  case (Inr cur)
  have "\<exists>c. a_codes (alpha (w_store w)) cid = Some c \<and> ShortCode c = ShortCode cur" if "avail"
    using Inr by_id_spec [OF _ that, of "w_store w" cid uid] g
    by (auto simp: good_world_def owned_Some split: option.splits)
  note loop = good_update_loop [OF ok g others this,
    where E = E and uid = uid and dest = "strings_TrimSpace dest" and ev = ev and i = 0 and
      n = "if ev \<le> 0 then lastWriteWinsAttempts else 1"]
  show ?thesis
  proof (cases "code_Mode cur = ModeDirect \<or> ValidateDestination sv dest \<noteq> None")
    case True
    then have "snd (sv_UpdateDestination sv E others cid uid dest ev w) = w"
      by (auto simp only: sv_UpdateDestination_def wired Inr sum.case snd_conv split: if_splits option.splits)
    then show ?thesis using g by simp
  next
    case False
    then show ?thesis using loop
      by (simp only: sv_UpdateDestination_def wired Inr sum.case simp_thms if_False option.case de_Morgan_disj)
  qed
qed (use wired g in \<open>simp add: sv_UpdateDestination_def\<close>)

end

subsection \<open>Creation keeps the world good\<close>

lemma created_fields:
  assumes "created c c'"
  shows "ShortCode c' = strings_ToLower (ShortCode c)" "code_Version c' = 1" "code_ID c' = code_ID c"
    "Destination c' = Destination c" "code_UserID c' = code_UserID c" "BlobKey c' = BlobKey c" "BlobETag c' = BlobETag c"
    "code_State c' = (if code_State c = '''' then CodeActive else code_State c)"
    "code_Mode c' = (if code_Mode c = '''' then ModeDynamic else code_Mode c)"
    "ClientRef c' = ClientRef c" "IsAlias c' = IsAlias c"
  by (subst conjunct1 [OF assms [unfolded created_def]]; simp)+

lemma created_short:
  assumes "list_all2 created cs cs'" "\<forall>c \<in> set cs. clean_short (ShortCode c)"
  shows "map ShortCode cs' = map ShortCode cs" "\<forall>c \<in> set cs'. code_Version c = 1"
  using assms by (induction rule: list_all2_induct) (simp_all add: created_fields)

lemma coherent_invalidate_all:
  assumes "otter_ok ca" "coherent ca a c" "\<forall>sc \<in> set scs. clean_short sc"
    and "\<And>k. clean_short k \<Longrightarrow> k \<notin> set scs \<Longrightarrow> current b k = current a k"
  shows "coherent ca b (fold (cache_Invalidate ca) scs c)"
proof -
  have "GetIfPresent ca t k (fold (cache_Invalidate ca) scs c) = Some r \<Longrightarrow> k \<notin> set scs \<and> GetIfPresent ca t k c = Some r" for t k r
    using assms(3)
  proof (induction scs arbitrary: c)
    case (Cons sc scs)
    then have rest: "k \<notin> set scs" "GetIfPresent ca t k (cache_Invalidate ca sc c) = Some r" by simp_all
    have "cacheKey sc = sc" using Cons.prems(2) by (simp add: cacheKey_clean)
    then show ?case using otter_ok_invalidate [OF assms(1) rest(2) [unfolded cache_Invalidate_def]] rest(1) by simp
  qed simp
  then show ?thesis using assms(2,4) unfolding coherent_def by metis
qed

lemma prepare_clean:
  assumes "prepare sv i = Inr p"
  shows "p_isAlias p \<Longrightarrow> clean_short (p_shortCode p)"
  using assms ValidateAlias_normalized [of "ci_Alias i"]
  by (auto simp: prepare_def prepare_alias_def Let_def split: if_splits option.splits alias_error.splits)

lemma choose_code_clean: "(p_isAlias p \<Longrightarrow> clean_short (p_shortCode p)) \<Longrightarrow> clean_short (choose_code e p)"
  by (simp add: choose_code_def Generate_clean)

lemma materialise_short: "materialise sv e uid cid sc p b = (Inr c, b') \<Longrightarrow> ShortCode c = sc"
  by (auto simp: materialise_def Let_def split: sum.splits prod.splits)

context code_service
begin

lemma good_created:
  assumes ok: "otter_ok ca" and g: "good_world invar alpha ca w"
    and run: "so_CreateCodes st e cs (w_store w) = Inr (cs', s')" and cl: "\<forall>c \<in> set cs. clean_short (ShortCode c)"
  shows "good_world invar alpha ca (w\<lparr>w_store := s', w_blob := b, w_cache := fold (cache_Invalidate ca) (map ShortCode cs') (w_cache w)\<rparr>)"
proof -
  have inv: "invar (w_store w)" and cs: "clean_store (alpha (w_store w))" "coherent ca (alpha (w_store w)) (w_cache w)"
    using g by (auto simp: good_world_def)
  note cr = create_ok [OF inv run] and sh = created_short [OF conjunct1 [OF create_ok [OF inv run]] cl]
  have sp: "spec_create (map undelete cs') (alpha (w_store w)) = Some (alpha s')" using cr by blast
  have scs: "ShortCode ` set cs' = ShortCode ` set cs" using sh(1) by (metis list.set_map)
  have cl': "\<forall>c \<in> set (map undelete cs'). clean_short (ShortCode c)" "\<forall>sc \<in> set (map ShortCode cs'). clean_short sc"
    using cl by (auto simp: undelete_def sh(1)) (metis cl image_eqI image_iff scs)
  have v: "\<forall>c \<in> set (map undelete cs'). code_Version c = 1 \<and> code_DeletedAt c = None"
    using sh(2) by (simp add: undelete_def)
  have "current (alpha s') k = current (alpha (w_store w)) k" if "k \<notin> set (map ShortCode cs')" for k
    using current_spec_create [OF inv_awf [OF inv] sp v, of k] that by (simp add: undelete_def image_image)
  then have "coherent ca (alpha s') (fold (cache_Invalidate ca) (map ShortCode cs') (w_cache w))"
    by (intro coherent_invalidate_all [OF ok cs(2) cl'(2)]) blast
  then show ?thesis using cr clean_store_create [OF cs(1) sp cl'(1)] by (simp add: good_world_def)
qed

lemma good_create_loop:
  assumes ok: "otter_ok (sv_cache sv)" and "good_world invar alpha (sv_cache sv) w"
    and p: "p_isAlias p \<Longrightarrow> clean_short (p_shortCode p)"
  shows "good_world invar alpha (sv_cache sv) (snd (create_loop sv E uid p lastErr i n w))"
  using assms(2)
proof (induction n arbitrary: i lastErr w)
  case (Suc n)
  let ?sc = "choose_code (E i) p"
  obtain r b where m: "materialise sv (E i) uid (choose_id (E i)) ?sc p (w_blob w) = (r, b)" by (metis surj_pair)
  have gb: "good_world invar alpha (sv_cache sv) (w\<lparr>w_blob := b'\<rparr>)" for b' using Suc.prems by (simp add: good_world_def)
  show ?case
  proof (cases r)
    case (Inl err)
    then show ?thesis using gb m by simp
  next
    case (Inr c)
    have sc: "ShortCode c = ?sc" "clean_short ?sc"
      using materialise_short [OF m [unfolded Inr]] choose_code_clean [OF p, of "E i"] by simp_all
    show ?thesis
    proof (cases "so_CreateCode st (store_env (E i)) c (w_store w)")
      case (Inl err)
      let ?w = "w\<lparr>w_blob := removeBlobs sv (blobKeysOf c) b\<rparr>"
      show ?thesis using Suc.IH [OF gb, of "SvcStore err" "Suc i"] gb [of "removeBlobs sv (blobKeysOf c) b"]
        by (simp only: create_loop.simps Let_def m Inr prod.case sum.case Inl wired snd_conv split: if_split) simp
    next
      case ins: (Inr cs)
      obtain c' s' where cs: "cs = (c', s')" by force
      then obtain cs' where run: "so_CreateCodes st (store_env (E i)) [c] (w_store w) = Inr (cs', s')"
        using ins by (auto simp: so_CreateCode_def split: sum.splits list.splits)
      have "list_all2 created [c] cs'" using create_ok [OF _ run] Suc.prems by (simp add: good_world_def)
      then have "map ShortCode cs' = [?sc]" using created_short(1) [of "[c]" cs'] sc by simp
      then show ?thesis using good_created [OF ok Suc.prems run, of b] ins cs m Inr sc wired
        by (simp add: Let_def)
    qed
  qed
qed simp

lemma good_Create:
  assumes "otter_ok (sv_cache sv)" "good_world invar alpha (sv_cache sv) w"
  shows "good_world invar alpha (sv_cache sv) (snd (sv_Create sv E i w))"
proof (cases "prepare sv i")
  case (Inr p)
  show ?thesis unfolding sv_Create_def Inr sum.case
    by (rule good_create_loop [OF assms prepare_clean [OF Inr]])
qed (use assms in \<open>simp add: sv_Create_def\<close>)

end

lemma batch_alias_Inr:
  "batch_alias sv i p seen s = (Inr q, seen') \<Longrightarrow> q = p"
  by (auto simp: batch_alias_def split: if_splits sum.splits)

lemma batch_prepare_clean:
  "Inr p \<in> set (batch_prepare sv uid i its seen s) \<Longrightarrow> p_isAlias p \<Longrightarrow> clean_short (p_shortCode p)"
proof (induction sv uid i its seen s rule: batch_prepare.induct)
  case (2 sv uid i it its seenRef seenAlias s)
  show ?case
  proof (cases "fst (batch_ref sv uid i it seenRef s)")
    case (Inl a)
    then show ?thesis using 2 by (cases "batch_ref sv uid i it seenRef s") auto
  next
    case u: (Inr u)
    then obtain sr where br: "batch_ref sv uid i it seenRef s = (Inr u, sr)" by (metis prod.collapse)
    show ?thesis
    proof (cases "prepare sv (it\<lparr>ci_UserID := uid\<rparr>)")
      case (Inl err)
      then show ?thesis using 2 br by auto
    next
      case (Inr q)
      obtain r sa where ba: "batch_alias sv i q seenAlias s = (r, sa)" by force
      then show ?thesis using 2(3) [OF br [symmetric] refl Inr ba [symmetric]] 2(4,5) br Inr
          batch_alias_Inr [of sv i q seenAlias s p sa] prepare_clean [OF Inr] by auto
    qed
  qed
qed simp

lemma batch_render_clean:
  assumes "\<And>p. Inr p \<in> set xs \<Longrightarrow> p_isAlias p \<Longrightarrow> clean_short (p_shortCode p)"
    and "batch_render sv E uid i xs b = (ys, b')" "Inr c \<in> set ys"
  shows "clean_short (ShortCode c)"
  using assms
proof (induction sv E uid i xs b arbitrary: ys b' rule: batch_render.induct)
  case (2 sv E uid i res xs b)
  then show ?case by (auto split: prod.splits)
next
  case (3 sv E uid i p xs b)
  obtain r b1 where m: "materialise sv (E i) uid (choose_id (E i)) (choose_code (E i) p) p b = (r, b1)" by force
  have sc: "clean_short (ShortCode c')" if "r = Inr c'" for c'
    using materialise_short [of sv "E i" uid "choose_id (E i)" "choose_code (E i) p" p b c' b1] m that
      choose_code_clean [of p "E i"] 3(3) by simp
  obtain zs b2 where z: "batch_render sv E uid (Suc i) xs b1 = (zs, b2)" by force
  show ?case
  proof (cases "Inr c \<in> set zs")
    case True
    then show ?thesis using 3(1) [OF m [symmetric]] 3(2) [OF m [symmetric]] 3(3) z by (cases r) auto
  next
    case False
    then show ?thesis using 3(4,5) m z sc by (cases r) auto
  qed
qed simp

lemma rendered_codes_set: "c \<in> set (rendered_codes xs) \<longleftrightarrow> Inr c \<in> set xs"
  by (induction xs) (auto simp: rendered_codes_def split: sum.splits)

context code_service
begin

lemma good_CreateBatch:
  assumes ok: "otter_ok (sv_cache sv)" and g: "good_world invar alpha (sv_cache sv) w"
  shows "good_world invar alpha (sv_cache sv) (snd (sv_CreateBatch sv E e uid items w))"
proof -
  obtain ys b where r: "batch_render sv E uid 0 (batch_prepare sv uid 0 items ([], []) (w_store w)) (w_blob w) = (ys, b)"
    by force
  have cl: "\<forall>c \<in> set (rendered_codes ys). clean_short (ShortCode c)"
    using batch_render_clean [OF _ r] batch_prepare_clean [of _ sv uid 0 items] rendered_codes_set by blast
  have gb: "good_world invar alpha (sv_cache sv) (w\<lparr>w_blob := b'\<rparr>)" for b' using g by (simp add: good_world_def)
  have fm: "fold (\<lambda>c. cache_Invalidate (sv_cache sv) (ShortCode c)) cs = fold (cache_Invalidate (sv_cache sv)) (map ShortCode cs)" for cs
    by (simp add: fold_map comp_def)
  show ?thesis
    using g gb r wired good_created [OF ok g _ cl, of e _ _ b]
    by (auto simp: sv_CreateBatch_def Let_def fm split: sum.splits prod.splits)
qed

end

subsection \<open>Each use case is one call on the store\<close>

context code_service
begin

text \<open>What a use case does to the store is one call on codes, or nothing.\<close>

lemma one_call_astep:
  "invar s \<Longrightarrow> s' = s \<or> (\<exists>e op. s' = run_op st e op s) \<Longrightarrow> astep (alpha s) (alpha s')"
  using run_op_astep by auto

lemma step_SetState:
  shows "w_store (snd (sv_SetState sv e cid uid stt w)) = w_store w \<or>
    (\<exists>e1 op. w_store (snd (sv_SetState sv e cid uid stt w)) = run_op st e1 op (w_store w))"
  using wired by (auto simp: sv_SetState_def after_def split: sum.splits intro!: exI [of _ e] exI [of _ "OpSetState cid uid stt"])

lemma step_Delete:
  shows "w_store (snd (sv_Delete sv e cid uid w)) = w_store w \<or>
    (\<exists>e1 op. w_store (snd (sv_Delete sv e cid uid w)) = run_op st e1 op (w_store w))"
  using wired by (auto simp: sv_Delete_def after_def split: sum.splits intro!: exI [of _ e] exI [of _ "OpDelete cid uid"])

lemma step_create_loop:
  shows "w_store (snd (create_loop sv E uid p lastErr i n w)) = w_store w \<or>
    (\<exists>e1 op. w_store (snd (create_loop sv E uid p lastErr i n w)) = run_op st e1 op (w_store w))"
proof (induction n arbitrary: i lastErr w)
  case (Suc n)
  let ?sc = "choose_code (E i) p"
  obtain r b where m: "materialise sv (E i) uid (choose_id (E i)) ?sc p (w_blob w) = (r, b)" by (metis surj_pair)
  show ?case
  proof (cases r)
    case (Inr c)
    show ?thesis
    proof (cases "so_CreateCode st (store_env (E i)) c (w_store w)")
      case (Inl err)
      then show ?thesis using Suc.IH [of "SvcStore err" "Suc i" "w\<lparr>w_blob := removeBlobs sv (blobKeysOf c) b\<rparr>"]
        by (simp only: create_loop.simps Let_def m Inr prod.case sum.case wired snd_conv split: if_split) auto
    next
      case ok: (Inr cs)
      obtain c' s' where cs: "cs = (c', s')" by force
      then have "s' = run_op st (store_env (E i)) (OpCreate [c]) (w_store w)"
        using ok by (auto simp: so_CreateCode_def split: sum.splits list.splits)
      then have "\<exists>e op. s' = run_op st e op (w_store w)" by blast
      then show ?thesis using ok cs m Inr wired by (simp add: Let_def)
    qed
  qed (use m in simp)
qed simp

lemma step_Create:
  shows "w_store (snd (sv_Create sv E i w)) = w_store w \<or>
    (\<exists>e1 op. w_store (snd (sv_Create sv E i w)) = run_op st e1 op (w_store w))"
  unfolding sv_Create_def using step_create_loop by (cases "prepare sv i") auto

lemma step_CreateBatch:
  shows "w_store (snd (sv_CreateBatch sv E e uid items w)) = w_store w \<or>
    (\<exists>e1 op. w_store (snd (sv_CreateBatch sv E e uid items w)) = run_op st e1 op (w_store w))"
proof -
  obtain ys b where r: "batch_render sv E uid 0 (batch_prepare sv uid 0 items ([], []) (w_store w)) (w_blob w) = (ys, b)"
    by force
  have "w_store (snd (sv_CreateBatch sv E e uid items w)) = w_store w \<or>
    w_store (snd (sv_CreateBatch sv E e uid items w)) = run_op st e (OpCreate (rendered_codes ys)) (w_store w)"
    using r wired by (auto simp: sv_CreateBatch_def Let_def split: sum.splits prod.splits)
  then show ?thesis by blast
qed

lemma store_Resolve: "w_store (snd (sv_Resolve sv t sc w)) = w_store w"
  by (auto simp: sv_Resolve_def split: option.splits sum.splits store_error.splits)

lemma astep_update_loop:
  assumes "good_world invar alpha ca w"
    and others: "\<And>i w. good_world invar alpha ca w \<Longrightarrow>
      good_world invar alpha ca (others i w) \<and> astep (alpha (w_store w)) (alpha (w_store (others i w)))"
  shows "astep (alpha (w_store w)) (alpha (w_store (snd (update_loop sv E others cid uid dest ev cur i n w))))"
  using assms(1)
proof (induction n arbitrary: i cur w)
  case (Suc n)
  let ?rd = "if 0 < i then so_GetCodeByID st cid uid (w_store w) else Inr cur"
  show ?case
  proof (cases ?rd)
    case (Inl err)
    then show ?thesis by (simp only: update_loop.simps wired sum.case snd_conv astep_refl)
  next
    case rd: (Inr cur')
    let ?w = "others i w" and ?v = "if ev \<le> 0 then code_Version cur' else ev"
    have g: "good_world invar alpha ca ?w" and evo: "astep (alpha (w_store w)) (alpha (w_store ?w))"
      using others [OF Suc.prems(1)] by auto
    then have inv: "invar (w_store ?w)" by (simp add: good_world_def)
    show ?thesis
    proof (cases "so_UpdateDestination st (E i) cid uid dest ?v (w_store ?w)")
      case up: (Inr s')
      have s': "run_op st (E i) (OpUpdate cid uid dest ?v) (w_store ?w) = s'" using up by (simp add: after_def)
      have "astep (alpha (w_store w)) (alpha s')"
        using astep_trans [OF evo run_op_astep [OF inv, of "E i" "OpUpdate cid uid dest ?v"]] unfolding s' .
      then show ?thesis by (simp only: update_loop.simps wired rd sum.case Let_def up snd_conv) simp
    next
      case fail: (Inl err)
      show ?thesis
      proof (cases "err = ErrConflict \<and> \<not> (0 < ev \<or> code_State cur' = CodeDeleted)")
        case True
        then show ?thesis using astep_trans [OF evo Suc.IH [OF g, of cur' "Suc i"]]
          by (simp only: update_loop.simps wired rd sum.case Let_def fail simp_thms if_True if_False)
      next
        case False
        then have "snd (update_loop sv E others cid uid dest ev cur i (Suc n) w) = ?w"
          by (auto simp only: update_loop.simps wired rd sum.case Let_def fail snd_conv split: if_splits sum.splits)
        then show ?thesis using evo by simp
      qed
    qed
  qed
qed simp

lemma astep_UpdateDestination:
  assumes "good_world invar alpha ca w"
    and others: "\<And>i w. good_world invar alpha ca w \<Longrightarrow>
      good_world invar alpha ca (others i w) \<and> astep (alpha (w_store w)) (alpha (w_store (others i w)))"
  shows "astep (alpha (w_store w)) (alpha (w_store (snd (sv_UpdateDestination sv E others cid uid dest ev w))))"
  unfolding sv_UpdateDestination_def using astep_update_loop [OF assms]
  by (simp del: update_loop.simps split: sum.split option.split)

lemma good_Resolve:
  assumes ok: "otter_ok (sv_cache sv)" and g: "good_world invar alpha (sv_cache sv) w" and "avail"
    and sc: "clean_short (cacheKey sc) \<Longrightarrow> plain_spelling sc"
  shows "good_world invar alpha (sv_cache sv) (snd (sv_Resolve sv t sc w))"
proof (cases "plain_spelling sc")
  case True
  obtain r w' where run: "sv_Resolve sv t sc w = (r, w')" by force
  from g have gg: "invar (w_store w)" "clean_store (alpha (w_store w))" "coherent (sv_cache sv) (alpha (w_store w)) (w_cache w)"
    by (auto simp: good_world_def)
  show ?thesis using resolve_current(2,3) [OF ok gg(1) \<open>avail\<close> gg(2,3) True run] gg run by (simp add: good_world_def)
next
  case False
  then have nc: "\<not> clean_short (cacheKey sc)" using sc by blast
  from g have gg: "invar (w_store w)" "clean_store (alpha (w_store w))" "coherent (sv_cache sv) (alpha (w_store w)) (w_cache w)"
    by (auto simp: good_world_def)
  note look = lookup_spec [OF gg(1) \<open>avail\<close>, of sc]
  have "coherent (sv_cache sv) (alpha (w_store w)) (cache_Set (sv_cache sv) t (ShortCode c) (resolution_of c) (w_cache w))"
    if found: "spec_lookup (key sc) (alpha (w_store w)) = Inr c" for c
  proof (rule coherent_set [OF ok gg(3)])
    obtain i where i: "a_owner (alpha (w_store w)) (key sc) = Some i" "a_codes (alpha (w_store w)) i = Some c"
      using found by (auto simp: spec_lookup_Inr)
    have "ShortCode c = key sc" using awf_owner_code [OF inv_awf [OF gg(1)] i(1)] i(2) by auto
    moreover have "clean_short (ShortCode c)" using gg(2) i(2) by (auto simp: clean_store_def)
    ultimately show "resolution_of c = current (alpha (w_store w)) (cacheKey (ShortCode c))"
      using found by (simp add: cacheKey_clean current_def)
  qed
  moreover have "coherent (sv_cache sv) (alpha (w_store w)) (cache_Set (sv_cache sv) t sc not_found (w_cache w))"
    using nc by (intro coherent_set [OF ok gg(3)]) simp
  ultimately show ?thesis using g gg look wired
    by (auto simp: good_world_def sv_Resolve_def split: option.splits sum.splits store_error.splits)
qed

end

end
