(* ===== verification/Codes_Create.thy ===== *)
theory Codes_Create
  imports Codes_Cache
begin

text \<open>
  What the use cases of the service return: a successful change is what the store then holds,
  a successful creation has its row and its image, a failed one leaves nothing behind, and a
  batch answers every item. Proved for every store and blob store that keep their contracts.
\<close>

subsection \<open>Changes\<close>

context code_service
begin

lemma update_loop_success:
  assumes "good_world invar alpha ca w"
    and others: "\<And>i w. good_world invar alpha ca w \<Longrightarrow> good_world invar alpha ca (others i w)"
    and "update_loop sv E others cid uid dest ev cur i n w = (Inr c, w')"
  shows "avail \<and> invar (w_store w') \<and> owned (alpha (w_store w')) cid uid = Some c \<and> Destination c = dest \<and> code_State c \<noteq> CodeDeleted"
  using assms(1,3)
proof (induction n arbitrary: i cur w)
  case (Suc n)
  let ?rd = "if 0 < i then so_GetCodeByID st cid uid (w_store w) else Inr cur"
  show ?case
  proof (cases ?rd)
    case (Inl err)
    then show ?thesis using Suc.prems(2) by (simp only: update_loop.simps wired sum.case) simp
  next
    case rd: (Inr cur')
    let ?w = "others i w" and ?v = "if ev \<le> 0 then code_Version cur' else ev"
    have g: "good_world invar alpha ca ?w" using others [OF Suc.prems(1)] .
    then have inv: "invar (w_store ?w)" by (simp add: good_world_def)
    show ?thesis
    proof (cases "so_UpdateDestination st (E i) cid uid dest ?v (w_store ?w)")
      case up: (Inr s')
      note s' = refines_Inr [OF update_refines [OF inv] up]
      have w': "w_store w' = s'" "sv_Get sv cid uid w' = Inr c"
        using Suc.prems(2) by (auto simp only: update_loop.simps wired rd sum.case Let_def up prod.inject) simp_all
      obtain d where d: "a_codes (alpha (w_store ?w)) cid = Some d" "code_UserID d = uid" "code_State d \<noteq> CodeDeleted"
        "alpha s' = put_code (d\<lparr>Destination := dest, code_Version := ?v + 1, code_UpdatedAt := stamp (now (E i))\<rparr>) (alpha (w_store ?w))"
        using s'(2) by (rule spec_UpdateDestination_Inr)
      have own: "owned (alpha s') cid uid = Some (d\<lparr>Destination := dest, code_Version := ?v + 1, code_UpdatedAt := stamp (now (E i))\<rparr>)"
        using d awf_ID [OF inv_awf [OF inv] d(1)] by (simp add: owned_def put_code_def)
      have "so_GetCodeByID st cid uid s' = Inr c"
        using w' wired by (auto simp: sv_Get_def map_sum_eq_Inr)
      then have "owned (alpha s') cid uid = Some c"
        using by_id_spec [OF s'(3,1), of cid uid] by (auto split: option.splits)
      then show ?thesis using own d(3) s' w'(1) by auto
    next
      case fail: (Inl err)
      show ?thesis
      proof (cases "err = ErrConflict \<and> \<not> (0 < ev \<or> code_State cur' = CodeDeleted)")
        case True
        then have "update_loop sv E others cid uid dest ev cur' (Suc i) n ?w = (Inr c, w')"
          using Suc.prems(2) by (simp only: update_loop.simps wired rd sum.case Let_def fail simp_thms if_True if_False)
        then show ?thesis using Suc.IH [OF g] by blast
      next
        case False
        then show ?thesis using Suc.prems(2)
          by (auto simp only: update_loop.simps wired rd sum.case Let_def fail prod.inject split: if_splits sum.splits)
      qed
    qed
  qed
qed simp

lemma update_success:
  assumes "good_world invar alpha ca w"
    and "\<And>i w. good_world invar alpha ca w \<Longrightarrow> good_world invar alpha ca (others i w)"
    and run: "sv_UpdateDestination sv E others cid uid dest ev w = (Inr c, w')"
  shows "avail" "invar (w_store w')" "owned (alpha (w_store w')) cid uid = Some c" "Destination c = strings_TrimSpace dest"
    "code_State c \<noteq> CodeDeleted" "ValidateDestination sv dest = None"
proof -
  obtain cur where "so_GetCodeByID st cid uid (w_store w) = Inr cur" "code_Mode cur \<noteq> ModeDirect"
    and v: "ValidateDestination sv dest = None"
    and loop: "update_loop sv E others cid uid (strings_TrimSpace dest) ev cur 0 (if ev \<le> 0 then lastWriteWinsAttempts else 1) w = (Inr c, w')"
    using run by (auto simp: sv_UpdateDestination_def wired simp del: update_loop.simps split: sum.splits if_splits option.splits)
  from update_loop_success [OF assms(1,2) loop]
  show "avail" "invar (w_store w')" "owned (alpha (w_store w')) cid uid = Some c" "Destination c = strings_TrimSpace dest"
    "code_State c \<noteq> CodeDeleted" by auto
  show "ValidateDestination sv dest = None" by (rule v)
qed

lemma set_state_success:
  assumes "good_world invar alpha ca w" and run: "sv_SetState sv e cid uid stt w = (Inr c, w')"
  shows "avail" "invar (w_store w')" "owned (alpha (w_store w')) cid uid = Some c" "code_State c = stt" "stt \<noteq> CodeDeleted"
proof -
  have inv: "invar (w_store w)" using assms(1) by (simp add: good_world_def)
  obtain s' where up: "so_SetCodeState st e cid uid stt (w_store w) = Inr s'" and get: "so_GetCodeByID st cid uid s' = Inr c"
    and w': "w_store w' = s'"
    using run by (auto simp: sv_SetState_def wired split: sum.splits if_splits)
  note s' = set_state_Inr [OF inv up]
  have "stt \<in> {CodeActive, CodeDisabled}" using set_state_bad [of stt e cid uid "w_store w"] up by auto
  then show "stt \<noteq> CodeDeleted" by (auto simp: CodeActive_def CodeDisabled_def CodeDeleted_def)
  obtain d where d: "a_codes (alpha (w_store w)) cid = Some d" "code_UserID d = uid"
    "alpha s' = put_code (d\<lparr>code_State := stt, code_Version := code_Version d + 1, code_UpdatedAt := stamp (now e)\<rparr>) (alpha (w_store w))"
    using s'(2) by (auto simp: spec_SetCodeState_def owned_Some split: option.splits if_splits)
  then have "owned (alpha s') cid uid = Some (d\<lparr>code_State := stt, code_Version := code_Version d + 1, code_UpdatedAt := stamp (now e)\<rparr>)"
    using awf_ID [OF inv_awf [OF inv] d(1)] by (simp add: owned_def put_code_def)
  moreover show "owned (alpha (w_store w')) cid uid = Some c"
    using by_id_spec [OF s'(3,1), of cid uid] get by (auto simp: w' split: option.splits)
  ultimately show "code_State c = stt" using w' by auto
  show "avail" "invar (w_store w')" using s' w' by simp_all
qed

text \<open>A live code is what its short code resolves to.\<close>

lemma current_live:
  assumes "invar s" "owned (alpha s) cid uid = Some c" "code_State c \<noteq> CodeDeleted"
  shows "current (alpha s) (ShortCode c) = resolution_of c"
  using assms awf_live_owner [OF inv_awf [OF assms(1)], of cid c]
  by (simp add: owned_Some current_def spec_lookup_def)

end

subsection \<open>Keys\<close>

lemma shard_length: "length (shard cid) = 6"
  by (simp add: shard_def Let_def split: option.splits)

lemma BlobKeyFor_inj: "BlobKeyFor a = BlobKeyFor b \<Longrightarrow> a = b"
  using shard_length [of a] shard_length [of b] by (auto simp: BlobKeyFor_def append_eq_append_conv)

lemma LogoBlobKeyFor_inj: "LogoBlobKeyFor a = LogoBlobKeyFor b \<Longrightarrow> a = b"
  using shard_length [of a] shard_length [of b] by (auto simp: LogoBlobKeyFor_def append_eq_append_conv)

lemma BlobKeyFor_not_Logo: "BlobKeyFor a \<noteq> LogoBlobKeyFor b"
  by (simp add: BlobKeyFor_def LogoBlobKeyFor_def)

lemma keys_nonempty [simp]: "BlobKeyFor a \<noteq> []" "LogoBlobKeyFor a \<noteq> []"
  by (simp_all add: BlobKeyFor_def LogoBlobKeyFor_def)

subsection \<open>Creation\<close>

text \<open>What the printed symbol says.\<close>

definition symbol_text :: "('s, 'b, 'c) service \<Rightarrow> prepared \<Rightarrow> string \<Rightarrow> string" where
  "symbol_text sv p sc = (if p_mode p = ModeDirect then p_destination p else ScanURL sv sc)"

locale full_service = code_service st invar alpha avail stamp key sv + blob_store bl view
  for st :: "'s store_ops" and invar alpha avail stamp key and sv :: "('s, 'b, 'c) service" and bl :: "'b blob_ops" and view +
  assumes blob_wired: "sv_blob sv = bl"
begin

lemma removeBlobs_frame: "k \<notin> set keys - {''''} \<Longrightarrow> view (removeBlobs sv keys b) k = view b k"
proof (induction keys arbitrary: b)
  case (Cons key keys)
  then show ?case using delete_frame [of k key b] by (auto simp: removeBlobs_def blob_wired)
qed (simp add: removeBlobs_def)

lemma put_logo_frame: "k \<noteq> LogoBlobKeyFor cid \<Longrightarrow> view (snd (put_logo sv e cid logo b)) k = view b k"
  using put_frame [of k "LogoBlobKeyFor cid" e logo "int (length logo)" "sv_detect sv logo" b]
  by (auto simp: put_logo_def blob_wired split: prod.splits sum.splits)

lemma materialise_frame:
  assumes "k \<noteq> BlobKeyFor cid" "k \<noteq> LogoBlobKeyFor cid"
  shows "view (snd (materialise sv e uid cid sc p b)) k = view b k"
proof (cases "sv_render sv (symbol_text sv p sc) (p_styling p) (p_logo p) (p_autoRaise p)")
  case (Inr pe)
  obtain png eff where pe: "pe = (png, eff)" by force
  obtain l b1 where l: "put_logo sv e cid (logo_bytes (p_logo p)) b = (l, b1)" by force
  have v1: "view b1 k = view b k" using put_logo_frame [OF assms(2), of e "logo_bytes (p_logo p)" b] l by simp
  show ?thesis
  proof (cases l)
    case (Inl err)
    then show ?thesis using Inr pe l v1 by (simp add: materialise_def symbol_text_def removeBlobs_def)
  next
    case lk: (Inr logoKey)
    have "logoKey = LogoBlobKeyFor cid" if "logo_bytes (p_logo p) \<noteq> []"
      using l lk that by (auto simp: put_logo_def split: prod.splits sum.splits)
    moreover obtain r b2 where b2: "bo_Put bl e (BlobKeyFor cid) png (int (length png)) ''image/png'' b1 = (r, b2)" by force
    moreover have "view b2 k = view b k"
      using put_frame [OF assms(1), of e png "int (length png)" "''image/png''" b1] b2 v1 by simp
    ultimately show ?thesis using Inr pe l lk assms(2) removeBlobs_frame [of k "[logoKey]" b2]
      by (cases r) (auto simp: materialise_def symbol_text_def Let_def blob_wired removeBlobs_def)
  qed
qed (simp add: materialise_def symbol_text_def)

lemma materialise_ok:
  assumes "materialise sv e uid cid sc p b = (Inr c, b')"
  obtains png eff where "sv_render sv (symbol_text sv p sc) (p_styling p) (p_logo p) (p_autoRaise p) = Inr (png, eff)"
    "view b' (BlobKey c) = Some (png, ''image/png'', BlobETag c)" "BlobKey c = BlobKeyFor cid" "code_ID c = cid"
    "ShortCode c = sc" "IsAlias c = p_isAlias p" "code_UserID c = uid" "code_Mode c = p_mode p" "ClientRef c = p_clientRef p"
    "Destination c = p_destination p" "code_State c = CodeActive" "code_DeletedAt c = None"
    "LogoBlobKey (code_Styling c) \<in> {LogoBlobKeyFor cid, LogoBlobKey (p_styling p)}"
proof -
  obtain png eff where r: "sv_render sv (symbol_text sv p sc) (p_styling p) (p_logo p) (p_autoRaise p) = Inr (png, eff)"
    using assms by (auto simp: materialise_def symbol_text_def split: sum.splits)
  obtain l b1 where l: "put_logo sv e cid (logo_bytes (p_logo p)) b = (Inr l, b1)"
    using assms r by (auto simp: materialise_def symbol_text_def Let_def split: sum.splits prod.splits)
  have lk: "logo_bytes (p_logo p) \<noteq> [] \<Longrightarrow> l = LogoBlobKeyFor cid" using l by (auto simp: put_logo_def split: prod.splits sum.splits)
  obtain etag where put: "bo_Put bl e (BlobKeyFor cid) png (int (length png)) ''image/png'' b1 = (Inr etag, b')"
    and c: "BlobKey c = BlobKeyFor cid" "BlobETag c = etag" "code_ID c = cid"
    "ShortCode c = sc" "IsAlias c = p_isAlias p" "code_UserID c = uid" "code_Mode c = p_mode p" "ClientRef c = p_clientRef p"
    "Destination c = p_destination p" "code_State c = CodeActive" "code_DeletedAt c = None"
    and sty: "LogoBlobKey (code_Styling c) = (if logo_bytes (p_logo p) = [] then LogoBlobKey (p_styling p) else l)"
    using assms r l by (auto simp: materialise_def symbol_text_def Let_def blob_wired split: sum.splits prod.splits if_splits)
  have "view b' (BlobKey c) = Some (png, ''image/png'', BlobETag c)" using put_ok [OF put] c by simp
  then show thesis using that r c sty lk by auto
qed

end

context full_service
begin

lemma create_loop_success:
  assumes "create_loop sv E uid p lastErr i n w = (Inr c, w')" "invar (w_store w)"
  shows "\<exists>e b c0. e \<in> range E \<and> materialise sv e uid (choose_id e) (choose_code e p) p b = (Inr c0, w_blob w') \<and>
    so_CreateCodes st (store_env e) [c0] (w_store w) = Inr ([c], w_store w')"
  using assms(1,2)
proof (induction n arbitrary: i lastErr w)
  case (Suc n)
  let ?sc = "choose_code (E i) p"
  obtain r b where m: "materialise sv (E i) uid (choose_id (E i)) ?sc p (w_blob w) = (r, b)" by (metis surj_pair)
  show ?case
  proof (cases r)
    case (Inr c0)
    show ?thesis
    proof (cases "so_CreateCode st (store_env (E i)) c0 (w_store w)")
      case (Inl err)
      let ?w = "w\<lparr>w_blob := removeBlobs sv (blobKeysOf c0) b\<rparr>"
      have "create_loop sv E uid p (SvcStore err) (Suc i) n ?w = (Inr c, w')"
        using Suc.prems(1) by (simp only: create_loop.simps Let_def m Inr prod.case sum.case Inl wired split: if_splits) auto
      then show ?thesis using Suc.IH [of "SvcStore err" "Suc i" ?w] Suc.prems(2) by simp
    next
      case ins: (Inr cs)
      have cs: "cs = (c, w_store w')" "w_blob w' = b" using Suc.prems(1) ins m Inr wired by (auto simp: Let_def split: prod.splits)
      then obtain cs' where run: "so_CreateCodes st (store_env (E i)) [c0] (w_store w) = Inr (cs', w_store w')"
          "cs' = [] \<or> hd cs' = c"
        using ins by (auto simp: so_CreateCode_def split: sum.splits list.splits)
      have "list_all2 created [c0] cs'" using create_ok [OF Suc.prems(2) run(1)] by simp
      then have "cs' = [c]" using run(2) by (cases cs') auto
      then show ?thesis using run(1) m Inr cs(2) by blast
    qed
  qed (use Suc.prems m in simp)
qed simp

lemma create_success:
  assumes "sv_Create sv E i w = (Inr c, w')" "invar (w_store w)"
  obtains e p png eff where "e \<in> range E" "prepare sv i = Inr p" "ShortCode c = choose_code e p" "code_ID c = choose_id e"
    "code_UserID c = ci_UserID i" "Destination c = p_destination p" "code_Mode c = p_mode p" "code_State c = CodeActive"
    "code_Version c = 1" "IsAlias c = p_isAlias p" "ClientRef c = p_clientRef p"
    "sv_render sv (symbol_text sv p (ShortCode c)) (p_styling p) (p_logo p) (p_autoRaise p) = Inr (png, eff)"
    "BlobKey c = BlobKeyFor (code_ID c)" "view (w_blob w') (BlobKey c) = Some (png, ''image/png'', BlobETag c)"
    "invar (w_store w')" "owned (alpha (w_store w')) (code_ID c) (ci_UserID i) = Some (undelete c)"
    "a_owner (alpha (w_store w')) (ShortCode c) = Some (code_ID c)"
proof -
  obtain p where p: "prepare sv i = Inr p"
    and loop: "create_loop sv E (ci_UserID i) p (SvcOther '''') 0 (if p_isAlias p then 1 else generateAttempts) w = (Inr c, w')"
    using assms(1) by (auto simp: sv_Create_def simp del: create_loop.simps split: sum.splits)
  obtain e b c0 where e: "e \<in> range E" "materialise sv e (ci_UserID i) (choose_id e) (choose_code e p) p b = (Inr c0, w_blob w')"
    and run: "so_CreateCodes st (store_env e) [c0] (w_store w) = Inr ([c], w_store w')"
    using create_loop_success [OF loop assms(2)] by blast
  note cr = create_ok [OF assms(2) run]
  then have f: "created c0 c" and sp: "spec_create (map undelete [c]) (alpha (w_store w)) = Some (alpha (w_store w'))"
    and inv: "invar (w_store w')" by simp_all
  have sc: "clean_short (choose_code e p)" using choose_code_clean [OF prepare_clean [OF p]] .
  have pm: "p_mode p \<noteq> ''''" using p
    by (auto simp: prepare_def prepare_alias_def Let_def ModeDynamic_def ModeDirect_def split: if_splits option.splits alias_error.splits)
  have und: "undelete c \<in> set (map undelete [c])" by simp
  from spec_create_present [OF sp und]
  have own: "a_codes (alpha (w_store w')) (code_ID c) = Some (undelete c)" "a_owner (alpha (w_store w')) (ShortCode c) = Some (code_ID c)"
    by (simp_all add: undelete_def)
  show thesis
  proof (rule materialise_ok [OF e(2)])
    fix png eff
    assume m: "sv_render sv (symbol_text sv p (choose_code e p)) (p_styling p) (p_logo p) (p_autoRaise p) = Inr (png, eff)"
      "view (w_blob w') (BlobKey c0) = Some (png, ''image/png'', BlobETag c0)" "BlobKey c0 = BlobKeyFor (choose_id e)"
      "code_ID c0 = choose_id e" "ShortCode c0 = choose_code e p" "IsAlias c0 = p_isAlias p" "code_UserID c0 = ci_UserID i"
      "code_Mode c0 = p_mode p" "ClientRef c0 = p_clientRef p" "Destination c0 = p_destination p" "code_State c0 = CodeActive"
    have st: "code_State c = CodeActive" using created_fields(8) [OF f] m(11) by (simp add: CodeActive_def)
    have us: "code_UserID (undelete c) = ci_UserID i" using created_fields(5) [OF f] m(7) by (simp add: undelete_def)
    show thesis
      by (rule that [OF e(1) p, of png eff])
        (use m sc pm inv own us st created_fields [OF f] in \<open>simp_all add: owned_def\<close>)
  qed
qed

text \<open>A creation that fails leaves the store and the cache alone, and no object under a key it
  did not choose.\<close>

lemma create_loop_failure:
  assumes "create_loop sv E uid p lastErr i n w = (Inl err, w')" "LogoBlobKey (p_styling p) = ''''"
  shows "w_store w' = w_store w \<and> w_cache w' = w_cache w \<and>
    (\<forall>k. (\<forall>e \<in> range E. k \<noteq> BlobKeyFor (choose_id e) \<and> k \<noteq> LogoBlobKeyFor (choose_id e)) \<longrightarrow> view (w_blob w') k = view (w_blob w) k)"
  using assms(1)
proof (induction n arbitrary: i lastErr w)
  case (Suc n)
  let ?sc = "choose_code (E i) p"
  obtain r b where m: "materialise sv (E i) uid (choose_id (E i)) ?sc p (w_blob w) = (r, b)" by (metis surj_pair)
  have vb: "view b k = view (w_blob w) k" if "\<forall>e \<in> range E. k \<noteq> BlobKeyFor (choose_id e) \<and> k \<noteq> LogoBlobKeyFor (choose_id e)" for k
    using materialise_frame [of k "choose_id (E i)" "E i" uid ?sc p "w_blob w"] m that by simp
  show ?case
  proof (cases r)
    case (Inl e1)
    then show ?thesis using Suc.prems m vb by auto
  next
    case (Inr c)
    have keys: "set (blobKeysOf c) \<subseteq> {BlobKeyFor (choose_id (E i)), LogoBlobKeyFor (choose_id (E i)), ''''}"
      using materialise_ok [OF m [unfolded Inr]] assms(2) by (auto simp: blobKeysOf_def)
    let ?b = "removeBlobs sv (blobKeysOf c) b"
    have vr: "view ?b k = view (w_blob w) k"
      if k: "\<forall>e \<in> range E. k \<noteq> BlobKeyFor (choose_id e) \<and> k \<noteq> LogoBlobKeyFor (choose_id e)" for k
      using removeBlobs_frame [of k "blobKeysOf c" b] keys vb [OF k] k by auto
    obtain e1 where ins: "so_CreateCode st (store_env (E i)) c (w_store w) = Inl e1"
      using Suc.prems m Inr wired by (auto simp: Let_def split: sum.splits)
    show ?thesis
    proof (cases "e1 \<noteq> ErrAliasTaken \<or> p_isAlias p")
      case True
      then have "w' = w\<lparr>w_blob := ?b\<rparr>"
        using Suc.prems m Inr wired ins by (auto simp: Let_def split: if_splits)
      then show ?thesis using vr by simp
    next
      case False
      then have "create_loop sv E uid p (SvcStore e1) (Suc i) n (w\<lparr>w_blob := ?b\<rparr>) = (Inl err, w')"
        using Suc.prems m Inr wired ins by (simp add: Let_def)
      from Suc.IH [OF this] show ?thesis using vr by simp
    qed
  qed
qed simp

end

text \<open>On a blob store whose removals are reliable and whose failed writes leave nothing, a failed
  creation leaves every object as it was.\<close>

locale tidy_service = full_service st invar alpha avail stamp key sv bl view
  for st :: "'s store_ops" and invar alpha avail stamp key and sv :: "('s, 'b, 'c) service" and bl :: "'b blob_ops" and view +
  assumes delete_sure: "ValidateKey k = None \<Longrightarrow> view (snd (bo_Delete bl k b)) = (view b)(k := None)"
    and put_fail_same: "bo_Put bl e k d n ct b = (Inl err, b') \<Longrightarrow> view b' = view b"
begin

lemma put_logo_tidy:
  assumes "put_logo sv e cid logo b = (r, b')" "view b (LogoBlobKeyFor cid) = None"
  shows "isl r \<Longrightarrow> view b' = view b"
    and "r = Inr l \<Longrightarrow> logo = [] \<and> l = '''' \<and> b' = b \<or>
      logo \<noteq> [] \<and> l = LogoBlobKeyFor cid \<and> ValidateKey l = None \<and> (view b')(l := None) = view b"
  using assms put_fail_same put_ok
  by (auto simp: put_logo_def blob_wired fun_eq_iff split: if_splits prod.splits sum.splits)

lemma removeBlobs_two:
  assumes "ValidateKey k = None" "k \<noteq> ''''" "l \<noteq> '''' \<Longrightarrow> ValidateKey l = None"
  shows "view (removeBlobs sv [k, l] b) = (if l = '''' then (view b)(k := None) else (view b)(k := None, l := None))"
  using assms by (simp add: removeBlobs_def blob_wired delete_sure)

lemma removeBlobs_one:
  assumes "ValidateKey k = None" "k \<noteq> ''''"
  shows "view (removeBlobs sv [k] b) = (view b)(k := None)"
  using assms by (simp add: removeBlobs_def blob_wired delete_sure)

lemma materialise_tidy:
  assumes "view b (BlobKeyFor cid) = None" "view b (LogoBlobKeyFor cid) = None" "LogoBlobKey (p_styling p) = ''''"
    and run: "materialise sv e uid cid sc p b = (r, b')"
  shows "isl r \<Longrightarrow> view b' = view b"
    and "r = Inr c \<Longrightarrow> view (removeBlobs sv (blobKeysOf c) b') = view b"
proof -
  obtain l b1 where l: "put_logo sv e cid (logo_bytes (p_logo p)) b = (l, b1)" by force
  note tl = put_logo_tidy [OF l assms(2)]
  show "view b' = view b" if failed: "isl r"
  proof (cases "sv_render sv (symbol_text sv p sc) (p_styling p) (p_logo p) (p_autoRaise p)")
    case (Inl err)
    then show ?thesis using run by (auto simp: materialise_def symbol_text_def)
  next
    case (Inr pe)
    obtain png eff where pe: "pe = (png, eff)" by force
    obtain q b2 where q: "bo_Put bl e (BlobKeyFor cid) png (int (length png)) ''image/png'' b1 = (q, b2)" by force
    show ?thesis
    proof (cases l)
      case (Inl err)
      then show ?thesis using run Inr pe l tl(1) by (auto simp: materialise_def symbol_text_def removeBlobs_def)
    next
      case lk: (Inr logoKey)
      then obtain err where "q = Inl err"
        using run failed Inr pe l q by (auto simp: materialise_def symbol_text_def Let_def blob_wired split: sum.splits)
      then have v2: "view b2 = view b1" and b': "b' = removeBlobs sv (if logo_bytes (p_logo p) = [] then [] else [logoKey]) b2"
        using put_fail_same q run Inr pe l lk by (auto simp: materialise_def symbol_text_def Let_def blob_wired)
      show ?thesis using tl(2) [OF lk] v2 removeBlobs_one [of logoKey b2] by (auto simp: b' removeBlobs_def)
    qed
  qed
  show "view (removeBlobs sv (blobKeysOf c) b') = view b" if made: "r = Inr c"
  proof -
    obtain png eff where rr: "sv_render sv (symbol_text sv p sc) (p_styling p) (p_logo p) (p_autoRaise p) = Inr (png, eff)"
      using run made by (auto simp: materialise_def symbol_text_def split: sum.splits)
    obtain logoKey where lk: "l = Inr logoKey"
      using run made rr l by (cases l) (auto simp: materialise_def symbol_text_def)
    obtain etag where put: "bo_Put bl e (BlobKeyFor cid) png (int (length png)) ''image/png'' b1 = (Inr etag, b')"
      and c: "BlobKey c = BlobKeyFor cid" "LogoBlobKey (code_Styling c) = (if logo_bytes (p_logo p) = [] then '''' else logoKey)"
      using run made rr l lk assms(3)
      by (auto simp: materialise_def symbol_text_def Let_def blob_wired split: sum.splits prod.splits if_splits)
    note ok = put_ok [OF put] and tl2 = tl(2) [OF lk]
    have "view (removeBlobs sv [BlobKeyFor cid, LogoBlobKey (code_Styling c)] b') =
        (if logo_bytes (p_logo p) = [] then (view b')(BlobKeyFor cid := None) else (view b')(BlobKeyFor cid := None, logoKey := None))"
      using removeBlobs_two [of "BlobKeyFor cid" "LogoBlobKey (code_Styling c)" b'] ok tl2 c by auto
    also have "\<dots> = view b" using ok tl2 assms(1) by (auto simp: fun_eq_iff BlobKeyFor_not_Logo) metis+
    finally show ?thesis by (simp add: blobKeysOf_def c(1))
  qed
qed

lemma create_loop_tidy:
  assumes "create_loop sv E uid p lastErr i n w = (Inl err, w')" "LogoBlobKey (p_styling p) = ''''"
    and "\<And>j. view (w_blob w) (BlobKeyFor (choose_id (E j))) = None \<and> view (w_blob w) (LogoBlobKeyFor (choose_id (E j))) = None"
  shows "view (w_blob w') = view (w_blob w)"
  using assms(1,3)
proof (induction n arbitrary: i lastErr w)
  case (Suc n)
  let ?sc = "choose_code (E i) p"
  obtain r b where m: "materialise sv (E i) uid (choose_id (E i)) ?sc p (w_blob w) = (r, b)" by (metis surj_pair)
  note tidy = materialise_tidy [OF conjunct1 [OF Suc.prems(2)] conjunct2 [OF Suc.prems(2)] assms(2) m]
  show ?case
  proof (cases r)
    case (Inl e1)
    then show ?thesis using Suc.prems m tidy(1) by auto
  next
    case (Inr c)
    let ?b = "removeBlobs sv (blobKeysOf c) b"
    have vr: "view ?b = view (w_blob w)" using tidy(2) [OF Inr] .
    obtain e1 where ins: "so_CreateCode st (store_env (E i)) c (w_store w) = Inl e1"
      using Suc.prems m Inr wired by (auto simp: Let_def split: sum.splits)
    show ?thesis
    proof (cases "e1 \<noteq> ErrAliasTaken \<or> p_isAlias p")
      case True
      then have "w' = w\<lparr>w_blob := ?b\<rparr>"
        using Suc.prems m Inr wired ins by (auto simp: Let_def split: if_splits)
      then show ?thesis using vr by simp
    next
      case False
      then have "create_loop sv E uid p (SvcStore e1) (Suc i) n (w\<lparr>w_blob := ?b\<rparr>) = (Inl err, w')"
        using Suc.prems m Inr wired ins by (simp add: Let_def)
      from Suc.IH [OF this] show ?thesis using vr Suc.prems(2) by simp
    qed
  qed
qed simp

end

lemma prepare_logo_key: "prepare sv i = Inr p \<Longrightarrow> LogoBlobKey (p_styling p) = ''''"
  by (auto simp: prepare_def prepare_alias_def Let_def split: if_splits option.splits alias_error.splits)

subsection \<open>Batches\<close>

definition created_codes :: "batch_result list \<Rightarrow> code list" where
  "created_codes rs = map (the \<circ> br_Code) (filter (\<lambda>r. br_Status r = BatchCreated) rs)"

text \<open>The outcomes decided so far stand at their places and none of them says created.\<close>

fun placed :: "nat \<Rightarrow> (batch_result + 'x) list \<Rightarrow> bool" where
  "placed i [] = True"
| "placed i (x # xs) = ((case x of Inl r \<Rightarrow> br_Index r = i \<and> br_Status r \<noteq> BatchCreated | Inr _ \<Rightarrow> True) \<and> placed (Suc i) xs)"

lemma batch_ref_placed: "batch_ref sv uid i it seen s = (Inl r, seen') \<Longrightarrow> br_Index r = i \<and> br_Status r \<noteq> BatchCreated"
  by (auto simp: batch_ref_def batch_err_def batch_ok_def Let_def split: if_splits sum.splits store_error.splits)

lemma batch_alias_placed: "batch_alias sv i p seen s = (Inl r, seen') \<Longrightarrow> br_Index r = i \<and> br_Status r \<noteq> BatchCreated"
  by (auto simp: batch_alias_def batch_err_def split: if_splits sum.splits)

lemma batch_prepare_placed:
  "length (batch_prepare sv uid i its seen s) = length its \<and> placed i (batch_prepare sv uid i its seen s)"
proof (induction sv uid i its seen s rule: batch_prepare.induct)
  case (2 sv uid i it its seenRef seenAlias s)
  obtain r sr where br: "batch_ref sv uid i it seenRef s = (r, sr)" by force
  show ?case
  proof (cases r)
    case (Inl a)
    then show ?thesis using 2(1) br batch_ref_placed [of sv uid i it seenRef s a sr] by simp
  next
    case u: (Inr u)
    show ?thesis
    proof (cases "prepare sv (it\<lparr>ci_UserID := uid\<rparr>)")
      case (Inl err)
      then show ?thesis using 2(2) br u by (simp add: batch_err_def)
    next
      case (Inr q)
      obtain x sa where ba: "batch_alias sv i q seenAlias s = (x, sa)" by force
      then show ?thesis using 2(3) [OF br [unfolded u, symmetric] refl Inr ba [symmetric]] br u Inr
          batch_alias_placed [of sv i q seenAlias s _ sa] by (auto split: sum.splits)
    qed
  qed
qed simp

lemma batch_render_placed:
  "placed i xs \<Longrightarrow> batch_render sv E uid i xs b = (ys, b') \<Longrightarrow> length ys = length xs \<and> placed i ys"
proof (induction sv E uid i xs b arbitrary: ys b' rule: batch_render.induct)
  case (2 sv E uid i res xs b)
  then show ?case by (auto split: prod.splits)
next
  case (3 sv E uid i p xs b)
  obtain r b1 where m: "materialise sv (E i) uid (choose_id (E i)) (choose_code (E i) p) p b = (r, b1)" by force
  obtain zs b2 where z: "batch_render sv E uid (Suc i) xs b1 = (zs, b2)" by force
  have "length zs = length xs \<and> placed (Suc i) zs"
    using 3(1) [OF m [symmetric] _ _ z] 3(2) [OF m [symmetric] _ _ z] 3(3) by (cases r) auto
  then show ?case using 3(4) m z by (cases r) (auto simp: batch_err_def)
qed simp

lemma batch_failed_from:
  "placed i xs \<Longrightarrow> map br_Index (map (\<lambda>(j, x). case x of Inl res \<Rightarrow> res | Inr _ \<Rightarrow> batch_err j err) (enumerate i xs)) = [i..<i + length xs] \<and>
   created_codes (map (\<lambda>(j, x). case x of Inl res \<Rightarrow> res | Inr _ \<Rightarrow> batch_err j err) (enumerate i xs)) = []"
proof (induction xs arbitrary: i)
  case (Cons x xs)
  have "[i..<i + length (x # xs)] = i # [Suc i..<Suc i + length xs]" by (simp add: upt_conv_Cons del: upt_Suc)
  then show ?case using Cons by (auto simp: batch_err_def created_codes_def split: sum.splits)
qed (simp add: created_codes_def)

lemma batch_results_from:
  "placed i xs \<Longrightarrow> length cs = length (rendered_codes xs) \<Longrightarrow>
   map br_Index (batch_results i xs cs) = [i..<i + length xs] \<and> created_codes (batch_results i xs cs) = cs"
proof (induction i xs cs rule: batch_results.induct)
  case (2 i res xs cs)
  then show ?case by (auto simp: created_codes_def rendered_codes_def upt_conv_Cons simp del: upt_Suc)
next
  case (4 i c xs c' cs)
  then show ?case by (auto simp: created_codes_def rendered_codes_def batch_ok_def upt_conv_Cons simp del: upt_Suc)
qed (auto simp: created_codes_def rendered_codes_def)

context code_service
begin

lemma batch_answers:
  assumes "invar (w_store w)" "sv_CreateBatch sv E e uid items w = (rs, w')"
  shows "map br_Index rs = [0..<length items]"
    and "created_codes rs = [] \<and> w_store w' = w_store w \<or>
      (\<exists>ins. list_all2 created ins (created_codes rs) \<and> so_CreateCodes st e ins (w_store w) = Inr (created_codes rs, w_store w'))"
proof -
  let ?xs = "batch_prepare sv uid 0 items ([], []) (w_store w)"
  obtain ys b where r: "batch_render sv E uid 0 ?xs (w_blob w) = (ys, b)" by force
  have ys: "length ys = length items" "placed 0 ys"
    using batch_render_placed [OF _ r] batch_prepare_placed [of sv uid 0 items "([], [])" "w_store w"] by auto
  note failed = batch_failed_from [OF ys(2)]
  have "map br_Index rs = [0..<length items] \<and> (created_codes rs = [] \<and> w_store w' = w_store w \<or>
      (\<exists>ins. list_all2 created ins (created_codes rs) \<and> so_CreateCodes st e ins (w_store w) = Inr (created_codes rs, w_store w')))"
  proof (cases "uid = '''' \<or> rendered_codes ys = [] \<or> isl (so_CreateCodes st e (rendered_codes ys) (w_store w))")
    case True
    then show ?thesis
    proof (cases "uid = ''''")
      case True
      then have "rs = map (\<lambda>i. batch_err i (SvcOther ''codes: user id is required'')) [0..<length items]" "w' = w"
        using assms(2) by (simp_all add: sv_CreateBatch_def)
      then show ?thesis by (simp add: batch_err_def created_codes_def comp_def)
    next
      case False
      then obtain err where "rs = batch_failed err ys" "w_store w' = w_store w"
        using assms(2) True r wired by (auto simp: sv_CreateBatch_def Let_def split: if_splits sum.splits)
      then show ?thesis using failed [of err] ys(1) by (simp add: batch_failed_def)
    qed
  next
    case False
    then obtain cs s' where run: "so_CreateCodes st e (rendered_codes ys) (w_store w) = Inr (cs, s')"
      by (metis isl_def old.sum.exhaust surj_pair)
    then have rs: "rs = batch_results 0 ys cs" "w_store w' = s'"
      using assms(2) False r wired by (auto simp: sv_CreateBatch_def Let_def)
    have l2: "list_all2 created (rendered_codes ys) cs" using create_ok [OF assms(1) run] by simp
    note res = batch_results_from [OF ys(2) list_all2_lengthD [OF l2, symmetric]]
    show ?thesis using res rs run l2 ys(1) by auto
  qed
  then show "map br_Index rs = [0..<length items]" "created_codes rs = [] \<and> w_store w' = w_store w \<or>
      (\<exists>ins. list_all2 created ins (created_codes rs) \<and> so_CreateCodes st e ins (w_store w) = Inr (created_codes rs, w_store w'))"
    by blast+
qed

end

end
