(* ===== verification/Codes_Props.thy ===== *)
theory Codes_Props
  imports Codes_Create Sqlite_Props Memstore
begin

text \<open>
  The code service on the SQLite driver: the worlds a serving process gets to, and the
  properties of scans, updates, creations and batches in them.
\<close>

subsection \<open>The service on the SQLite driver\<close>

definition with_engine :: "engine \<Rightarrow> (db, 'b, 'c) service \<Rightarrow> (db, 'b, 'c) service" where
  "with_engine eng sv = sv\<lparr>sv_store := sqlite_ops eng\<rparr>"

lemma with_engine_simps [simp]:
  "sv_store (with_engine eng sv) = sqlite_ops eng" "sv_cache (with_engine eng sv) = sv_cache sv"
  by (simp_all add: with_engine_def)

interpretation svc: code_service "sqlite_ops eng" sq_inv sq_alpha "outage eng = None" "\<lambda>t. Truncate t Microsecond" nocase
  "with_engine eng sv"
  by unfold_locales simp

text \<open>The same service on the two drivers, with the blobs in memory or in files.\<close>

definition in_memory :: "engine \<Rightarrow> (bytes \<Rightarrow> bytes) \<Rightarrow> (db, mem_blob, 'c) service \<Rightarrow> (db, mem_blob, 'c) service" where
  "in_memory eng sha sv = sv\<lparr>sv_store := sqlite_ops eng, sv_blob := memblob_ops sha\<rparr>"

definition in_files :: "engine \<Rightarrow> fs_env \<Rightarrow> (db, fs_store, 'c) service \<Rightarrow> (db, fs_store, 'c) service" where
  "in_files eng B sv = sv\<lparr>sv_store := sqlite_ops eng, sv_blob := fs_ops B\<rparr>"

interpretation svc_files: full_service "sqlite_ops eng" sq_inv sq_alpha "outage eng = None" "\<lambda>t. Truncate t Microsecond" nocase
  "in_files eng B sv" "fs_ops B" "fs_view B"
  by unfold_locales (simp_all add: in_files_def)

interpretation svc_memory: tidy_service "sqlite_ops eng" sq_inv sq_alpha "outage eng = None" "\<lambda>t. Truncate t Microsecond" nocase
  "in_memory eng sha sv" "memblob_ops sha" memblob_view
  by unfold_locales
    (auto simp: in_memory_def memblob_ops_def memblob_Delete_def memblob_Put_def memblob_view_def fun_eq_iff Let_def split: option.splits)

lemma driver_ids:
  "sv_store sv = sqlite_ops eng \<Longrightarrow> with_engine eng sv = sv"
  "sv_store sw = sqlite_ops eng \<Longrightarrow> sv_blob sw = fs_ops B \<Longrightarrow> in_files eng B sw = sw"
  "sv_store sx = sqlite_ops eng \<Longrightarrow> sv_blob sx = memblob_ops sha \<Longrightarrow> in_memory eng sha sx = sx"
  by (simp_all add: with_engine_def in_files_def in_memory_def)

text \<open>A spelling of a scan that the cache does not confuse with another one: when its key reads
  as a short code, the spelling has no surrounding space and no letter outside ASCII.\<close>

definition fair_spelling :: "string \<Rightarrow> bool" where
  "fair_spelling sc = (clean_short (cacheKey sc) \<longrightarrow> plain_spelling sc)"

text \<open>An outage is a failure of the engine itself, not the answer to a statement: it is not
  reported as a missing row.\<close>

definition real_outage :: "engine \<Rightarrow> bool" where
  "real_outage eng = (case outage eng of None \<Rightarrow> True | Some err \<Rightarrow> translate err \<noteq> ErrNotFound)"

text \<open>The worlds a serving process gets to from \<open>w\<close>: every use case, with any argument and in any
  order, each with the engine as it then is, scans in fair spellings, and the calls of the rest of
  the program on users, tokens and events. An update may be interleaved with any of them.\<close>

inductive served :: "(db, 'b, 'c) service \<Rightarrow> (db, 'b, 'c) world \<Rightarrow> (db, 'b, 'c) world \<Rightarrow> bool" for sv where
  served_refl: "served sv w w"
| served_create: "served sv v w \<Longrightarrow> served sv v (snd (sv_Create (with_engine eng sv) E i w))"
| served_batch: "served sv v w \<Longrightarrow> served sv v (snd (sv_CreateBatch (with_engine eng sv) E e uid items w))"
| served_update: "served sv v w \<Longrightarrow> (\<And>i w. served sv w (others i w)) \<Longrightarrow>
    served sv v (snd (sv_UpdateDestination (with_engine eng sv) E others cid uid dest ev w))"
| served_state: "served sv v w \<Longrightarrow> served sv v (snd (sv_SetState (with_engine eng sv) e cid uid stt w))"
| served_delete: "served sv v w \<Longrightarrow> served sv v (snd (sv_Delete (with_engine eng sv) e cid uid w))"
| served_scan: "served sv v w \<Longrightarrow> real_outage eng \<Longrightarrow> fair_spelling sc \<Longrightarrow>
    served sv v (snd (sv_Resolve (with_engine eng sv) t sc w))"
| served_other: "served sv v w \<Longrightarrow> (\<And>op. sop \<noteq> OpCode op) \<Longrightarrow>
    served sv v (w\<lparr>w_store := run_store (sqlite_ops eng) e sop (w_store w)\<rparr>)"

lemma other_op_good:
  assumes "good_world sq_inv sq_alpha ca w" "\<And>op. sop \<noteq> OpCode op"
  shows "good_world sq_inv sq_alpha ca (w\<lparr>w_store := run_store (sqlite_ops eng) e sop (w_store w)\<rparr>) \<and>
    sq_alpha (run_store (sqlite_ops eng) e sop (w_store w)) = sq_alpha (w_store w)"
proof -
  let ?t = "run_store (sqlite_ops eng) e sop (w_store w)"
  have t: "t_codes ?t = t_codes (w_store w)" "t_reservations ?t = t_reservations (w_store w)"
    using other_op_codes [of sop eng e "w_store w"] assms(2) by auto
  then have al: "sq_alpha ?t = sq_alpha (w_store w)" by (simp add: sq_alpha_def)
  moreover have "sq_inv ?t = sq_inv (w_store w)" by (simp add: sq_inv_def al t)
  ultimately show ?thesis using assms(1) by (simp add: good_world_def)
qed

lemma scan_outage:
  assumes "outage eng \<noteq> None" "real_outage eng" "sv_store sv = sqlite_ops eng"
  shows "snd (sv_Resolve sv t sc w) = w"
proof -
  obtain err where "outage eng = Some err" "translate err \<noteq> ErrNotFound" using assms(1,2) by (auto simp: real_outage_def)
  then show ?thesis using assms(3)
    by (cases "translate err") (auto simp: sv_Resolve_def sq_GetCodeByShortCode_def withTx_def split: option.splits)
qed

lemma served_good:
  assumes "served sv v w" "otter_ok (sv_cache sv)" "good_world sq_inv sq_alpha (sv_cache sv) v"
  shows "good_world sq_inv sq_alpha (sv_cache sv) w \<and> astep (sq_alpha (w_store v)) (sq_alpha (w_store w))"
  using assms(1,3)
proof (induction rule: served.induct)
  case (served_create v w eng E i)
  note g = conjunct1 [OF served_create.IH [OF served_create.prems]]
  have inv: "sq_inv (w_store w)" using g by (simp add: good_world_def)
  have "good_world sq_inv sq_alpha (sv_cache sv) (snd (sv_Create (with_engine eng sv) E i w))"
    using svc.good_Create [of eng sv w E i] g assms(2) by simp
  moreover have "astep (sq_alpha (w_store w)) (sq_alpha (w_store (snd (sv_Create (with_engine eng sv) E i w))))"
    using svc.one_call_astep [OF inv] svc.step_Create [of eng sv E i w] by blast
  ultimately show ?case using astep_trans served_create by blast
next
  case (served_batch v w eng E e uid items)
  note g = conjunct1 [OF served_batch.IH [OF served_batch.prems]]
  have inv: "sq_inv (w_store w)" using g by (simp add: good_world_def)
  have "good_world sq_inv sq_alpha (sv_cache sv) (snd (sv_CreateBatch (with_engine eng sv) E e uid items w))"
    using svc.good_CreateBatch [of eng sv w E e uid items] g assms(2) by simp
  moreover have "astep (sq_alpha (w_store w)) (sq_alpha (w_store (snd (sv_CreateBatch (with_engine eng sv) E e uid items w))))"
    using svc.one_call_astep [OF inv] svc.step_CreateBatch [of eng sv E e uid items w] by blast
  ultimately show ?case using astep_trans served_batch by blast
next
  case (served_update v w others eng E cid uid dest ev)
  note g = conjunct1 [OF served_update.IH(1) [OF served_update.prems]]
  have "good_world sq_inv sq_alpha (sv_cache sv) (snd (sv_UpdateDestination (with_engine eng sv) E others cid uid dest ev w))"
    using svc.good_UpdateDestination [where eng = eng and sv = sv and w = w and others = others and E = E and cid = cid and uid = uid and dest = dest and ev = ev] g assms(2) served_update.IH(2) by simp
  moreover have "astep (sq_alpha (w_store w)) (sq_alpha (w_store (snd (sv_UpdateDestination (with_engine eng sv) E others cid uid dest ev w))))"
    using svc.astep_UpdateDestination [OF g served_update.IH(2), where eng = eng and sv = sv] by simp
  ultimately show ?case using astep_trans served_update by blast
next
  case (served_state v w eng e cid uid stt)
  note g = conjunct1 [OF served_state.IH [OF served_state.prems]]
  have inv: "sq_inv (w_store w)" using g by (simp add: good_world_def)
  have "good_world sq_inv sq_alpha (sv_cache sv) (snd (sv_SetState (with_engine eng sv) e cid uid stt w))"
    using svc.good_SetState [of eng sv w e cid uid stt] g assms(2) by simp
  moreover have "astep (sq_alpha (w_store w)) (sq_alpha (w_store (snd (sv_SetState (with_engine eng sv) e cid uid stt w))))"
    using svc.one_call_astep [OF inv] svc.step_SetState [of eng sv e cid uid stt w] by blast
  ultimately show ?case using astep_trans served_state by blast
next
  case (served_delete v w eng e cid uid)
  note g = conjunct1 [OF served_delete.IH [OF served_delete.prems]]
  have inv: "sq_inv (w_store w)" using g by (simp add: good_world_def)
  have "good_world sq_inv sq_alpha (sv_cache sv) (snd (sv_Delete (with_engine eng sv) e cid uid w))"
    using svc.good_Delete [of eng sv w e cid uid] g assms(2) by simp
  moreover have "astep (sq_alpha (w_store w)) (sq_alpha (w_store (snd (sv_Delete (with_engine eng sv) e cid uid w))))"
    using svc.one_call_astep [OF inv] svc.step_Delete [of eng sv e cid uid w] by blast
  ultimately show ?case using astep_trans served_delete by blast
next
  case (served_scan v w eng sc t)
  note g = conjunct1 [OF served_scan.IH [OF served_scan.prems]]
  have "good_world sq_inv sq_alpha (sv_cache sv) (snd (sv_Resolve (with_engine eng sv) t sc w))"
  proof (cases "outage eng")
    case None
    then show ?thesis using svc.good_Resolve [of eng sv w sc t] g assms(2) served_scan.hyps
      by (simp add: fair_spelling_def)
  next
    case (Some err)
    then show ?thesis using scan_outage [of eng "with_engine eng sv" t sc w] g served_scan.hyps by simp
  qed
  then show ?case using served_scan by (simp add: svc.store_Resolve)
next
  case (served_other v w sop eng e)
  note g = conjunct1 [OF served_other.IH [OF served_other.prems]]
  show ?case using other_op_good [OF g served_other.hyps(2), of eng e] served_other.IH [OF served_other.prems] by simp
qed simp

subsection \<open>A sample service\<close>

text \<open>A cache as its documentation describes it: an entry is there until it is dropped or
  \<open>CacheTTL\<close> has passed.\<close>

definition ttl_cache :: "(string \<times> gotime \<times> resolution) list otter" where
  "ttl_cache = \<lparr>GetIfPresent = (\<lambda>t k c. case map_of c k of
       Some (t0, r) \<Rightarrow> if t < t0 + CacheTTL then Some r else None | None \<Rightarrow> None),
     otter_Set = (\<lambda>t k r c. (k, t, r) # filter (\<lambda>x. fst x \<noteq> k) c),
     otter_Invalidate = (\<lambda>k c. filter (\<lambda>x. fst x \<noteq> k) c)\<rparr>"

lemma map_of_drop: "map_of (filter (\<lambda>x. fst x \<noteq> k) c) k' = (if k' = k then None else map_of c k')"
  by (induction c) auto

lemma ttl_cache_ok: "otter_ok ttl_cache"
  by (auto simp: otter_ok_def ttl_cache_def map_of_drop split: option.splits if_splits)

definition sample_service :: "(db, mem_blob, (string \<times> gotime \<times> resolution) list) service" where
  "sample_service = NewService (sqlite_ops sample_engine) (memblob_ops (\<lambda>d. d)) None
     (\<lambda>content sty logo auto. Inr (''PNG'' @ content, '''')) ttl_cache
     (\<lambda>raw. Some \<lparr>u_Scheme = ''https'', u_Host = ''example.com'', u_Path = ''/''\<rparr>) (\<lambda>_. ''image/png'')
     (Some (\<lparr>u_Scheme = ''https'', u_Host = ''q.example.org'', u_Path = ''''\<rparr>, ''https://q.example.org''))
     \<lparr>cfg_AllowedSchemes = [], cfg_URLMode = '''', cfg_PublicBaseURL = '''', cfg_PresignTTL = 0, cfg_BatchMax = 0\<rparr>"

definition fresh_world :: "'b \<Rightarrow> (db, 'b, (string \<times> gotime \<times> resolution) list) world" where
  "fresh_world b = \<lparr>w_store = empty_db, w_blob = b, w_cache = []\<rparr>"

definition sample_input :: create_input where
  "sample_input = \<lparr>ci_UserID = ''usr_1'', ci_Mode = '''', ci_Destination = '' https://example.com/menu '', ci_Alias = ''Menu'',
     ci_Styling = sample_styling, ci_Logo = None, ci_LogoAutoRaise = False, ci_ClientRef = ''''\<rparr>"

definition world_with_user :: "(db, mem_blob, (string \<times> gotime \<times> resolution) list) world" where
  "world_with_user = (fresh_world (\<lambda>_. None))\<lparr>w_store := run_store (sqlite_ops sample_engine) sample_env (OpCreateUser sample_user) empty_db\<rparr>"

definition world_with_menu :: "(db, mem_blob, (string \<times> gotime \<times> resolution) list) world" where
  "world_with_menu = snd (sv_Create sample_service (\<lambda>_. sample_env) sample_input world_with_user)"

lemma sample_service_engine [simp]: "with_engine sample_engine sample_service = sample_service"
  by (simp add: with_engine_def sample_service_def NewService_def)

lemma sample_service_cache [simp]: "sv_cache sample_service = ttl_cache"
  by (simp add: sample_service_def NewService_def)

lemma world_with_menu_served: "served sample_service (fresh_world (\<lambda>_. None)) world_with_menu"
proof -
  have "served sample_service (fresh_world (\<lambda>_. None)) world_with_user"
    using served_other [OF served_refl, of "OpCreateUser sample_user" sample_service "fresh_world (\<lambda>_. None)" sample_engine sample_env]
    by (simp add: world_with_user_def fresh_world_def)
  from served_create [OF this, of sample_engine "\<lambda>_. sample_env" sample_input] show ?thesis
    by (simp add: world_with_menu_def)
qed

subsection \<open>Properties\<close>

definition cold :: "'c otter \<Rightarrow> 'c \<Rightarrow> bool" where
  "cold ca c = (\<forall>t k. GetIfPresent ca t k c = None)"

lemma fresh_good: "cold ca c \<Longrightarrow> good_world sq_inv sq_alpha ca \<lparr>w_store = empty_db, w_blob = b, w_cache = c\<rparr>"
  using reachable_inv [OF sq_reachable.start]
  by (simp add: cold_def good_world_def coherent_def clean_store_def sq_alpha_def empty_db_def)

lemma scan_current:
  assumes "otter_ok (sv_cache sv)" "cold (sv_cache sv) cs"
    and "served sv \<lparr>w_store = empty_db, w_blob = bs, w_cache = cs\<rparr> w" "outage eng = None" "plain_spelling sc"
  shows "fst (sv_Resolve (with_engine eng sv) t sc w) =
    Inr (case sq_GetCodeByShortCode eng sc (w_store w) of Inr c \<Rightarrow> resolution_of c | Inl _ \<Rightarrow> not_found)"
proof -
  have g: "good_world sq_inv sq_alpha (sv_cache sv) w"
    using served_good [OF assms(3,1) fresh_good [OF assms(2)]] by simp
  obtain r w' where run: "sv_Resolve (with_engine eng sv) t sc w = (r, w')" by force
  have "r = Inr (current (sq_alpha (w_store w)) (map ascii_lower sc))"
    by (rule svc.resolve_current(1) [OF _ _ assms(4) _ _ assms(5) run]) (use g assms(1) in \<open>simp_all add: good_world_def\<close>)
  moreover have "sq_GetCodeByShortCode eng sc (w_store w) = spec_lookup (map ascii_lower sc) (sq_alpha (w_store w))"
    using svc.lookup_plain [of "w_store w" eng sc] g assms(4,5) cacheKey_plain [OF assms(5)] by (simp add: good_world_def)
  ultimately show ?thesis using run by (simp add: current_def)
qed





text \<open>A scan of a short code with a space around it poisons the cache: the store finds no
  code under the padded spelling, the negative answer is kept under the trimmed key, and the next
  scan of the short code itself is told that there is no such code although the store holds it.\<close>

lemma padded_scan_hides_code:
  assumes "\<And>t k r c. GetIfPresent (sv_cache sv) t k (otter_Set (sv_cache sv) t k r c) = Some r"
    and "otter_ok (sv_cache sv)" "cold (sv_cache sv) cs" "outage eng = None"
    and "served sv \<lparr>w_store = empty_db, w_blob = bs, w_cache = cs\<rparr> w"
    and "sq_GetCodeByShortCode eng sc (w_store w) = Inr c" "plain_spelling sc"
    and "GetIfPresent (sv_cache sv) t (cacheKey sc) (w_cache w) = None"
  shows "fst (sv_Resolve (with_engine eng sv) t sc (snd (sv_Resolve (with_engine eng sv) t (CHR '' '' # sc) w))) = Inr not_found"
proof -
  have g: "good_world sq_inv sq_alpha (sv_cache sv) w"
    using served_good [OF assms(5,2) fresh_good [OF assms(3)]] by simp
  have ck: "cacheKey (CHR '' '' # sc) = cacheKey sc"
  proof -
    have asc: "is_ascii sc" using assms(7) is_ascii_lower [OF clean_short_ascii] by (auto simp: plain_spelling_def)
    then have "is_ascii (CHR '' '' # sc)" by (simp add: is_ascii_def)
    then show ?thesis using asc by (simp add: cacheKey_def strings_TrimSpace_ascii ascii_space_def)
  qed
  have "a_owner (sq_alpha (w_store w)) (nocase (CHR '' '' # sc)) = None"
  proof (rule ccontr)
    assume "a_owner (sq_alpha (w_store w)) (nocase (CHR '' '' # sc)) \<noteq> None"
    then obtain cid d where "a_codes (sq_alpha (w_store w)) cid = Some d" "ShortCode d = nocase (CHR '' '' # sc)"
      using awf_owner_code [of "sq_alpha (w_store w)"] g sq_inv_dest(4) by (fastforce simp: good_world_def)
    then have "clean_short (nocase (CHR '' '' # sc))" using g unfolding good_world_def clean_store_def by metis
    then show False by (simp add: nocase_def clean_short_def ascii_lower_def isAliasChar_def isAlphanumeric_def)
  qed
  then have miss: "sq_GetCodeByShortCode eng (CHR '' '' # sc) (w_store w) = Inl ErrNotFound"
    using sqlite.lookup_spec [of "w_store w" eng "CHR '' '' # sc"] g assms(4) by (simp add: good_world_def spec_lookup_def)
  then have "snd (sv_Resolve (with_engine eng sv) t (CHR '' '' # sc) w) =
      w\<lparr>w_cache := otter_Set (sv_cache sv) t (cacheKey sc) not_found (w_cache w)\<rparr>"
    using assms(8) ck by (simp add: sv_Resolve_def cache_Get_def cache_Set_def)
  then show ?thesis using assms(1) by (simp add: sv_Resolve_def cache_Get_def)
qed

text \<open>C3. A creation that succeeds has its row and its image: the code belongs to the caller, is
  active at version 1 with the trimmed destination, its short code is the normalised alias or a
  generated one, the store finds it under that short code, and the file store holds, under the
  code's key and with the code's digest, the picture the renderer made of the scan address (of the
  destination itself for a direct code).\<close>

theorem create_prints_and_stores:
  assumes "sv_store sv = sqlite_ops eng" "sv_blob sv = fs_ops B" "outage eng = None" "fs_ctx B = None"
    and "sq_reachable (w_store w)" "sv_Create sv E i w = (Inr c, w')"
  shows "code_UserID c = ci_UserID i \<and> Destination c = strings_TrimSpace (ci_Destination i) \<and> code_State c = CodeActive \<and>
    code_Version c = 1 \<and> ClientRef c = ci_ClientRef i \<and>
    (if ci_Alias i = '''' then IsGeneratedShape (ShortCode c) else ShortCode c = NormalizeAlias (ci_Alias i)) \<and>
    sq_GetCodeByShortCode eng (ShortCode c) (w_store w') = Inr (c\<lparr>code_DeletedAt := None\<rparr>) \<and>
    (\<exists>sty png eff info. sv_render sv (if code_Mode c = ModeDirect then Destination c else ScanURL sv (ShortCode c)) sty
        (ci_Logo i) (ci_LogoAutoRaise i) = Inr (png, eff) \<and>
      fs_Get B (BlobKey c) (w_blob w') = Inr (png, info) \<and> bi_ETag info = BlobETag c \<and> bi_ContentType info = ''image/png'')"
proof -
  have sv: "in_files eng B sv = sv" using driver_ids(2) [OF assms(1,2)] .
  show ?thesis
  proof (rule svc_files.create_success [of eng B sv E i w c w', unfolded sv, OF assms(6) reachable_inv [OF assms(5)]])
    fix e p png eff
    assume p: "prepare sv i = Inr p" and c: "ShortCode c = choose_code e p" "code_UserID c = ci_UserID i"
      "Destination c = p_destination p" "code_Mode c = p_mode p" "code_State c = CodeActive" "code_Version c = 1"
      "ClientRef c = p_clientRef p"
      and r: "sv_render sv (symbol_text sv p (ShortCode c)) (p_styling p) (p_logo p) (p_autoRaise p) = Inr (png, eff)"
      and v: "fs_view B (w_blob w') (BlobKey c) = Some (png, ''image/png'', BlobETag c)"
      and inv: "sq_inv (w_store w')" and own: "owned (sq_alpha (w_store w')) (code_ID c) (ci_UserID i) = Some (undelete c)"
        "a_owner (sq_alpha (w_store w')) (ShortCode c) = Some (code_ID c)"
    have pf: "p_destination p = strings_TrimSpace (ci_Destination i)" "p_clientRef p = ci_ClientRef i" "p_logo p = ci_Logo i"
      "p_autoRaise p = ci_LogoAutoRaise i" "p_isAlias p = (ci_Alias i \<noteq> '''')" "ci_Alias i \<noteq> '''' \<Longrightarrow> p_shortCode p = NormalizeAlias (ci_Alias i)"
      using p by (auto simp: prepare_def prepare_alias_def Let_def split: if_splits option.splits alias_error.splits)
    have cl: "clean_short (ShortCode c)" using c(1) choose_code_clean [OF prepare_clean [OF p]] by simp
    have "sq_GetCodeByShortCode eng (ShortCode c) (w_store w') = spec_lookup (ShortCode c) (sq_alpha (w_store w'))"
      using sqlite.lookup_spec [OF inv, of eng "ShortCode c"] nocase_any_case [of "ShortCode c"] assms(3) clean_lower [OF cl] cl by simp
    also have "\<dots> = Inr (c\<lparr>code_DeletedAt := None\<rparr>)"
      using own by (simp add: spec_lookup_def owned_Some undelete_def)
    finally have look: "sq_GetCodeByShortCode eng (ShortCode c) (w_store w') = Inr (c\<lparr>code_DeletedAt := None\<rparr>)" .
    obtain info where "fs_Get B (BlobKey c) (w_blob w') = Inr (png, info)" "bi_ETag info = BlobETag c" "bi_ContentType info = ''image/png''"
      using v assms(4) by (auto simp: fs_view_def fs_Get_def fs_stat_def split: sum.splits option.splits prod.splits)
    then show ?thesis using c pf look r
      by (auto simp: symbol_text_def choose_code_def Generate_shape split: if_splits)
  qed
qed

definition files_service :: "(db, fs_store, (string \<times> gotime \<times> resolution) list) service" where
  "files_service = NewService (sqlite_ops sample_engine) (fs_ops (sample_fs (\<lambda>_. None))) None
     (\<lambda>content sty logo auto. Inr (''PNG'' @ content, '''')) ttl_cache
     (\<lambda>raw. Some \<lparr>u_Scheme = ''https'', u_Host = ''example.com'', u_Path = ''/''\<rparr>) (\<lambda>_. ''image/png'')
     (Some (\<lparr>u_Scheme = ''https'', u_Host = ''q.example.org'', u_Path = ''''\<rparr>, ''https://q.example.org''))
     \<lparr>cfg_AllowedSchemes = [], cfg_URLMode = '''', cfg_PublicBaseURL = '''', cfg_PresignTTL = 0, cfg_BatchMax = 0\<rparr>"

definition files_world :: "(db, fs_store, (string \<times> gotime \<times> resolution) list) world" where
  "files_world = \<lparr>w_store = run_store (sqlite_ops sample_engine) sample_env (OpCreateUser sample_user) empty_db,
     w_blob = \<lparr>fs_objects = (\<lambda>_. None), fs_metas = (\<lambda>_. None)\<rparr>, w_cache = []\<rparr>"

theorem create_prints_and_stores_witness:
  "\<exists>c w'. sv_Create files_service (\<lambda>_. sample_env) sample_input files_world = (Inr c, w') \<and> ShortCode c = ''menu'' \<and>
    \<not> isl (fs_Get (sample_fs (\<lambda>_. None)) (BlobKey c) (w_blob w'))"
proof -
  let ?u = "sv_Create files_service (\<lambda>_. sample_env) sample_input files_world"
  have ok: "case fst ?u of Inl _ \<Rightarrow> False | Inr c \<Rightarrow> ShortCode c = ''menu''" by code_simp
  obtain c w' where u: "?u = (Inr c, w')" "ShortCode c = ''menu''" using ok by (cases ?u) (auto split: sum.splits)
  have "sq_reachable (w_store files_world)" using sq_reachable.step [OF sq_reachable.start] by (simp add: files_world_def del: run_store.simps)
  from create_prints_and_stores [OF _ _ _ _ this u(1), of sample_engine "sample_fs (\<lambda>_. None)"] show ?thesis
    using u by (auto simp: files_service_def NewService_def sample_fs_def)
qed



text \<open>C5. A batch answers every item, in order and by its index, and its codes are stored together
  or not at all: either no item is reported as created and the database is untouched, or the
  codes reported as created are exactly those one transaction has inserted.\<close>

theorem batch_all_or_nothing:
  assumes "sv_store sv = sqlite_ops eng" "sq_reachable (w_store w)" "sv_CreateBatch sv E e uid items w = (rs, w')"
  shows "map br_Index rs = [0..<length items] \<and>
    (created_codes rs = [] \<and> w_store w' = w_store w \<or>
     (\<exists>ins. sq_CreateCodes eng e ins (w_store w) = Inr (created_codes rs, w_store w') \<and> length ins = length (created_codes rs)))"
proof -
  have sv: "with_engine eng sv = sv" using driver_ids(1) [OF assms(1)] .
  note ba = svc.batch_answers [where eng = eng and sv = sv, unfolded sv, OF reachable_inv [OF assms(2)] assms(3)]
  show ?thesis using ba(1) ba(2) by (auto dest: list_all2_lengthD)
qed

theorem batch_all_or_nothing_witness:
  "\<exists>rs w'. sv_CreateBatch sample_service (\<lambda>i. sample_env\<lparr>rnd := \<lambda>_. of_nat i\<rparr>) (sample_env\<lparr>rnd := of_nat\<rparr>) ''usr_1''
      [sample_input, sample_input\<lparr>ci_Alias := ''x''\<rparr>, sample_input\<lparr>ci_Alias := ''Lunch''\<rparr>] world_with_user = (rs, w') \<and>
    map br_Index rs = [0, 1, 2] \<and> map br_Status rs = [BatchCreated, BatchError, BatchCreated]"
proof -
  let ?u = "sv_CreateBatch sample_service (\<lambda>i. sample_env\<lparr>rnd := \<lambda>_. of_nat i\<rparr>) (sample_env\<lparr>rnd := of_nat\<rparr>) ''usr_1''
      [sample_input, sample_input\<lparr>ci_Alias := ''x''\<rparr>, sample_input\<lparr>ci_Alias := ''Lunch''\<rparr>] world_with_user"
  have st: "map br_Status (fst ?u) = [BatchCreated, BatchError, BatchCreated]" by code_simp
  obtain rs w' where u: "?u = (rs, w')" by force
  have "sq_reachable (w_store world_with_user)" using sq_reachable.step [OF sq_reachable.start] by (simp add: world_with_user_def del: run_store.simps)
  from batch_all_or_nothing [OF _ this u, of sample_engine] show ?thesis
    using st u by (simp add: sample_service_def NewService_def upt_rec)
qed

subsection \<open>Keys and destinations\<close>

lemma id_chars: "x \<in> set (RandomCrockford n r) \<Longrightarrow> x \<noteq> CHR ''/'' \<and> x \<noteq> CHR ''.'' \<and> x \<noteq> CHR 0x00 \<and> x \<noteq> CHR 0x5C \<and> x \<noteq> CHR ''_''"
  using RandomCrockford_set [of n r] by (auto simp: idAlphabet_def)

lemma shard_NewCodeID:
  "shard (NewCodeID r) = take 2 (RandomCrockford idRandomLen r) @ ''/'' @ take 2 (drop 2 (RandomCrockford idRandomLen r)) @ ''/''"
  by (simp add: shard_def NewCodeID_def NewID_def idRandomLen_def Let_def)

lemma seg_of_id:
  assumes "set x \<subseteq> set (RandomCrockford n r)" "x \<noteq> []"
  shows "plain_seg x" "CHR ''/'' \<notin> set x"
proof -
  have no: "c \<noteq> CHR ''/'' \<and> c \<noteq> CHR ''.''" if "c \<in> set x" for c using id_chars [of c n r] assms(1) that by blast
  then show "CHR ''/'' \<notin> set x" by blast
  have "x \<noteq> ''.''" "x \<noteq> ''..''" using no by auto
  then show "plain_seg x" using assms(2) by (simp add: plain_seg_def)
qed

lemma code_key_valid:
  assumes "CHR ''/'' \<notin> set pre" "CHR 0x00 \<notin> set pre" "CHR 0x5C \<notin> set pre" "plain_seg pre" "length pre \<le> 100"
    and "CHR ''/'' \<notin> set suf" "CHR 0x00 \<notin> set suf" "CHR 0x5C \<notin> set suf" "length suf \<le> 100"
  shows "ValidateKey (pre @ ''/'' @ shard (NewCodeID r) @ NewCodeID r @ suf) = None"
proof (rule ValidateKey_plain)
  let ?R = "RandomCrockford idRandomLen r"
  let ?a = "take 2 ?R" and ?b = "take 2 (drop 2 ?R)" and ?z = "''cod_'' @ ?R @ suf"
  have l: "length ?R = 16" by (simp add: idRandomLen_def)
  have ab: "plain_seg ?a" "CHR ''/'' \<notin> set ?a" "plain_seg ?b" "CHR ''/'' \<notin> set ?b"
  proof -
    have "length ?a = 2" "length ?b = 2" using l by simp_all
    then have "?a \<noteq> []" "?b \<noteq> []" by (metis list.size(3) zero_neq_numeral)+
    moreover have "set ?a \<subseteq> set ?R" "set ?b \<subseteq> set ?R" by (auto dest: in_set_takeD in_set_dropD)
    ultimately show "plain_seg ?a" "CHR ''/'' \<notin> set ?a" "plain_seg ?b" "CHR ''/'' \<notin> set ?b" using seg_of_id by blast+
  qed
  have z: "CHR ''/'' \<notin> set ?z" "plain_seg ?z" using assms(6) id_chars [of "CHR ''/''" idRandomLen r] by (auto simp: plain_seg_def)
  have key: "pre @ ''/'' @ shard (NewCodeID r) @ NewCodeID r @ suf = pre @ CHR ''/'' # (?a @ CHR ''/'' # (?b @ CHR ''/'' # ?z))"
    unfolding shard_NewCodeID by (simp add: NewCodeID_def NewID_def)
  have "split_on (CHR ''/'') (pre @ CHR ''/'' # (?a @ CHR ''/'' # (?b @ CHR ''/'' # ?z))) = [pre, ?a, ?b, ?z]"
    using assms(1) ab z by (simp only: split_on_first split_on_plain simp_thms)
  then show "list_all plain_seg (split_on (CHR ''/'') (pre @ ''/'' @ shard (NewCodeID r) @ NewCodeID r @ suf))"
    unfolding key using assms(4) ab z by simp
  show "length (pre @ ''/'' @ shard (NewCodeID r) @ NewCodeID r @ suf) \<le> 512"
    unfolding key using assms(5,9) l by simp
  have no: "CHR 0x00 \<notin> set ?R" "CHR 0x5C \<notin> set ?R" using id_chars by blast+
  then have "CHR 0x00 \<notin> set ?a \<union> set ?b" "CHR 0x5C \<notin> set ?a \<union> set ?b" by (auto dest: in_set_takeD in_set_dropD)
  then show "CHR 0x00 \<notin> set (pre @ ''/'' @ shard (NewCodeID r) @ NewCodeID r @ suf)"
    "CHR 0x5C \<notin> set (pre @ ''/'' @ shard (NewCodeID r) @ NewCodeID r @ suf)"
    unfolding key using assms(2,3,7,8) no by simp_all
qed

text \<open>The keys the service stores images and logos under are always accepted by the blob stores,
  and no two objects share one: different codes have different keys and an image never has the
  key of a logo.\<close>

lemma blob_keys_valid_and_distinct:
  "ValidateKey (BlobKeyFor (NewCodeID r)) = None \<and> ValidateKey (LogoBlobKeyFor (NewCodeID r)) = None \<and>
   (BlobKeyFor a = BlobKeyFor b \<longleftrightarrow> a = b) \<and> (LogoBlobKeyFor a = LogoBlobKeyFor b \<longleftrightarrow> a = b) \<and>
   BlobKeyFor a \<noteq> LogoBlobKeyFor b"
proof -
  have "ValidateKey (BlobKeyFor (NewCodeID r)) = None"
    using code_key_valid [of "''codes''" "''.png''" r] by (simp add: BlobKeyFor_def plain_seg_def)
  moreover have "ValidateKey (LogoBlobKeyFor (NewCodeID r)) = None"
    using code_key_valid [of "''logos''" "[]" r] by (simp add: LogoBlobKeyFor_def plain_seg_def)
  ultimately show ?thesis using BlobKeyFor_inj LogoBlobKeyFor_inj BlobKeyFor_not_Logo by blast
qed


lemma alias_char_plain:
  assumes "plain_spelling sc"
  shows "plain_seg sc" "CHR ''/'' \<notin> set sc"
proof -
  have "isAliasChar (ascii_lower c)" if "c \<in> set sc" for c
    using assms that by (auto simp: plain_spelling_def clean_short_def list_all_iff)
  moreover have "\<not> isAliasChar (ascii_lower CHR ''/'')" "\<not> isAliasChar (ascii_lower CHR ''.'')"
    by (simp_all add: isAliasChar_def isAlphanumeric_def ascii_lower_def)
  ultimately have no: "CHR ''/'' \<notin> set sc" "CHR ''.'' \<notin> set sc" by metis+
  then show "CHR ''/'' \<notin> set sc" by simp
  have "sc \<noteq> []" using assms by (auto simp: plain_spelling_def clean_short_def)
  moreover have "sc \<noteq> ''.''" "sc \<noteq> ''..''" using no(2) by auto
  ultimately show "plain_seg sc" by (simp add: plain_seg_def)
qed

text \<open>C30. No code redirects to a scan address of the instance: an address on the instance's own
  host (in any spelling of the host's letters) and port whose path is the scan path of a short
  code, in any upper- and lower-case spelling, is refused as a destination.\<close>

theorem scan_address_is_no_destination:
  assumes "sv_base sv = Some base" "sv_parse sv (strings_TrimSpace raw) = Some u"
    and "strings_EqualFold (Hostname u) (Hostname base)" "effectivePort u = effectivePort base"
    and "u_Path u = ''/r/'' @ sc \<or> u_Path u = ''/R/'' @ sc" "plain_spelling sc" "strings_TrimSpace raw \<noteq> ''''"
  shows "ValidateDestination sv raw \<in> {Some ErrSelfReferential, Some ErrDestinationTooLong}"
proof -
  note pl = alias_char_plain [OF assms(6)]
  have asc: "is_ascii sc" using assms(6) is_ascii_lower [OF clean_short_ascii] by (auto simp: plain_spelling_def)
  obtain R where R: "u_Path u = CHR ''/'' # R # CHR ''/'' # sc" "R = CHR ''r'' \<or> R = CHR ''R''" using assms(5) by auto
  have Rp: "plain_seg [R]" "R \<noteq> CHR ''/''" using R(2) by (auto simp: plain_seg_def)
  have "split_on (CHR ''/'') (CHR ''/'' # u_Path u) = [[], [], [R], sc]"
    using R pl(2) Rp split_on_plain [of "CHR ''/''" sc] by (simp add: split_on_nonempty)
  then have "path_Clean (''/'' @ u_Path u) = CHR ''/'' # R # CHR ''/'' # sc"
    using pl Rp by (simp add: path_Clean_def clean_segs_plain plain_seg_def)
  moreover have "strings_ToLower (CHR ''/'' # R # CHR ''/'' # sc) = ''/r/'' @ map ascii_lower sc"
  proof -
    have "is_ascii (CHR ''/'' # R # CHR ''/'' # sc)" using asc R(2) by (auto simp: is_ascii_def)
    moreover have "ascii_lower R = CHR ''r''" using R(2) by (elim disjE) (simp_all, code_simp+)
    moreover have "ascii_lower CHR ''/'' = CHR ''/''" by code_simp
    ultimately show ?thesis by (simp add: strings_ToLower_ascii)
  qed
  ultimately have "isSelfReferential sv u"
    using assms(1,3,4) by (simp add: isSelfReferential_def sameOrigin_def Let_def HasPrefix_def)
  then show ?thesis using assms(2,7) by (simp add: ValidateDestination_def Let_def)
qed

theorem scan_address_is_no_destination_witness:
  "ValidateDestination (sample_service\<lparr>sv_parse := (\<lambda>_. Some \<lparr>u_Scheme = ''https'', u_Host = ''Q.example.org:443'', u_Path = ''/r/MENU''\<rparr>)\<rparr>)
     ''https://Q.example.org:443/r/MENU'' \<in> {Some ErrSelfReferential, Some ErrDestinationTooLong}"
proof -
  let ?u = "\<lparr>u_Scheme = ''https'', u_Host = ''Q.example.org:443'', u_Path = ''/r/MENU''\<rparr>"
  let ?b = "\<lparr>u_Scheme = ''https'', u_Host = ''q.example.org'', u_Path = ''''\<rparr>"
  let ?sv = "sample_service\<lparr>sv_parse := (\<lambda>_. Some ?u)\<rparr>"
  have b: "sv_base ?sv = Some ?b" by (simp add: sample_service_def NewService_def)
  have c: "strings_EqualFold (Hostname ?u) (Hostname ?b)" "effectivePort ?u = effectivePort ?b" "plain_spelling ''MENU''"
    "strings_TrimSpace ''https://Q.example.org:443/r/MENU'' \<noteq> ''''" by code_simp+
  show ?thesis
    by (rule scan_address_is_no_destination [OF b _ c(1,2) _ c(3,4)]) simp_all
qed

end
