(* ===== verification/Listing_Props.thy ===== *)
theory Listing_Props
  imports Codes_Props
begin

text \<open>
  The listings of the drivers: their pages keep the contract of \<open>Listing\<close>. For the SQLite driver
  that holds in every reachable database whose codes were created in the years 0 to 9999, the years
  the text of a timestamp has a fixed width for.
\<close>

subsection \<open>Rows as the driver writes them\<close>

definition stamped :: "db \<Rightarrow> bool" where
  "stamped s = (\<forall>c \<in> set (t_codes s). code_ID c \<noteq> '''' \<and> Truncate (code_CreatedAt c) Microsecond = code_CreatedAt c)"

lemma insertCode_stamped:
  assumes "insertCode eng e r s = Inr t" "stamped s" "code_ID (cr_c r) \<noteq> ''''"
  shows "stamped t"
  using assms by (auto simp: insertCode_def Let_def stamped_def stored_code_def fmtTime_def split: sum.splits option.splits)

lemma newCodeRow_ID: "newCodeRow e c = Inr r \<Longrightarrow> code_ID (cr_c r) \<noteq> ''''"
  by (auto simp: newCodeRow_def Let_def split: if_splits)

lemma CreateCodes_stamped:
  assumes "sq_CreateCodes eng e cs s = Inr (cs', t)" "stamped s"
  shows "stamped t"
proof (cases "cs = []")
  case False
  then obtain rows where r: "mapM (\<lambda>(i, c). newCodeRow (row_env e i) c) (enumerate 0 cs) = Inr rows"
    and t: "foldM (insertCode eng e) rows s = Inr t"
    using assms(1) by (auto simp: sq_CreateCodes_def withTx_Inr split: sum.splits)
  have "code_ID (cr_c x) \<noteq> ''''" if "x \<in> set rows" for x
    using r that newCodeRow_ID by (auto simp: mapM_ok list_all2_conv_all_nth in_set_conv_nth split_def)
  then show ?thesis using t assms(2)
  proof (induction rows arbitrary: s)
    case (Cons x xs)
    then show ?case using insertCode_stamped by (auto split: sum.splits)
  qed simp
qed (use assms in \<open>auto simp: sq_CreateCodes_def\<close>)

lemma stamped_cong: "t_codes t = t_codes s \<Longrightarrow> stamped t = stamped s"
  by (simp add: stamped_def)

lemma guarded_update_stamped:
  assumes "stamped s" "guarded_update g f cid uid r s = Inr t" "\<And>u. r = Inr u \<Longrightarrow> u = s"
    and "\<And>c. code_ID (f c) = code_ID c \<and> code_CreatedAt (f c) = code_CreatedAt c"
  shows "stamped t"
  using assms by (auto simp: stamped_def guarded_update_def update_codes_def split: if_splits)

lemma run_op_stamped:
  assumes "stamped s"
  shows "stamped (run_op (sqlite_ops eng) e op s)"
proof (cases op)
  case (OpCreate cs)
  then show ?thesis using assms by (auto split: sum.splits dest: CreateCodes_stamped)
next
  case (OpUpdate cid uid dest v)
  then show ?thesis using assms
    by (auto simp: sq_UpdateDestination_def withTx_Inr intro!: after_inv [of stamped] elim: guarded_update_stamped)
next
  case (OpSetState cid uid stt)
  then show ?thesis using assms
    by (auto simp: sq_SetCodeState_def withTx_Inr split: if_splits intro!: after_inv [of stamped] elim: guarded_update_stamped)
next
  case (OpDelete cid uid)
  then show ?thesis using assms
    by (auto simp: sq_DeleteCode_def withTx_Inr Let_def intro!: after_inv [of stamped] elim: guarded_update_stamped)
next
  case (OpRelease sc)
  then show ?thesis using assms
    by (auto simp: sq_ReleaseAlias_def withTx_Inr Let_def split: if_splits intro!: after_inv [of stamped]) (simp add: stamped_def)
qed

lemma reachable_stamped: "sq_reachable s \<Longrightarrow> stamped s"
proof (induction rule: sq_reachable.induct)
  case (step s eng e op)
  then show ?case
  proof (cases op)
    case (OpCode x)
    then show ?thesis using run_op_stamped [OF step.IH] by simp
  qed (simp_all only: stamped_cong [OF other_op_codes [THEN conjunct1]] store_op.distinct not_False_eq_True)
qed (simp add: stamped_def empty_db_def)

subsection \<open>The cursor\<close>

definition civil_code :: "code \<Rightarrow> bool" where
  "civil_code c = (civil_years (code_CreatedAt c) \<and> code_ID c \<noteq> '''' \<and> Truncate (code_CreatedAt c) Microsecond = code_CreatedAt c)"

definition sq_cursor :: "gotime \<times> string \<Rightarrow> string" where
  "sq_cursor k = sq_encodeCursor \<lparr>cp_createdAt = fst k, cp_id = snd k\<rparr>"

lemma sq_cursor_roundtrip:
  assumes "civil_code c"
  shows "sq_decodeCursor (sq_cursor (listing_key c)) = Inr \<lparr>cp_createdAt = code_CreatedAt c, cp_id = code_ID c\<rparr>"
proof -
  have "base64_DecodeString base64url (sq_cursor (listing_key c)) = Some (Format_ts (code_CreatedAt c) @ [CHR 0x00] @ code_ID c)"
    using assms by (simp add: sq_cursor_def sq_encodeCursor_def listing_key_def fmtTime_text_def base64_roundtrip civil_code_def)
  then show ?thesis
    using assms cut_nul_append [OF Format_ts_no_nul] time_Parse_Format_ts
    by (simp add: sq_decodeCursor_def civil_code_def)
qed

subsection \<open>The order of the rows\<close>

lemma insort_key_same:
  "\<forall>y \<in> set ys. f x \<le> f y \<longleftrightarrow> g x \<le> g y \<Longrightarrow> insort_key f x ys = insort_key g x ys"
  by (induction ys) auto

lemma sort_key_same:
  assumes "\<And>x y. x \<in> set xs \<Longrightarrow> y \<in> set xs \<Longrightarrow> f x \<le> f y \<longleftrightarrow> g x \<le> g y"
  shows "sort_key f xs = sort_key g xs"
  using assms
proof (induction xs)
  case (Cons x xs)
  have "insort_key f x (sort_key g xs) = insort_key g x (sort_key g xs)" by (rule insort_key_same) (simp add: Cons.prems)
  with Cons show ?case by simp
qed simp

lemma text_order:
  assumes "civil_code c" "civil_code d"
  shows "fmtTime_text (code_CreatedAt c) < fmtTime_text (code_CreatedAt d) \<longleftrightarrow> code_CreatedAt c < code_CreatedAt d"
    "fmtTime_text (code_CreatedAt c) = fmtTime_text (code_CreatedAt d) \<longleftrightarrow> code_CreatedAt c = code_CreatedAt d"
  using assms Format_ts_order [of "code_CreatedAt c" "code_CreatedAt d"] Format_ts_same [of "code_CreatedAt c" "code_CreatedAt d"]
  by (simp_all add: fmtTime_text_def civil_code_def)

lemma text_key_order:
  assumes "civil_code c" "civil_code d"
  shows "(fmtTime_text (code_CreatedAt c), code_ID c) \<le> (fmtTime_text (code_CreatedAt d), code_ID d) \<longleftrightarrow> listing_key c \<le> listing_key d"
    "fmtTime_text (code_CreatedAt c) < fmtTime_text (code_CreatedAt d) \<or>
       fmtTime_text (code_CreatedAt c) = fmtTime_text (code_CreatedAt d) \<and> code_ID c < code_ID d \<longleftrightarrow> listing_key c < listing_key d"
  using text_order [OF assms] by (auto simp: listing_key_def less_prod_def less_eq_prod_def)

subsection \<open>The pages\<close>

definition sq_rows :: "code_filter \<Rightarrow> db \<Rightarrow> code list" where
  "sq_rows f s = filter (sq_matches f) (t_codes s)"

definition sq_ready :: "engine \<Rightarrow> db \<Rightarrow> bool" where
  "sq_ready eng s = (outage eng = None \<and> distinct (map code_ID (t_codes s)) \<and> (\<forall>c \<in> set (t_codes s). civil_code c))"

lemma limit_as_nat:
  "(let limit = if cf_Limit f \<le> 0 then defaultListLimit else cf_Limit f;
        out = take (nat (limit + 1)) cs
    in if limit < int (length out)
       then let out = take (nat limit) out; final = out ! (length out - 1)
            in Inr (out, sq_encodeCursor \<lparr>cp_createdAt = code_CreatedAt final, cp_id = code_ID final\<rparr>)
       else Inr (out, '''')) = Inr (cut_page sq_cursor (page_limit f) cs)"
proof -
  define limit where "limit = (if cf_Limit f \<le> 0 then defaultListLimit else cf_Limit f)"
  have n: "limit = int (page_limit f)" "nat (limit + 1) = page_limit f + 1" "nat limit = page_limit f" "0 < page_limit f"
    by (auto simp: limit_def page_limit_def defaultListLimit_def)
  show ?thesis
    unfolding limit_def [symmetric] Let_def cut_page_def n
    by (auto simp: sq_cursor_def listing_key_def min_def)
qed

lemma sq_page:
  assumes "sq_ready eng s"
    and "cf_Cursor f = '''' \<and> p = None \<or> cf_Cursor f \<noteq> '''' \<and> p = Some (listing_key d) \<and> civil_code d \<and>
      sq_decodeCursor (cf_Cursor f) = Inr \<lparr>cp_createdAt = code_CreatedAt d, cp_id = code_ID d\<rparr>"
  shows "sq_ListCodes eng f s = Inr (page_after sq_cursor (page_limit f) p (sq_rows f s))"
proof -
  have up: "outage eng = None" and civ: "\<And>c. c \<in> set (t_codes s) \<Longrightarrow> civil_code c" using assms(1) by (auto simp: sq_ready_def)
  define after where "after = (\<lambda>c. case p of None \<Rightarrow> True | Some k \<Rightarrow> listing_key c < k)"
  let ?rows = "filter (\<lambda>c. sq_matches f c \<and> after c) (t_codes s)"
  have "sort_key (\<lambda>c. (fmtTime_text (code_CreatedAt c), code_ID c)) ?rows = sort_key listing_key ?rows"
    by (rule sort_key_same) (use text_key_order(1) civ in auto)
  moreover have "?rows = filter (older_than p) (sq_rows f s)"
    by (auto simp: sq_rows_def older_than_def after_def intro!: filter_cong)
  ultimately have rows: "rev (sort_key (\<lambda>c. (fmtTime_text (code_CreatedAt c), code_ID c)) ?rows) = newest_first (filter (older_than p) (sq_rows f s))"
    by (simp only: newest_first_def)
  from assms(2) have "sq_ListCodes eng f s = (let limit = if cf_Limit f \<le> 0 then defaultListLimit else cf_Limit f;
        out = take (nat (limit + 1)) (newest_first (filter (older_than p) (sq_rows f s)))
    in if limit < int (length out)
       then let out = take (nat limit) out; final = out ! (length out - 1)
            in Inr (out, sq_encodeCursor \<lparr>cp_createdAt = code_CreatedAt final, cp_id = code_ID final\<rparr>)
       else Inr (out, ''''))"
  proof
    assume "cf_Cursor f = '''' \<and> p = None"
    then show ?thesis unfolding rows [symmetric] by (simp add: sq_ListCodes_def withTx_def up after_def Let_def)
  next
    assume c: "cf_Cursor f \<noteq> '''' \<and> p = Some (listing_key d) \<and> civil_code d \<and>
      sq_decodeCursor (cf_Cursor f) = Inr \<lparr>cp_createdAt = code_CreatedAt d, cp_id = code_ID d\<rparr>"
    then have "filter (\<lambda>c. sq_matches f c \<and> (fmtTime_text (code_CreatedAt c) < fmtTime_text (code_CreatedAt d) \<or>
        fmtTime_text (code_CreatedAt c) = fmtTime_text (code_CreatedAt d) \<and> code_ID c < code_ID d)) (t_codes s) = ?rows"
      using text_key_order(2) civ by (intro filter_cong) (auto simp: after_def)
    with c show ?thesis unfolding rows [symmetric] by (simp add: sq_ListCodes_def withTx_def up Let_def)
  qed
  then show ?thesis unfolding page_after_def limit_as_nat .
qed

interpretation sq_listing: keyset_listing "sq_ready eng" "sq_ListCodes eng" sq_rows sq_cursor
  for eng
proof (unfold_locales, goal_cases)
  case (1 s f)
  then show ?case by (intro sq_page [where d = undefined]) simp_all
next
  case (2 s s' c f)
  then have civ: "civil_code c" by (auto simp: sq_ready_def sq_rows_def)
  moreover have "cf_Cursor f \<noteq> ''''" using 2 by (simp add: sq_cursor_def sq_encodeCursor_def base64_nonempty)
  ultimately show ?case using 2 by (intro sq_page [where d = c]) (simp_all add: sq_cursor_roundtrip)
next
  case (3 k)
  then show ?case by (simp add: sq_cursor_def sq_encodeCursor_def base64_nonempty)
next
  case (4 s f)
  then have "distinct (map code_ID (sq_rows f s))" by (auto simp: sq_ready_def sq_rows_def distinct_map inj_on_def)
  then show ?case by (auto simp: distinct_map listing_key_def inj_on_def)
next
  case (5 f x s)
  then show ?case by (auto simp: sq_rows_def sq_matches_def intro!: filter_cong)
qed

subsection \<open>Properties\<close>

lemma reachable_ready:
  "sq_reachable s \<Longrightarrow> outage eng = None \<Longrightarrow> \<forall>c \<in> set (t_codes s). civil_years (code_CreatedAt c) \<Longrightarrow> sq_ready eng s"
  using reachable_stamped [of s] reachable_inv [of s] by (auto simp: sq_ready_def civil_code_def stamped_def sq_inv_def)

text \<open>C9. Following the cursors of the code listing, with the database changing between the pages
  in any way, gives the codes newest first and none twice, each a live code of the caller that the
  filter selects in one of the databases; when the walk has come to the page without a cursor, no
  code that was there in all of them is missing. On a database that stays as it is the walk ends,
  after at most one page more than there are codes, with exactly the selected codes.\<close>

theorem listing_neither_skips_nor_repeats:
  assumes "outage eng = None" "cf_Cursor f = ''''"
    and "\<forall>s \<in> set ss. sq_reachable s \<and> (\<forall>c \<in> set (t_codes s). civil_years (code_CreatedAt c))"
  shows "\<exists>cs fin. list_walk (sq_ListCodes eng) f ss = Inr (cs, fin) \<and>
      sorted_wrt (\<lambda>c d. (code_CreatedAt d, code_ID d) < (code_CreatedAt c, code_ID c)) cs \<and>
      (\<forall>c \<in> set cs. \<exists>s \<in> set ss. c \<in> set (t_codes s) \<and> sq_matches f c) \<and>
      (fin \<longrightarrow> (\<forall>i t. (\<forall>s \<in> set ss. \<exists>c \<in> set (t_codes s). sq_matches f c \<and> code_ID c = i \<and> code_CreatedAt c = t) \<longrightarrow>
         i \<in> code_ID ` set cs)) \<and>
      (\<forall>s. ss = replicate (length (t_codes s) + 1) s \<longrightarrow> fin \<and> set cs = {c \<in> set (t_codes s). sq_matches f c})"
proof -
  have ready: "sq_ready eng s" if "s \<in> set ss" for s using that assms reachable_ready by blast
  have start: "sq_listing.starts_at eng f None" using assms(2) by (simp add: sq_listing.starts_at_def)
  obtain cs fin where w: "list_walk (sq_ListCodes eng) f ss = Inr (cs, fin)" "descending cs"
      "\<And>c. c \<in> set cs \<Longrightarrow> \<exists>s \<in> set ss. c \<in> set (sq_rows f s)"
      "\<And>k. fin \<Longrightarrow> \<forall>s \<in> set ss. \<exists>c \<in> set (sq_rows f s). listing_key c = k \<Longrightarrow> k \<in> listing_key ` set cs"
    using sq_listing.walk_sound [of ss eng f None, OF ready start] by (auto simp: older_than_def)
  have missing: "i \<in> code_ID ` set cs"
    if "fin" "\<forall>s \<in> set ss. \<exists>c \<in> set (t_codes s). sq_matches f c \<and> code_ID c = i \<and> code_CreatedAt c = t" for i t
    using w(4) [of "(t, i)"] that by (fastforce simp: sq_rows_def listing_key_def)
  have "fin \<and> set cs = {c \<in> set (t_codes s). sq_matches f c}" if s: "ss = replicate (length (t_codes s) + 1) s" for s
  proof -
    have "s \<in> set ss" using s by simp
    then have "\<exists>cs. list_walk (sq_ListCodes eng) f ss = Inr (cs, True)"
      using sq_listing.walk_ends [OF ready start, of s "length (t_codes s) + 1"] unfolding s [symmetric]
      by (simp add: older_than_def sq_rows_def le_imp_less_Suc)
    then have fin: fin using w(1) by auto
    have "set cs \<subseteq> {c \<in> set (t_codes s). sq_matches f c}" using w(3) by (subst (asm) s) (auto simp: sq_rows_def)
    moreover have "c \<in> set cs" if c: "c \<in> set (t_codes s)" "sq_matches f c" for c
    proof -
      have "\<forall>s' \<in> set ss. \<exists>d \<in> set (sq_rows f s'). listing_key d = listing_key c" using c by (subst s) (auto simp: sq_rows_def)
      then obtain d where d: "d \<in> set cs" "listing_key d = listing_key c" using w(4) [OF fin, of "listing_key c"] by force
      then have "d \<in> set (t_codes s)" using w(3) [OF d(1)] by (subst (asm) s) (auto simp: sq_rows_def)
      then have "d = c" using d(2) c(1) ready [OF \<open>s \<in> set ss\<close>] by (auto simp: sq_ready_def listing_key_def distinct_map inj_on_def)
      then show ?thesis using d(1) by simp
    qed
    ultimately show ?thesis using fin by auto
  qed
  then show ?thesis using w(1-3) missing by (intro exI [of _ cs] exI [of _ fin]) (auto simp: descending_def listing_key_def sq_rows_def)
qed

definition busy_state :: db where
  "busy_state = fold (run_store (sqlite_ops sample_engine) sample_env)
     [OpCreateUser sample_user, OpCode (OpCreate [sample_code ''cod_1'' ''menu'', sample_code ''cod_2'' ''lunch'', sample_code ''cod_3'' ''dinner''])] empty_db"

definition sample_filter :: code_filter where
  "sample_filter = \<lparr>cf_UserID = ''usr_1'', CreatedAfter = None, CreatedBefore = None, cf_Destination = ''EXAMPLE'', cf_Limit = 2, cf_Cursor = ''''\<rparr>"

theorem listing_neither_skips_nor_repeats_witness:
  "\<exists>cs. list_walk (sq_ListCodes sample_engine) sample_filter (replicate 4 busy_state) = Inr (cs, True) \<and>
     code_ID ` set cs = {''cod_1'', ''cod_2'', ''cod_3''}"
proof -
  have n: "length (t_codes busy_state) + 1 = 4" "\<forall>c \<in> set (t_codes busy_state). civil_years (code_CreatedAt c)"
    "code_ID ` {c \<in> set (t_codes busy_state). sq_matches sample_filter c} = {''cod_1'', ''cod_2'', ''cod_3''}"
    by code_simp+
  have r: "sq_reachable busy_state" unfolding busy_state_def by (rule fold_reachable [OF sq_reachable.start])
  obtain cs fin where w: "list_walk (sq_ListCodes sample_engine) sample_filter (replicate 4 busy_state) = Inr (cs, fin)"
    and e: "\<forall>s. replicate 4 busy_state = replicate (length (t_codes s) + 1) s \<longrightarrow> fin \<and> set cs = {c \<in> set (t_codes s). sq_matches sample_filter c}"
    using listing_neither_skips_nor_repeats [of sample_engine sample_filter "replicate 4 busy_state"] n(2) r
    by (simp add: sample_filter_def sample_engine_def) blast
  have "fin \<and> set cs = {c \<in> set (t_codes busy_state). sq_matches sample_filter c}" by (rule e [rule_format]) (simp only: n(1))
  then show ?thesis using w n(3) by auto
qed

text \<open>The bound of a filter is compared as text like the rows: a bound after the year 9999, which
  \<open>time.Parse\<close> can return for a text with an offset, comes before every text of four digits.\<close>

lemma Format_ts_year: "\<exists>r. Format_ts t = format_year (year_of_day (t div Day)) @ r"
  by (simp add: Format_ts_def format_seconds_def clock_date date_of_day_def Let_def split: prod.splits)

lemma sample_years:
  "format_year 10000 = ''10000''" "format_year 2025 = ''2025''"
  "year_of_day (63900000000000000000 div Day) = 2025" "year_of_day (315537901199000000000 div Day) = 10000"
proof -
  have "digits 10000 = ''10000''" "digits 2025 = ''2025''"
    by (simp_all add: digits.simps [of 10000] digits.simps [of 1000] digits.simps [of 100] digits.simps [of 10] digits.simps [of "Suc 0"]
        digits.simps [of 0] digits.simps [of 2025] digits.simps [of 202] digits.simps [of 20] digits.simps [of 2] char_of_def bit_0)
  then show "format_year 10000 = ''10000''" "format_year 2025 = ''2025''" by (simp_all add: format_year_def pad_def)
qed (simp_all add: year_of_day_def duration_defs)

lemma late_bound_hides_codes:
  "time_Parse ''9999-12-31T23:59:59-01:00'' = Some 315537901199000000000 \<and>
   \<not> sq_matches (f\<lparr>CreatedBefore := Some 315537901199000000000\<rparr>) (c\<lparr>code_CreatedAt := 63900000000000000000\<rparr>)"
proof
  show "time_Parse ''9999-12-31T23:59:59-01:00'' = Some 315537901199000000000"
    by (simp add: time_Parse_def parse_year_def parse_nanos_def parse_zone_def scan_literal_def HasPrefix_def in_range_def
        is_digit_def decimal_def valid_date_def daysIn_def is_leap_def time_of_clock_def days_of_date_def days_before_year_def
        days_before_month_def upto.simps duration_defs)
  obtain r r' where "Format_ts 63900000000000000000 = ''2025'' @ r" "Format_ts 315537901199000000000 = ''10000'' @ r'"
    using Format_ts_year [of 63900000000000000000] Format_ts_year [of 315537901199000000000] unfolding sample_years by blast
  moreover have "Truncate 63900000000000000000 Microsecond = 63900000000000000000"
    "Truncate 315537901199000000000 Microsecond = 315537901199000000000" by (simp_all add: Truncate_def Microsecond_def)
  ultimately have "\<not> fmtTime_text 63900000000000000000 < fmtTime_text 315537901199000000000"
    by (simp add: fmtTime_text_def less_char_def)
  then show "\<not> sq_matches (f\<lparr>CreatedBefore := Some 315537901199000000000\<rparr>) (c\<lparr>code_CreatedAt := 63900000000000000000\<rparr>)"
    by (simp add: sq_matches_def)
qed

subsection \<open>The in-memory driver\<close>

definition mem_rows :: "code_filter \<Rightarrow> mem_store \<Rightarrow> code list" where
  "mem_rows f m = filter (mem_matches f) (map snd (m_codes m))"

definition mem_cursor :: "gotime \<times> string \<Rightarrow> string" where
  "mem_cursor k = mem_encodeCursor \<lparr>cp_createdAt = fst k, cp_id = snd k\<rparr>"

definition mem_ready :: "ctx \<Rightarrow> mem_store \<Rightarrow> bool" where
  "mem_ready ctx m = (ctx = None \<and> distinct (map fst (m_codes m)) \<and>
     (\<forall>(i, c) \<in> set (m_codes m). code_ID c = i \<and> i \<noteq> '''' \<and> civil_years (code_CreatedAt c)))"

lemma mem_cursor_roundtrip:
  assumes "civil_years (code_CreatedAt c)" "code_ID c \<noteq> ''''"
  shows "mem_decodeCursor (mem_cursor (listing_key c)) = Inr \<lparr>cp_createdAt = code_CreatedAt c, cp_id = code_ID c\<rparr>"
  using assms cut_nul_append [OF Format_nano_no_nul] time_Parse_Format_nano
  by (simp add: mem_cursor_def mem_encodeCursor_def mem_decodeCursor_def listing_key_def base64_roundtrip)

lemma mem_page:
  assumes "mem_ready ctx m"
    and "cf_Cursor f = '''' \<and> p = None \<or> cf_Cursor f \<noteq> '''' \<and> p = Some (listing_key d) \<and>
      mem_decodeCursor (cf_Cursor f) = Inr \<lparr>cp_createdAt = code_CreatedAt d, cp_id = code_ID d\<rparr>"
  shows "mem_ListCodes ctx f m = Inr (page_after mem_cursor (page_limit f) p (mem_rows f m))"
proof -
  define limit where "limit = (if cf_Limit f \<le> 0 then defaultListLimit else cf_Limit f)"
  have n: "limit = int (page_limit f)" "nat limit = page_limit f" "0 < page_limit f"
    by (auto simp: limit_def page_limit_def defaultListLimit_def)
  have before: "beforeInListing c \<lparr>cp_createdAt = code_CreatedAt d, cp_id = code_ID d\<rparr> \<longleftrightarrow> listing_key c < listing_key d" for c
    by (auto simp: beforeInListing_def listing_key_def)
  have key: "(\<lambda>c. (code_CreatedAt c, code_ID c)) = listing_key" by (simp add: listing_key_def fun_eq_iff)
  define rows where "rows = newest_first (filter (older_than p) (mem_rows f m))"
  have "mem_ListCodes ctx f m = (if limit < int (length rows)
      then let rows = take (nat limit) rows; final = rows ! (length rows - 1)
           in Inr (rows, mem_encodeCursor \<lparr>cp_createdAt = code_CreatedAt final, cp_id = code_ID final\<rparr>)
      else Inr (rows, ''''))"
    using assms unfolding rows_def newest_first_def mem_rows_def filter_filter limit_def mem_ListCodes_def with_ctx_def mem_ready_def key
    by (auto simp: older_than_def before Let_def conj_commute)
  then show ?thesis
    unfolding page_after_def rows_def [symmetric] cut_page_def Let_def n
    by (auto simp: mem_cursor_def listing_key_def min_def)
qed

interpretation mem_listing: keyset_listing "mem_ready ctx" "mem_ListCodes ctx" mem_rows mem_cursor
  for ctx
proof (unfold_locales, goal_cases)
  case (1 s f)
  then show ?case by (intro mem_page [where d = undefined]) simp_all
next
  case (2 s s' c f)
  then have "civil_years (code_CreatedAt c)" "code_ID c \<noteq> ''''" by (auto simp: mem_ready_def mem_rows_def)
  moreover have "cf_Cursor f \<noteq> ''''" using 2 by (simp add: mem_cursor_def mem_encodeCursor_def base64_nonempty)
  ultimately show ?case using 2 by (intro mem_page [where d = c]) (simp_all add: mem_cursor_roundtrip)
next
  case (3 k)
  then show ?case by (simp add: mem_cursor_def mem_encodeCursor_def base64_nonempty)
next
  case (4 m f)
  then have "map code_ID (map snd (m_codes m)) = map fst (m_codes m)" by (auto simp: mem_ready_def)
  then have "distinct (map code_ID (map snd (m_codes m)))" using 4 by (simp only: mem_ready_def)
  then have "distinct (map code_ID (mem_rows f m))" unfolding mem_rows_def by (rule distinct_map_filter)
  then show ?case by (auto simp: distinct_map listing_key_def inj_on_def)
next
  case (5 f x s)
  then show ?case by (auto simp: mem_rows_def mem_matches_def intro!: filter_cong)
qed

end
