(* ===== verification/Recorder.thy ===== *)
theory Recorder
  imports Sqlite_Props "HOL-Library.Multiset"
begin

text \<open>
  The scan pipeline of \<^verbatim>\<open>src/internal/analytics\<close>: the recorder (\<open>recorder.go\<close>) with its bounded
  channel and its workers as a step relation, and the retention loop (\<open>retention.go\<close>). The
  recorder's state has, beside the fields of the code, two ghost fields: the events that were
  stored and the events that were dropped.
\<close>

subsection \<open>Options\<close>

record options =
  BufferSize :: int
  BatchSize :: int
  FlushInterval :: duration
  Workers :: int
  FlushTimeout :: duration

definition withDefaults :: "options \<Rightarrow> options" where
  "withDefaults o1 =
    (let o1 = (if BufferSize o1 \<le> 0 then o1\<lparr>BufferSize := 10000\<rparr> else o1);
         o1 = (if BatchSize o1 \<le> 0 then o1\<lparr>BatchSize := 200\<rparr> else o1);
         o1 = (if FlushInterval o1 \<le> 0 then o1\<lparr>FlushInterval := 500000000\<rparr> else o1);
         o1 = (if Workers o1 \<le> 0 then o1\<lparr>Workers := 2\<rparr> else o1)
     in (if FlushTimeout o1 \<le> 0 then o1\<lparr>FlushTimeout := 10 * Second\<rparr> else o1))"

subsection \<open>The recorder\<close>

text \<open>A worker is its batch, \<open>None\<close> once it has returned. \<open>rc_saved\<close> and \<open>rc_lost\<close> are ghosts; the drop
  counter of the code is \<open>rc_dropped\<close>.\<close>

record 's recorder =
  rc_opts :: options
  rc_ch :: "scan_event list"
  rc_closed :: bool
  rc_workers :: "scan_event list option list"
  rc_inflight :: int
  rc_dropped :: nat
  rc_store :: 's
  rc_saved :: "scan_event list"
  rc_lost :: "scan_event list"

definition NewRecorder :: "'s \<Rightarrow> options \<Rightarrow> 's recorder" where
  "NewRecorder s o1 = (let o1 = withDefaults o1 in
     \<lparr>rc_opts = o1, rc_ch = [], rc_closed = False, rc_workers = replicate (nat (Workers o1)) (Some []),
      rc_inflight = 0, rc_dropped = 0, rc_store = s, rc_saved = [], rc_lost = []\<rparr>)"

definition drop_events :: "scan_event list \<Rightarrow> 's recorder \<Rightarrow> 's recorder" where
  "drop_events evs r = r\<lparr>rc_dropped := rc_dropped r + length evs, rc_lost := rc_lost r @ evs\<rparr>"

definition Record :: "scan_event \<Rightarrow> 's recorder \<Rightarrow> 's recorder" where
  "Record ev r =
    (if rc_closed r then drop_events [ev] r
     else if int (length (rc_ch r)) < BufferSize (rc_opts r) then r\<lparr>rc_ch := rc_ch r @ [ev]\<rparr>
     else drop_events [ev] r)"

definition Close :: "'s recorder \<Rightarrow> 's recorder" where
  "Close r = r\<lparr>rc_closed := True\<rparr>"

definition Unflushed :: "'s recorder \<Rightarrow> int" where
  "Unflushed r = int (length (rc_ch r)) + rc_inflight r"

definition flush :: "'s store_ops \<Rightarrow> scan_event list \<Rightarrow> 's recorder \<Rightarrow> 's recorder" where
  "flush st batch r =
    (if batch = [] then r
     else let r' = (case so_InsertScanBatch st \<lparr>Events = batch, Rollups = BuildRollups batch\<rparr> (rc_store r) of
            Inl err \<Rightarrow> drop_events batch r
          | Inr s' \<Rightarrow> r\<lparr>rc_store := s', rc_saved := rc_saved r @ batch\<rparr>)
          in r'\<lparr>rc_inflight := rc_inflight r' - int (length batch)\<rparr>)"

text \<open>The branches of a worker's \<open>select\<close>: an event arrives, the channel is closed and empty, the
  ticker fires.\<close>

definition worker_recv :: "'s store_ops \<Rightarrow> nat \<Rightarrow> scan_event list \<Rightarrow> scan_event \<Rightarrow> 's recorder \<Rightarrow> 's recorder" where
  "worker_recv st i batch ev r =
    (let r = r\<lparr>rc_ch := tl (rc_ch r), rc_inflight := rc_inflight r + 1\<rparr>;
         batch = batch @ [ev]
     in if BatchSize (rc_opts r) \<le> int (length batch)
        then (flush st batch r)\<lparr>rc_workers := (rc_workers r)[i := Some []]\<rparr>
        else r\<lparr>rc_workers := (rc_workers r)[i := Some batch]\<rparr>)"

definition worker_exit :: "'s store_ops \<Rightarrow> nat \<Rightarrow> scan_event list \<Rightarrow> 's recorder \<Rightarrow> 's recorder" where
  "worker_exit st i batch r = (flush st batch r)\<lparr>rc_workers := (rc_workers r)[i := None]\<rparr>"

definition worker_tick :: "'s store_ops \<Rightarrow> nat \<Rightarrow> scan_event list \<Rightarrow> 's recorder \<Rightarrow> 's recorder" where
  "worker_tick st i batch r =
    (if batch = [] then r else (flush st batch r)\<lparr>rc_workers := (rc_workers r)[i := Some []]\<rparr>)"

text \<open>The steps of a recorder; the label of a step is the event it was given, if any. The store may
  answer differently at each step (\<open>st\<close>).\<close>

inductive rec_step :: "'s recorder \<Rightarrow> scan_event option \<Rightarrow> 's recorder \<Rightarrow> bool" where
  step_Record: "rec_step r (Some ev) (Record ev r)"
| step_Close: "rec_step r None (Close r)"
| step_recv: "i < length (rc_workers r) \<Longrightarrow> rc_workers r ! i = Some batch \<Longrightarrow> rc_ch r = ev # rest \<Longrightarrow>
    rec_step r None (worker_recv st i batch ev r)"
| step_exit: "i < length (rc_workers r) \<Longrightarrow> rc_workers r ! i = Some batch \<Longrightarrow> rc_ch r = [] \<Longrightarrow> rc_closed r \<Longrightarrow>
    rec_step r None (worker_exit st i batch r)"
| step_tick: "i < length (rc_workers r) \<Longrightarrow> rc_workers r ! i = Some batch \<Longrightarrow>
    rec_step r None (worker_tick st i batch r)"

inductive_cases rec_step_cases: "rec_step r l r'"

inductive rec_run :: "'s recorder \<Rightarrow> scan_event list \<Rightarrow> 's recorder \<Rightarrow> bool" where
  run_refl: "rec_run r [] r"
| run_step: "rec_run r evs r' \<Longrightarrow> rec_step r' l r'' \<Longrightarrow> rec_run r (evs @ (case l of None \<Rightarrow> [] | Some ev \<Rightarrow> [ev])) r''"

subsection \<open>Invariants\<close>

definition held_by :: "scan_event list option \<Rightarrow> scan_event list" where
  "held_by w = (case w of None \<Rightarrow> [] | Some b \<Rightarrow> b)"

definition held_events :: "'s recorder \<Rightarrow> scan_event list" where
  "held_events r = concat (map held_by (rc_workers r))"

text \<open>Every event given to the recorder is in exactly one place.\<close>

definition accounted :: "scan_event list \<Rightarrow> 's recorder \<Rightarrow> bool" where
  "accounted evs r = (mset evs = mset (rc_saved r) + mset (rc_lost r) + mset (rc_ch r) + mset (held_events r) \<and>
     rc_dropped r = length (rc_lost r) \<and> rc_inflight r = int (length (held_events r)))"

definition bounded_rec :: "'s recorder \<Rightarrow> bool" where
  "bounded_rec r = (0 < BufferSize (rc_opts r) \<and> 0 < BatchSize (rc_opts r) \<and> int (length (rc_ch r)) \<le> BufferSize (rc_opts r) \<and>
     (\<forall>w \<in> set (rc_workers r). int (length (held_by w)) < BatchSize (rc_opts r)))"

lemma mset_concat_update:
  assumes "i < length ws" "ws ! i = Some b"
  shows "mset (concat (map held_by (ws[i := w]))) + mset b = mset (concat (map held_by ws)) + mset (held_by w)"
  using assms
proof (induction ws arbitrary: i)
  case (Cons x ws)
  then show ?case by (cases i) (auto simp: held_by_def ac_simps)
qed simp

lemma length_concat_update:
  assumes "i < length ws" "ws ! i = Some b"
  shows "length (concat (map held_by (ws[i := w]))) + length b = length (concat (map held_by ws)) + length (held_by w)"
  using arg_cong [OF mset_concat_update [OF assms, of w], of size] by simp

text \<open>Flushing the batch a worker holds and leaving it with another.\<close>

lemma flush_fields:
  "rc_ch (flush st b r) = rc_ch r" "rc_closed (flush st b r) = rc_closed r" "rc_workers (flush st b r) = rc_workers r"
  "rc_opts (flush st b r) = rc_opts r" "rc_inflight (flush st b r) = rc_inflight r - int (length b)"
  by (auto simp: flush_def drop_events_def Let_def split: sum.splits)

lemma flush_accounts:
  "mset (rc_saved (flush st b r)) + mset (rc_lost (flush st b r)) = mset (rc_saved r) + mset (rc_lost r) + mset b"
  "rc_dropped r = length (rc_lost r) \<Longrightarrow> rc_dropped (flush st b r) = length (rc_lost (flush st b r))"
  by (auto simp: flush_def drop_events_def Let_def ac_simps split: sum.splits)

lemma accounted_move:
  assumes "accounted evs r" "mset (rc_saved r') + mset (rc_lost r') = mset (rc_saved r) + mset (rc_lost r) + mset out"
    and "mset (held_events r) + mset (rc_ch r) = mset (held_events r') + mset out + mset (rc_ch r')"
    and "rc_dropped r' = length (rc_lost r')" "rc_inflight r' = int (length (held_events r'))"
  shows "accounted evs r'"
proof -
  have "mset evs = (mset (rc_saved r) + mset (rc_lost r)) + (mset (held_events r) + mset (rc_ch r))"
    using assms(1) by (simp add: accounted_def ac_simps)
  also have "\<dots> = (mset (rc_saved r') + mset (rc_lost r')) + (mset (held_events r') + mset (rc_ch r'))"
    unfolding assms(2,3) by (simp add: ac_simps)
  finally show ?thesis using assms(4,5) by (simp add: accounted_def ac_simps)
qed

text \<open>Worker \<open>i\<close> flushes \<open>batch\<close> and is left with \<open>w\<close>.\<close>

lemma accounted_flush:
  assumes "accounted evs r" "i < length (rc_workers r)" "rc_workers r ! i = Some batch" "held_by w = []"
  shows "accounted evs ((flush st batch r)\<lparr>rc_workers := (rc_workers r)[i := w]\<rparr>)"
proof (rule accounted_move [OF assms(1), where out = batch])
  note up = mset_concat_update [OF assms(2,3), of w] length_concat_update [OF assms(2,3), of w]
  have d: "rc_dropped r = length (rc_lost r)" "rc_inflight r = int (length (held_events r))"
    using assms(1) by (auto simp: accounted_def)
  let ?r = "(flush st batch r)\<lparr>rc_workers := (rc_workers r)[i := w]\<rparr>"
  show "mset (rc_saved ?r) + mset (rc_lost ?r) = mset (rc_saved r) + mset (rc_lost r) + mset batch"
    using flush_accounts(1) [of st batch r] by simp
  show "mset (held_events r) + mset (rc_ch r) = mset (held_events ?r) + mset batch + mset (rc_ch ?r)"
    using up(1) assms(4) by (simp add: held_events_def flush_fields)
  show "rc_dropped ?r = length (rc_lost ?r)" using flush_accounts(2) [of r st batch] d(1) by simp
  show "rc_inflight ?r = int (length (held_events ?r))"
    using up(2) assms(4) d(2) by (simp add: held_events_def flush_fields)
qed

text \<open>Worker \<open>i\<close> takes an event off the channel.\<close>

definition take_event :: "nat \<Rightarrow> scan_event list \<Rightarrow> scan_event \<Rightarrow> 's recorder \<Rightarrow> 's recorder" where
  "take_event i batch ev r =
    r\<lparr>rc_ch := tl (rc_ch r), rc_inflight := rc_inflight r + 1, rc_workers := (rc_workers r)[i := Some (batch @ [ev])]\<rparr>"

lemma accounted_take:
  assumes "accounted evs r" "i < length (rc_workers r)" "rc_workers r ! i = Some batch" "rc_ch r = ev # rest"
  shows "accounted evs (take_event i batch ev r)"
proof (rule accounted_move [OF assms(1), where out = "[]"])
  note up = mset_concat_update [OF assms(2,3), of "Some (batch @ [ev])"] length_concat_update [OF assms(2,3), of "Some (batch @ [ev])"]
  have d: "rc_dropped r = length (rc_lost r)" "rc_inflight r = int (length (held_events r))"
    using assms(1) by (auto simp: accounted_def)
  have "mset (concat (map held_by ((rc_workers r)[i := Some (batch @ [ev])]))) = mset (concat (map held_by (rc_workers r))) + {#ev#}"
    using up(1) by (simp add: held_by_def)
  then show "mset (held_events r) + mset (rc_ch r) = mset (held_events (take_event i batch ev r)) + mset [] + mset (rc_ch (take_event i batch ev r))"
    using assms(4) by (simp add: held_events_def take_event_def)
  show "rc_inflight (take_event i batch ev r) = int (length (held_events (take_event i batch ev r)))"
    using up(2) d(2) by (simp add: held_events_def take_event_def held_by_def)
qed (use assms(1) in \<open>simp_all add: take_event_def accounted_def\<close>)

lemma worker_recv_alt:
  "i < length (rc_workers r) \<Longrightarrow> worker_recv st i batch ev r =
    (let q = take_event i batch ev r in
     if BatchSize (rc_opts r) \<le> int (length (batch @ [ev]))
     then (flush st (batch @ [ev]) q)\<lparr>rc_workers := (rc_workers q)[i := Some []]\<rparr> else q)"
  by (auto simp: worker_recv_def take_event_def flush_def drop_events_def Let_def split: sum.splits)

lemma step_accounted:
  assumes "rec_step r l r'" "accounted evs r"
  shows "accounted (evs @ (case l of None \<Rightarrow> [] | Some ev \<Rightarrow> [ev])) r'"
  using assms(1)
proof cases
  case (step_Record ev)
  then show ?thesis using assms(2) by (auto simp: Record_def drop_events_def accounted_def held_events_def)
next
  case step_Close
  then show ?thesis using assms(2) by (auto simp: Close_def accounted_def held_events_def)
next
  case (step_recv i batch ev rest st)
  note q = accounted_take [OF assms(2) step_recv(3,4,5)]
  have "i < length (rc_workers (take_event i batch ev r))" "rc_workers (take_event i batch ev r) ! i = Some (batch @ [ev])"
    using step_recv(3) by (simp_all add: take_event_def)
  from accounted_flush [OF q this, of "Some []" st] q show ?thesis
    unfolding step_recv(1,2) worker_recv_alt [OF step_recv(3)] by (simp add: Let_def held_by_def)
next
  case (step_exit i batch st)
  show ?thesis unfolding step_exit(1,2) worker_exit_def
    using accounted_flush [OF assms(2) step_exit(3,4), of None] by (simp add: held_by_def)
next
  case (step_tick i batch st)
  show ?thesis unfolding step_tick(1,2) worker_tick_def
    using accounted_flush [OF assms(2) step_tick(3,4), of "Some []"] assms(2) by (simp add: held_by_def)
qed

lemma accounted_length:
  assumes "accounted evs r"
  shows "length evs = length (rc_saved r) + rc_dropped r + length (rc_ch r) + length (held_events r)"
proof -
  have "mset evs = mset (rc_saved r) + mset (rc_lost r) + mset (rc_ch r) + mset (held_events r)" "rc_dropped r = length (rc_lost r)"
    using assms by (auto simp: accounted_def)
  from arg_cong [OF this(1), of size] this(2) show ?thesis by (simp only: size_union size_mset)
qed

lemma run_accounted: "rec_run r evs r' \<Longrightarrow> accounted [] r \<Longrightarrow> accounted evs r'"
  by (induction rule: rec_run.induct) (auto dest: step_accounted)

lemma step_bounded:
  assumes "rec_step r l r'" "bounded_rec r"
  shows "bounded_rec r' \<and> rc_opts r' = rc_opts r"
  using assms(1)
proof cases
  case (step_Record ev)
  then show ?thesis using assms(2) by (auto simp: Record_def drop_events_def bounded_rec_def)
next
  case step_Close
  then show ?thesis using assms(2) by (auto simp: Close_def bounded_rec_def)
next
  case (step_recv i batch ev rest st)
  have "set ((rc_workers r)[i := w]) \<subseteq> insert w (set (rc_workers r))" for w by (rule set_update_subset_insert)
  then show ?thesis using assms(2) step_recv
    by (auto simp: worker_recv_def Let_def bounded_rec_def flush_fields held_by_def dest!: subsetD [OF set_update_subset_insert])
next
  case (step_exit i batch st)
  then show ?thesis using assms(2)
    by (auto simp: worker_exit_def bounded_rec_def flush_fields held_by_def dest!: subsetD [OF set_update_subset_insert])
next
  case (step_tick i batch st)
  then show ?thesis using assms(2)
    by (auto simp: worker_tick_def bounded_rec_def flush_fields held_by_def dest!: subsetD [OF set_update_subset_insert])
qed

lemma run_bounded: "rec_run r evs r' \<Longrightarrow> bounded_rec r \<Longrightarrow> bounded_rec r' \<and> rc_opts r' = rc_opts r"
  by (induction rule: rec_run.induct) (auto dest: step_bounded)

lemma new_recorder: "accounted [] (NewRecorder s o1)" "bounded_rec (NewRecorder s o1)"
  by (auto simp: NewRecorder_def accounted_def held_events_def held_by_def bounded_rec_def withDefaults_def Let_def)

subsection \<open>Draining after a close\<close>

text \<open>The steps by which workers empty the channel and return.\<close>

inductive drain_step :: "'s recorder \<Rightarrow> 's recorder \<Rightarrow> bool" where
  drain_recv: "i < length (rc_workers r) \<Longrightarrow> rc_workers r ! i = Some batch \<Longrightarrow> rc_ch r = ev # rest \<Longrightarrow>
    drain_step r (worker_recv st i batch ev r)"
| drain_exit: "i < length (rc_workers r) \<Longrightarrow> rc_workers r ! i = Some batch \<Longrightarrow> rc_ch r = [] \<Longrightarrow> rc_closed r \<Longrightarrow>
    drain_step r (worker_exit st i batch r)"

definition live_workers :: "'s recorder \<Rightarrow> nat" where
  "live_workers r = length (filter (\<lambda>w. w \<noteq> None) (rc_workers r))"

definition drain_left :: "'s recorder \<Rightarrow> nat" where
  "drain_left r = length (rc_ch r) + live_workers r"

text \<open>A worker returns only when the channel is closed and empty, and it stays so.\<close>

definition returned_ok :: "'s recorder \<Rightarrow> bool" where
  "returned_ok r = (rc_workers r \<noteq> [] \<and> (None \<in> set (rc_workers r) \<longrightarrow> rc_closed r \<and> rc_ch r = []))"

lemma live_update:
  "i < length ws \<Longrightarrow> ws ! i = Some b \<Longrightarrow> length (filter (\<lambda>w. w \<noteq> None) (ws[i := w])) + 1 =
    length (filter (\<lambda>w. w \<noteq> None) ws) + (if w = None then 0 else 1)"
proof (induction ws arbitrary: i)
  case (Cons x ws)
  then show ?case by (cases i) auto
qed simp

lemma drain_decreases: "drain_step r r' \<Longrightarrow> drain_left r' < drain_left r"
proof (induction rule: drain_step.induct)
  case (drain_recv i r batch ev rest st)
  then show ?case using live_update [OF drain_recv(1,2), of "Some []"] live_update [OF drain_recv(1,2), of "Some (batch @ [ev])"]
    by (auto simp: drain_left_def live_workers_def worker_recv_def Let_def flush_fields)
next
  case (drain_exit i r batch st)
  then show ?case using live_update [OF drain_exit(1,2), of None]
    by (simp add: drain_left_def live_workers_def worker_exit_def flush_fields)
qed

lemma step_returned_ok:
  assumes "rec_step r l r'" "returned_ok r"
  shows "returned_ok r'"
  using assms(1)
proof cases
  case (step_Record ev)
  then show ?thesis using assms(2) by (auto simp: Record_def drop_events_def returned_ok_def)
next
  case step_Close
  then show ?thesis using assms(2) by (auto simp: Close_def returned_ok_def)
next
  case (step_recv i batch ev rest st)
  then have "None \<notin> set (rc_workers r)" using assms(2) by (auto simp: returned_ok_def)
  then have "None \<notin> set ((rc_workers r)[i := Some w])" for w using set_update_subset_insert [of "rc_workers r" i "Some w"] by auto
  then show ?thesis using assms(2) step_recv
    by (auto simp: worker_recv_def Let_def returned_ok_def flush_fields)
next
  case (step_exit i batch st)
  then show ?thesis using assms(2) by (auto simp: worker_exit_def returned_ok_def flush_fields)
next
  case (step_tick i batch st)
  then show ?thesis using assms(2)
    by (auto simp: worker_tick_def returned_ok_def flush_fields dest!: subsetD [OF set_update_subset_insert])
qed

lemma run_returned_ok: "rec_run r evs r' \<Longrightarrow> returned_ok r \<Longrightarrow> returned_ok r'"
  by (induction rule: rec_run.induct) (auto dest: step_returned_ok)

lemma new_returned_ok: "returned_ok (NewRecorder s o1)"
  by (auto simp: NewRecorder_def returned_ok_def withDefaults_def Let_def)

lemma no_live: "live_workers r = 0 \<Longrightarrow> \<forall>w \<in> set (rc_workers r). w = None"
  by (auto simp: live_workers_def filter_empty_conv)

text \<open>C35. No scan is lost silently: whatever events arrive, whenever the workers run, the ticker
  fires, the store fails or the recorder is closed, every event given to \<open>Record\<close> is exactly
  once in one of four places: stored, counted as dropped, waiting in the channel, or held by a
  worker. The number of events given is the number stored plus the drop counter plus
  \<open>Unflushed\<close>, the channel never exceeds the buffer size and no worker holds a full batch.\<close>

theorem recorder_accounts_for_every_scan:
  assumes "rec_run (NewRecorder s o1) evs r"
  shows "mset evs = mset (rc_saved r) + mset (rc_lost r) + mset (rc_ch r) + mset (held_events r) \<and>
    int (length evs) = int (length (rc_saved r)) + int (rc_dropped r) + Unflushed r \<and>
    int (length (rc_ch r)) \<le> BufferSize (withDefaults o1) \<and>
    (\<forall>w \<in> set (rc_workers r). int (length (held_by w)) < BatchSize (withDefaults o1))"
proof -
  have a: "accounted evs r" using run_accounted [OF assms new_recorder(1)] .
  then have m: "mset evs = mset (rc_saved r) + mset (rc_lost r) + mset (rc_ch r) + mset (held_events r)" by (simp add: accounted_def)
  have "rc_opts (NewRecorder s o1) = withDefaults o1" by (simp add: NewRecorder_def Let_def)
  then have b: "bounded_rec r" "rc_opts r = withDefaults o1" using run_bounded [OF assms new_recorder(2)] by auto
  show ?thesis using a b m accounted_length [OF a] by (auto simp: accounted_def bounded_rec_def Unflushed_def)
qed

definition sample_options :: options where
  "sample_options = \<lparr>BufferSize = 1, BatchSize = 1, FlushInterval = 0, Workers = 1, FlushTimeout = 0\<rparr>"

text \<open>Two scans arrive, the buffer holds one, a worker stores it.\<close>

definition sample_recorder :: "db recorder" where
  "sample_recorder = worker_recv (sqlite_ops sample_engine) 0 [] sample_event
     (Record sample_event (Record sample_event (NewRecorder sample_state sample_options)))"

lemma sample_recorder_run: "rec_run (NewRecorder sample_state sample_options) [sample_event, sample_event] sample_recorder"
proof -
  let ?r0 = "NewRecorder sample_state sample_options"
  let ?r1 = "Record sample_event ?r0" let ?r2 = "Record sample_event ?r1"
  have 1: "rec_run ?r0 [sample_event] ?r1" using run_step [OF run_refl step_Record, of ?r0 sample_event] by simp
  have 2: "rec_run ?r0 [sample_event, sample_event] ?r2" using run_step [OF 1 step_Record, of sample_event] by simp
  have "rc_workers ?r2 = [Some []]" "rc_ch ?r2 = [sample_event]"
    by (simp_all add: NewRecorder_def Record_def drop_events_def sample_options_def withDefaults_def Let_def)
  then have "rec_step ?r2 None sample_recorder"
    using step_recv [of 0 ?r2 "[]" sample_event "[]" "sqlite_ops sample_engine"] by (simp add: sample_recorder_def)
  from run_step [OF 2 this] show ?thesis by simp
qed

theorem recorder_accounts_for_every_scan_witness:
  "2 = int (length (rc_saved sample_recorder)) + int (rc_dropped sample_recorder) + Unflushed sample_recorder \<and>
   length (rc_saved sample_recorder) = 1 \<and> rc_dropped sample_recorder = 1"
proof -
  have "length (rc_saved sample_recorder) = 1" "rc_dropped sample_recorder = 1" by code_simp+
  then show ?thesis using recorder_accounts_for_every_scan [OF sample_recorder_run] by simp
qed

text \<open>C36. After a close the recorder drains: as long as a worker is running one of them can take a
  step, each such step brings the end closer whatever the store answers, and when the last one
  has returned nothing is left unflushed, so every event was stored or counted as dropped.\<close>

theorem recorder_close_drains:
  assumes "rec_run (NewRecorder s o1) evs r" "rc_closed r"
  shows "(\<forall>r'. drain_step r r' \<longrightarrow> drain_left r' < drain_left r) \<and>
    (0 < drain_left r \<longrightarrow> (\<exists>r'. drain_step r r')) \<and>
    (drain_left r = 0 \<longrightarrow> Unflushed r = 0 \<and> length evs = length (rc_saved r) + rc_dropped r)"
proof -
  have a: "accounted evs r" using run_accounted [OF assms(1) new_recorder(1)] .
  have ok: "returned_ok r" using run_returned_ok [OF assms(1) new_returned_ok] .
  have "\<exists>r'. drain_step r r'" if "0 < drain_left r"
  proof (cases "live_workers r")
    case 0
    then have "None \<in> set (rc_workers r)" using no_live [OF 0] ok by (cases "rc_workers r") (auto simp: returned_ok_def)
    then show ?thesis using ok that 0 by (simp add: returned_ok_def drain_left_def)
  next
    case (Suc n)
    then have "filter (\<lambda>w. w \<noteq> None) (rc_workers r) \<noteq> []" by (auto simp: live_workers_def)
    then obtain b where "Some b \<in> set (rc_workers r)" by (auto simp: filter_empty_conv)
    then obtain i where i: "i < length (rc_workers r)" "rc_workers r ! i = Some b" by (auto simp: in_set_conv_nth)
    show ?thesis
    proof (cases "rc_ch r")
      case Nil
      then show ?thesis using drain_exit [OF i] assms(2) by blast
    next
      case (Cons ev rest)
      then show ?thesis using drain_recv [OF i] by blast
    qed
  qed
  moreover have "Unflushed r = 0 \<and> length evs = length (rc_saved r) + rc_dropped r" if "drain_left r = 0"
  proof -
    have e: "rc_ch r = []" "\<forall>w \<in> set (rc_workers r). w = None" using that no_live [of r] by (auto simp: drain_left_def)
    then have h: "held_events r = []" by (auto simp: held_events_def held_by_def)
    show ?thesis using a e(1) h accounted_length [OF a] by (simp add: accounted_def Unflushed_def)
  qed
  ultimately show ?thesis using drain_decreases by blast
qed

theorem recorder_close_drains_witness:
  "\<exists>r'. drain_step (Close sample_recorder) r' \<and> drain_left r' < drain_left (Close sample_recorder)"
proof -
  have run: "rec_run (NewRecorder sample_state sample_options) [sample_event, sample_event] (Close sample_recorder)"
    using run_step [OF sample_recorder_run step_Close] by simp
  have "0 < drain_left (Close sample_recorder)" "rc_closed (Close sample_recorder)" by code_simp+
  then show ?thesis using recorder_close_drains [OF run] by blast
qed

subsection \<open>Retention\<close>

text \<open>Durations are 64-bit signed integers of nanoseconds; multiplication wraps around.\<close>

record retention =
  rt_days :: int
  rt_batch :: int

definition NewRetention :: "int \<Rightarrow> int \<Rightarrow> retention" where
  "NewRetention days batch = \<lparr>rt_days = days, rt_batch = (if batch \<le> 0 then 1000 else batch)\<rparr>"

definition cutoff :: "retention \<Rightarrow> gotime \<Rightarrow> gotime" where
  "cutoff r t = t + wrap64 (wrap64 (- rt_days r * 24) * Hour)"

text \<open>The loop of \<open>RunOnce\<close>; \<open>ctx i\<close> is the context's error at the start of round \<open>i\<close>.\<close>

partial_function (option) prune_loop ::
  "'s store_ops \<Rightarrow> (nat \<Rightarrow> store_error option) \<Rightarrow> gotime \<Rightarrow> int \<Rightarrow> nat \<Rightarrow> int \<Rightarrow> 's \<Rightarrow> ((int \<times> store_error option) \<times> 's) option" where
  "prune_loop st ctx before batch i sofar s =
    (case ctx i of
       Some err \<Rightarrow> Some ((sofar, Some err), s)
     | None \<Rightarrow>
         (case so_PruneScanEvents st before batch s of
            Inl err \<Rightarrow> Some ((sofar, Some err), s)
          | Inr (n, s') \<Rightarrow>
              if n = 0 then Some ((sofar + n, None), s')
              else prune_loop st ctx before batch (Suc i) (sofar + n) s'))"

definition RunOnce ::
  "'s store_ops \<Rightarrow> (nat \<Rightarrow> store_error option) \<Rightarrow> gotime \<Rightarrow> retention \<Rightarrow> 's \<Rightarrow> ((int \<times> store_error option) \<times> 's) option" where
  "RunOnce st ctx t r s =
    (if rt_days r \<le> 0 then Some ((0, None), s)
     else prune_loop st ctx (cutoff r t) (rt_batch r) 0 0 s)"

lemma cutoff_days: "0 < rt_days r \<Longrightarrow> rt_days r \<le> 106751 \<Longrightarrow> cutoff r t = t - rt_days r * 24 * Hour"
  by (simp add: cutoff_def wrap64_id Hour_def Minute_def Second_def)

definition is_expired :: "gotime \<Rightarrow> nat \<times> scan_event \<Rightarrow> bool" where
  "is_expired before x = (OccurredAt (snd x) < fmtTime before)"

lemma expired_count: "length (expired_events before s) = length (filter (is_expired before) (t_events s))"
proof -
  have "length (expired_events before s) = length (filter (\<lambda>(i, ev). OccurredAt ev < fmtTime before) (t_events s))"
    by (simp add: expired_events_def case_prod_beta')
  moreover have "is_expired before = (\<lambda>(i, ev). OccurredAt ev < fmtTime before)" by (auto simp: is_expired_def)
  ultimately show ?thesis by simp
qed

lemma prune_once:
  assumes "distinct (map fst (t_events s))" "0 < limit" "outage eng = None"
  obtains n t where "sq_PruneScanEvents eng before limit s = Inr (n, t)" "t = s\<lparr>t_events := t_events t\<rparr>"
    "distinct (map fst (t_events t))" "filter (\<lambda>x. \<not> is_expired before x) (t_events t) = filter (\<lambda>x. \<not> is_expired before x) (t_events s)"
    "n + int (length (filter (is_expired before) (t_events t))) = int (length (filter (is_expired before) (t_events s)))"
    "0 \<le> n" "n = 0 \<Longrightarrow> filter (is_expired before) (t_events s) = [] \<and> t = s"
proof -
  let ?dead = "take (nat limit) (expired_events before s)"
  have "\<not> isl (sq_PruneScanEvents eng before limit s)" using assms(2,3) by (simp add: sq_PruneScanEvents_def Let_def)
  then obtain n t where run: "sq_PruneScanEvents eng before limit s = Inr (n, t)" using not_isl by (metis surj_pair)
  note ok = sq_PruneScanEvents_ok [OF assms(1,2) run]
  have ev: "t_events t = filter (\<lambda>x. x \<notin> set ?dead) (t_events s)" by (simp add: ok(1))
  have dead: "set ?dead \<subseteq> {x \<in> set (t_events s). is_expired before x}"
    using set_take_subset [of "nat limit" "expired_events before s"] by (auto simp: expired_events_set is_expired_def)
  have "filter (\<lambda>x. \<not> is_expired before x) (t_events t) = filter (\<lambda>x. \<not> is_expired before x) (t_events s)"
    using dead by (auto simp: ev intro!: filter_cong)
  moreover have "n + int (length (filter (is_expired before) (t_events t))) = int (length (filter (is_expired before) (t_events s)))"
  proof -
    have d: "distinct (t_events s)" using assms(1) by (simp add: distinct_map)
    have "filter (is_expired before) (t_events t) = filter (\<lambda>x. x \<notin> set ?dead) (filter (is_expired before) (t_events s))"
      by (simp add: ev conj_commute)
    moreover have "length (filter (\<lambda>x. x \<in> set ?dead) (filter (is_expired before) (t_events s))) = length ?dead"
    proof -
      have "set (filter (\<lambda>x. x \<in> set ?dead) (filter (is_expired before) (t_events s))) = set ?dead" using dead by auto
      then show ?thesis using d distinct_expired [OF assms(1), of before]
        by (metis distinct_card distinct_filter distinct_take)
    qed
    ultimately show ?thesis using ok(2) sum_length_filter_compl [of "\<lambda>x. x \<in> set ?dead" "filter (is_expired before) (t_events s)"] by simp
  qed
  moreover have "filter (is_expired before) (t_events s) = [] \<and> t = s" if "n = 0"
  proof -
    have "min (length (expired_events before s)) (nat limit) = 0" using that ok(2) by simp
    then have "expired_events before s = []" using assms(2) by (auto simp: min_def split: if_splits)
    then show ?thesis using expired_count [of before s] ok(1) by simp
  qed
  moreover have "distinct (map fst (t_events t))" using assms(1) by (simp add: ev distinct_map_filter)
  ultimately show thesis using that [OF run] ok by simp
qed

lemma prune_loop_ends:
  assumes "distinct (map fst (t_events s))" "0 < batch" "outage eng = None" "\<And>i. ctx i = None"
  shows "prune_loop (sqlite_ops eng) ctx before batch i sofar s =
    Some ((sofar + int (length (filter (is_expired before) (t_events s))), None),
      s\<lparr>t_events := filter (\<lambda>x. \<not> is_expired before x) (t_events s)\<rparr>)"
  using assms(1)
proof (induction "length (filter (is_expired before) (t_events s))" arbitrary: i sofar s rule: less_induct)
  case less
  obtain n t where n: "sq_PruneScanEvents eng before batch s = Inr (n, t)" "t = s\<lparr>t_events := t_events t\<rparr>"
    "distinct (map fst (t_events t))" "filter (\<lambda>x. \<not> is_expired before x) (t_events t) = filter (\<lambda>x. \<not> is_expired before x) (t_events s)"
    "n + int (length (filter (is_expired before) (t_events t))) = int (length (filter (is_expired before) (t_events s)))"
    "0 \<le> n" "n = 0 \<Longrightarrow> filter (is_expired before) (t_events s) = [] \<and> t = s"
    using prune_once [OF less.prems assms(2,3), of before thesis] by blast
  have st: "so_PruneScanEvents (sqlite_ops eng) before batch s = Inr (n, t)" using n(1) by (simp add: sqlite_ops_def)
  show ?case
  proof (cases "n = 0")
    case True
    then have e: "filter (is_expired before) (t_events s) = []" "t = s" using n(7) by auto
    then have "filter (\<lambda>x. \<not> is_expired before x) (t_events s) = t_events s" by (simp add: filter_empty_conv filter_id_conv)
    then show ?thesis using True e st assms(4) by (subst prune_loop.simps) simp
  next
    case False
    then have "length (filter (is_expired before) (t_events t)) < length (filter (is_expired before) (t_events s))" using n(5,6) by linarith
    from less.hyps [OF this n(3), of "Suc i" "sofar + n"]
    have "prune_loop (sqlite_ops eng) ctx before batch i sofar s =
      Some ((sofar + n + int (length (filter (is_expired before) (t_events t))), None), t\<lparr>t_events := filter (\<lambda>x. \<not> is_expired before x) (t_events t)\<rparr>)"
      using False st assms(4) by (subst prune_loop.simps) simp
    moreover have "t\<lparr>t_events := y\<rparr> = s\<lparr>t_events := y\<rparr>" for y by (subst n(2)) simp
    ultimately show ?thesis using n(4,5) by (simp add: algebra_simps)
  qed
qed

text \<open>C37. A retention run ends, and does what it is for: with the database up and between one day
  and 106751 days of retention, for every reachable database \<open>RunOnce\<close> returns after finitely many
  rounds, has deleted exactly the events older than the retention window and reports their
  number, keeps the younger ones in order, touches nothing else, and no analytics answer changes.\<close>

theorem retention_prunes_exactly_the_expired:
  assumes "sq_reachable s" "outage eng = None" "\<And>i. ctx i = None" "0 < days" "days \<le> 106751"
  shows "\<exists>s'. RunOnce (sqlite_ops eng) ctx t (NewRetention days batch) s =
      Some ((int (length (filter (is_expired (t - days * 24 * Hour)) (t_events s))), None), s') \<and>
    s' = s\<lparr>t_events := filter (\<lambda>x. \<not> is_expired (t - days * 24 * Hour) x) (t_events s)\<rparr> \<and>
    sq_QueryAnalytics eng q s' = sq_QueryAnalytics eng q s"
proof -
  have d: "distinct (map fst (t_events s))" using reachable_wf [OF assms(1)] by (simp add: wf_db_def wf_scans_def)
  have c: "cutoff (NewRetention days batch) t = t - days * 24 * Hour" using assms(4,5) by (simp add: cutoff_days NewRetention_def)
  have b: "0 < rt_batch (NewRetention days batch)" by (simp add: NewRetention_def)
  have dd: "rt_days (NewRetention days batch) = days" by (simp add: NewRetention_def)
  show ?thesis
    using prune_loop_ends [where ctx = ctx and before = "t - days * 24 * Hour" and i = 0 and sofar = 0, OF d b assms(2,3)] assms(2,4) c dd
    by (simp add: RunOnce_def sq_QueryAnalytics_def query_rows_def)
qed

theorem retention_prunes_exactly_the_expired_witness:
  "\<exists>s'. RunOnce (sqlite_ops sample_engine) (\<lambda>_. None) 63990000000000000000 (NewRetention 365 1) sample_state = Some ((1, None), s') \<and> t_events s' = []"
proof -
  have e: "map (is_expired (63990000000000000000 - 365 * 24 * Hour)) (t_events sample_state) = [True]" by code_simp
  then obtain x where x: "t_events sample_state = [x]" "is_expired (63990000000000000000 - 365 * 24 * Hour) x" by auto
  show ?thesis
    using retention_prunes_exactly_the_expired [OF sample_reachable, of sample_engine "\<lambda>_. None" 365 63990000000000000000 1] x by auto
qed

text \<open>C40. A retention window of 106752 days or more is not what it says: the 64-bit product of days and
  nanoseconds wraps around, and 106752 days put the cutoff some 292 years into the future, so that
  the run deletes every event of the database.\<close>

theorem retention_overflow_deletes_everything:
  assumes "sq_reachable s" "outage eng = None" "\<And>i. ctx i = None"
    and "\<And>x. x \<in> set (t_events s) \<Longrightarrow> OccurredAt (snd x) \<le> t"
  shows "\<exists>n s'. RunOnce (sqlite_ops eng) ctx t (NewRetention 106752 batch) s = Some ((n, None), s') \<and> t_events s' = []"
proof -
  have d: "distinct (map fst (t_events s))" using reachable_wf [OF assms(1)] by (simp add: wf_db_def wf_scans_def)
  have w: "wrap64 (wrap64 (- 106752 * 24) * Hour) = 9223371273709551616"
    by (simp add: wrap64_def Hour_def Minute_def Second_def)
  have c: "cutoff (NewRetention 106752 batch) t = t + 9223371273709551616"
    using w by (simp add: cutoff_def NewRetention_def)
  have b: "0 < rt_batch (NewRetention 106752 batch)" by (simp add: NewRetention_def)
  have "is_expired (t + 9223371273709551616) x" if "x \<in> set (t_events s)" for x
    using assms(4) [OF that] by (simp add: is_expired_def fmtTime_def Truncate_def Microsecond_def)
  then have "filter (\<lambda>x. \<not> is_expired (t + 9223371273709551616) x) (t_events s) = []" by (simp add: filter_empty_conv)
  then show ?thesis using prune_loop_ends [where ctx = ctx and before = "t + 9223371273709551616" and i = 0 and sofar = 0, OF d b assms(2,3)] c
    by (simp add: RunOnce_def) (simp add: NewRetention_def)
qed

theorem retention_overflow_deletes_everything_witness:
  "\<exists>n s'. RunOnce (sqlite_ops sample_engine) (\<lambda>_. None) 63990000000000000000 (NewRetention 106752 1000) sample_state =
     Some ((n, None), s') \<and> t_events sample_state \<noteq> [] \<and> t_events s' = []"
proof -
  have "list_all (\<lambda>x. OccurredAt (snd x) \<le> 63990000000000000000) (t_events sample_state)" "t_events sample_state \<noteq> []" by code_simp+
  then show ?thesis
    using retention_overflow_deletes_everything [OF sample_reachable, of sample_engine "\<lambda>_. None" 63990000000000000000 1000]
    by (simp add: list_all_iff)
qed

end
