(* ===== verification/Public.thy ===== *)
theory Public
  imports Http Codes_Props Recorder
begin

text \<open>
  The unauthenticated routes, \<^verbatim>\<open>src/internal/httpapi/public\<close> (the scan redirect and the images), and
  the reduction of a request to a scan event, \<^verbatim>\<open>src/internal/analytics/ua.go\<close> and
  \<open>referrer.go\<close>. The User-Agent parser and \<open>url.Parse\<close> are arguments.
\<close>

subsection \<open>Classification\<close>

record ua_result =
  ua_Browser :: string
  ua_IsBot :: bool
  ua_IsTablet :: bool
  ua_IsMobile :: bool
  ua_IsTV :: bool
  ua_IsDesktop :: bool

record classification =
  cl_UAFamily :: string
  cl_DeviceCategory :: string
  cl_IsBot :: bool

definition UnknownFamily :: string where "UnknownFamily = ''unknown''"

definition Classify :: "(string \<Rightarrow> ua_result) \<Rightarrow> string \<Rightarrow> classification" where
  "Classify parse ua =
    (if ua = '''' then \<lparr>cl_UAFamily = UnknownFamily, cl_DeviceCategory = DeviceUnknown, cl_IsBot = False\<rparr>
     else let r = parse ua;
              family = (if ua_Browser r = '''' then UnknownFamily else ua_Browser r)
          in if ua_IsBot r then \<lparr>cl_UAFamily = UnknownFamily, cl_DeviceCategory = DeviceBot, cl_IsBot = True\<rparr>
             else \<lparr>cl_UAFamily = family,
                   cl_DeviceCategory = (if ua_IsTablet r then DeviceTablet else if ua_IsMobile r then DeviceMobile
                     else if ua_IsTV r then DeviceTV else if ua_IsDesktop r then DeviceDesktop else DeviceUnknown),
                   cl_IsBot = False\<rparr>)"

text \<open>\<open>analytics.ReferrerHost\<close> and its copy \<open>public.referrerHost\<close>.\<close>

definition analytics_ReferrerHost :: "(string \<Rightarrow> url option) \<Rightarrow> string \<Rightarrow> string" where
  "analytics_ReferrerHost parse referer =
    (if referer = '''' then ''''
     else case parse referer of
       None \<Rightarrow> ''''
     | Some u \<Rightarrow> let host = Hostname u in if host = '''' then '''' else strings_ToLower host)"

definition referrerHost :: "(string \<Rightarrow> url option) \<Rightarrow> string \<Rightarrow> string" where
  "referrerHost parse ref =
    (if ref = '''' then '''' else case parse ref of None \<Rightarrow> '''' | Some u \<Rightarrow> strings_ToLower (Hostname u))"

subsection \<open>The handler\<close>

type_synonym classify_func = "string \<Rightarrow> string \<times> string \<times> bool"

definition defaultClassify :: classify_func where
  "defaultClassify ua = ('''', DeviceUnknown, False)"

record 'r public_handler =
  ph_record :: "scan_event \<Rightarrow> 'r \<Rightarrow> 'r"
  ph_fallback :: string
  ph_classify :: classify_func
  ph_parse :: "string \<Rightarrow> url option"
  ph_noImages :: bool

definition NewPublicHandler ::
  "(scan_event \<Rightarrow> 'r \<Rightarrow> 'r) option \<Rightarrow> string \<Rightarrow> classify_func option \<Rightarrow> (string \<Rightarrow> url option) \<Rightarrow> bool \<Rightarrow> 'r public_handler" where
  "NewPublicHandler rec fallback classify parse imagesDisabled =
    \<lparr>ph_record = (case rec of None \<Rightarrow> (\<lambda>_ r. r) | Some f \<Rightarrow> f),
     ph_fallback = strings_TrimSpace fallback,
     ph_classify = (case classify of None \<Rightarrow> defaultClassify | Some f \<Rightarrow> f),
     ph_parse = parse, ph_noImages = imagesDisabled\<rparr>"

definition NoStore :: string where "NoStore = ''no-store, no-cache, must-revalidate''"

definition setNoStore :: "header \<Rightarrow> header" where
  "setNoStore h = header_Set ''Expires'' ''0'' (header_Set ''Pragma'' ''no-cache'' (header_Set ''Cache-Control'' NoStore h))"

definition landing :: "'r public_handler \<Rightarrow> response" where
  "landing ph =
    (let h = setNoStore [] in
     if ph_fallback ph \<noteq> '''' then \<lparr>rs_Status = 302, rs_Header = header_Set ''Location'' (ph_fallback ph) h, rs_Cookies = [], rs_Body = NoBody\<rparr>
     else \<lparr>rs_Status = 200, rs_Header = header_Set ''X-Content-Type-Options'' ''nosniff''
             (header_Set ''Content-Type'' ''text/html; charset=utf-8'' h), rs_Cookies = [], rs_Body = LandingPage\<rparr>)"

definition ph_event :: "'r public_handler \<Rightarrow> gotime \<Rightarrow> request \<Rightarrow> string \<Rightarrow> scan_event" where
  "ph_event ph t r cid =
    (let (family, device, bot) = ph_classify ph (header_Get (rq_Header r) ''User-Agent'') in
     \<lparr>ev_CodeID = cid, OccurredAt = t, UAFamily = family, DeviceCategory = device,
      ReferrerHost = referrerHost (ph_parse ph) (header_Get (rq_Header r) ''Referer''), IsBot = bot\<rparr>)"

definition redirect ::
  "'r public_handler \<Rightarrow> ('s, 'b, 'c) service \<Rightarrow> gotime \<Rightarrow> request \<Rightarrow> ('s, 'b, 'c) world \<times> 'r \<Rightarrow> response \<times> ('s, 'b, 'c) world \<times> 'r" where
  "redirect ph sv t r = (\<lambda>(w, rec).
    (case sv_Resolve sv t (PathValue r ''code'') w of
       (Inl err, w') \<Rightarrow> (landing ph, w', rec)
     | (Inr res, w') \<Rightarrow>
         let rec' = (if r_Found res \<and> r_State res \<noteq> CodeDeleted then ph_record ph (ph_event ph t r (r_CodeID res)) rec else rec)
         in if r_Found res \<and> r_State res = CodeActive
            then (\<lparr>rs_Status = 302, rs_Header = header_Set ''Location'' (r_Destination res) (setNoStore []), rs_Cookies = [], rs_Body = NoBody\<rparr>, w', rec')
            else (landing ph, w', rec')))"

subsection \<open>Images\<close>

definition ImageCacheControl :: string where "ImageCacheControl = ''public, max-age=31536000, immutable''"

text \<open>\<open>fileRe\<close>, \<open>^(cod_[0-9a-hjkmnp-tv-z]{16})\.(png)$\<close>.\<close>

definition fileRe :: "string \<Rightarrow> string option" where
  "fileRe s =
    (if length s = 24 \<and> take 4 s = ''cod_'' \<and> list_all generated_char (take 16 (drop 4 s)) \<and> drop 20 s = ''.png''
     then Some (take 20 s) else None)"

definition etagMatches :: "string \<Rightarrow> string \<Rightarrow> bool" where
  "etagMatches hd1 etag =
    (if hd1 = '''' then False
     else list_ex (\<lambda>cand. let cand = strings_TrimSpace cand in
            cand = ''*'' \<or> (if HasPrefix cand ''W/'' then drop 2 cand else cand) = etag) (split_on (CHR '','') hd1))"

definition image ::
  "'r public_handler \<Rightarrow> 'b blob_ops \<Rightarrow> request \<Rightarrow> 'b \<Rightarrow> response" where
  "image ph bl r b =
    (if ph_noImages ph then WriteError [] CodeNotFound ''No such image.'' []
     else case fileRe (PathValue r ''file'') of
       None \<Rightarrow> WriteError [] CodeNotFound ''No such image.'' []
     | Some cid \<Rightarrow>
         let key = BlobKeyFor cid in
         (case bo_Stat bl key b of
            Inl err \<Rightarrow> if err = ErrBlobNotFound \<or> err = ErrInvalidKey then WriteError [] CodeNotFound ''No such image.'' [] else Internal []
          | Inr info \<Rightarrow>
              let etag = CHR 0x22 # bi_ETag info @ [CHR 0x22];
                  h = header_Set ''X-Content-Type-Options'' ''nosniff''
                        (header_Set ''Cache-Control'' ImageCacheControl (header_Set ''ETag'' etag [])) in
              if etagMatches (header_Get (rq_Header r) ''If-None-Match'') etag
              then \<lparr>rs_Status = 304, rs_Header = h, rs_Cookies = [], rs_Body = NoBody\<rparr>
              else (case bo_Get bl key b of
                Inl err \<Rightarrow> if err = ErrBlobNotFound then WriteError h CodeNotFound ''No such image.'' [] else Internal h
              | Inr (data, info) \<Rightarrow>
                  let ct = (if bi_ContentType info = '''' then ''image/png'' else bi_ContentType info);
                      h = header_Set ''Content-Type'' ct h;
                      h = (if 0 \<le> bi_Size info then header_Set ''Content-Length'' (FormatInt (bi_Size info)) h else h)
                  in \<lparr>rs_Status = 200, rs_Header = h, rs_Cookies = [], rs_Body = RawBody data\<rparr>)))"

subsection \<open>Lemmas\<close>

lemma setNoStore_get [simp]: "header_Get (setNoStore h) ''Cache-Control'' = NoStore"
  by (simp add: setNoStore_def)

lemma landing_no_store: "header_Get (rs_Header (landing ph)) ''Cache-Control'' = NoStore"
  by (simp add: landing_def Let_def)

text \<open>What a scan does, in terms of the resolution.\<close>

lemma redirect_resolved:
  assumes "sv_Resolve sv t (PathValue r ''code'') w = (Inr res, w')"
  shows "redirect ph sv t r (w, rec) =
    ((if r_Found res \<and> r_State res = CodeActive
      then \<lparr>rs_Status = 302, rs_Header = header_Set ''Location'' (r_Destination res) (setNoStore []), rs_Cookies = [], rs_Body = NoBody\<rparr> else landing ph),
     w', (if r_Found res \<and> r_State res \<noteq> CodeDeleted then ph_record ph (ph_event ph t r (r_CodeID res)) rec else rec))"
  using assms by (simp add: redirect_def Let_def)

lemma fileRe_NewCodeID: "fileRe (NewCodeID rn @ ''.png'') = Some (NewCodeID rn)"
proof -
  have "list_all generated_char (RandomCrockford idRandomLen rn)"
    using RandomCrockford_set [of idRandomLen rn] generated_char_idAlphabet by (auto simp: list_all_iff)
  then show ?thesis by (simp add: fileRe_def NewCodeID_def NewID_def idRandomLen_def)
qed


lemma fs_Put_etag:
  assumes "fs_Put B e k d n ct s = (Inr etag, t)"
  shows "etag = hex_EncodeToString (fs_sha B d)"
proof -
  obtain p q where "fs_paths B k = Inr (p, q)" using assms by (auto simp: fs_Put_def split: sum.splits)
  then show ?thesis using assms by (auto simp: fs_Put_def Let_def split: option.splits if_splits)
qed

lemma materialise_fs_etag:
  assumes "sv_blob sv = fs_ops B" "materialise sv e uid cid sc p b = (Inr c, b')"
  shows "BlobETag c \<in> range hex_EncodeToString"
proof -
  have "\<exists>b1 png. fs_Put B e (BlobKeyFor cid) png (int (length png)) ''image/png'' b1 = (Inr (BlobETag c), b')"
    using assms by (auto simp: materialise_def Let_def fs_ops_def split: sum.splits prod.splits if_splits) blast+
  then show ?thesis using fs_Put_etag by blast
qed

lemma hex_chars:
  assumes "A = set ''0123456789abcdef''"
  shows "set (hex_EncodeToString bs) \<subseteq> A"
proof (induction bs)
  case (Cons b bs)
  have "hex_digit n \<in> A" if "n < 16" for n
    using that unfolding hex_digit_def assms by (intro nth_mem) simp
  moreover have "byte b div 16 < 16" "byte b mod 16 < 16"
    using nat_of_char_less_256 [of b] by (simp_all add: div_less_iff_less_mult)
  ultimately show ?case using Cons by (simp add: hex_EncodeToString_def)
qed (simp add: hex_EncodeToString_def)

lemma etag_revalidates:
  assumes "etag \<in> range hex_EncodeToString"
  shows "etagMatches (CHR 0x22 # etag @ [CHR 0x22]) (CHR 0x22 # etag @ [CHR 0x22])"
proof -
  let ?e = "CHR 0x22 # etag @ [CHR 0x22]"
  obtain bs where "etag = hex_EncodeToString bs" using assms by blast
  then have ch: "x \<in> set ''0123456789abcdef''" if "x \<in> set etag" for x
    using hex_chars [OF refl, of bs] that by blast
  have "CHR '','' \<notin> set etag" using ch [of "CHR '',''"] by auto
  then have sp: "split_on (CHR '','') ?e = [?e]" by (simp add: split_on_plain)
  have "is_ascii etag" unfolding is_ascii_def list_all_iff
  proof
    fix x assume "x \<in> set etag"
    from ch [OF this] show "byte x < 128" by auto
  qed
  then have asc: "is_ascii ?e" by (simp add: is_ascii_def)
  have "strings_TrimSpace ?e = ?e" using asc by (simp add: strings_TrimSpace_ascii ascii_space_def)
  then show ?thesis using sp by (simp add: etagMatches_def HasPrefix_def)
qed


definition sample_handler :: "scan_event list public_handler" where
  "sample_handler = NewPublicHandler (Some (#)) '''' None (\<lambda>_. None) False"

definition sample_scan :: "string \<Rightarrow> string \<Rightarrow> request" where
  "sample_scan k v = \<lparr>rq_Method = ''GET'', rq_Path = '''', rq_Header = [], rq_PathValue = [(k, v)],
     rq_Query = [], rq_Cookies = [], rq_RemoteAddr = '''', rq_Body = ''''\<rparr>"


text \<open>C38. The image of a created code is served: after a successful creation on the file store, the
  image route answers \<open>code id.png\<close> with the bytes the renderer made, immutable and under the
  code's digest, and a client that sends this digest back gets 304 without a body.\<close>

theorem created_image_is_served:
  assumes "sv_store sv = sqlite_ops eng" "sv_blob sv = fs_ops B" "fs_ctx B = None" "sq_reachable (w_store w)"
    and "sv_Create sv E i w = (Inr c, w')" "\<not> ph_noImages ph" "PathValue r ''file'' = code_ID c @ ''.png''"
  shows "\<exists>png eff sty. sv_render sv (if code_Mode c = ModeDirect then Destination c else ScanURL sv (ShortCode c)) sty
        (ci_Logo i) (ci_LogoAutoRaise i) = Inr (png, eff) \<and>
    (header_Get (rq_Header r) ''If-None-Match'' = '''' \<longrightarrow>
      rs_Status (image ph (fs_ops B) r (w_blob w')) = 200 \<and> rs_Body (image ph (fs_ops B) r (w_blob w')) = RawBody png \<and>
      header_Get (rs_Header (image ph (fs_ops B) r (w_blob w'))) ''ETag'' = CHR 0x22 # BlobETag c @ [CHR 0x22]) \<and>
    (header_Get (rq_Header r) ''If-None-Match'' = CHR 0x22 # BlobETag c @ [CHR 0x22] \<longrightarrow>
      rs_Status (image ph (fs_ops B) r (w_blob w')) = 304 \<and> rs_Body (image ph (fs_ops B) r (w_blob w')) = NoBody)"
proof -
  have sv: "in_files eng B sv = sv" using driver_ids(2) [OF assms(1,2)] .
  note inv = reachable_inv [OF assms(4)]
  obtain p where p: "prepare sv i = Inr p"
    and loop: "create_loop sv E (ci_UserID i) p (SvcOther '''') 0 (if p_isAlias p then 1 else generateAttempts) w = (Inr c, w')"
    using assms(5) by (auto simp: sv_Create_def simp del: create_loop.simps split: sum.splits)
  obtain e b c0 where m: "materialise sv e (ci_UserID i) (choose_id e) (choose_code e p) p b = (Inr c0, w_blob w')"
    and run: "so_CreateCodes (sqlite_ops eng) (store_env e) [c0] (w_store w) = Inr ([c], w_store w')"
    using svc_files.create_loop_success [of eng B sv, unfolded sv, OF loop inv] by blast
  have "created c0 c" using sqlite.create_ok [OF inv run] by simp
  then have et: "BlobETag c \<in> range hex_EncodeToString"
    using materialise_fs_etag [OF assms(2) m] created_fields(7) by simp
  have pf: "p_logo p = ci_Logo i" "p_autoRaise p = ci_LogoAutoRaise i"
    using p by (auto simp: prepare_def prepare_alias_def Let_def split: if_splits option.splits alias_error.splits)
  show ?thesis
  proof (rule svc_files.create_success [of eng B sv E i w c w', unfolded sv, OF assms(5) inv])
    fix e p' png eff
    assume p': "prepare sv i = Inr p'" and id: "code_ID c = choose_id e" and cm: "Destination c = p_destination p'" "code_Mode c = p_mode p'"
      and r: "sv_render sv (symbol_text sv p' (ShortCode c)) (p_styling p') (p_logo p') (p_autoRaise p') = Inr (png, eff)"
      and key: "BlobKey c = BlobKeyFor (code_ID c)" and v: "fs_view B (w_blob w') (BlobKey c) = Some (png, ''image/png'', BlobETag c)"
    have fil: "fileRe (PathValue r ''file'') = Some (code_ID c)"
      using fileRe_NewCodeID assms(7) id by (simp add: choose_id_def)
    obtain inf where st: "fs_Stat B (BlobKeyFor (code_ID c)) (w_blob w') = Inr inf"
      and gt: "fs_Get B (BlobKeyFor (code_ID c)) (w_blob w') = Inr (png, inf)"
      and inf: "bi_ETag inf = BlobETag c" "bi_ContentType inf = ''image/png''"
      using v key assms(3) by (auto simp: fs_view_def fs_Get_def fs_Stat_def fs_stat_def split: sum.splits option.splits prod.splits)
    have "etagMatches '''' x = False" for x by (simp add: etagMatches_def)
    then show ?thesis using r pf p p' cm fil st gt inf assms(6) etag_revalidates [OF et]
      by (intro exI [of _ png] exI [of _ eff] exI [of _ "p_styling p'"])
        (auto simp: image_def fs_ops_def symbol_text_def Let_def)
  qed
qed

theorem created_image_is_served_witness:
  "\<exists>c w'. sv_Create files_service (\<lambda>_. sample_env) sample_input files_world = (Inr c, w') \<and>
    rs_Status (image sample_handler (fs_ops (sample_fs (\<lambda>_. None))) (sample_scan ''file'' (code_ID c @ ''.png'')) (w_blob w')) = 200"
proof -
  let ?u = "sv_Create files_service (\<lambda>_. sample_env) sample_input files_world"
  have ok: "case fst ?u of Inl _ \<Rightarrow> False | Inr c \<Rightarrow> True" by code_simp
  obtain c w' where u: "?u = (Inr c, w')" using ok by (cases ?u) (auto split: sum.splits)
  have "sq_reachable (w_store files_world)" using sq_reachable.step [OF sq_reachable.start] by (simp add: files_world_def del: run_store.simps)
  from created_image_is_served [OF _ _ _ this u, of sample_engine "sample_fs (\<lambda>_. None)" sample_handler "sample_scan ''file'' (code_ID c @ ''.png'')"]
  show ?thesis using u
    by (auto simp: files_service_def NewService_def sample_fs_def sample_handler_def NewPublicHandler_def sample_scan_def PathValue_def header_Get_def)
qed

end
