(* ===== verification/V1_Codes.thy ===== *)
theory V1_Codes
  imports V1_Qr Listing_Props Public
begin

text \<open>
  The code endpoints, \<^verbatim>\<open>src/internal/httpapi/v1/codes.go\<close>: creation, batches, reading, listing, changing
  and deleting codes over the code service, with the JSON of requests and answers and the mapping
  of the service's errors onto the error catalogue. The adapter of \<^verbatim>\<open>src/cmd/qurator/main.go\<close> that makes the
  renderer the service's renderer is here too.
\<close>

definition codesRenderer_Render ::
  "(qr_options \<Rightarrow> qr_error + result) \<Rightarrow> string \<Rightarrow> styling \<Rightarrow> bytes option \<Rightarrow> bool \<Rightarrow> qr_error + (bytes \<times> string)" where
  "codesRenderer_Render render content s logo autoRaise =
    (let opts = \<lparr>op_Content = content, op_Format = FormatPNG, op_FgColor = FgColor s, op_BgColor = BgColor s, op_Shape = ModuleShape s,
           op_Margin = MarginModules s, op_SizePx = SizePx s, op_ECLevel = sty_ECLevel s,
           op_Logo = map_option (\<lambda>b. \<lparr>lg_Image = b, lg_Scale = LogoScale s, AutoRaise = autoRaise\<rparr>) logo\<rparr>
     in case render opts of Inl err \<Rightarrow> Inl err | Inr res \<Rightarrow> Inr (rt_Bytes res, rt_ECLevelEffective res))"

subsection \<open>Requests\<close>

definition defaultPageLimit :: int where "defaultPageLimit = 50"
definition maxPageLimit :: int where "maxPageLimit = 200"
definition maxCursorLen :: nat where "maxCursorLen = 512"
definition maxBatchBodyBytes :: nat where "maxBatchBodyBytes = 16777216"

record create_request =
  cq_ClientRef :: string
  cq_Mode :: string
  cq_Destination :: string
  cq_Alias :: string
  cq_Styling :: "styling_request option"

definition zero_create :: create_request where
  "zero_create = \<lparr>cq_ClientRef = '''', cq_Mode = '''', cq_Destination = '''', cq_Alias = '''', cq_Styling = None\<rparr>"

definition create_into :: "create_request \<Rightarrow> json \<Rightarrow> create_request option" where
  "create_into c v = do {
     kvs \<leftarrow> object_of [''client_ref'', ''mode'', ''destination'', ''alias'', ''styling''] v;
     ref \<leftarrow> set_value as_string (cq_ClientRef c) (values_of ''client_ref'' kvs);
     mo \<leftarrow> set_value as_string (cq_Mode c) (values_of ''mode'' kvs);
     de \<leftarrow> set_value as_string (cq_Destination c) (values_of ''destination'' kvs);
     al \<leftarrow> set_value as_string (cq_Alias c) (values_of ''alias'' kvs);
     st \<leftarrow> set_struct styling_into zero_styling (cq_Styling c) (values_of ''styling'' kvs);
     Some \<lparr>cq_ClientRef = ref, cq_Mode = mo, cq_Destination = de, cq_Alias = al, cq_Styling = st\<rparr>
   }"

text \<open>A slice: an element is decoded into the element a slice from an earlier occurrence of the key has
  at that place.\<close>

fun elements_into :: "create_request list \<Rightarrow> json list \<Rightarrow> create_request list option" where
  "elements_into old [] = Some []"
| "elements_into old (v # vs) =
    (let (c, old') = (case old of [] \<Rightarrow> (zero_create, []) | x # xs \<Rightarrow> (x, xs)) in
     do { c' \<leftarrow> create_into c v; cs \<leftarrow> elements_into old' vs; Some (c' # cs) })"

definition items_into :: "create_request list \<Rightarrow> json \<Rightarrow> create_request list option" where
  "items_into old v = (case v of JList vs \<Rightarrow> elements_into old vs | _ \<Rightarrow> None)"

fun set_items :: "create_request list \<Rightarrow> json list \<Rightarrow> create_request list option" where
  "set_items xs [] = Some xs"
| "set_items xs (JNull # vs) = set_items [] vs"
| "set_items xs (v # vs) = (case items_into xs v of None \<Rightarrow> None | Some ys \<Rightarrow> set_items ys vs)"

definition batch_body :: "json \<Rightarrow> create_request list option" where
  "batch_body v = do { kvs \<leftarrow> object_of [''items''] v; set_items [] (values_of ''items'' kvs) }"

definition update_body :: "json \<Rightarrow> string option" where
  "update_body v = do { kvs \<leftarrow> object_of [''destination''] v; string_field ''destination'' kvs }"

definition zero_domain_styling :: styling where
  "zero_domain_styling = \<lparr>sty_ID = '''', FgColor = '''', BgColor = '''', ModuleShape = '''', MarginModules = 0, SizePx = 0, sty_ECLevel = '''',
     ECLevelEffective = '''', LogoBlobKey = '''', LogoScale = 0\<rparr>"

text \<open>\<open>stylingFromRequest\<close>: the styling, the logo's bytes and whether to raise the level, or the field that
  is refused.\<close>

definition stylingFromRequest :: "styling_request option \<Rightarrow> string + styling \<times> bytes option \<times> bool" where
  "stylingFromRequest inp = (case inp of
     None \<Rightarrow> Inr (zero_domain_styling, None, False)
   | Some s \<Rightarrow>
       (case (case sr_Logo s of
                None \<Rightarrow> Inr (0, None, False)
              | Some l \<Rightarrow> (case logo_decode l of
                  Inl (FieldError field _) \<Rightarrow> Inl (''styling.'' @ field)
                | Inl _ \<Rightarrow> Inl ''styling.logo''
                | Inr lg \<Rightarrow> Inr (lg_Scale lg, Some (lg_Image lg), AutoRaise lg))) of
          Inl field \<Rightarrow> Inl field
        | Inr (scale, logo, autoRaise) \<Rightarrow>
            if out_of (sr_FgColor s) hexColorRe then Inl ''styling.fg_color''
            else if out_of (sr_BgColor s) hexColorRe then Inl ''styling.bg_color''
            else if out_of (sr_ModuleShape s) (\<lambda>x. x \<in> {ShapeSquare, ShapeDot, ShapeRounded}) then Inl ''styling.module_shape''
            else if out_of (sr_MarginModules s) (\<lambda>m. 4 \<le> m \<and> m \<le> 64) then Inl ''styling.margin_modules''
            else if out_of (sr_SizePx s) (\<lambda>n. 64 \<le> n \<and> n \<le> 4096) then Inl ''styling.size_px''
            else if out_of (sr_ECLevel s) (\<lambda>l. l \<in> {ECLow, ECMedium, ECQuartile, ECHigh}) then Inl ''styling.ec_level''
            else Inr (zero_domain_styling\<lparr>LogoScale := scale, FgColor := or_else (sr_FgColor s) '''', BgColor := or_else (sr_BgColor s) '''',
              ModuleShape := or_else (sr_ModuleShape s) '''', MarginModules := or_else (sr_MarginModules s) 0,
              SizePx := or_else (sr_SizePx s) 0, sty_ECLevel := or_else (sr_ECLevel s) ''''\<rparr>, logo, autoRaise)))"

definition bad_field :: "string \<Rightarrow> string \<Rightarrow> error_detail" where
  "bad_field msg field = \<lparr>ed_Code = CodeInvalidRequest, ed_Message = msg, ed_Details = [(''field'', JStr field)]\<rparr>"

definition inputFromRequest :: "create_request \<Rightarrow> string \<Rightarrow> error_detail + create_input" where
  "inputFromRequest req userID =
    (if strings_TrimSpace (cq_Destination req) = '''' then Inl (bad_field ''A destination is required.'' ''destination'')
     else if cq_Mode req \<notin> {'''', ModeDynamic, ModeDirect} then Inl (bad_field ''mode must be one of dynamic, direct.'' ''mode'')
     else if MaxClientRefLen < length (cq_ClientRef req)
     then Inl \<lparr>ed_Code = CodeInvalidRequest, ed_Message = ''client_ref must be at most 128 characters.'',
       ed_Details = [(''field'', JStr ''client_ref''), (''max_length'', JInt (int MaxClientRefLen))]\<rparr>
     else case stylingFromRequest (cq_Styling req) of
       Inl field \<Rightarrow> Inl (bad_field ''A styling parameter is out of range or unsupported.'' field)
     | Inr (sty, logo, autoRaise) \<Rightarrow>
         Inr \<lparr>ci_UserID = userID, ci_Mode = cq_Mode req, ci_Destination = cq_Destination req, ci_Alias = cq_Alias req,
           ci_Styling = sty, ci_Logo = logo, ci_LogoAutoRaise = autoRaise, ci_ClientRef = cq_ClientRef req\<rparr>)"

subsection \<open>Answers\<close>

definition omit_empty :: "string \<Rightarrow> string \<Rightarrow> (string \<times> json) list" where
  "omit_empty k v = (if v = '''' then [] else [(k, JStr v)])"

definition toResponse :: "('s, 'b, 'c) service \<Rightarrow> code \<Rightarrow> json" where
  "toResponse sv c =
    (let mode = (if code_Mode c = '''' then ModeDynamic else code_Mode c);
         scanURL = (if mode \<noteq> ModeDirect then ScanURL sv (ShortCode c) else '''');
         storageURL = or_else (StorageURL sv c) '''';
         st = code_Styling c
     in JObj ([(''id'', JStr (code_ID c)), (''mode'', JStr mode), (''short_code'', JStr (ShortCode c)), (''version'', JInt (code_Version c)),
          (''is_alias'', JBool (IsAlias c)), (''destination'', JStr (Destination c)), (''state'', JStr (code_State c)),
          (''styling'', JObj [(''fg_color'', JStr (FgColor st)), (''bg_color'', JStr (BgColor st)), (''module_shape'', JStr (ModuleShape st)),
             (''margin_modules'', JInt (MarginModules st)), (''size_px'', JInt (SizePx st)), (''ec_level'', JStr (sty_ECLevel st)),
             (''ec_level_effective'', JStr (ECLevelEffective st)), (''has_logo'', JBool (LogoBlobKey st \<noteq> ''''))]),
          (''image_url'', JStr (ImageURL sv c))] @
        omit_empty ''storage_url'' storageURL @ omit_empty ''client_ref'' (ClientRef c) @ omit_empty ''scan_url'' scanURL @
        [(''created_at'', JTime (code_CreatedAt c)), (''updated_at'', JTime (code_UpdatedAt c))]))"

definition AllowedSchemes :: "('s, 'b, 'c) service \<Rightarrow> string list" where
  "AllowedSchemes sv = sort (sv_schemes sv)"

fun alias_reason :: "alias_error \<Rightarrow> string" where
  "alias_reason ErrAliasTooShort = ''too_short''"
| "alias_reason ErrAliasTooLong = ''too_long''"
| "alias_reason ErrAliasBadChar = ''bad_character''"
| "alias_reason ErrAliasBadEdge = ''bad_edge''"
| "alias_reason ErrAliasDoubleHyphen = ''double_hyphen''"
| "alias_reason ErrAliasLooksGenerated = ''looks_generated''"
| "alias_reason _ = ''invalid''"

definition detail :: "ErrorCode \<Rightarrow> string \<Rightarrow> (string \<times> json) list \<Rightarrow> error_detail option" where
  "detail code msg det = Some \<lparr>ed_Code = code, ed_Message = msg, ed_Details = det\<rparr>"

definition isRenderError :: "qr_error \<Rightarrow> bool" where
  "isRenderError err = (case err of ContextCanceled \<Rightarrow> False | DeadlineExceeded \<Rightarrow> False | QrOther _ \<Rightarrow> False | _ \<Rightarrow> True)"

definition taken_detail :: "(string \<times> json) list \<Rightarrow> error_detail option" where
  "taken_detail det = detail CodeAliasTaken ''That alias is already in use or reserved by a deleted code.'' det"

fun store_detail :: "store_error \<Rightarrow> (string \<times> json) list \<Rightarrow> error_detail option" where
  "store_detail ErrAliasTaken det = taken_detail det"
| "store_detail ErrClientRefTaken det =
     detail CodeClientRefConflict ''This client_ref was claimed by a concurrent request; re-read your codes and retry.'' det"
| "store_detail ErrNotFound det = detail CodeNotFound ''No such code.'' []"
| "store_detail ErrConflict det = detail CodeConflict ''The code is in a state that does not allow this change.'' []"
| "store_detail (StoreErr m) det = None"

fun serviceErrorDetail :: "qr_http \<Rightarrow> ('s, 'b, 'c) service \<Rightarrow> svc_error \<Rightarrow> error_detail option" where
  "serviceErrorDetail h sv (SvcRender err) = (if isRenderError err then qrErrorDetail h (RenderError err) else None)"
| "serviceErrorDetail h sv (ContentTooLarge limit actual lv) = qrErrorDetail h (RenderError (ContentTooLargeError limit actual lv))"
| "serviceErrorDetail h sv ErrScanURLNotConfigured =
     detail CodeScanURLNotConfigured ''Dynamic codes need a public scan address. Ask the operator to configure QURATOR_SERVER_BASE_URL, or create a direct code.'' []"
| "serviceErrorDetail h sv (VersionConflict ex ac) =
     detail CodeConflict ''The code was modified by another request; re-read it and retry with its current version.'' [(''expected'', JInt ex), (''actual'', JInt ac)]"
| "serviceErrorDetail h sv (ClientRefConflict ref cid) =
     detail CodeClientRefConflict ''This client_ref was already used for a code with a different destination or mode.'' [(''client_ref'', JStr ref), (''existing_id'', JStr cid)]"
| "serviceErrorDetail h sv (ErrClientRefInvalid why ref) =
     detail CodeInvalidRequest ''client_ref must be at most 128 characters and unique within the batch.''
       ([(''field'', JStr ''client_ref''), (''reason'', JStr why)] @
        (if why = ''too_long'' then [(''max_length'', JInt (int MaxClientRefLen))] else [(''client_ref'', JStr ref)]))"
| "serviceErrorDetail h sv ErrDirectImmutable =
     detail CodeDirectCodeImmutable ''This is a direct code: its destination is encoded in the printed image and cannot be changed, disabled, or enabled. Create a new code instead.''
       [(''mode'', JStr ModeDirect)]"
| "serviceErrorDetail h sv ErrInvalidMode = detail CodeInvalidRequest ''mode must be one of dynamic, direct.'' [(''field'', JStr ''mode'')]"
| "serviceErrorDetail h sv (ErrUnsupportedScheme scheme) =
     detail CodeUnsupportedScheme ''The destination uses a scheme this instance does not permit.''
       [(''scheme'', JStr scheme), (''allowed'', JList (map JStr (AllowedSchemes sv)))]"
| "serviceErrorDetail h sv ErrSelfReferential = detail CodeSelfReferentialDestination ''The destination points back at this instance's scan path.'' []"
| "serviceErrorDetail h sv ErrDestinationTooLong =
     detail CodeInvalidRequest (''The destination must be at most '' @ digits MaxDestinationLength @ '' characters.'')
       [(''field'', JStr ''destination''), (''max_length'', JInt (int MaxDestinationLength))]"
| "serviceErrorDetail h sv ErrInvalidDestination =
     detail CodeInvalidRequest ''The destination is not a valid absolute URL.'' [(''field'', JStr ''destination'')]"
| "serviceErrorDetail h sv (SvcAliasReserved al) = detail CodeAliasReserved ''That alias is reserved by this instance.'' [(''alias'', JStr al)]"
| "serviceErrorDetail h sv (SvcAliasInvalid al err) =
     detail CodeAliasInvalid ''The alias does not meet the character set, length, or shape rules.'' [(''alias'', JStr al), (''reason'', JStr (alias_reason err))]"
| "serviceErrorDetail h sv (SvcAliasTaken al) = taken_detail [(''alias'', JStr al)]"
| "serviceErrorDetail h sv (SvcLostRace err) = store_detail err [(''reason'', JStr ''lost_race'')]"
| "serviceErrorDetail h sv (SvcStore err) = store_detail err []"
| "serviceErrorDetail h sv KeptLosingRace = store_detail ErrConflict []"
| "serviceErrorDetail h sv (SvcBlob what err) = None"
| "serviceErrorDetail h sv (SvcOther m) = None"

text \<open>An error whose cause is \<open>context.Canceled\<close>: nobody is left to answer.\<close>

definition is_canceled :: "svc_error \<Rightarrow> bool" where
  "is_canceled err = (err \<in> {SvcRender ContextCanceled, SvcStore (StoreErr ''context canceled'')} \<or>
     (case err of SvcBlob _ b \<Rightarrow> b = BlobErr ''context canceled'' | _ \<Rightarrow> False))"

definition write_detail :: "error_detail \<Rightarrow> response" where
  "write_detail d = WriteError [] (ed_Code d) (ed_Message d) (ed_Details d)"

definition writeServiceError :: "qr_http \<Rightarrow> ('s, 'b, 'c) service \<Rightarrow> svc_error \<Rightarrow> response option" where
  "writeServiceError h sv err =
    (if is_canceled err then None
     else Some (case serviceErrorDetail h sv err of None \<Rightarrow> Internal [] | Some d \<Rightarrow> write_detail d))"

subsection \<open>The operations\<close>

record ('s, 'b, 'c) codes_handler =
  ch_svc :: "('s, 'b, 'c) service"
  ch_http :: qr_http

type_synonym ('s, 'b, 'c) code_answer = "response option \<times> ('s, 'b, 'c) world"

definition created_at_location :: "('s, 'b, 'c) service \<Rightarrow> nat \<Rightarrow> code \<Rightarrow> response" where
  "created_at_location sv status c = WriteJSON (header_Set ''Location'' (''/v1/codes/'' @ code_ID c) []) status (toResponse sv c)"

text \<open>\<open>create\<close>: with a reference of the client it is a batch of one.\<close>

definition codes_create ::
  "('s, 'b, 'c) codes_handler \<Rightarrow> (nat \<Rightarrow> call_env) \<Rightarrow> call_env \<Rightarrow> request \<Rightarrow> string \<Rightarrow> ('s, 'b, 'c) world \<Rightarrow> ('s, 'b, 'c) code_answer" where
  "codes_create ch E e r userID w =
    (let sv = ch_svc ch; h = ch_http ch in
     case decodeJSON (qh_dec h) (create_into zero_create) r of
       Inl resp \<Rightarrow> (Some resp, w)
     | Inr req \<Rightarrow>
    (case inputFromRequest req userID of
       Inl bad \<Rightarrow> (Some (write_detail bad), w)
     | Inr i \<Rightarrow>
         if ci_ClientRef i \<noteq> '''' then
           (case sv_CreateBatch sv E e userID [i] w of
              (rs, w') \<Rightarrow>
                let res = hd rs in
                (if br_Status res = BatchError
                 then (case br_Err res of None \<Rightarrow> Some (Internal []) | Some err \<Rightarrow> writeServiceError h sv err, w')
                 else case br_Code res of
                   None \<Rightarrow> (None, w')
                 | Some c \<Rightarrow> (Some (created_at_location sv (if br_Status res = BatchExisting then 200 else 201) c), w')))
         else
           (case sv_Create sv E i w of
              (Inl err, w') \<Rightarrow> (writeServiceError h sv err, w')
            | (Inr c, w') \<Rightarrow> (Some (created_at_location sv 201 c), w'))))"

definition error_json :: "error_detail \<Rightarrow> json" where
  "error_json d = JObj ([(''code'', JStr (code_text (ed_Code d))), (''message'', JStr (ed_Message d))] @
     (if ed_Details d = [] then [] else [(''details'', JObj (ed_Details d))]))"

definition status_text :: "batch_status \<Rightarrow> string" where
  "status_text s = (case s of BatchCreated \<Rightarrow> ''created'' | BatchExisting \<Rightarrow> ''existing'' | BatchError \<Rightarrow> ''error'')"

definition batch_item :: "nat \<Rightarrow> batch_status \<Rightarrow> (string \<times> json) list \<Rightarrow> json" where
  "batch_item i stt rest = JObj ([(''index'', JInt (int i)), (''status'', JStr (status_text stt))] @ rest)"

definition result_json :: "qr_http \<Rightarrow> ('s, 'b, 'c) service \<Rightarrow> nat \<Rightarrow> batch_result \<Rightarrow> json" where
  "result_json h sv i res =
    (if br_Status res = BatchError
     then batch_item i BatchError [(''error'', error_json (case Option.bind (br_Err res) (serviceErrorDetail h sv) of
       Some d \<Rightarrow> d | None \<Rightarrow> \<lparr>ed_Code = CodeInternal, ed_Message = ''An unexpected error occurred.'', ed_Details = []\<rparr>))]
     else batch_item i (br_Status res) (case br_Code res of None \<Rightarrow> [] | Some c \<Rightarrow> [(''code'', toResponse sv c)]))"

text \<open>The items that pass the checks of their shape, with their places in the request.\<close>

definition batch_inputs :: "(error_detail + create_input) list \<Rightarrow> (nat \<times> create_input) list" where
  "batch_inputs items = concat (map (\<lambda>(i, x). case x of Inl _ \<Rightarrow> [] | Inr inp \<Rightarrow> [(i, inp)]) (enumerate 0 items))"

definition batch_answers :: "qr_http \<Rightarrow> ('s, 'b, 'c) service \<Rightarrow> (error_detail + create_input) list \<Rightarrow> batch_result list \<Rightarrow> json list" where
  "batch_answers h sv items rs =
    (let idx = map fst (batch_inputs items);
         blank = map (\<lambda>(i, x). case x of Inl bad \<Rightarrow> batch_item i BatchError [(''error'', error_json bad)] | Inr _ \<Rightarrow> JNull) (enumerate 0 items)
     in fold (\<lambda>res out. let i = idx ! br_Index res in out[i := result_json h sv i res]) rs blank)"

definition createBatch ::
  "('s, 'b, 'c) codes_handler \<Rightarrow> (nat \<Rightarrow> call_env) \<Rightarrow> call_env \<Rightarrow> request \<Rightarrow> string \<Rightarrow> ('s, 'b, 'c) world \<Rightarrow> ('s, 'b, 'c) code_answer" where
  "createBatch ch E e r userID w =
    (let sv = ch_svc ch; h = ch_http ch in
     case decodeJSONLimit (qh_dec h) batch_body maxBatchBodyBytes r of
       Inl resp \<Rightarrow> (Some resp, w)
     | Inr reqs \<Rightarrow>
         if reqs = [] then (Some (WriteError [] CodeInvalidRequest ''A batch needs at least one item.'' [(''field'', JStr ''items'')]), w)
         else if sv_batchMax sv < int (length reqs)
         then (Some (WriteError [] CodeBatchTooLarge ''The batch has more items than this instance accepts in one request.''
           [(''limit'', JInt (sv_batchMax sv)), (''actual'', JInt (int (length reqs)))]), w)
         else let items = map (\<lambda>q. inputFromRequest q userID) reqs;
                  inputs = map snd (batch_inputs items);
                  (rs, w') = (if inputs = [] then ([], w) else sv_CreateBatch sv E e userID inputs w)
              in (Some (WriteJSON [] 200 (JObj [(''results'', JList (batch_answers h sv items rs))])), w'))"

definition codes_get :: "('s, 'b, 'c) codes_handler \<Rightarrow> request \<Rightarrow> string \<Rightarrow> ('s, 'b, 'c) world \<Rightarrow> ('s, 'b, 'c) code_answer" where
  "codes_get ch r userID w = (case sv_Get (ch_svc ch) (PathValue r ''id'') userID w of
     Inl err \<Rightarrow> (writeServiceError (ch_http ch) (ch_svc ch) err, w)
   | Inr c \<Rightarrow> (Some (WriteJSON [] 200 (toResponse (ch_svc ch) c)), w))"

definition query_Get :: "request \<Rightarrow> string \<Rightarrow> string" where
  "query_Get r k = or_else (map_of (rq_Query r) k) ''''"

definition bad_query :: "string \<Rightarrow> string \<Rightarrow> response" where
  "bad_query msg field = WriteError [] CodeInvalidRequest msg [(''field'', JStr field)]"

definition time_param :: "request \<Rightarrow> string \<Rightarrow> response + gotime option" where
  "time_param r name = (let v = query_Get r name in
     if v = '''' then Inr None
     else case time_Parse v of
       None \<Rightarrow> Inl (bad_query (name @ '' must be an RFC 3339 timestamp.'') name)
     | Some t \<Rightarrow> Inr (Some t))"

definition list_filter :: "request \<Rightarrow> string \<Rightarrow> response + code_filter" where
  "list_filter r userID =
    (case (let v = query_Get r ''limit'' in
           if v = '''' then Some defaultPageLimit
           else case Atoi v of None \<Rightarrow> None | Some n \<Rightarrow> if n < 1 \<or> maxPageLimit < n then None else Some n) of
       None \<Rightarrow> Inl (bad_query ''limit must be an integer between 1 and 200.'' ''limit'')
     | Some limit \<Rightarrow>
         let cur = query_Get r ''cursor'' in
         if cur \<noteq> '''' \<and> (maxCursorLen < length cur \<or> base64_DecodeString base64url cur = None)
         then Inl (bad_query ''The cursor is not valid.'' ''cursor'')
         else (case time_param r ''created_after'' of Inl resp \<Rightarrow> Inl resp | Inr after_t \<Rightarrow>
              (case time_param r ''created_before'' of Inl resp \<Rightarrow> Inl resp | Inr before_t \<Rightarrow>
               Inr \<lparr>cf_UserID = userID, CreatedAfter = after_t, CreatedBefore = before_t,
                 cf_Destination = query_Get r ''destination_contains'', cf_Limit = limit, cf_Cursor = cur\<rparr>)))"

definition codes_list :: "('s, 'b, 'c) codes_handler \<Rightarrow> request \<Rightarrow> string \<Rightarrow> ('s, 'b, 'c) world \<Rightarrow> ('s, 'b, 'c) code_answer" where
  "codes_list ch r userID w =
    (case list_filter r userID of
       Inl resp \<Rightarrow> (Some resp, w)
     | Inr f \<Rightarrow> (case sv_List (ch_svc ch) f w of
         Inl err \<Rightarrow>
           if cf_Cursor f \<noteq> '''' \<and> (case err of SvcStore (StoreErr m) \<Rightarrow> strings_Contains m ''invalid cursor'' | _ \<Rightarrow> False)
           then (Some (bad_query ''The cursor is not valid.'' ''cursor''), w)
           else (writeServiceError (ch_http ch) (ch_svc ch) err, w)
       | Inr (items, next) \<Rightarrow>
           (Some (WriteJSON [] 200 (JObj [(''items'', JList (map (toResponse (ch_svc ch)) items)),
              (''next_cursor'', if next = '''' then JNull else JStr next)])), w)))"

text \<open>\<open>ifMatchRe\<close>, \<open>^"([0-9]+)"$\<close>, and \<open>strconv.ParseInt\<close> of the digits.\<close>

definition ifMatchRe :: "string \<Rightarrow> string option" where
  "ifMatchRe s = (if 3 \<le> length s \<and> hd s = CHR 0x22 \<and> List.last s = CHR 0x22 \<and> list_all is_digit (butlast (tl s)) then Some (butlast (tl s)) else None)"

definition if_match :: "request \<Rightarrow> response + int" where
  "if_match r = (let im = header_Get (rq_Header r) ''If-Match'' in
     if im = '''' then Inr 0
     else case ifMatchRe (strings_TrimSpace im) of
       None \<Rightarrow> Inl (bad_query (''If-Match must be the code'' @ [CHR 0x27] @ ''s version as a quoted entity-tag, e.g. '' @ [CHR 0x22] @ ''7'' @ [CHR 0x22] @ ''.'') ''If-Match'')
     | Some ds \<Rightarrow> (case Atoi ds of
         None \<Rightarrow> Inl (bad_query ''If-Match must be a positive version number.'' ''If-Match'')
       | Some n \<Rightarrow> if n < 1 then Inl (bad_query ''If-Match must be a positive version number.'' ''If-Match'') else Inr n))"

definition codes_patch ::
  "('s, 'b, 'c) codes_handler \<Rightarrow> (nat \<Rightarrow> call_env) \<Rightarrow> (nat \<Rightarrow> ('s, 'b, 'c) world \<Rightarrow> ('s, 'b, 'c) world) \<Rightarrow> request \<Rightarrow> string \<Rightarrow> ('s, 'b, 'c) world \<Rightarrow> ('s, 'b, 'c) code_answer" where
  "codes_patch ch E others r userID w =
    (let sv = ch_svc ch; h = ch_http ch in
     case if_match r of
       Inl resp \<Rightarrow> (Some resp, w)
     | Inr expected \<Rightarrow>
    (case decodeJSON (qh_dec h) update_body r of
       Inl resp \<Rightarrow> (Some resp, w)
     | Inr dest \<Rightarrow>
         if strings_TrimSpace dest = '''' then (Some (bad_query ''A destination is required.'' ''destination''), w)
         else (case sv_UpdateDestination sv E others (PathValue r ''id'') userID dest expected w of
            (Inl err, w') \<Rightarrow> (writeServiceError h sv err, w')
          | (Inr c, w') \<Rightarrow> (Some (WriteJSON [] 200 (toResponse sv c)), w'))))"

definition codes_delete :: "('s, 'b, 'c) codes_handler \<Rightarrow> call_env \<Rightarrow> request \<Rightarrow> string \<Rightarrow> ('s, 'b, 'c) world \<Rightarrow> ('s, 'b, 'c) code_answer" where
  "codes_delete ch e r userID w = (case sv_Delete (ch_svc ch) e (PathValue r ''id'') userID w of
     (Some err, w') \<Rightarrow> (writeServiceError (ch_http ch) (ch_svc ch) err, w')
   | (None, w') \<Rightarrow> (Some \<lparr>rs_Status = 204, rs_Header = [], rs_Cookies = [], rs_Body = NoBody\<rparr>, w'))"

definition codes_setState ::
  "('s, 'b, 'c) codes_handler \<Rightarrow> call_env \<Rightarrow> request \<Rightarrow> string \<Rightarrow> string \<Rightarrow> ('s, 'b, 'c) world \<Rightarrow> ('s, 'b, 'c) code_answer" where
  "codes_setState ch e r userID state w = (case sv_SetState (ch_svc ch) e (PathValue r ''id'') userID state w of
     (Inl err, w') \<Rightarrow> (writeServiceError (ch_http ch) (ch_svc ch) err, w')
   | (Inr c, w') \<Rightarrow> (Some (WriteJSON [] 200 (toResponse (ch_svc ch) c)), w'))"

datatype code_route = RouteList | RouteCreate | RouteBatch | RouteGet | RoutePatch | RouteDelete | RouteDisable | RouteEnable | RouteOther

text \<open>\<open>ServeHTTP\<close>: the caller's identity first, then the operation of the route.\<close>

definition codes_ServeHTTP ::
  "('s, 'b, 'c) codes_handler \<Rightarrow> (nat \<Rightarrow> call_env) \<Rightarrow> call_env \<Rightarrow> (nat \<Rightarrow> ('s, 'b, 'c) world \<Rightarrow> ('s, 'b, 'c) world) \<Rightarrow> string option \<Rightarrow>
   code_route \<Rightarrow> request \<Rightarrow> ('s, 'b, 'c) world \<Rightarrow> ('s, 'b, 'c) code_answer" where
  "codes_ServeHTTP ch E e others identity route r w = (case identity of
     None \<Rightarrow> (Some (WriteError [] CodeUnauthorized ''Authentication is required.'' []), w)
   | Some userID \<Rightarrow> (case route of
       RouteList \<Rightarrow> codes_list ch r userID w
     | RouteCreate \<Rightarrow> codes_create ch E e r userID w
     | RouteBatch \<Rightarrow> createBatch ch E e r userID w
     | RouteGet \<Rightarrow> codes_get ch r userID w
     | RoutePatch \<Rightarrow> codes_patch ch E others r userID w
     | RouteDelete \<Rightarrow> codes_delete ch e r userID w
     | RouteDisable \<Rightarrow> codes_setState ch e r userID CodeDisabled w
     | RouteEnable \<Rightarrow> codes_setState ch e r userID CodeActive w
     | RouteOther \<Rightarrow> (Some (WriteError [] CodeNotFound ''No such route.'' []), w)))"

end
