(* ===== verification/V1_Codes_Props.thy ===== *)
theory V1_Codes_Props
  imports V1_Codes
begin

text \<open>
  What the code endpoints promise their callers: another user's code looks like a missing one, two changes
  against one version do not overwrite each other, a create with a reference can be repeated, and the
  results of a batch are in the places of its items.
\<close>

subsection \<open>The service, one code at a time\<close>

context code_service
begin

lemma update_at_version:
  assumes "invar (w_store (others 0 w))" "0 < ev" "sv_UpdateDestination sv E others cid uid dest ev w = (Inr c, w')"
  shows "invar (w_store w') \<and> owned (alpha (w_store w')) cid uid = Some c \<and> code_Version c = ev + 1"
proof -
  let ?s = "w_store (others 0 w)"
  obtain s' where up: "so_UpdateDestination st (E 0) cid uid (strings_TrimSpace dest) ev ?s = Inr s'"
    and w': "w_store w' = s'" "so_GetCodeByID st cid uid s' = Inr c"
    using assms(2,3) by (auto simp: sv_UpdateDestination_def sv_Get_def wired Let_def map_sum_eq_Inr split: sum.splits if_splits option.splits)
  note s' = refines_Inr [OF update_refines [OF assms(1)] up]
  obtain d where d: "a_codes (alpha ?s) cid = Some d" "code_UserID d = uid"
    "alpha s' = put_code (d\<lparr>Destination := strings_TrimSpace dest, code_Version := ev + 1, code_UpdatedAt := stamp (now (E 0))\<rparr>) (alpha ?s)"
    using s'(2) by (rule spec_UpdateDestination_Inr)
  have "owned (alpha s') cid uid = Some (d\<lparr>Destination := strings_TrimSpace dest, code_Version := ev + 1, code_UpdatedAt := stamp (now (E 0))\<rparr>)"
    using d awf_ID [OF inv_awf [OF assms(1)] d(1)] by (simp add: owned_def put_code_def)
  moreover have "owned (alpha s') cid uid = Some c"
    using by_id_spec [OF s'(3,1), of cid uid] w'(2) by (auto split: option.splits)
  ultimately show ?thesis using s'(3) w'(1) by auto
qed

lemma batch_of_one:
  assumes "invar (w_store w)" "sv_CreateBatch sv E e uid [i] w = (rs, w')"
    and "br_Status (hd rs) = BatchCreated" "br_Code (hd rs) = Some c"
  shows "invar (w_store w') \<and> owned (alpha (w_store w')) (code_ID c) uid = Some (undelete c) \<and> uid \<noteq> '''' \<and>
    ClientRef c = ci_ClientRef i \<and> Destination c = strings_TrimSpace (ci_Destination i) \<and> code_Mode c = mode_or_default (ci_Mode i)"
proof -
  let ?xs = "batch_prepare sv uid 0 [i] ([], []) (w_store w)"
  have uid: "uid \<noteq> ''''" using assms(2,3) by (auto simp: sv_CreateBatch_def batch_err_def)
  obtain x where x: "?xs = [x]" "placed 0 [x]"
    using batch_prepare_placed [of sv uid 0 "[i]" "([], [])" "w_store w"] by (auto simp: length_Suc_conv)
  have "isl x \<Longrightarrow> False"
    using assms(2,3) uid x by (cases x) (auto simp: sv_CreateBatch_def rendered_codes_def batch_failed_def)
  then obtain p where p: "?xs = [Inr p]" using x by (cases x) auto
  obtain y b where m: "materialise sv (E 0) uid (choose_id (E 0)) (choose_code (E 0) p) p (w_blob w) = (y, b)" by force
  have "isl y \<Longrightarrow> False"
    using assms(2,3) uid p m by (cases y) (auto simp: sv_CreateBatch_def rendered_codes_def batch_failed_def batch_err_def)
  then obtain c0 where y: "y = Inr c0" by (cases y) auto
  obtain cs s' where ins: "so_CreateCodes st e [c0] (w_store w) = Inr (cs, s')"
    using assms(2,3) uid p m y wired
    by (cases "so_CreateCodes st e [c0] (w_store w)") (auto simp: sv_CreateBatch_def rendered_codes_def batch_failed_def batch_err_def)
  have co: "list_all2 created [c0] cs" "invar s'" "spec_create (map undelete cs) (alpha (w_store w)) = Some (alpha s')"
    using create_ok [OF assms(1) ins] by auto
  obtain c1 where c1: "cs = [c1]" using list_all2_lengthD [OF co(1)] by (cases cs) auto
  then have cs: "cs = [c]" "w_store w' = s'"
    using assms(2,4) uid p m y ins wired by (auto simp: sv_CreateBatch_def rendered_codes_def batch_ok_def)
  have pr: "prepare sv (i\<lparr>ci_UserID := uid\<rparr>) = Inr p"
    using p by (auto simp: batch_alias_def split: prod.splits sum.splits if_splits)
  have "p_clientRef p = ci_ClientRef i" "p_destination p = strings_TrimSpace (ci_Destination i)" "p_mode p = mode_or_default (ci_Mode i)"
    using pr by (auto simp: prepare_def prepare_alias_def mode_or_default_def Let_def split: if_splits option.splits alias_error.splits)
  moreover have "ClientRef c0 = p_clientRef p" "Destination c0 = p_destination p" "code_Mode c0 = p_mode p" "code_UserID c0 = uid"
    using m y by (auto simp: materialise_def Let_def split: sum.splits prod.splits if_splits)
  moreover have "code_UserID c = code_UserID c0" "ClientRef c = ClientRef c0" "Destination c = Destination c0"
    "code_Mode c = mode_or_default (code_Mode c0)"
    using co(1) cs(1) created_fields [of c0 c] by (simp_all add: mode_or_default_def)
  moreover have "a_codes (alpha s') (code_ID c) = Some (undelete c)"
    using spec_create_present [OF co(3), of "undelete c"] cs(1) by (simp add: undelete_def)
  ultimately show ?thesis using co(2) cs(2) uid
    by (simp add: owned_Some undelete_def mode_or_default_def ModeDynamic_def)
qed

lemma stale_update:
  assumes "avail" "invar (w_store w)" "invar (w_store (others 0 w))" "0 < ev"
    and "owned (alpha (w_store w)) cid uid = Some c0" "code_Mode c0 \<noteq> ModeDirect" "ValidateDestination sv dest = None"
    and "owned (alpha (w_store (others 0 w))) cid uid = Some c" "code_Version c \<noteq> ev"
  shows "sv_UpdateDestination sv E others cid uid dest ev w = (Inl (VersionConflict ev (code_Version c)), others 0 w)"
proof -
  have up: "so_UpdateDestination st (E 0) cid uid (strings_TrimSpace dest) ev (w_store (others 0 w)) = Inl ErrConflict"
    using refines_Inl [OF update_refines [OF assms(3), unfolded eqTrueI [OF assms(1)]]] assms(8,9)
    by (auto simp: spec_UpdateDestination_def)
  show ?thesis
    using assms up by (simp add: sv_UpdateDestination_def wired by_id_spec)
qed

text \<open>A batch of one whose reference names a code of the caller: the code is returned, or refused for
  another destination or mode; nothing is written.\<close>

lemma batch_of_one_known:
  assumes "avail" "invar (w_store w)" "owned (alpha (w_store w)) cid uid = Some d" "uid \<noteq> ''''"
    and "ClientRef d = ci_ClientRef i" "ci_ClientRef i \<noteq> ''''" "length (ci_ClientRef i) \<le> MaxClientRefLen"
  shows "sv_CreateBatch sv E e uid [i] w =
    ([if Destination d = strings_TrimSpace (ci_Destination i) \<and> mode_or_default (code_Mode d) = mode_or_default (ci_Mode i)
      then batch_ok 0 BatchExisting d else batch_err 0 (ClientRefConflict (ci_ClientRef i) (code_ID d))], w)"
proof -
  let ?r = "if Destination d = strings_TrimSpace (ci_Destination i) \<and> mode_or_default (code_Mode d) = mode_or_default (ci_Mode i)
      then batch_ok 0 BatchExisting d else batch_err 0 (ClientRefConflict (ci_ClientRef i) (code_ID d))"
  have "so_GetCodeByClientRef (sv_store sv) uid (ci_ClientRef i) (w_store w) = Inr d"
    using by_ref_found [OF assms(2,1,3)] assms(5,6) wired by simp
  then have "batch_ref sv uid 0 i [] (w_store w) = (Inl ?r, [ci_ClientRef i])"
    using assms(6,7) by (auto simp: batch_ref_def Let_def)
  then have "batch_prepare sv uid 0 [i] ([], []) (w_store w) = [Inl ?r]" by simp
  then show ?thesis using assms(4) by (simp only: sv_CreateBatch_def) (simp add: rendered_codes_def batch_failed_def)
qed

end

lemma toResponse_undelete [simp]: "toResponse sv (undelete c) = toResponse sv c"
proof -
  have f: "BlobKey (undelete c) = BlobKey c" "code_ID (undelete c) = code_ID c" "BlobETag (undelete c) = BlobETag c"
    by (simp_all add: undelete_def)
  have u: "StorageURL sv (undelete c) = StorageURL sv c" "ImageURL sv (undelete c) = ImageURL sv c"
    unfolding StorageURL_def ImageURL_def publicURL_def presignedURL_def f by (rule refl)+
  show ?thesis unfolding toResponse_def u Let_def by (simp add: undelete_def)
qed

lemma status_conflict [simp]: "Status CodeConflict = 409" "Status CodeClientRefConflict = 409" "Status CodeNotFound = 404"
  by (simp_all add: Status_def)


subsection \<open>Properties\<close>

lemma served_good_from_empty:
  assumes "otter_ok (sv_cache sv)" "cold (sv_cache sv) cs" "served sv \<lparr>w_store = empty_db, w_blob = bs, w_cache = cs\<rparr> w"
  shows "good_world sq_inv sq_alpha (sv_cache sv) w"
  using served_good [OF assms(3,1) fresh_good [OF assms(2)]] by simp

lemma inputFromRequest_Inr:
  assumes "inputFromRequest req uid = Inr i"
  shows "ci_ClientRef i = cq_ClientRef req" "ci_UserID i = uid" "length (ci_ClientRef i) \<le> MaxClientRefLen"
  using assms by (auto simp: inputFromRequest_def not_less split: if_splits sum.splits prod.splits)

text \<open>A refusal never has a status of success.\<close>

lemma error_status: "400 \<le> Status c" "400 \<le> rs_Status (WriteError h c msg det)" "400 \<le> rs_Status (Internal h)"
  by (simp_all add: Status_def WriteError_def Internal_def)

lemma refusal_status:
  "decodeJSONLimit dec body n r = Inl resp \<Longrightarrow> 400 \<le> rs_Status resp"
  "decodeJSON dec body r = Inl resp \<Longrightarrow> 400 \<le> rs_Status resp"
  "writeServiceError h sv err = Some resp \<Longrightarrow> 400 \<le> rs_Status resp"
  "if_match r = Inl resp \<Longrightarrow> 400 \<le> rs_Status resp"
  by (auto simp: decodeJSON_def decodeJSONLimit_def writeServiceError_def write_detail_def if_match_def bad_query_def error_status Let_def
      split: if_splits option.splits prod.splits)



lemma served_trans: "served sv w u \<Longrightarrow> served sv v w \<Longrightarrow> served sv v u"
  by (induction rule: served.induct) (auto intro: served.intros)

lemma patch_succeeds:
  assumes "codes_patch ch E others r uid w = (Some resp, w')" "rs_Status resp = 200"
  obtains ex dest c where "if_match r = Inr ex" "decodeJSON (qh_dec (ch_http ch)) update_body r = Inr dest"
    "sv_UpdateDestination (ch_svc ch) E others (PathValue r ''id'') uid dest ex w = (Inr c, w')"
    "resp = WriteJSON [] 200 (toResponse (ch_svc ch) c)"
proof -
  obtain ex where ex: "if_match r = Inr ex"
    using assms refusal_status(4) [of r resp] by (cases "if_match r") (auto simp: codes_patch_def)
  obtain dest where d: "decodeJSON (qh_dec (ch_http ch)) update_body r = Inr dest"
    using assms ex refusal_status(2) [of "qh_dec (ch_http ch)" update_body r resp]
    by (cases "decodeJSON (qh_dec (ch_http ch)) update_body r") (auto simp: codes_patch_def)
  have b: "strings_TrimSpace dest \<noteq> ''''" using assms ex d by (auto simp: codes_patch_def bad_query_def WriteError_def Status_def)
  obtain y v where up: "sv_UpdateDestination (ch_svc ch) E others (PathValue r ''id'') uid dest ex w = (y, v)" by force
  then obtain c where "y = Inr c"
    using assms ex d b refusal_status(3) [of "ch_http ch" "ch_svc ch" _ resp] by (cases y) (auto simp: codes_patch_def)
  then show ?thesis using that [OF ex d] up assms ex d b by (auto simp: codes_patch_def)
qed

text \<open>C7. Of two changes made against the same version of a code only one is applied: once a PATCH whose
  \<^verbatim>\<open>If-Match\<close> names a version is answered with 200, a later PATCH with the same version is answered with
  409 \<^verbatim>\<open>conflict\<close> naming a newer version, whatever was served in between and during the request, and
  changes nothing itself.\<close>

theorem patch_no_lost_update:
  assumes "otter_ok (sv_cache (ch_svc ch))" "cold (sv_cache (ch_svc ch)) cs"
    and "served (ch_svc ch) \<lparr>w_store = empty_db, w_blob = bs, w_cache = cs\<rparr> w"
    and "sv_store (ch_svc ch) = sqlite_ops eng" "outage eng = None"
    and "\<And>i w. served (ch_svc ch) w (others i w)" "if_match r = Inr ex" "0 < ex"
    and "codes_patch ch E others r uid w = (Some resp, w1)" "rs_Status resp = 200"
    and "served (ch_svc ch) w1 w2" "\<And>i w. served (ch_svc ch) w (others' i w)"
    and "if_match r' = Inr ex" "PathValue r' ''id'' = PathValue r ''id''"
    and "decodeJSON (qh_dec (ch_http ch)) update_body r' = Inr dest" "strings_TrimSpace dest \<noteq> ''''"
    and "ValidateDestination (ch_svc ch) dest = None"
  shows "\<exists>newer > ex. codes_patch ch E' others' r' uid w2 =
    (Some (WriteError [] CodeConflict ''The code was modified by another request; re-read it and retry with its current version.''
       [(''expected'', JInt ex), (''actual'', JInt newer)]), others' 0 w2)"
proof -
  let ?sv = "ch_svc ch" and ?cid = "PathValue r ''id''"
  have sv: "with_engine eng ?sv = ?sv" using driver_ids(1) [OF assms(4)] .
  note good = served_good [OF _ assms(1)]
  have g: "good_world sq_inv sq_alpha (sv_cache ?sv) w" by (rule served_good_from_empty [OF assms(1-3)])
  have g0: "good_world sq_inv sq_alpha (sv_cache ?sv) (others 0 w)" using good [OF assms(6) g] by blast
  obtain d1 c where up: "sv_UpdateDestination ?sv E others ?cid uid d1 ex w = (Inr c, w1)"
    by (rule patch_succeeds [OF assms(9,10)]) (use assms(7) in auto)
  have c: "owned (sq_alpha (w_store w1)) ?cid uid = Some c" "code_Version c = ex + 1"
    using svc.update_at_version [where eng = eng and sv = ?sv, unfolded sv, OF _ assms(8) up] g0 by (simp_all add: good_world_def)
  obtain cur where cur: "sq_GetCodeByID eng ?cid uid (w_store w) = Inr cur" "code_Mode cur \<noteq> ModeDirect"
    using up assms(4) by (auto simp: sv_UpdateDestination_def simp del: update_loop.simps split: sum.splits if_splits)
  have "served ?sv w w1"
    using served_update [where v = w and w = w and others = others and eng = eng and E = E and cid = ?cid and uid = uid and dest = d1 and ev = ex, OF served_refl assms(6)]
    by (simp only: sv up snd_conv)
  then have g1: "good_world sq_inv sq_alpha (sv_cache ?sv) w1" "astep (sq_alpha (w_store w)) (sq_alpha (w_store w1))"
    using good g by blast+
  obtain c' where c': "a_codes (sq_alpha (w_store w1)) ?cid = Some c'" "evolves cur c'"
    using g1(2) cur(1) sqlite.by_id_spec [of "w_store w" eng ?cid uid] g assms(5)
    by (auto simp: astep_def good_world_def owned_Some split: option.splits)
  then have md: "code_Mode c \<noteq> ModeDirect" using c(1) cur(2) by (auto simp: owned_Some evolves_def)
  have later: "\<exists>d. owned (sq_alpha (w_store v)) ?cid uid = Some d \<and> code_Mode d \<noteq> ModeDirect \<and> ex < code_Version d \<and> sq_inv (w_store v)"
    if h: "served ?sv w1 v" for v
  proof -
    obtain d where d: "a_codes (sq_alpha (w_store v)) ?cid = Some d" "evolves c d"
      using good [OF h g1(1)] c(1) by (auto simp: astep_def owned_Some)
    then show ?thesis using c md good [OF h g1(1)] by (auto simp: owned_Some evolves_def good_world_def)
  qed
  have w3: "served ?sv w1 (others' 0 w2)" using served_trans [OF assms(12,11)] .
  obtain d where d: "owned (sq_alpha (w_store w2)) ?cid uid = Some d" "code_Mode d \<noteq> ModeDirect" "sq_inv (w_store w2)"
    using later [OF assms(11)] by blast
  obtain d' where d': "owned (sq_alpha (w_store (others' 0 w2))) ?cid uid = Some d'" "ex < code_Version d'" "sq_inv (w_store (others' 0 w2))"
    using later [OF w3] by blast
  have "sv_UpdateDestination ?sv E' others' ?cid uid dest ex w2 = (Inl (VersionConflict ex (code_Version d')), others' 0 w2)"
    by (rule svc.stale_update [where eng = eng and sv = ?sv, unfolded sv]) (use d d' assms(5,8,17) in auto)
  then have "codes_patch ch E' others' r' uid w2 =
    (Some (WriteError [] CodeConflict ''The code was modified by another request; re-read it and retry with its current version.''
       [(''expected'', JInt ex), (''actual'', JInt (code_Version d'))]), others' 0 w2)"
    using assms(13-16) by (simp add: codes_patch_def writeServiceError_def is_canceled_def detail_def write_detail_def)
  then show ?thesis using d'(2) by blast
qed


lemma create_by_ref:
  assumes "decodeJSON (qh_dec (ch_http ch)) (create_into zero_create) r = Inr req" "inputFromRequest req uid = Inr i"
    and "ci_ClientRef i \<noteq> ''''" "sv_CreateBatch (ch_svc ch) E e uid [i] w = (rs, v)"
  shows "codes_create ch E e r uid w =
      (if br_Status (hd rs) = BatchError
       then (case br_Err (hd rs) of None \<Rightarrow> Some (Internal []) | Some err \<Rightarrow> writeServiceError (ch_http ch) (ch_svc ch) err, v)
       else case br_Code (hd rs) of
         None \<Rightarrow> (None, v)
       | Some c \<Rightarrow> (Some (created_at_location (ch_svc ch) (if br_Status (hd rs) = BatchExisting then 200 else 201) c), v))"
  using assms by (simp add: codes_create_def Let_def)

lemma create_succeeds:
  assumes "codes_create ch E e r uid w = (Some resp, w')" "rs_Status resp = 201"
    and "decodeJSON (qh_dec (ch_http ch)) (create_into zero_create) r = Inr req" "cq_ClientRef req \<noteq> ''''"
  obtains i rs c where "inputFromRequest req uid = Inr i" "sv_CreateBatch (ch_svc ch) E e uid [i] w = (rs, w')"
    "br_Status (hd rs) = BatchCreated" "br_Code (hd rs) = Some c" "resp = created_at_location (ch_svc ch) 201 c"
proof -
  have "inputFromRequest req uid \<noteq> Inl bad" for bad
  proof
    assume "inputFromRequest req uid = Inl bad"
    then have "resp = write_detail bad" using assms(1,3) by (simp add: codes_create_def)
    then show False using assms(2) error_status(1) [of "ed_Code bad"] by (simp add: write_detail_def WriteError_def)
  qed
  then obtain i where i: "inputFromRequest req uid = Inr i" by (cases "inputFromRequest req uid") auto
  obtain rs v where b: "sv_CreateBatch (ch_svc ch) E e uid [i] w = (rs, v)" by force
  have ref: "ci_ClientRef i \<noteq> ''''" using inputFromRequest_Inr(1) [OF i] assms(4) by simp
  note run = create_by_ref [where ch = ch, OF assms(3) i ref b]
  have "br_Status (hd rs) \<noteq> BatchError"
  proof
    assume "br_Status (hd rs) = BatchError"
    then have "400 \<le> rs_Status resp" using run assms(1) refusal_status(3) [OF sym] error_status(3) by (auto split: option.splits)
    then show False using assms(2) by simp
  qed
  moreover from this obtain c where "br_Code (hd rs) = Some c"
    "resp = created_at_location (ch_svc ch) (if br_Status (hd rs) = BatchExisting then 200 else 201) c" "w' = v"
    using run assms(1) by (auto split: option.splits)
  moreover from this have "br_Status (hd rs) \<noteq> BatchExisting" using assms(2) by (auto simp: created_at_location_def WriteJSON_def)
  ultimately show ?thesis using that [OF i] b by (cases "br_Status (hd rs)") auto
qed




subsection \<open>Batches\<close>

definition accepted :: "(error_detail + create_input) list \<Rightarrow> create_input list" where
  "accepted xs = concat (map (case_sum (\<lambda>_. []) (\<lambda>i. [i])) xs)"

lemma accepted_simps [simp]: "accepted [] = []" "accepted (xs @ ys) = accepted xs @ accepted ys" "accepted [Inl b] = []" "accepted [Inr i] = [i]"
  by (simp_all add: accepted_def)

lemma batch_inputs_snoc: "batch_inputs (xs @ [x]) = batch_inputs xs @ (case x of Inl _ \<Rightarrow> [] | Inr i \<Rightarrow> [(length xs, i)])"
  by (simp add: batch_inputs_def enumerate_append_eq split: sum.split)

lemma batch_inputs_spec:
  "map snd (batch_inputs xs) = accepted xs" "distinct (map fst (batch_inputs xs))" "fst ` set (batch_inputs xs) \<subseteq> {k. k < length xs \<and> \<not> isl (xs ! k)}"
  "k < length xs \<Longrightarrow> xs ! k = Inr i \<Longrightarrow>
    length (accepted (take k xs)) < length (batch_inputs xs) \<and> batch_inputs xs ! length (accepted (take k xs)) = (k, i)"
proof (induction xs rule: rev_induct)
  case (snoc x xs)
  {
    case 1 then show ?case using snoc by (simp add: batch_inputs_snoc split: sum.split)
  next
    case 2 then show ?case using snoc(2,3) by (auto simp: batch_inputs_snoc split: sum.split)
  next
    case 3 then show ?case using snoc(3) by (auto simp: batch_inputs_snoc nth_append split: sum.split)
  next
    case 4 
    have l: "length (batch_inputs xs) = length (accepted xs)" using arg_cong [OF snoc(1), of length] by simp
    show ?case 
    proof (cases "k < length xs")
      case True
      then show ?thesis using 4 snoc(4) by (auto simp: batch_inputs_snoc nth_append)
    next
      case False
      then have "k = length xs" "x = Inr i" using 4 by (auto simp: nth_append)
      then show ?thesis using l by (simp add: batch_inputs_snoc nth_append)
    qed
  }
qed (simp_all add: batch_inputs_def)

lemma fold_places:
  assumes "distinct idx" "set idx \<subseteq> {..<length out}" "map br_Index rs = [0..<length idx]"
  shows "length (fold (\<lambda>res out. out[idx ! br_Index res := f (idx ! br_Index res) res]) rs out) = length out \<and>
    (\<forall>k < length idx. fold (\<lambda>res out. out[idx ! br_Index res := f (idx ! br_Index res) res]) rs out ! (idx ! k) = f (idx ! k) (rs ! k)) \<and>
    (\<forall>j. j \<notin> set idx \<longrightarrow> fold (\<lambda>res out. out[idx ! br_Index res := f (idx ! br_Index res) res]) rs out ! j = out ! j)"
  using assms
proof (induction idx arbitrary: rs rule: rev_induct)
  case (snoc j idx)
  have "length rs = Suc (length idx)" using arg_cong [OF snoc.prems(3), of length] by simp
  then obtain rs' x where rs: "rs = rs' @ [x]" by (cases rs rule: rev_cases) auto
  then have ix: "map br_Index rs' = [0..<length idx]" "br_Index x = length idx" using snoc.prems(3) by auto
  have l: "length rs' = length idx" using arg_cong [OF ix(1), of length] by simp
  have "fold (\<lambda>res out. out[(idx @ [j]) ! br_Index res := f ((idx @ [j]) ! br_Index res) res]) rs' out =
      fold (\<lambda>res out. out[idx ! br_Index res := f (idx ! br_Index res) res]) rs' out"
  proof (rule fold_cong [OF refl refl])
    fix y assume "y \<in> set rs'"
    then have "br_Index y < length idx" using ix(1) by (metis atLeastLessThan_iff image_eqI list.set_map set_upt)
    then show "(\<lambda>out. out[(idx @ [j]) ! br_Index y := f ((idx @ [j]) ! br_Index y) y]) = (\<lambda>out. out[idx ! br_Index y := f (idx ! br_Index y) y])"
      by (simp add: nth_append)
  qed
  then show ?case using snoc.IH [OF _ _ ix(1)] snoc.prems(1,2) rs ix(2) l
    by (auto simp: nth_append nth_list_update less_Suc_eq)
qed simp


text \<open>C12. A batch of codes answers every item in its place: when the request has at least one item and no
  more than the instance accepts, the answer is 200 with one result per item; an item whose shape is
  wrong has its own error there, every other one the result the service gave for it, and the service
  saw exactly the well-formed items, in order.\<close>

theorem batch_results_are_positional:
  assumes "sv_store (ch_svc ch) = sqlite_ops eng" "sq_reachable (w_store w)"
    and "decodeJSONLimit (qh_dec (ch_http ch)) batch_body maxBatchBodyBytes r = Inr reqs"
    and "reqs \<noteq> []" "int (length reqs) \<le> sv_batchMax (ch_svc ch)"
  shows "\<exists>rs js w'. (if accepted (map (\<lambda>q. inputFromRequest q uid) reqs) = [] then ([], w)
      else sv_CreateBatch (ch_svc ch) E e uid (accepted (map (\<lambda>q. inputFromRequest q uid) reqs)) w) = (rs, w') \<and>
    createBatch ch E e r uid w = (Some (WriteJSON [] 200 (JObj [(''results'', JList js)])), w') \<and> length js = length reqs \<and>
    (\<forall>k < length reqs. js ! k = (case inputFromRequest (reqs ! k) uid of
        Inl bad \<Rightarrow> batch_item k BatchError [(''error'', error_json bad)]
      | Inr _ \<Rightarrow> result_json (ch_http ch) (ch_svc ch) k (rs ! length (accepted (map (\<lambda>q. inputFromRequest q uid) (take k reqs))))))"
proof -
  let ?sv = "ch_svc ch" and ?items = "map (\<lambda>q. inputFromRequest q uid) reqs"
  let ?blank = "map (\<lambda>(i, x). case x of Inl bad \<Rightarrow> batch_item i BatchError [(''error'', error_json bad)] | Inr _ \<Rightarrow> JNull) (enumerate 0 ?items)"
  have sv: "with_engine eng ?sv = ?sv" using driver_ids(1) [OF assms(1)] .
  obtain rs w' where run: "(if accepted ?items = [] then ([], w) else sv_CreateBatch ?sv E e uid (accepted ?items) w) = (rs, w')" by force
  have len: "length (batch_inputs ?items) = length (accepted ?items)" using arg_cong [OF batch_inputs_spec(1) [of ?items], of length] by simp
  have idx: "map br_Index rs = [0..<length (map fst (batch_inputs ?items))]"
    using svc.batch_answers(1) [where eng = eng and sv = ?sv, unfolded sv, OF reachable_inv [OF assms(2)], of E e uid "accepted ?items" rs w'] run len
    by (auto split: if_splits)
  let ?js = "batch_answers (ch_http ch) ?sv ?items rs"
  have places: "length ?js = length ?blank"
    "\<And>k. k < length (batch_inputs ?items) \<Longrightarrow> ?js ! fst (batch_inputs ?items ! k) = result_json (ch_http ch) ?sv (fst (batch_inputs ?items ! k)) (rs ! k)"
    "\<And>j. j \<notin> set (map fst (batch_inputs ?items)) \<Longrightarrow> ?js ! j = ?blank ! j"
    using fold_places [OF batch_inputs_spec(2) [of ?items] _ idx, of ?blank "result_json (ch_http ch) ?sv"] batch_inputs_spec(3) [of ?items]
    by (auto simp: batch_answers_def Let_def)
  have "?js ! k = (case ?items ! k of Inl bad \<Rightarrow> batch_item k BatchError [(''error'', error_json bad)]
      | Inr _ \<Rightarrow> result_json (ch_http ch) ?sv k (rs ! length (accepted (map (\<lambda>q. inputFromRequest q uid) (take k reqs)))))" if k: "k < length reqs" for k
  proof (cases "?items ! k")
    case (Inl bad)
    then have "k \<notin> set (map fst (batch_inputs ?items))" using batch_inputs_spec(3) [of ?items] k by auto
    then show ?thesis using places(3) Inl k by (simp add: nth_enumerate_eq)
  next
    case (Inr i)
    then show ?thesis using batch_inputs_spec(4) [of k ?items i] places(2) [of "length (accepted (take k ?items))"] k by (auto simp: take_map)
  qed
  moreover have "createBatch ch E e r uid w = (Some (WriteJSON [] 200 (JObj [(''results'', JList ?js)])), w')"
    using assms(3-5) run by (simp add: createBatch_def batch_inputs_spec(1) Let_def split: if_splits)
  ultimately show ?thesis using run places(1) by (intro exI conjI) auto
qed

subsection \<open>Witnesses\<close>

definition sample_http :: "json \<Rightarrow> qr_http" where
  "sample_http v = \<lparr>qh_dec = (\<lambda>_. Some (v, False)), qh_MediaType = Some, qh_Multipart = (\<lambda>_. None), qh_ParseFloat = (\<lambda>_. None),
     qh_fixed = (\<lambda>_ _. ''''), qh_percent = (\<lambda>_. '''')\<rparr>"

definition sample_codes :: "json \<Rightarrow> (db, mem_blob, (string \<times> gotime \<times> resolution) list) codes_handler" where
  "sample_codes v = \<lparr>ch_svc = sample_service, ch_http = sample_http v\<rparr>"

definition code_request :: "string \<Rightarrow> header \<Rightarrow> request" where
  "code_request cid h = \<lparr>rq_Method = ''PATCH'', rq_Path = ''/v1/codes'', rq_Header = h, rq_PathValue = [(''id'', cid)], rq_Query = [],
     rq_Cookies = [], rq_RemoteAddr = '''', rq_Body = ''''\<rparr>"

lemma sample_codes_simps [simp]: "ch_svc (sample_codes v) = sample_service" "ch_http (sample_codes v) = sample_http v"
  "PathValue (code_request cid h) ''id'' = cid" "sv_store sample_service = sqlite_ops sample_engine" "outage sample_engine = None"
  by (simp_all add: sample_codes_def code_request_def PathValue_def header_Get_def sample_service_def NewService_def sample_engine_def)

lemma sample_decode: "decodeJSONLimit (qh_dec (sample_http v)) f n r = (case f v of None \<Rightarrow>
    Inl (WriteError [] CodeInvalidRequest ''The request body is not valid JSON for this endpoint.'' [(''field'', JStr ''body'')]) | Some x \<Rightarrow> Inr x)"
  by (simp add: decodeJSONLimit_def sample_http_def split: option.split)


lemma sample_cold: "otter_ok (sv_cache sample_service)" "cold (sv_cache sample_service) []"
  using ttl_cache_ok by (simp_all add: cold_def) (simp add: ttl_cache_def)

theorem patch_no_lost_update_witness:
  "\<exists>resp w1. codes_patch (sample_codes (JObj [(''destination'', JStr ''https://example.com/lunch'')])) (\<lambda>_. sample_env) (\<lambda>_ w. w)
      (code_request ''cod_0000000000000000'' [(''If-Match'', [CHR 0x22, CHR ''1'', CHR 0x22])]) ''usr_1'' world_with_menu = (Some resp, w1) \<and>
    rs_Status resp = 200 \<and> (\<exists>newer > 1. codes_patch (sample_codes (JObj [(''destination'', JStr ''https://example.com/lunch'')])) (\<lambda>_. sample_env) (\<lambda>_ w. w)
      (code_request ''cod_0000000000000000'' [(''If-Match'', [CHR 0x22, CHR ''1'', CHR 0x22])]) ''usr_1'' w1 =
    (Some (WriteError [] CodeConflict ''The code was modified by another request; re-read it and retry with its current version.''
       [(''expected'', JInt 1), (''actual'', JInt newer)]), w1))"
proof -
  let ?v = "JObj [(''destination'', JStr ''https://example.com/lunch'')]" and ?dest = "''https://example.com/lunch''"
  let ?r = "code_request ''cod_0000000000000000'' [(''If-Match'', [CHR 0x22, CHR ''1'', CHR 0x22])]"
  let ?u = "sv_UpdateDestination sample_service (\<lambda>_. sample_env) (\<lambda>_ w. w) ''cod_0000000000000000'' ''usr_1'' ?dest 1 world_with_menu"
  have ok: "case fst ?u of Inl _ \<Rightarrow> False | Inr c \<Rightarrow> True" by code_simp
  obtain c w1 where u: "?u = (Inr c, w1)" using ok by (cases ?u) (auto split: sum.splits)
  have im: "if_match ?r = Inr 1" by code_simp
  have "update_body ?v = Some ?dest" by code_simp
  then have de: "decodeJSON (qh_dec (sample_http ?v)) update_body ?r = Inr ?dest" by (simp add: decodeJSON_def sample_decode)
  have tr: "strings_TrimSpace ?dest = ?dest" by code_simp
  have va: "ValidateDestination sample_service ?dest = None" by code_simp
  have p: "codes_patch (sample_codes ?v) (\<lambda>_. sample_env) (\<lambda>_ w. w) ?r ''usr_1'' world_with_menu = (Some (WriteJSON [] 200 (toResponse sample_service c)), w1)"
    using im de tr u by (simp add: codes_patch_def)
  have "\<exists>newer > 1. codes_patch (sample_codes ?v) (\<lambda>_. sample_env) (\<lambda>_ w. w) ?r ''usr_1'' w1 =
    (Some (WriteError [] CodeConflict ''The code was modified by another request; re-read it and retry with its current version.''
       [(''expected'', JInt 1), (''actual'', JInt newer)]), w1)"
    by (rule patch_no_lost_update [where cs = "[]" and bs = "\<lambda>_. None" and ch = "sample_codes ?v" and w = world_with_menu and others = "\<lambda>_ w. w" and
          others' = "\<lambda>_ w. w" and eng = sample_engine and ?w2.0 = w1, OF _ _ _ _ _ _ im _ p])
      (use sample_cold world_with_menu_served served_refl im de tr va in \<open>simp_all add: fresh_world_def WriteJSON_def\<close>)
  then show ?thesis using p by (auto simp: WriteJSON_def)
qed



theorem batch_results_are_positional_witness:
  "\<exists>js w'. createBatch (sample_codes (JObj [(''items'', JList [JObj [], JObj [(''destination'', JStr ''https://example.com/lunch'')]])]))
      (\<lambda>_. sample_env) sample_env (code_request '''' []) ''usr_1'' world_with_user = (Some (WriteJSON [] 200 (JObj [(''results'', JList js)])), w') \<and>
    length js = 2 \<and> js ! 0 = batch_item 0 BatchError [(''error'', error_json (bad_field ''A destination is required.'' ''destination''))]"
proof -
  let ?v = "JObj [(''items'', JList [JObj [], JObj [(''destination'', JStr ''https://example.com/lunch'')]])]" and ?r = "code_request '''' []"
  let ?reqs = "[zero_create, zero_create\<lparr>cq_Destination := ''https://example.com/lunch''\<rparr>]"
  have q: "batch_body ?v = Some ?reqs" by code_simp
  have bad: "inputFromRequest zero_create ''usr_1'' = Inl (bad_field ''A destination is required.'' ''destination'')" by code_simp
  have reach: "sq_reachable (w_store world_with_user)" using sq_reachable.step [OF sq_reachable.start] by (simp add: world_with_user_def del: run_store.simps)
  have bm: "int (length ?reqs) \<le> sv_batchMax sample_service" by (simp add: sample_service_def NewService_def DefaultBatchMax_def)
  obtain rs js w' where "createBatch (sample_codes ?v) (\<lambda>_. sample_env) sample_env ?r ''usr_1'' world_with_user =
      (Some (WriteJSON [] 200 (JObj [(''results'', JList js)])), w')" "length js = length ?reqs"
    and js: "\<forall>k < length ?reqs. js ! k = (case inputFromRequest (?reqs ! k) ''usr_1'' of
        Inl bad \<Rightarrow> batch_item k BatchError [(''error'', error_json bad)]
      | Inr _ \<Rightarrow> result_json (ch_http (sample_codes ?v)) (ch_svc (sample_codes ?v)) k (rs ! length (accepted (map (\<lambda>q. inputFromRequest q ''usr_1'') (take k ?reqs)))))"
    using batch_results_are_positional [where ch = "sample_codes ?v" and eng = sample_engine and w = world_with_user and reqs = ?reqs and r = ?r and
        uid = "''usr_1''" and E = "\<lambda>_. sample_env" and e = sample_env] q reach bm by (auto simp only: sample_codes_simps sample_decode option.case)
  moreover have "js ! 0 = batch_item 0 BatchError [(''error'', error_json (bad_field ''A destination is required.'' ''destination''))]"
    using js bad by (auto dest: spec [of _ 0])
  ultimately show ?thesis by auto
qed

end
