(* ===== verification/Auth.thy ===== *)
theory Auth
  imports Encoding Codes_Service
begin

text \<open>
  Authentication, \<^verbatim>\<open>src/internal/auth\<close>: API tokens, sessions, forwarded identities, passwords and
  the bootstrap account. The hash functions, the signing and checking of session tokens (a
  third-party package) and the address functions of \<open>net\<close> are arguments, kept in the records
  \<open>crypto\<close> and \<open>netlib\<close>. One request reads the clock and the random bytes of its
  \<open>call_env\<close>; the two caches and the times of the last touches are state beside the store's.
\<close>

subsection \<open>What the package calls\<close>

record claims =
  jc_Subject :: string
  jc_ID :: string
  jc_TokenVersion :: int
  jc_IssuedAt :: gotime
  jc_ExpiresAt :: gotime

text \<open>\<open>cy_Parse key t token\<close> is \<open>ParseWithClaims\<close> at time \<open>t\<close> with the options
  \<open>verifySession\<close> passes: only HS256 is accepted, an expiry is required and checked, and so is the
  time of issue, both with \<open>ClockLeeway\<close>.\<close>

definition ClockLeeway :: duration where "ClockLeeway = 60 * Second"

record crypto =
  cy_SHA256 :: "bytes \<Rightarrow> bytes"
  cy_HMAC :: "bytes \<Rightarrow> bytes \<Rightarrow> bytes"
  cy_IDKey :: "bytes \<Rightarrow> bytes \<Rightarrow> nat \<Rightarrow> nat \<Rightarrow> nat \<Rightarrow> nat \<Rightarrow> bytes"
  cy_Sign :: "bytes \<Rightarrow> claims \<Rightarrow> string option"
  cy_Parse :: "bytes \<Rightarrow> gotime \<Rightarrow> string \<Rightarrow> claims option"

type_synonym ip = bytes
type_synonym ipnet = "bytes \<times> bytes"

record netlib =
  nt_SplitHostPort :: "string \<Rightarrow> string option"
  nt_ParseIP :: "string \<Rightarrow> ip option"
  nt_ParseCIDR :: "string \<Rightarrow> ipnet option"
  nt_Contains :: "ipnet \<Rightarrow> ip \<Rightarrow> bool"

subsection \<open>Identifiers\<close>

definition drawn :: "nat \<Rightarrow> nat \<Rightarrow> call_env \<Rightarrow> bytes" where
  "drawn k n e = map (\<lambda>i. char_of (unat (rnd e (k + i)))) [0..<n]"

definition idBytes :: nat where "idBytes = 10"

definition encodeID :: "string \<Rightarrow> bytes \<Rightarrow> string" where
  "encodeID pre material = pre @ strings_ToLower (base32_EncodeToString (take idBytes material))"

definition auth_newID :: "nat \<Rightarrow> string \<Rightarrow> call_env \<Rightarrow> string" where
  "auth_newID k pre e = encodeID pre (drawn k idBytes e)"

subsection \<open>The caches\<close>

text \<open>A map in Go, an association list with distinct keys here.\<close>

type_synonym 'v ttl_cache = "(string \<times> 'v \<times> gotime) list"

definition tc_get :: "gotime \<Rightarrow> string \<Rightarrow> 'v ttl_cache \<Rightarrow> 'v option \<times> 'v ttl_cache" where
  "tc_get t k c = (case map_of c k of
     None \<Rightarrow> (None, c)
   | Some (v, x) \<Rightarrow> if \<not> t < x then (None, filter (\<lambda>y. fst y \<noteq> k) c) else (Some v, c))"

definition tc_put :: "duration \<Rightarrow> gotime \<Rightarrow> string \<Rightarrow> 'v \<Rightarrow> 'v ttl_cache \<Rightarrow> 'v ttl_cache" where
  "tc_put ttl t k v c =
    (let c' = (if 4096 \<le> length c then filter (\<lambda>(_, _, x). t < x) c else c)
     in (k, v, t + ttl) # filter (\<lambda>y. fst y \<noteq> k) c')"

subsection \<open>The authenticator\<close>

datatype auth_error = ErrUnauthorized | ErrTokenRevoked | ErrAssertions | AuthStore string store_error | AuthSign

definition DefaultSessionTTL :: duration where "DefaultSessionTTL = 12 * Hour"
definition DefaultCacheTTL :: duration where "DefaultCacheTTL = 30 * Second"
definition touchInterval :: duration where "touchInterval = Minute"

record auth_options =
  ao_SigningSecret :: string
  ao_BaseURL :: string
  ao_DevMode :: bool
  ao_SessionTTL :: duration
  ao_TokenPepper :: string
  ao_FwdEnabled :: bool
  ao_FwdHeader :: string
  ao_TrustedCIDRs :: "string list"
  ao_CacheTTL :: duration

record authenticator =
  au_crypto :: crypto
  au_net :: netlib
  au_signingKey :: bytes
  au_sessionTTL :: duration
  au_cacheTTL :: duration
  au_pepper :: bytes
  au_cookieSecure :: bool
  au_fwdEnabled :: bool
  au_fwdHeader :: string
  au_fwdTrusted :: "ipnet list"

record 's auth_world =
  aw_store :: 's
  aw_tokens :: "api_token ttl_cache"
  aw_users :: "user ttl_cache"
  aw_lastTouch :: "(string \<times> gotime) list"

definition fresh_auth :: "'s \<Rightarrow> 's auth_world" where
  "fresh_auth s = \<lparr>aw_store = s, aw_tokens = [], aw_users = [], aw_lastTouch = []\<rparr>"

definition CookieSecureForBaseURL :: "(string \<Rightarrow> url option) \<Rightarrow> string \<Rightarrow> bool" where
  "CookieSecureForBaseURL parse baseURL =
    (case parse baseURL of
       None \<Rightarrow> True
     | Some u \<Rightarrow> if baseURL = '''' then True else \<not> strings_EqualFold (u_Scheme u) ''http'')"

definition auth_New :: "crypto \<Rightarrow> netlib \<Rightarrow> (string \<Rightarrow> url option) \<Rightarrow> call_env \<Rightarrow> auth_options \<Rightarrow> string + authenticator" where
  "auth_New cy nt parse e cfg =
    (if ao_SigningSecret cfg = '''' \<and> \<not> ao_DevMode cfg
     then Inl ''auth: no signing secret configured and dev_mode is off (FR-040)''
     else
       let key = (if ao_SigningSecret cfg = '''' then drawn 0 32 e else ao_SigningSecret cfg);
           a = \<lparr>au_crypto = cy, au_net = nt, au_signingKey = key,
                au_sessionTTL = (if ao_SessionTTL cfg \<le> 0 then DefaultSessionTTL else ao_SessionTTL cfg),
                au_cacheTTL = (if ao_CacheTTL cfg \<le> 0 then DefaultCacheTTL else ao_CacheTTL cfg),
                au_pepper = ao_TokenPepper cfg, au_cookieSecure = CookieSecureForBaseURL parse (ao_BaseURL cfg),
                au_fwdEnabled = ao_FwdEnabled cfg,
                au_fwdHeader = (if ao_FwdHeader cfg = '''' then ''X-Forwarded-Email'' else ao_FwdHeader cfg),
                au_fwdTrusted = []\<rparr>
       in if \<not> ao_FwdEnabled cfg then Inr a
          else if ao_TrustedCIDRs cfg = [] then Inl ''auth: forward_auth.enabled with no trusted_cidrs''
          else case mapM (\<lambda>c. case nt_ParseCIDR nt c of None \<Rightarrow> Inl (''auth: forward_auth.trusted_cidrs: invalid CIDR '' @ c) | Some n \<Rightarrow> Inr n)
                 (ao_TrustedCIDRs cfg) of
            Inl err \<Rightarrow> Inl err
          | Inr nets \<Rightarrow> Inr (a\<lparr>au_fwdTrusted := nets\<rparr>))"

subsection \<open>API tokens\<close>

definition TokenPrefix :: string where "TokenPrefix = ''qur_''"
definition tokenBytes :: nat where "tokenBytes = 32"
definition tokenEncodedLen :: nat where "tokenEncodedLen = 43"

definition hashToken :: "authenticator \<Rightarrow> string \<Rightarrow> bytes" where
  "hashToken a secret =
    (if au_pepper a \<noteq> '''' then cy_HMAC (au_crypto a) (au_pepper a) secret else cy_SHA256 (au_crypto a) secret)"

definition parseToken :: "string \<Rightarrow> string option" where
  "parseToken secret =
    (if \<not> HasPrefix secret TokenPrefix \<or> length secret \<noteq> length TokenPrefix + tokenEncodedLen then None
     else case base64_DecodeString base64url (drop (length TokenPrefix) secret) of
       None \<Rightarrow> None
     | Some raw \<Rightarrow> if length raw \<noteq> tokenBytes then None else Some (encodeID ''tok_'' raw))"

definition CreateToken ::
  "authenticator \<Rightarrow> 's store_ops \<Rightarrow> call_env \<Rightarrow> string \<Rightarrow> string \<Rightarrow> gotime option \<Rightarrow> 's auth_world \<Rightarrow> (auth_error + api_token \<times> string) \<times> 's auth_world" where
  "CreateToken a st e userID name expiresAt w =
    (let raw = drawn 0 tokenBytes e;
         secret = TokenPrefix @ base64_EncodeToString base64url raw;
         t = \<lparr>tok_ID = encodeID ''tok_'' raw, tok_UserID = userID, tok_Name = name, tok_SecretHash = hashToken a secret,
              tok_CreatedAt = now e, tok_LastUsedAt = None, tok_RevokedAt = None, tok_ExpiresAt = expiresAt\<rparr>
     in case so_CreateToken st e t (aw_store w) of
          Inl err \<Rightarrow> (Inl (AuthStore ''auth: create token'' err), w)
        | Inr s' \<Rightarrow> (Inr (t\<lparr>tok_SecretHash := []\<rparr>, secret), w\<lparr>aw_store := s'\<rparr>))"

definition touch :: "'s store_ops \<Rightarrow> gotime \<Rightarrow> string \<Rightarrow> 's auth_world \<Rightarrow> 's auth_world" where
  "touch st t tid w =
    (if (case map_of (aw_lastTouch w) tid of None \<Rightarrow> False | Some prev \<Rightarrow> t - prev < touchInterval) then w
     else
       let lt = (tid, t) # filter (\<lambda>x. fst x \<noteq> tid) (aw_lastTouch w);
           lt' = (if 8192 < length lt then filter (\<lambda>x. t - snd x < touchInterval) lt else lt)
       in w\<lparr>aw_lastTouch := lt',
            aw_store := (case so_TouchTokenLastUsed st tid t (aw_store w) of Inl _ \<Rightarrow> aw_store w | Inr s' \<Rightarrow> s')\<rparr>)"

definition verifyToken ::
  "authenticator \<Rightarrow> 's store_ops \<Rightarrow> gotime \<Rightarrow> string \<Rightarrow> 's auth_world \<Rightarrow> (auth_error + api_token) \<times> 's auth_world" where
  "verifyToken a st t secret w =
    (case parseToken secret of
       None \<Rightarrow> (Inl ErrUnauthorized, w)
     | Some tid \<Rightarrow>
         let (hit, toks) = tc_get t tid (aw_tokens w); w1 = w\<lparr>aw_tokens := toks\<rparr> in
         (case (case hit of Some tk \<Rightarrow> Inr tk | None \<Rightarrow> so_GetTokenByID st tid (aw_store w)) of
            Inl err \<Rightarrow> (Inl (if err = ErrNotFound then ErrUnauthorized else AuthStore ''auth: token lookup'' err), w1)
          | Inr tk \<Rightarrow>
              if hashToken a secret \<noteq> tok_SecretHash tk then (Inl ErrUnauthorized, w1)
              else if tok_Revoked tk then (Inl ErrTokenRevoked, w1)
              else if (case tok_ExpiresAt tk of None \<Rightarrow> False | Some x \<Rightarrow> \<not> t < x) then (Inl ErrUnauthorized, w1)
              else
                let w2 = (if hit = None then w1\<lparr>aw_tokens := tc_put (au_cacheTTL a) t tid tk (aw_tokens w1)\<rparr> else w1)
                in (Inr (tk\<lparr>tok_SecretHash := []\<rparr>), touch st t tid w2)))"

definition userByID ::
  "authenticator \<Rightarrow> 's store_ops \<Rightarrow> gotime \<Rightarrow> string \<Rightarrow> 's auth_world \<Rightarrow> (auth_error + user) \<times> 's auth_world" where
  "userByID a st t uid w =
    (let (hit, us) = tc_get t uid (aw_users w); w1 = w\<lparr>aw_users := us\<rparr> in
     case hit of
       Some u \<Rightarrow> (Inr u, w1)
     | None \<Rightarrow>
         (case so_GetUserByID st uid (aw_store w) of
            Inl err \<Rightarrow> (Inl (if err = ErrNotFound then ErrUnauthorized else AuthStore ''auth: user lookup'' err), w1)
          | Inr u \<Rightarrow> (Inr u, w1\<lparr>aw_users := tc_put (au_cacheTTL a) t uid u (aw_users w1)\<rparr>)))"

subsection \<open>Sessions\<close>

definition SessionCookieName :: string where "SessionCookieName = ''qurator_session''"

definition IssueSession :: "authenticator \<Rightarrow> call_env \<Rightarrow> user \<Rightarrow> auth_error + string \<times> gotime" where
  "IssueSession a e u =
    (let ex = now e + au_sessionTTL a in
     case cy_Sign (au_crypto a) (au_signingKey a)
        \<lparr>jc_Subject = user_ID u, jc_ID = auth_newID 0 ''ses_'' e, jc_TokenVersion = user_TokenVersion u,
         jc_IssuedAt = now e, jc_ExpiresAt = ex\<rparr> of
       None \<Rightarrow> Inl AuthSign
     | Some token \<Rightarrow> Inr (token, ex))"

definition verifySession ::
  "authenticator \<Rightarrow> 's store_ops \<Rightarrow> gotime \<Rightarrow> string \<Rightarrow> 's auth_world \<Rightarrow> (auth_error + user) \<times> 's auth_world" where
  "verifySession a st t token w =
    (case cy_Parse (au_crypto a) (au_signingKey a) t token of
       None \<Rightarrow> (Inl ErrUnauthorized, w)
     | Some c \<Rightarrow>
         if jc_Subject c = '''' then (Inl ErrUnauthorized, w)
         else case userByID a st t (jc_Subject c) w of
           (Inl err, w1) \<Rightarrow> (Inl err, w1)
         | (Inr u, w1) \<Rightarrow> if user_TokenVersion u \<noteq> jc_TokenVersion c then (Inl ErrUnauthorized, w1) else (Inr u, w1))"

definition SessionCookie :: "authenticator \<Rightarrow> gotime \<Rightarrow> string \<Rightarrow> gotime \<Rightarrow> cookie" where
  "SessionCookie a t token ex =
    (let maxAge = (ex - t) div Second in
     \<lparr>ck_Name = SessionCookieName, ck_Value = token, ck_Path = ''/'', ck_HttpOnly = True, ck_Secure = au_cookieSecure a,
      ck_SameSiteStrict = True, ck_MaxAge = (if maxAge < 1 then 1 else maxAge), ck_Expires = ex\<rparr>)"

text \<open>\<open>time.Unix(0, 0)\<close>, in nanoseconds since the zero time.\<close>

definition unix_epoch :: gotime where "unix_epoch = 719162 * Day"

definition ClearSessionCookie :: "authenticator \<Rightarrow> cookie" where
  "ClearSessionCookie a =
    \<lparr>ck_Name = SessionCookieName, ck_Value = '''', ck_Path = ''/'', ck_HttpOnly = True, ck_Secure = au_cookieSecure a,
     ck_SameSiteStrict = True, ck_MaxAge = - 1, ck_Expires = unix_epoch\<rparr>"

subsection \<open>The middleware\<close>

definition MethodBearer :: string where "MethodBearer = ''bearer''"
definition MethodCookie :: string where "MethodCookie = ''cookie''"
definition MethodForwardAuth :: string where "MethodForwardAuth = ''forward_auth''"

record identity =
  id_UserID :: string
  id_IsAdmin :: bool
  id_Method :: string

text \<open>The identity in the request's context; a handler takes it as its first argument.\<close>

type_synonym 's auth_handler = "identity option \<Rightarrow> request \<Rightarrow> 's auth_world \<Rightarrow> response \<times> 's auth_world"

definition auth_Method :: "identity option \<Rightarrow> string" where
  "auth_Method i = (case i of None \<Rightarrow> '''' | Some i \<Rightarrow> id_Method i)"

definition RequireAuth :: "'s auth_handler \<Rightarrow> 's auth_handler" where
  "RequireAuth next i r w =
    (if i = None then (WriteError [] CodeUnauthorized ''Authentication is required.'' [], w) else next i r w)"

definition RequireAdmin :: "'s auth_handler \<Rightarrow> 's auth_handler" where
  "RequireAdmin next i r w =
    (case i of
       None \<Rightarrow> (WriteError [] CodeUnauthorized ''Authentication is required.'' [], w)
     | Some i' \<Rightarrow>
         if \<not> id_IsAdmin i' then (WriteError [] CodeForbidden ''This operation requires an administrator.'' [], w)
         else next i r w)"

definition accept_user :: "identity option \<Rightarrow> user \<Rightarrow> string \<Rightarrow> auth_error + identity option" where
  "accept_user found u method =
    (case found of
       Some i \<Rightarrow> if user_ID u \<noteq> id_UserID i then Inl ErrAssertions else Inr found
     | None \<Rightarrow> Inr (Some \<lparr>id_UserID = user_ID u, id_IsAdmin = user_IsAdmin u, id_Method = method\<rparr>))"

text \<open>\<open>strings.Cut\<close> at the first blank.\<close>

definition cut_space :: "string \<Rightarrow> string \<times> string" where
  "cut_space s = (takeWhile (\<lambda>c. c \<noteq> CHR '' '') s, drop 1 (dropWhile (\<lambda>c. c \<noteq> CHR '' '') s))"

definition peerTrusted :: "authenticator \<Rightarrow> string \<Rightarrow> bool" where
  "peerTrusted a remoteAddr =
    (let host = (case nt_SplitHostPort (au_net a) remoteAddr of None \<Rightarrow> remoteAddr | Some h \<Rightarrow> h) in
     case nt_ParseIP (au_net a) host of
       None \<Rightarrow> False
     | Some ip \<Rightarrow> list_ex (\<lambda>n. nt_Contains (au_net a) n ip) (au_fwdTrusted a))"

definition forwardAuthUser ::
  "'s store_ops \<Rightarrow> call_env \<Rightarrow> string \<Rightarrow> 's auth_world \<Rightarrow> (auth_error + user) \<times> 's auth_world" where
  "forwardAuthUser st e email w =
    (case so_GetUserByEmail st email (aw_store w) of
       Inr u \<Rightarrow> (Inr u, w)
     | Inl err \<Rightarrow>
         if err \<noteq> ErrNotFound then (Inl (AuthStore ''auth: forward-auth user lookup'' err), w)
         else
           let u = \<lparr>user_ID = auth_newID 0 ''usr_'' e, user_Email = email, user_PasswordHash = '''', user_IsAdmin = False,
                    user_TokenVersion = 0, user_Source = UserSourceForwardAuth, user_CreatedAt = now e, user_LastLoginAt = None\<rparr>
           in (case so_CreateUser st e u (aw_store w) of
                 Inr s' \<Rightarrow> (Inr u, w\<lparr>aw_store := s'\<rparr>)
               | Inl err \<Rightarrow>
                   if err \<noteq> ErrConflict then (Inl (AuthStore ''auth: provision forward-auth user'' err), w)
                   else (case so_GetUserByEmail st email (aw_store w) of
                           Inl err \<Rightarrow> (Inl (AuthStore ''auth: forward-auth user re-read'' err), w)
                         | Inr u \<Rightarrow> (Inr u, w))))"

definition resolve_bearer ::
  "authenticator \<Rightarrow> 's store_ops \<Rightarrow> call_env \<Rightarrow> request \<Rightarrow> 's auth_world \<Rightarrow> (auth_error + identity option) \<times> 's auth_world" where
  "resolve_bearer a st e r w =
    (let authz = header_Get (rq_Header r) ''Authorization'' in
     if authz = '''' then (Inr None, w)
     else
       let (scheme, secret) = cut_space authz in
       if \<not> strings_EqualFold scheme ''Bearer'' then (Inl ErrUnauthorized, w)
       else case verifyToken a st (now e) (strings_TrimSpace secret) w of
         (Inl err, w1) \<Rightarrow> (Inl err, w1)
       | (Inr tk, w1) \<Rightarrow>
           (case userByID a st (now e) (tok_UserID tk) w1 of
              (Inl err, w2) \<Rightarrow> (Inl err, w2)
            | (Inr u, w2) \<Rightarrow> (accept_user None u MethodBearer, w2)))"

definition resolve_cookie ::
  "authenticator \<Rightarrow> 's store_ops \<Rightarrow> call_env \<Rightarrow> request \<Rightarrow> identity option \<Rightarrow> 's auth_world \<Rightarrow> (auth_error + identity option) \<times> 's auth_world" where
  "resolve_cookie a st e r found w =
    (case map_of (rq_Cookies r) SessionCookieName of
       None \<Rightarrow> (Inr found, w)
     | Some v \<Rightarrow>
         if v = '''' then (Inr found, w)
         else case verifySession a st (now e) v w of
           (Inl err, w1) \<Rightarrow> (Inl err, w1)
         | (Inr u, w1) \<Rightarrow> (accept_user found u MethodCookie, w1))"

definition resolve_forward ::
  "authenticator \<Rightarrow> 's store_ops \<Rightarrow> call_env \<Rightarrow> request \<Rightarrow> identity option \<Rightarrow> 's auth_world \<Rightarrow> (auth_error + identity option) \<times> 's auth_world" where
  "resolve_forward a st e r found w =
    (if \<not> (au_fwdEnabled a \<and> peerTrusted a (rq_RemoteAddr r)) then (Inr found, w)
     else case header_Values (rq_Header r) (au_fwdHeader a) of
       [] \<Rightarrow> (Inr found, w)
     | [v] \<Rightarrow>
         (let email = strings_TrimSpace v in
          if strings_Contains email '','' then (Inl ErrAssertions, w)
          else if email = '''' \<or> 254 < length email \<or> \<not> strings_Contains email ''@'' then (Inl ErrUnauthorized, w)
          else case forwardAuthUser st e email w of
            (Inl err, w1) \<Rightarrow> (Inl err, w1)
          | (Inr u, w1) \<Rightarrow> (accept_user found u MethodForwardAuth, w1))
     | _ \<Rightarrow> (Inl ErrAssertions, w))"

definition auth_resolve ::
  "authenticator \<Rightarrow> 's store_ops \<Rightarrow> call_env \<Rightarrow> request \<Rightarrow> 's auth_world \<Rightarrow> (auth_error + identity option) \<times> 's auth_world" where
  "auth_resolve a st e r w =
    (case resolve_bearer a st e r w of
       (Inl err, w1) \<Rightarrow> (Inl err, w1)
     | (Inr f1, w1) \<Rightarrow>
         (case resolve_cookie a st e r f1 w1 of
            (Inl err, w2) \<Rightarrow> (Inl err, w2)
          | (Inr f2, w2) \<Rightarrow> resolve_forward a st e r f2 w2))"

definition reject :: "authenticator \<Rightarrow> request \<Rightarrow> auth_error \<Rightarrow> response" where
  "reject a r err =
    (case err of
       ErrTokenRevoked \<Rightarrow> WriteError [] CodeTokenRevoked ''The presented API token has been revoked.'' []
     | ErrAssertions \<Rightarrow> WriteError [] CodeUnauthorized ''The request carries conflicting identity assertions.'' []
     | ErrUnauthorized \<Rightarrow>
         (WriteError [] CodeUnauthorized ''The presented credential is not valid.'' [])
           \<lparr>rs_Cookies := (if map_of (rq_Cookies r) SessionCookieName = None then [] else [ClearSessionCookie a])\<rparr>
     | _ \<Rightarrow> Internal [])"

definition Middleware ::
  "authenticator \<Rightarrow> 's store_ops \<Rightarrow> call_env \<Rightarrow> 's auth_handler \<Rightarrow> request \<Rightarrow> 's auth_world \<Rightarrow> response \<times> 's auth_world" where
  "Middleware a st e next r w =
    (case auth_resolve a st e r w of
       (Inl err, w') \<Rightarrow> (reject a r err, w')
     | (Inr i, w') \<Rightarrow> next i r w')"

subsection \<open>Passwords\<close>

definition argonTime :: nat where "argonTime = 3"
definition argonMemory :: nat where "argonMemory = 64 * 1024"
definition argonThreads :: nat where "argonThreads = 4"
definition argonKeyLen :: nat where "argonKeyLen = 32"
definition argonSaltLen :: nat where "argonSaltLen = 16"
definition argonVersion :: nat where "argonVersion = 19"

definition HashPassword :: "crypto \<Rightarrow> call_env \<Rightarrow> string \<Rightarrow> string" where
  "HashPassword cy e password =
    (let salt = drawn 0 argonSaltLen e;
         key = cy_IDKey cy password salt argonTime argonMemory argonThreads argonKeyLen
     in ''$argon2id$v='' @ digits argonVersion @ ''$m='' @ digits argonMemory @ '',t='' @ digits argonTime @ '',p='' @ digits argonThreads
        @ ''$'' @ base64_EncodeToString base64std salt @ ''$'' @ base64_EncodeToString base64std key)"

text \<open>\<open>Sscanf(parts[2], "v=%d", ...)\<close> and \<open>Sscanf(parts[3], "m=%d,t=%d,p=%d", ...)\<close>.\<close>

definition phc_version :: "string \<Rightarrow> int option" where
  "phc_version s = Option.bind (scan_literal ''v='' s) (\<lambda>s. map_option fst (scan_int s))"

definition phc_params :: "string \<Rightarrow> (nat \<times> nat \<times> nat) option" where
  "phc_params s =
     Option.bind (scan_literal ''m='' s) (\<lambda>s.
     Option.bind (scan_uint 32 s) (\<lambda>(m, s).
     Option.bind (scan_literal '',t='' s) (\<lambda>s.
     Option.bind (scan_uint 32 s) (\<lambda>(t, s).
     Option.bind (scan_literal '',p='' s) (\<lambda>s.
     Option.bind (scan_uint 8 s) (\<lambda>(p, s). Some (m, t, p)))))))"

definition VerifyPassword :: "crypto \<Rightarrow> string \<Rightarrow> string \<Rightarrow> bool option" where
  "VerifyPassword cy phc password =
    (case split_on (CHR ''$'') phc of
       [p0, p1, p2, p3, p4, p5] \<Rightarrow>
         if p0 \<noteq> '''' \<or> p1 \<noteq> ''argon2id'' then None
         else if phc_version p2 \<noteq> Some (int argonVersion) then None
         else (case phc_params p3 of
           None \<Rightarrow> None
         | Some (m, t, p) \<Rightarrow>
             if m = 0 \<or> t = 0 \<or> p = 0 then None
             else (case base64_DecodeString base64std p4 of
               None \<Rightarrow> None
             | Some salt \<Rightarrow>
                 if salt = [] then None
                 else (case base64_DecodeString base64std p5 of
                   None \<Rightarrow> None
                 | Some want \<Rightarrow>
                     if want = [] \<or> 2 ^ 32 - 1 < length want then None
                     else Some (cy_IDKey cy password salt t m p (length want) = want))))
     | _ \<Rightarrow> None)"

subsection \<open>Bootstrap\<close>

definition Bootstrap ::
  "crypto \<Rightarrow> 's store_ops \<Rightarrow> call_env \<Rightarrow> string \<Rightarrow> string \<Rightarrow> 's \<Rightarrow> (auth_error + bool) \<times> 's" where
  "Bootstrap cy st e email password s =
    (case so_CountUsers st s of
       Inl err \<Rightarrow> (Inl (AuthStore ''auth: bootstrap: count users'' err), s)
     | Inr n \<Rightarrow>
         if 0 < n then (Inr False, s)
         else if email = '''' \<or> password = '''' then (Inr False, s)
         else
           let u = \<lparr>user_ID = auth_newID argonSaltLen ''usr_'' e, user_Email = email,
                    user_PasswordHash = HashPassword cy e password, user_IsAdmin = True, user_TokenVersion = 0,
                    user_Source = UserSourceLocal, user_CreatedAt = now e, user_LastLoginAt = None\<rparr>
           in (case so_CreateUser st e u s of
                 Inl err \<Rightarrow> (Inl (AuthStore ''auth: bootstrap: create admin'' err), s)
               | Inr s' \<Rightarrow> (Inr True, s')))"

end
