(* ===== verification/Auth_Store.thy ===== *)
theory Auth_Store
  imports Auth Sqlite_Props
begin

text \<open>
  What authentication relies on in the store, as a locale: users and tokens under their
  identifiers, what each call returns and what it leaves alone. The caches of the
  authenticator are compared with the store in it, and every request is shown to keep that
  comparison; the SQLite driver is an interpretation.
\<close>

subsection \<open>The caches\<close>

lemma tc_get_set: "tc_get t k c = (hit, c') \<Longrightarrow> set c' \<subseteq> set c"
  by (auto simp: tc_get_def split: option.splits if_splits)

lemma tc_get_hit: "tc_get t k c = (Some v, c') \<Longrightarrow> \<exists>x. (k, v, x) \<in> set c \<and> t < x"
  by (auto simp: tc_get_def split: option.splits if_splits) (meson map_of_SomeD)

lemma tc_put_set: "y \<in> set (tc_put ttl t k v c) \<Longrightarrow> y = (k, v, t + ttl) \<or> y \<in> set c \<and> fst y \<noteq> k"
  by (auto simp: tc_put_def Let_def split: if_splits)

subsection \<open>The interface\<close>

text \<open>How users and tokens may change: no row disappears, a token keeps its owner, hash and expiry
  and stays revoked, a user keeps the administrator flag and the token version never falls.\<close>

definition user_later :: "user \<Rightarrow> user \<Rightarrow> bool" where
  "user_later u u' = (user_ID u' = user_ID u \<and> user_Email u' = user_Email u \<and> user_IsAdmin u' = user_IsAdmin u \<and> user_TokenVersion u \<le> user_TokenVersion u')"

definition token_later :: "api_token \<Rightarrow> api_token \<Rightarrow> bool" where
  "token_later t t' = (tok_ID t' = tok_ID t \<and> tok_UserID t' = tok_UserID t \<and> tok_SecretHash t' = tok_SecretHash t \<and>
     tok_ExpiresAt t' = tok_ExpiresAt t \<and> (tok_Revoked t \<longrightarrow> tok_Revoked t'))"

definition map_later :: "('v \<Rightarrow> 'v \<Rightarrow> bool) \<Rightarrow> (string \<Rightarrow> 'v option) \<Rightarrow> (string \<Rightarrow> 'v option) \<Rightarrow> bool" where
  "map_later R m m' = (\<forall>i x. m i = Some x \<longrightarrow> (\<exists>y. m' i = Some y \<and> R x y))"

lemma user_later_refl [simp]: "user_later u u" and user_later_trans: "user_later u v \<Longrightarrow> user_later v x \<Longrightarrow> user_later u x"
  by (auto simp: user_later_def)

lemma token_later_refl [simp]: "token_later t t" and token_later_trans: "token_later t v \<Longrightarrow> token_later v x \<Longrightarrow> token_later t x"
  by (auto simp: token_later_def)

lemma map_laterD: "map_later R m m' \<Longrightarrow> m i = Some x \<Longrightarrow> \<exists>y. m' i = Some y \<and> R x y"
  by (auto simp: map_later_def)

lemma map_later_trans:
  "map_later R f g \<Longrightarrow> map_later R g h \<Longrightarrow> (\<And>x y z. R x y \<Longrightarrow> R y z \<Longrightarrow> R x z) \<Longrightarrow> map_later R f h"
  unfolding map_later_def by metis

lemma map_later_same [simp]: "(\<And>x. R x x) \<Longrightarrow> map_later R m m"
  by (auto simp: map_later_def)

subsection \<open>Credentials\<close>

text \<open>Which credentials a request carries, and what it means that each vouches for a user.\<close>

definition bearer_secret :: "request \<Rightarrow> string" where
  "bearer_secret r = strings_TrimSpace (snd (cut_space (header_Get (rq_Header r) ''Authorization'')))"

definition has_bearer :: "request \<Rightarrow> bool" where
  "has_bearer r = (header_Get (rq_Header r) ''Authorization'' \<noteq> '''')"

definition has_session :: "request \<Rightarrow> bool" where
  "has_session r = (case map_of (rq_Cookies r) SessionCookieName of None \<Rightarrow> False | Some v \<Rightarrow> v \<noteq> '''')"

definition has_forward :: "authenticator \<Rightarrow> request \<Rightarrow> bool" where
  "has_forward a r = (au_fwdEnabled a \<and> peerTrusted a (rq_RemoteAddr r) \<and> header_Values (rq_Header r) (au_fwdHeader a) \<noteq> [])"

definition bearer_vouches :: "authenticator \<Rightarrow> gotime \<Rightarrow> (string \<Rightarrow> api_token option) \<Rightarrow> request \<Rightarrow> string \<Rightarrow> bool" where
  "bearer_vouches a t toks r uid =
    (case parseToken (bearer_secret r) of
       None \<Rightarrow> False
     | Some tid \<Rightarrow> (case toks tid of
         None \<Rightarrow> False
       | Some row \<Rightarrow> tok_SecretHash row = hashToken a (bearer_secret r) \<and> tok_UserID row = uid \<and>
           (case tok_ExpiresAt row of None \<Rightarrow> True | Some x \<Rightarrow> t < x)))"

definition session_vouches :: "authenticator \<Rightarrow> gotime \<Rightarrow> (string \<Rightarrow> user option) \<Rightarrow> request \<Rightarrow> string \<Rightarrow> bool" where
  "session_vouches a t us r uid =
    (case map_of (rq_Cookies r) SessionCookieName of
       None \<Rightarrow> False
     | Some v \<Rightarrow> (case cy_Parse (au_crypto a) (au_signingKey a) t v of
         None \<Rightarrow> False
       | Some c \<Rightarrow> jc_Subject c = uid \<and> (case us uid of None \<Rightarrow> False | Some u \<Rightarrow> jc_TokenVersion c \<le> user_TokenVersion u)))"

definition forward_vouches :: "(string \<Rightarrow> string \<Rightarrow> bool) \<Rightarrow> authenticator \<Rightarrow> (string \<Rightarrow> user option) \<Rightarrow> request \<Rightarrow> string \<Rightarrow> bool" where
  "forward_vouches same a us r uid =
    (case header_Values (rq_Header r) (au_fwdHeader a) of
       [v] \<Rightarrow> (case us uid of None \<Rightarrow> False | Some u \<Rightarrow> same (user_Email u) (strings_TrimSpace v))
     | _ \<Rightarrow> False)"

definition known :: "(string \<Rightarrow> user option) \<Rightarrow> identity \<Rightarrow> bool" where
  "known us i = (case us (id_UserID i) of None \<Rightarrow> False | Some u \<Rightarrow> user_IsAdmin u = id_IsAdmin i)"

lemma known_later: "map_later user_later us us' \<Longrightarrow> known us i \<Longrightarrow> known us' i"
  unfolding known_def user_later_def by (fastforce split: option.splits dest: map_laterD)

lemma bearer_later: "map_later token_later ts ts' \<Longrightarrow> bearer_vouches a t ts r uid \<Longrightarrow> bearer_vouches a t ts' r uid"
  unfolding bearer_vouches_def by (fastforce simp: token_later_def split: option.splits dest: map_laterD)

lemma session_later: "map_later user_later us us' \<Longrightarrow> session_vouches a t us r uid \<Longrightarrow> session_vouches a t us' r uid"
  unfolding session_vouches_def user_later_def by (fastforce split: option.splits dest: map_laterD)

locale account_store =
  fixes st :: "'s store_ops" and ok :: "'s \<Rightarrow> bool"
    and users :: "'s \<Rightarrow> string \<Rightarrow> user option" and tokens :: "'s \<Rightarrow> string \<Rightarrow> api_token option"
    and up :: bool and stamp :: "gotime \<Rightarrow> gotime" and same_mail :: "string \<Rightarrow> string \<Rightarrow> bool"
  assumes user_key: "ok s \<Longrightarrow> users s i = Some u \<Longrightarrow> user_ID u = i"
    and token_key: "ok s \<Longrightarrow> tokens s i = Some t \<Longrightarrow> tok_ID t = i"
    and get_user: "so_GetUserByID st i s = Inr u \<Longrightarrow> users s i = Some u"
    and get_user_up: "up \<Longrightarrow> so_GetUserByID st i s = (case users s i of None \<Rightarrow> Inl ErrNotFound | Some u \<Rightarrow> Inr u)"
    and get_email: "ok s \<Longrightarrow> so_GetUserByEmail st m s = Inr u \<Longrightarrow> users s (user_ID u) = Some u \<and> same_mail (user_Email u) m"
    and same_mail_refl: "same_mail m m"
    and get_token: "so_GetTokenByID st i s = Inr t \<Longrightarrow> tokens s i = Some t"
    and get_token_up: "up \<Longrightarrow> so_GetTokenByID st i s = (case tokens s i of None \<Rightarrow> Inl ErrNotFound | Some t \<Rightarrow> Inr t)"
    and call_ok: "ok s \<Longrightarrow> ok (run_store st e op s)"
    and call_users: "ok s \<Longrightarrow> map_later user_later (users s) (users (run_store st e op s))"
    and call_tokens: "ok s \<Longrightarrow> map_later token_later (tokens s) (tokens (run_store st e op s))"
    and create_user: "ok s \<Longrightarrow> so_CreateUser st e u s = Inr s' \<Longrightarrow>
      \<exists>u'. users s' = (users s)(user_ID u \<mapsto> u') \<and> users s (user_ID u) = None \<and> user_later u u'"
    and create_token: "ok s \<Longrightarrow> so_CreateToken st e t s = Inr s' \<Longrightarrow> tokens s (tok_ID t) = None \<and> users s' = users s \<and>
      (\<exists>t'. tokens s' (tok_ID t) = Some t' \<and> token_later (t\<lparr>tok_ExpiresAt := map_option stamp (tok_ExpiresAt t)\<rparr>) t' \<and>
         tok_RevokedAt t' = map_option stamp (tok_RevokedAt t))"
    and revoke_token: "ok s \<Longrightarrow> so_RevokeToken st e i uid s = Inr s' \<Longrightarrow> \<exists>t. tokens s' i = Some t \<and> tok_Revoked t"
    and bump_version: "ok s \<Longrightarrow> so_BumpTokenVersion st i s = Inr (n, s') \<Longrightarrow>
      \<exists>u u'. users s i = Some u \<and> users s' i = Some u' \<and> user_TokenVersion u' = n \<and> n = user_TokenVersion u + 1"
begin

lemma call_CreateUser: "so_CreateUser st e u s = Inr s' \<Longrightarrow> run_store st e (OpCreateUser u) s = s'"
  by (simp add: after_def)

lemma call_CreateToken: "so_CreateToken st e t s = Inr s' \<Longrightarrow> run_store st e (OpCreateToken t) s = s'"
  by (simp add: after_def)

text \<open>The caches against the store, at time \<open>t\<close>: an entry expires at most one \<open>ttl\<close> from now, and
  is an earlier state of the row it was read from.\<close>

definition caches_ok :: "authenticator \<Rightarrow> gotime \<Rightarrow> 's auth_world \<Rightarrow> bool" where
  "caches_ok a t w = (ok (aw_store w) \<and>
     (\<forall>(i, tk, x) \<in> set (aw_tokens w). x \<le> t + au_cacheTTL a \<and> \<not> tok_Revoked tk \<and>
        (\<exists>tk'. tokens (aw_store w) i = Some tk' \<and> token_later tk tk')) \<and>
     (\<forall>(i, u, x) \<in> set (aw_users w). x \<le> t + au_cacheTTL a \<and>
        (\<exists>u'. users (aw_store w) i = Some u' \<and> user_later u u')))"

text \<open>From \<open>r\<close> on the token is revoked: the row says so, and no cache entry outlives \<open>r\<close> by more
  than the \<open>ttl\<close>. Likewise for the sessions of a user below a token version.\<close>

definition token_dead :: "authenticator \<Rightarrow> gotime \<Rightarrow> string \<Rightarrow> 's auth_world \<Rightarrow> bool" where
  "token_dead a r i w = ((\<exists>tk. tokens (aw_store w) i = Some tk \<and> tok_Revoked tk) \<and>
     (\<forall>(j, tk, x) \<in> set (aw_tokens w). j = i \<longrightarrow> x \<le> r + au_cacheTTL a))"

definition sessions_dead :: "authenticator \<Rightarrow> gotime \<Rightarrow> string \<Rightarrow> int \<Rightarrow> 's auth_world \<Rightarrow> bool" where
  "sessions_dead a r i v w = ((\<exists>u. users (aw_store w) i = Some u \<and> v < user_TokenVersion u) \<and>
     (\<forall>(j, u, x) \<in> set (aw_users w). j = i \<longrightarrow> user_TokenVersion u \<le> v \<longrightarrow> x \<le> r + au_cacheTTL a))"

lemma caches_ok_store:
  assumes "caches_ok a t w"
  shows "caches_ok a t (w\<lparr>aw_store := run_store st e op (aw_store w)\<rparr>)"
proof -
  let ?s = "aw_store w" and ?s' = "run_store st e op (aw_store w)"
  have "\<exists>y. tokens ?s' i = Some y \<and> token_later x y" if "tokens ?s i = Some z" "token_later x z" for i x z
    using map_laterD [OF call_tokens that(1)] assms token_later_trans [OF that(2)] unfolding caches_ok_def by blast
  moreover have "\<exists>y. users ?s' i = Some y \<and> user_later x y" if "users ?s i = Some z" "user_later x z" for i x z
    using map_laterD [OF call_users that(1)] assms user_later_trans [OF that(2)] unfolding caches_ok_def by blast
  ultimately show ?thesis using assms call_ok unfolding caches_ok_def by fastforce
qed

lemma caches_ok_tick: "caches_ok a t w \<Longrightarrow> t \<le> t' \<Longrightarrow> caches_ok a t' w"
  unfolding caches_ok_def by fastforce

text \<open>Every function of the package changes the world in these steps only.\<close>

inductive micro :: "authenticator \<Rightarrow> gotime \<Rightarrow> 's auth_world \<Rightarrow> 's auth_world \<Rightarrow> bool" for a t where
  forget_tokens: "set c \<subseteq> set (aw_tokens w) \<Longrightarrow> micro a t w (w\<lparr>aw_tokens := c\<rparr>)"
| forget_users: "set c \<subseteq> set (aw_users w) \<Longrightarrow> micro a t w (w\<lparr>aw_users := c\<rparr>)"
| learn_token: "tokens (aw_store w) i = Some tk \<Longrightarrow> \<not> tok_Revoked tk \<Longrightarrow>
    micro a t w (w\<lparr>aw_tokens := tc_put (au_cacheTTL a) t i tk (aw_tokens w)\<rparr>)"
| learn_user: "users (aw_store w) i = Some u \<Longrightarrow> micro a t w (w\<lparr>aw_users := tc_put (au_cacheTTL a) t i u (aw_users w)\<rparr>)"
| call: "micro a t w (w\<lparr>aw_store := run_store st e op (aw_store w)\<rparr>)"
| touched: "micro a t w (w\<lparr>aw_lastTouch := lt\<rparr>)"

lemma micro_caches: "micro a t w w' \<Longrightarrow> caches_ok a t w \<Longrightarrow> caches_ok a t w'"
proof (induction rule: micro.induct)
  case (learn_token w i tk)
  then show ?case using tc_put_set [of _ "au_cacheTTL a" t i tk "aw_tokens w"] unfolding caches_ok_def
    by (fastforce dest: tc_put_set)
next
  case (learn_user w i u)
  then show ?case unfolding caches_ok_def by (fastforce dest: tc_put_set)
next
  case (call w e op)
  then show ?case by (simp add: caches_ok_store)
qed (fastforce simp: caches_ok_def)+

lemma micro_dead: "micro a t w w' \<Longrightarrow> caches_ok a t w \<Longrightarrow> token_dead a r i w \<Longrightarrow> token_dead a r i w'"
proof (induction rule: micro.induct)
  case (call w e op)
  then have "ok (aw_store w)" by (simp add: caches_ok_def)
  then show ?case using call map_laterD [OF call_tokens, of "aw_store w" i _ e op]
    unfolding token_dead_def token_later_def by fastforce
next
  case (learn_token w j tk)
  then show ?case unfolding token_dead_def by (fastforce dest: tc_put_set)
qed (auto simp: token_dead_def)

lemma micro_sessions: "micro a t w w' \<Longrightarrow> caches_ok a t w \<Longrightarrow> sessions_dead a r i v w \<Longrightarrow> sessions_dead a r i v w'"
proof (induction rule: micro.induct)
  case (call w e op)
  then have "ok (aw_store w)" by (simp add: caches_ok_def)
  then show ?case using call map_laterD [OF call_users, of "aw_store w" i _ e op]
    unfolding sessions_dead_def user_later_def by fastforce
next
  case (learn_user w j u)
  then show ?case unfolding sessions_dead_def by (fastforce dest: tc_put_set)
qed (auto simp: sessions_dead_def)

abbreviation path :: "authenticator \<Rightarrow> gotime \<Rightarrow> 's auth_world \<Rightarrow> 's auth_world \<Rightarrow> bool" where
  "path a t \<equiv> (micro a t)\<^sup>*\<^sup>*"

lemma path_step: "path a t w x \<Longrightarrow> micro a t x y \<Longrightarrow> path a t w y"
  by (rule rtranclp.rtrancl_into_rtrancl)

lemma path_one: "micro a t w x \<Longrightarrow> path a t w x"
  by (rule r_into_rtranclp)

lemma touch_path: "path a t w (touch st t' tid w)"
proof -
  have "path a t w (w\<lparr>aw_lastTouch := lt,
      aw_store := (case so_TouchTokenLastUsed st tid t' (aw_store w) of Inl _ \<Rightarrow> aw_store w | Inr s' \<Rightarrow> s')\<rparr>)" for lt
    using path_step [OF path_one [OF touched [of a t w lt]] call [where op = "OpTouchToken tid t'"]] by (simp add: after_def)
  then show ?thesis by (simp add: touch_def Let_def)
qed

lemma token_read:
  assumes "(case hit of Some tk \<Rightarrow> Inr tk | None \<Rightarrow> so_GetTokenByID st tid s) = Inr tk" "hit = None"
  shows "tokens s tid = Some tk"
  using assms get_token by simp

lemma verifyToken_path: "path a t w (snd (verifyToken a st t secret w))"
proof (cases "parseToken secret")
  case (Some tid)
  obtain hit toks where get: "tc_get t tid (aw_tokens w) = (hit, toks)" by fastforce
  let ?w1 = "w\<lparr>aw_tokens := toks\<rparr>"
  have w1: "path a t w ?w1" using forget_tokens [of toks w a t] tc_get_set [OF get] by blast
  have learn: "path a t w (touch st t tid (if hit = None then ?w1\<lparr>aw_tokens := tc_put (au_cacheTTL a) t tid tk toks\<rparr> else ?w1))"
    if tk: "(case hit of Some tk \<Rightarrow> Inr tk | None \<Rightarrow> so_GetTokenByID st tid (aw_store w)) = Inr tk" "\<not> tok_Revoked tk" for tk
  proof -
    have "path a t w (if hit = None then ?w1\<lparr>aw_tokens := tc_put (au_cacheTTL a) t tid tk toks\<rparr> else ?w1)"
      using w1 learn_token [of ?w1 tid tk a t] token_read [OF tk(1)] tk(2) by (auto intro: path_step)
    then show ?thesis using touch_path by (rule rtranclp_trans)
  qed
  show ?thesis
  proof (cases "case hit of Some tk \<Rightarrow> Inr tk | None \<Rightarrow> so_GetTokenByID st tid (aw_store w)")
    case (Inl err)
    then show ?thesis using w1 by (simp add: verifyToken_def Some get Let_def)
  next
    case (Inr tk)
    then show ?thesis using w1 learn [OF Inr] by (cases hit) (auto simp: verifyToken_def Some get Let_def)
  qed
qed (simp add: verifyToken_def)

lemma userByID_path: "path a t w (snd (userByID a st t uid w))"
proof -
  obtain hit us where get: "tc_get t uid (aw_users w) = (hit, us)" by fastforce
  let ?w1 = "w\<lparr>aw_users := us\<rparr>"
  have w1: "path a t w ?w1" using forget_users [of us w a t] tc_get_set [OF get] by blast
  have "path a t w (?w1\<lparr>aw_users := tc_put (au_cacheTTL a) t uid u us\<rparr>)" if "so_GetUserByID st uid (aw_store w) = Inr u" for u
    using path_step [OF w1 learn_user [of ?w1 uid u a t]] get_user [OF that] by simp
  then show ?thesis using w1 by (auto simp: userByID_def get Let_def split: option.split sum.split)
qed

lemma verifySession_path: "path a t w (snd (verifySession a st t token w))"
  using userByID_path by (auto simp: verifySession_def split: option.splits sum.splits prod.splits) (metis snd_conv)+

lemma path_caches: "path a t w w' \<Longrightarrow> caches_ok a t w \<Longrightarrow> caches_ok a t w'"
  by (induction rule: rtranclp_induct) (auto intro: micro_caches)

lemma path_dead: "path a t w w' \<Longrightarrow> caches_ok a t w \<Longrightarrow> token_dead a r i w \<Longrightarrow> token_dead a r i w'"
  by (induction rule: rtranclp_induct) (auto intro: micro_dead path_caches)

lemma path_sessions: "path a t w w' \<Longrightarrow> caches_ok a t w \<Longrightarrow> sessions_dead a r i v w \<Longrightarrow> sessions_dead a r i v w'"
  by (induction rule: rtranclp_induct) (auto intro: micro_sessions path_caches)

text \<open>What a successful verification says about the store.\<close>

lemma verifyToken_sound:
  assumes "caches_ok a t w" "verifyToken a st t secret w = (Inr tk, w')"
  obtains i row where "parseToken secret = Some i" "tokens (aw_store w) i = Some row" "tok_SecretHash row = hashToken a secret"
    "tok_UserID tk = tok_UserID row" "case tok_ExpiresAt row of None \<Rightarrow> True | Some x \<Rightarrow> t < x"
proof (cases "parseToken secret")
  case (Some i)
  obtain hit toks where get: "tc_get t i (aw_tokens w) = (hit, toks)" by fastforce
  obtain k where k: "(case hit of Some tk \<Rightarrow> Inr tk | None \<Rightarrow> so_GetTokenByID st i (aw_store w)) = Inr k"
      "hashToken a secret = tok_SecretHash k" "case tok_ExpiresAt k of None \<Rightarrow> True | Some x \<Rightarrow> t < x" "tk = k\<lparr>tok_SecretHash := []\<rparr>"
    using assms(2) by (auto simp: verifyToken_def Some get Let_def split: sum.splits if_splits option.splits)
  have "\<exists>row. tokens (aw_store w) i = Some row \<and> token_later k row"
  proof (cases hit)
    case None
    then show ?thesis using token_read k(1) by auto
  next
    case (Some _)
    then show ?thesis using k(1) tc_get_hit [of t i "aw_tokens w" k toks] get assms(1) unfolding caches_ok_def by fastforce
  qed
  then show ?thesis using that Some k by (auto simp: token_later_def)
qed (use assms in \<open>simp add: verifyToken_def\<close>)

lemma userByID_sound:
  assumes "caches_ok a t w" "userByID a st t i w = (Inr u, w')"
  shows "\<exists>u'. users (aw_store w) i = Some u' \<and> user_later u u' \<and> aw_store w' = aw_store w"
proof -
  obtain hit us where get: "tc_get t i (aw_users w) = (hit, us)" by fastforce
  show ?thesis
  proof (cases hit)
    case None
    then show ?thesis using assms(2) get_user by (auto simp: userByID_def get Let_def split: sum.splits)
  next
    case (Some v)
    then have "u = v" "w' = w\<lparr>aw_users := us\<rparr>" using assms(2) by (auto simp: userByID_def get)
    then show ?thesis using tc_get_hit [of t i "aw_users w" u us] get Some assms(1) unfolding caches_ok_def by fastforce
  qed
qed

text \<open>A revoked token is refused once the entries of the cache have run out, and so is a session
  of an earlier token version.\<close>

lemma dead_token_refused:
  assumes "token_dead a r i w" "caches_ok a t w" "r + au_cacheTTL a \<le> t" "parseToken secret = Some i"
  shows "isl (fst (verifyToken a st t secret w))"
proof -
  obtain hit toks where get: "tc_get t i (aw_tokens w) = (hit, toks)" by fastforce
  have "hit = None"
    using tc_get_hit [of t i "aw_tokens w" _ toks] get assms(1,3) unfolding token_dead_def by (cases hit) fastforce+
  then show ?thesis using assms(1) get_token [of i "aw_store w"] unfolding token_dead_def
    by (auto simp: verifyToken_def assms(4) get Let_def split: sum.splits)
qed

lemma dead_session_refused:
  assumes "sessions_dead a r (jc_Subject c) (jc_TokenVersion c) w" "r + au_cacheTTL a \<le> t"
    and "cy_Parse (au_crypto a) (au_signingKey a) t token = Some c"
  shows "isl (fst (verifySession a st t token w))"
proof -
  let ?i = "jc_Subject c"
  obtain hit us where get: "tc_get t ?i (aw_users w) = (hit, us)" by fastforce
  have "jc_TokenVersion c < user_TokenVersion u" if "userByID a st t ?i w = (Inr u, w')" for u w'
  proof (cases hit)
    case None
    then have "users (aw_store w) ?i = Some u" using that get_user by (auto simp: userByID_def get Let_def split: sum.splits)
    then show ?thesis using assms(1) by (auto simp: sessions_dead_def)
  next
    case (Some v)
    then have "v = u" using that by (auto simp: userByID_def get)
    then show ?thesis using tc_get_hit [of t ?i "aw_users w" u us] get Some assms(1,2) unfolding sessions_dead_def by fastforce
  qed
  then show ?thesis using assms(3) by (auto simp: verifySession_def split: prod.splits sum.splits)
qed

lemma forwardAuthUser_path: "path a t w (snd (forwardAuthUser st e email w))"
proof -
  have "path a t w (w\<lparr>aw_store := s'\<rparr>)" if "so_CreateUser st e u (aw_store w) = Inr s'" for u s'
    using call [of a t w e "OpCreateUser u"] that by (simp add: after_def path_one)
  then show ?thesis by (auto simp: forwardAuthUser_def Let_def split: sum.splits)
qed

lemma CreateToken_path: "path a t w (snd (CreateToken a st e uid name ex w))"
proof -
  have "path a t w (w\<lparr>aw_store := s'\<rparr>)" if "so_CreateToken st e tk (aw_store w) = Inr s'" for tk s'
    using call [of a t w e "OpCreateToken tk"] that by (simp add: after_def path_one)
  then show ?thesis by (auto simp: CreateToken_def Let_def split: sum.splits)
qed

text \<open>A revocation takes effect, within one lifetime of a cache entry, and so does a new token
  version.\<close>

lemma revoke_dead:
  assumes "caches_ok a t w" "so_RevokeToken st e i uid (aw_store w) = Inr s'"
  shows "token_dead a t i (w\<lparr>aw_store := s'\<rparr>)"
  using assms revoke_token [OF _ assms(2)] unfolding caches_ok_def token_dead_def by fastforce

lemma bump_dead:
  assumes "caches_ok a t w" "so_BumpTokenVersion st i (aw_store w) = Inr (n, s')"
  shows "sessions_dead a t i (n - 1) (w\<lparr>aw_store := s'\<rparr>)"
  using assms bump_version [OF _ assms(2)] unfolding caches_ok_def sessions_dead_def by fastforce

lemma resolve_bearer_path: "path a (now e) w (snd (resolve_bearer a st e r w))"
proof -
  have "path a (now e) w w2" if "verifyToken a st (now e) x w = (v, w1)" "userByID a st (now e) i w1 = (u, w2)" for x v w1 i u w2
    using verifyToken_path [of a "now e" w x] userByID_path [of a "now e" w1 i] that by (simp add: rtranclp_trans)
  moreover have "path a (now e) w w1" if "verifyToken a st (now e) x w = (v, w1)" for x v w1
    using verifyToken_path [of a "now e" w x] that by simp
  ultimately show ?thesis by (auto simp: resolve_bearer_def Let_def split: prod.splits sum.splits)
qed

lemma resolve_cookie_path: "path a (now e) w (snd (resolve_cookie a st e r found w))"
proof -
  have "path a (now e) w w1" if "verifySession a st (now e) x w = (v, w1)" for x v w1
    using verifySession_path [of a "now e" w x] that by simp
  then show ?thesis by (auto simp: resolve_cookie_def split: option.splits prod.splits sum.splits)
qed

lemma resolve_forward_path: "path a (now e) w (snd (resolve_forward a st e r found w))"
proof -
  have "path a (now e) w w1" if "forwardAuthUser st e x w = (v, w1)" for x v w1
    using forwardAuthUser_path [of a "now e" w e x] that by simp
  then show ?thesis by (auto simp: resolve_forward_def Let_def split: list.splits prod.splits sum.splits)
qed

lemma auth_resolve_path: "path a (now e) w (snd (auth_resolve a st e r w))"
proof -
  obtain v1 w1 where b: "resolve_bearer a st e r w = (v1, w1)" by fastforce
  have p1: "path a (now e) w w1" using resolve_bearer_path [of a e w r] b by simp
  show ?thesis
  proof (cases v1)
    case (Inr f1)
    obtain v2 w2 where c: "resolve_cookie a st e r f1 w1 = (v2, w2)" by fastforce
    have p2: "path a (now e) w w2" using resolve_cookie_path [of a e w1 r f1] c p1 by (simp add: rtranclp_trans)
    show ?thesis
    proof (cases v2)
      case (Inr f2)
      then show ?thesis using rtranclp_trans [OF p2 resolve_forward_path [of a e w2 r f2]] b c \<open>v1 = Inr f1\<close>
        by (simp add: auth_resolve_def)
    qed (use p2 b c Inr in \<open>simp add: auth_resolve_def\<close>)
  qed (use p1 b in \<open>simp add: auth_resolve_def\<close>)
qed

text \<open>An identity comes from the credentials: every credential of the request vouches for it.\<close>

lemma path_later:
  assumes "path a t w w'" "caches_ok a t w"
  shows "map_later user_later (users (aw_store w)) (users (aw_store w')) \<and> map_later token_later (tokens (aw_store w)) (tokens (aw_store w'))"
  using assms
proof (induction rule: rtranclp_induct)
  case (step x y)
  then have ok: "ok (aw_store x)" using path_caches by (auto simp: caches_ok_def)
  from step(2) show ?case
  proof cases
    case (call e op)
    then show ?thesis
      using step.IH step.prems map_later_trans [OF _ call_users [OF ok, of e op] user_later_trans]
        map_later_trans [OF _ call_tokens [OF ok, of e op] token_later_trans] by simp
  qed (use step.IH step.prems in simp_all)
qed simp

lemma accept_user_Inr:
  "accept_user found u m = Inr f \<Longrightarrow> \<exists>i. f = Some i \<and> id_UserID i = user_ID u \<and> (found = None \<and> id_IsAdmin i = user_IsAdmin u \<or> found = Some i)"
  by (auto simp: accept_user_def split: option.splits if_splits)

lemma resolve_bearer_sound:
  assumes "caches_ok a (now e) w" "resolve_bearer a st e r w = (Inr f, w1)"
  shows "if has_bearer r then \<exists>i. f = Some i \<and> known (users (aw_store w1)) i \<and> bearer_vouches a (now e) (tokens (aw_store w1)) r (id_UserID i)
    else f = None \<and> w1 = w"
proof (cases "has_bearer r")
  case True
  obtain tk x u where v: "verifyToken a st (now e) (bearer_secret r) w = (Inr tk, x)"
      and u: "userByID a st (now e) (tok_UserID tk) x = (Inr u, w1)" and acc: "accept_user None u MethodBearer = Inr f"
    using assms(2) True by (auto simp: resolve_bearer_def has_bearer_def bearer_secret_def Let_def split: prod.splits sum.splits if_splits)
  have x: "caches_ok a (now e) x" using path_caches [OF verifyToken_path assms(1)] v by (metis snd_conv)
  have later: "map_later token_later (tokens (aw_store w)) (tokens (aw_store x))"
    using path_later [OF verifyToken_path assms(1)] v by (metis snd_conv)
  obtain u' where u': "users (aw_store x) (tok_UserID tk) = Some u'" "user_later u u'" "aw_store w1 = aw_store x"
    using userByID_sound [OF x u] by blast
  have uid: "user_ID u = tok_UserID tk" using u' user_key x by (auto simp: caches_ok_def user_later_def)
  obtain i row where row: "parseToken (bearer_secret r) = Some i" "tokens (aw_store w) i = Some row" "tok_SecretHash row = hashToken a (bearer_secret r)"
    "tok_UserID tk = tok_UserID row" "case tok_ExpiresAt row of None \<Rightarrow> True | Some x \<Rightarrow> now e < x"
    by (rule verifyToken_sound [OF assms(1) v])
  have "bearer_vouches a (now e) (tokens (aw_store w)) r (tok_UserID tk)" using row by (auto simp: bearer_vouches_def)
  then have "bearer_vouches a (now e) (tokens (aw_store w1)) r (tok_UserID tk)" using bearer_later [OF later] u'(3) by simp
  moreover obtain j where "f = Some j" "id_UserID j = user_ID u" "id_IsAdmin j = user_IsAdmin u" using accept_user_Inr [OF acc] by auto
  ultimately show ?thesis using True uid u' by (auto simp: known_def user_later_def)
qed (use assms in \<open>simp add: resolve_bearer_def has_bearer_def\<close>)

lemma resolve_cookie_sound:
  assumes "caches_ok a (now e) w" "resolve_cookie a st e r found w = (Inr f, w1)"
  shows "if has_session r
    then \<exists>i. f = Some i \<and> (found = None \<and> known (users (aw_store w1)) i \<or> found = Some i) \<and>
      session_vouches a (now e) (users (aw_store w1)) r (id_UserID i)
    else f = found \<and> w1 = w"
proof (cases "has_session r")
  case True
  then obtain v where c: "map_of (rq_Cookies r) SessionCookieName = Some v" "v \<noteq> []" by (auto simp: has_session_def split: option.splits)
  obtain cl u where u: "cy_Parse (au_crypto a) (au_signingKey a) (now e) v = Some cl"
      "userByID a st (now e) (jc_Subject cl) w = (Inr u, w1)" "user_TokenVersion u = jc_TokenVersion cl" "accept_user found u MethodCookie = Inr f"
    using assms(2) c by (auto simp: resolve_cookie_def verifySession_def split: prod.splits sum.splits option.splits if_splits)
  obtain u' where u': "users (aw_store w) (jc_Subject cl) = Some u'" "user_later u u'" "aw_store w1 = aw_store w"
    using userByID_sound [OF assms(1) u(2)] by blast
  have uid: "user_ID u = jc_Subject cl" using u' user_key assms(1) by (auto simp: caches_ok_def user_later_def)
  obtain i where "f = Some i" "id_UserID i = jc_Subject cl" "found = None \<and> id_IsAdmin i = user_IsAdmin u \<or> found = Some i"
    using accept_user_Inr [OF u(4)] uid by auto
  then show ?thesis using True u u' c by (auto simp: session_vouches_def known_def user_later_def)
qed (use assms in \<open>auto simp: resolve_cookie_def has_session_def split: option.splits\<close>)

lemma forwardAuthUser_sound:
  assumes "ok (aw_store w)" "forwardAuthUser st e m w = (Inr u, w1)"
  shows "\<exists>u'. users (aw_store w1) (user_ID u) = Some u' \<and> user_later u u' \<and> same_mail (user_Email u') m"
  using assms get_email create_user [OF assms(1), of e] same_mail_refl
  by (fastforce simp: forwardAuthUser_def Let_def user_later_def split: sum.splits if_splits)

lemma resolve_forward_sound:
  assumes "caches_ok a (now e) w" "resolve_forward a st e r found w = (Inr f, w1)"
  shows "if has_forward a r
    then \<exists>i. f = Some i \<and> (found = None \<and> known (users (aw_store w1)) i \<or> found = Some i) \<and>
      forward_vouches same_mail a (users (aw_store w1)) r (id_UserID i)
    else f = found \<and> w1 = w"
proof (cases "has_forward a r")
  case True
  then obtain v u where v: "header_Values (rq_Header r) (au_fwdHeader a) = [v]"
      "forwardAuthUser st e (strings_TrimSpace v) w = (Inr u, w1)" "accept_user found u MethodForwardAuth = Inr f"
    using assms(2) by (auto simp: resolve_forward_def has_forward_def Let_def split: list.splits prod.splits sum.splits if_splits)
  obtain u' where u': "users (aw_store w1) (user_ID u) = Some u'" "user_later u u'" "same_mail (user_Email u') (strings_TrimSpace v)"
    using forwardAuthUser_sound [OF _ v(2)] assms(1) by (auto simp: caches_ok_def)
  obtain i where "f = Some i" "id_UserID i = user_ID u" "found = None \<and> id_IsAdmin i = user_IsAdmin u \<or> found = Some i"
    using accept_user_Inr [OF v(3)] by auto
  then show ?thesis using True v u' by (auto simp: forward_vouches_def known_def user_later_def)
qed (use assms in \<open>auto simp: resolve_forward_def has_forward_def split: if_splits\<close>)

lemma auth_resolve_sound:
  assumes c: "caches_ok a (now e) w" and "auth_resolve a st e r w = (Inr f, w3)"
  shows "if has_bearer r \<or> has_session r \<or> has_forward a r
    then \<exists>i. f = Some i \<and> known (users (aw_store w3)) i \<and>
      (has_bearer r \<longrightarrow> bearer_vouches a (now e) (tokens (aw_store w3)) r (id_UserID i)) \<and>
      (has_session r \<longrightarrow> session_vouches a (now e) (users (aw_store w3)) r (id_UserID i)) \<and>
      (has_forward a r \<longrightarrow> forward_vouches same_mail a (users (aw_store w3)) r (id_UserID i))
    else f = None"
proof -
  obtain f1 w1 f2 w2 where s1: "resolve_bearer a st e r w = (Inr f1, w1)" and s2: "resolve_cookie a st e r f1 w1 = (Inr f2, w2)"
      and s3: "resolve_forward a st e r f2 w2 = (Inr f, w3)"
    using assms(2) by (auto simp: auth_resolve_def split: prod.splits sum.splits)
  have c1: "caches_ok a (now e) w1" using path_caches [OF resolve_bearer_path c] s1 by (metis snd_conv)
  have c2: "caches_ok a (now e) w2" using path_caches [OF resolve_cookie_path c1] s2 by (metis snd_conv)
  have l1: "map_later user_later (users (aw_store w1)) (users (aw_store w2))" "map_later token_later (tokens (aw_store w1)) (tokens (aw_store w2))"
    using path_later [OF resolve_cookie_path c1] s2 by (metis snd_conv)+
  have l2: "map_later user_later (users (aw_store w2)) (users (aw_store w3))" "map_later token_later (tokens (aw_store w2)) (tokens (aw_store w3))"
    using path_later [OF resolve_forward_path c2] s3 by (metis snd_conv)+
  note sound = resolve_bearer_sound [OF c s1] resolve_cookie_sound [OF c1 s2] resolve_forward_sound [OF c2 s3]
  note keep = known_later [OF l1(1)] known_later [OF l2(1)] bearer_later [OF l1(2)] bearer_later [OF l2(2)] session_later [OF l2(1)]
  show ?thesis using sound keep by (cases "has_bearer r"; cases "has_session r"; cases "has_forward a r") auto
qed

end

subsection \<open>Runs\<close>

text \<open>What happens to an authenticator over time: the clock advances, requests are resolved,
  tokens are created, and any other call reaches the store, each against a store of the set
  \<open>D\<close> (a database that may be down at one moment and back at the next).\<close>

inductive auth_run :: "authenticator \<Rightarrow> 's store_ops set \<Rightarrow> gotime \<Rightarrow> 's auth_world \<Rightarrow> gotime \<Rightarrow> 's auth_world \<Rightarrow> bool"
  for a D t w where
  run_start: "auth_run a D t w t w"
| run_tick: "auth_run a D t w t1 w1 \<Longrightarrow> t1 \<le> t2 \<Longrightarrow> auth_run a D t w t2 w1"
| run_request: "auth_run a D t w t1 w1 \<Longrightarrow> st \<in> D \<Longrightarrow> now e = t1 \<Longrightarrow> auth_run a D t w t1 (snd (auth_resolve a st e r w1))"
| run_create: "auth_run a D t w t1 w1 \<Longrightarrow> st \<in> D \<Longrightarrow> now e = t1 \<Longrightarrow> auth_run a D t w t1 (snd (CreateToken a st e uid name ex w1))"
| run_call: "auth_run a D t w t1 w1 \<Longrightarrow> st \<in> D \<Longrightarrow> auth_run a D t w t1 (w1\<lparr>aw_store := run_store st e op (aw_store w1)\<rparr>)"

lemma auth_run_trans: "auth_run a D t1 w1 t2 w2 \<Longrightarrow> auth_run a D t w t1 w1 \<Longrightarrow> auth_run a D t w t2 w2"
  by (induction rule: auth_run.induct) (auto intro: auth_run.intros)

locale account_driver =
  fixes D :: "'s store_ops set" and ok :: "'s \<Rightarrow> bool"
    and users :: "'s \<Rightarrow> string \<Rightarrow> user option" and tokens :: "'s \<Rightarrow> string \<Rightarrow> api_token option"
    and stamp :: "gotime \<Rightarrow> gotime" and same_mail :: "string \<Rightarrow> string \<Rightarrow> bool"
  assumes each: "st \<in> D \<Longrightarrow> \<exists>up. account_store st ok users tokens up stamp same_mail" and some_driver: "D \<noteq> {}"
begin

abbreviation "caches \<equiv> account_store.caches_ok ok users tokens"
abbreviation "dead \<equiv> account_store.token_dead tokens"
abbreviation "stale \<equiv> account_store.sessions_dead users"

lemma tick_caches: "caches a t w \<Longrightarrow> t \<le> t' \<Longrightarrow> caches a t' w"
  using account_store.caches_ok_tick each some_driver by (metis all_not_in_conv)

lemma run_caches: "auth_run a D t w t' w' \<Longrightarrow> caches a t w \<Longrightarrow> caches a t' w'"
proof (induction rule: auth_run.induct)
  case (run_request t1 w1 st e r)
  then show ?case using account_store.path_caches [OF _ account_store.auth_resolve_path] each by metis
next
  case (run_create t1 w1 st e uid name ex)
  then show ?case using account_store.path_caches [OF _ account_store.CreateToken_path] each by metis
next
  case (run_call t1 w1 st e op)
  then show ?case using account_store.caches_ok_store each by metis
qed (auto intro: tick_caches)

lemma run_dead: "auth_run a D t w t' w' \<Longrightarrow> caches a t w \<Longrightarrow> dead a r i w \<Longrightarrow> dead a r i w'"
proof (induction rule: auth_run.induct)
  case (run_request t1 w1 st e q)
  then show ?case using account_store.path_dead [OF _ account_store.auth_resolve_path] each run_caches by metis
next
  case (run_create t1 w1 st e uid name ex)
  then show ?case using account_store.path_dead [OF _ account_store.CreateToken_path] each run_caches by metis
next
  case (run_call t1 w1 st e op)
  then show ?case using account_store.micro_dead [OF _ account_store.micro.call] each run_caches by metis
qed auto

lemma run_stale: "auth_run a D t w t' w' \<Longrightarrow> caches a t w \<Longrightarrow> stale a r i v w \<Longrightarrow> stale a r i v w'"
proof (induction rule: auth_run.induct)
  case (run_request t1 w1 st e q)
  then show ?case using account_store.path_sessions [OF _ account_store.auth_resolve_path] each run_caches by metis
next
  case (run_create t1 w1 st e uid name ex)
  then show ?case using account_store.path_sessions [OF _ account_store.CreateToken_path] each run_caches by metis
next
  case (run_call t1 w1 st e op)
  then show ?case using account_store.micro_sessions [OF _ account_store.micro.call] each run_caches by metis
qed auto

end

subsection \<open>Live credentials are accepted\<close>

context account_store
begin

lemma verifyToken_complete:
  assumes "caches_ok a t w" up "parseToken secret = Some i" "tokens (aw_store w) i = Some row" "tok_SecretHash row = hashToken a secret"
    "\<not> tok_Revoked row" "case tok_ExpiresAt row of None \<Rightarrow> True | Some x \<Rightarrow> t < x"
  shows "\<exists>tk w'. verifyToken a st t secret w = (Inr tk, w') \<and> tok_UserID tk = tok_UserID row"
proof -
  obtain hit toks where get: "tc_get t i (aw_tokens w) = (hit, toks)" by fastforce
  obtain k where k: "(case hit of Some tk \<Rightarrow> Inr tk | None \<Rightarrow> so_GetTokenByID st i (aw_store w)) = Inr k" "token_later k row"
  proof (cases hit)
    case None
    then show ?thesis using that get_token_up [OF assms(2), of i "aw_store w"] assms(4) by simp
  next
    case (Some v)
    then show ?thesis using that tc_get_hit [of t i "aw_tokens w" v toks] get assms(1,4) unfolding caches_ok_def by fastforce
  qed
  then have "\<not> tok_Revoked k" "hashToken a secret = tok_SecretHash k" "\<not> (case tok_ExpiresAt k of None \<Rightarrow> False | Some x \<Rightarrow> \<not> t < x)"
      "tok_UserID k = tok_UserID row"
    using assms(5-7) by (auto simp: token_later_def split: option.splits)
  then show ?thesis using k(1) by (simp add: verifyToken_def assms(3) get Let_def)
qed

lemma userByID_complete:
  assumes "caches_ok a t w" up "users (aw_store w) i = Some row"
  shows "\<exists>u w'. userByID a st t i w = (Inr u, w') \<and> user_later u row"
proof -
  obtain hit us where get: "tc_get t i (aw_users w) = (hit, us)" by fastforce
  show ?thesis
  proof (cases hit)
    case None
    then show ?thesis using get_user_up [OF assms(2), of i "aw_store w"] assms(3) by (simp add: userByID_def get Let_def)
  next
    case (Some v)
    then show ?thesis using tc_get_hit [of t i "aw_users w" v us] get assms(1,3) unfolding caches_ok_def
      by (fastforce simp: userByID_def)
  qed
qed

text \<open>A request with a live token and nothing else is resolved to the token's owner.\<close>

lemma bearer_accepted:
  assumes c: "caches_ok a (now e) w" and up and r: "has_bearer r" "\<not> has_session r" "\<not> has_forward a r"
    and bearer: "strings_EqualFold (fst (cut_space (header_Get (rq_Header r) ''Authorization''))) ''Bearer''"
    and row: "parseToken (bearer_secret r) = Some i" "tokens (aw_store w) i = Some row" "tok_SecretHash row = hashToken a (bearer_secret r)"
      "\<not> tok_Revoked row" "case tok_ExpiresAt row of None \<Rightarrow> True | Some x \<Rightarrow> now e < x"
    and user: "users (aw_store w) (tok_UserID row) = Some u"
  shows "fst (auth_resolve a st e r w) = Inr (Some \<lparr>id_UserID = tok_UserID row, id_IsAdmin = user_IsAdmin u, id_Method = MethodBearer\<rparr>)"
proof -
  obtain tk x where v: "verifyToken a st (now e) (bearer_secret r) w = (Inr tk, x)" "tok_UserID tk = tok_UserID row"
    using verifyToken_complete [OF c \<open>up\<close> row] by blast
  have cx: "caches_ok a (now e) x" using path_caches [OF verifyToken_path c] v by (metis snd_conv)
  obtain u1 where u1: "users (aw_store x) (tok_UserID row) = Some u1" "user_later u u1"
    using path_later [OF verifyToken_path c] v(1) user by (metis map_laterD snd_conv)
  obtain u2 y where y: "userByID a st (now e) (tok_UserID row) x = (Inr u2, y)" "user_later u2 u1"
    using userByID_complete [OF cx \<open>up\<close> u1(1)] by blast
  have "user_ID u2 = tok_UserID row" using y(2) user_key [OF _ u1(1)] cx by (simp add: user_later_def caches_ok_def)
  moreover have "user_IsAdmin u2 = user_IsAdmin u" using y(2) u1(2) by (simp add: user_later_def)
  ultimately have "resolve_bearer a st e r w =
      (Inr (Some \<lparr>id_UserID = tok_UserID row, id_IsAdmin = user_IsAdmin u, id_Method = MethodBearer\<rparr>), y)"
    using v y(1) bearer r(1)
    by (auto simp: resolve_bearer_def has_bearer_def bearer_secret_def Let_def accept_user_def split: prod.splits)
  moreover have "resolve_cookie a st e r f y = (Inr f, y)" "resolve_forward a st e r f y = (Inr f, y)" for f
    using r(2,3) by (auto simp: resolve_cookie_def has_session_def resolve_forward_def has_forward_def split: option.splits)
  ultimately show ?thesis by (simp add: auth_resolve_def)
qed

end

context account_driver
begin

abbreviation "later w w' \<equiv> map_later user_later (users (aw_store w)) (users (aw_store w')) \<and>
  map_later token_later (tokens (aw_store w)) (tokens (aw_store w'))"

lemma later_trans: "later w x \<Longrightarrow> later x y \<Longrightarrow> later w y"
  using map_later_trans user_later_trans token_later_trans by metis

lemma run_later: "auth_run a D t w t' w' \<Longrightarrow> caches a t w \<Longrightarrow> later w w'"
proof (induction rule: auth_run.induct)
  case (run_request t1 w1 st e q)
  then have "later w1 (snd (auth_resolve a st e q w1))"
    using account_store.path_later [OF _ account_store.auth_resolve_path] each run_caches by metis
  then show ?case using later_trans run_request by blast
next
  case (run_create t1 w1 st e uid name ex)
  then have "later w1 (snd (CreateToken a st e uid name ex w1))"
    using account_store.path_later [OF _ account_store.CreateToken_path] each run_caches by metis
  then show ?case using later_trans run_create by blast
next
  case (run_call t1 w1 st e op)
  obtain up where st: "account_store st ok users tokens up stamp same_mail" using each run_call by blast
  then have "later w1 (w1\<lparr>aw_store := run_store st e op (aw_store w1)\<rparr>)"
    using account_store.path_later [OF st account_store.path_one [OF st account_store.micro.call [OF st]]] run_caches run_call by metis
  then show ?case using later_trans run_call by blast
qed auto

end

context account_store
begin

text \<open>From a version on: the row of the user and every cached copy have at least version \<open>v\<close>.\<close>

definition versions_from :: "string \<Rightarrow> int \<Rightarrow> 's auth_world \<Rightarrow> bool" where
  "versions_from i v w = ((\<exists>u. users (aw_store w) i = Some u \<and> v \<le> user_TokenVersion u) \<and>
     (\<forall>(j, u, x) \<in> set (aw_users w). j = i \<longrightarrow> v \<le> user_TokenVersion u))"

lemma micro_versions: "micro a t w w' \<Longrightarrow> caches_ok a t w \<Longrightarrow> versions_from i v w \<Longrightarrow> versions_from i v w'"
proof (induction rule: micro.induct)
  case (call w e op)
  then have "ok (aw_store w)" by (simp add: caches_ok_def)
  then show ?case using call map_laterD [OF call_users, of "aw_store w" i _ e op]
    unfolding versions_from_def user_later_def by fastforce
next
  case (learn_user w j u)
  then show ?case unfolding versions_from_def by (fastforce dest: tc_put_set)
qed (auto simp: versions_from_def)

lemma path_versions: "path a t w w' \<Longrightarrow> caches_ok a t w \<Longrightarrow> versions_from i v w \<Longrightarrow> versions_from i v w'"
  by (induction rule: rtranclp_induct) (auto intro: micro_versions path_caches)

lemma sessions_dead_le: "sessions_dead a r i v w \<Longrightarrow> v' \<le> v \<Longrightarrow> sessions_dead a r i v' w"
  unfolding sessions_dead_def by fastforce

lemma session_accepted:
  assumes c: "caches_ok a (now e) w" and up and r: "\<not> has_bearer r" "\<not> has_forward a r"
    and cookie: "map_of (rq_Cookies r) SessionCookieName = Some v" "v \<noteq> []" "cy_Parse (au_crypto a) (au_signingKey a) (now e) v = Some cl" "jc_Subject cl \<noteq> []"
    and user: "users (aw_store w) (jc_Subject cl) = Some u" "user_TokenVersion u = jc_TokenVersion cl"
    and "versions_from (jc_Subject cl) (jc_TokenVersion cl) w"
  shows "fst (auth_resolve a st e r w) = Inr (Some \<lparr>id_UserID = jc_Subject cl, id_IsAdmin = user_IsAdmin u, id_Method = MethodCookie\<rparr>)"
proof -
  let ?i = "jc_Subject cl"
  obtain x w1 where x: "userByID a st (now e) ?i w = (Inr x, w1)" "user_later x u"
    using userByID_complete [OF c \<open>up\<close> user(1)] by blast
  have "jc_TokenVersion cl \<le> user_TokenVersion x"
  proof -
    obtain hit us where get: "tc_get (now e) ?i (aw_users w) = (hit, us)" by fastforce
    show ?thesis
    proof (cases hit)
      case None
      then have "x = u" using x(1) user(1) get_user by (auto simp: userByID_def get Let_def split: sum.splits)
      then show ?thesis using user(2) by simp
    next
      case (Some y)
      then have "y = x" using x(1) by (auto simp: userByID_def get)
      then show ?thesis using tc_get_hit [of "now e" ?i "aw_users w" x us] get Some assms(11) unfolding versions_from_def by fastforce
    qed
  qed
  then have same: "user_TokenVersion x = jc_TokenVersion cl" using x(2) user(2) by (simp add: user_later_def)
  have "user_ID x = ?i" using x(2) user_key [OF _ user(1)] c by (simp add: user_later_def caches_ok_def)
  then have "resolve_cookie a st e r None w = (Inr (Some \<lparr>id_UserID = ?i, id_IsAdmin = user_IsAdmin u, id_Method = MethodCookie\<rparr>), w1)"
    using cookie x same by (simp add: resolve_cookie_def verifySession_def accept_user_def user_later_def)
  moreover have "resolve_bearer a st e r w = (Inr None, w)" using r(1) by (simp add: resolve_bearer_def has_bearer_def)
  moreover have "resolve_forward a st e r f w1 = (Inr f, w1)" for f
    using r(2) by (auto simp: resolve_forward_def has_forward_def)
  ultimately show ?thesis by (simp add: auth_resolve_def)
qed

end

context account_driver
begin

lemma run_versions:
  "auth_run a D t w t' w' \<Longrightarrow> caches a t w \<Longrightarrow> account_store.versions_from users i v w \<Longrightarrow> account_store.versions_from users i v w'"
proof (induction rule: auth_run.induct)
  case (run_request t1 w1 st e q)
  then show ?case using account_store.path_versions [OF _ account_store.auth_resolve_path] each run_caches by metis
next
  case (run_create t1 w1 st e uid name ex)
  then show ?case using account_store.path_versions [OF _ account_store.CreateToken_path] each run_caches by metis
next
  case (run_call t1 w1 st e op)
  then show ?case using account_store.micro_versions [OF _ account_store.micro.call] each run_caches by metis
qed auto

end

end
