(* ===== verification/Auth_Sqlite.thy ===== *)
theory Auth_Sqlite
  imports Auth_Store
begin

text \<open>
  Authentication over the SQLite driver: the driver is an \<open>account_store\<close> whatever the state of
  its connection.
\<close>

definition sq_users :: "db \<Rightarrow> string \<Rightarrow> user option" where
  "sq_users s i = find (\<lambda>u. user_ID u = i) (t_users s)"

definition sq_tokens :: "db \<Rightarrow> string \<Rightarrow> api_token option" where
  "sq_tokens s i = find (\<lambda>t. tok_ID t = i) (t_tokens s)"

definition same_mail :: "string \<Rightarrow> string \<Rightarrow> bool" where
  "same_mail m n = (nocase m = nocase n)"

lemma find_append: "find P (xs @ ys) = (case find P xs of None \<Rightarrow> find P ys | Some x \<Rightarrow> Some x)"
  by (induction xs) auto

lemma find_key_distinct:
  "distinct (map k xs) \<Longrightarrow> x \<in> set xs \<Longrightarrow> find (\<lambda>y. k y = k x) xs = Some x"
  by (rule find_unique) (auto dest: distinct_map_unique)

lemma map_later_find:
  assumes "\<And>x. k (f x) = k x" "\<And>x. R x (f x)"
  shows "map_later R (\<lambda>i. find (\<lambda>x. k x = i) xs) (\<lambda>i. find (\<lambda>x. k x = i) (map f xs))"
  using assms by (auto simp: map_later_def find_map_unchanged)

lemma user_row_later [simp]: "user_later u (user_row e u)"
  by (simp add: user_later_def user_row_def Let_def)

lemma token_row_later: "token_later (t\<lparr>tok_ExpiresAt := map_option (\<lambda>t. Truncate t Microsecond) (tok_ExpiresAt t)\<rparr>) (token_row e t)"
  "tok_RevokedAt (token_row e t) = map_option (\<lambda>t. Truncate t Microsecond) (tok_RevokedAt t)"
  by (auto simp: token_later_def token_row_def tok_Revoked_def fmtTime_def [abs_def] Let_def)

definition accounts_later :: "db \<Rightarrow> db \<Rightarrow> bool" where
  "accounts_later s t = (map_later user_later (sq_users s) (sq_users t) \<and> map_later token_later (sq_tokens s) (sq_tokens t))"

lemma accounts_same: "t_users t = t_users s \<Longrightarrow> t_tokens t = t_tokens s \<Longrightarrow> accounts_later s t"
  by (simp add: accounts_later_def sq_users_def [abs_def] sq_tokens_def [abs_def])

lemma sq_CreateUser_accounts:
  assumes "sq_CreateUser eng e u s = Inr t"
  shows "sq_users t = (sq_users s)(user_ID u \<mapsto> user_row e u)" "sq_users s (user_ID u) = None" "accounts_later s t"
proof -
  have t: "t = s\<lparr>t_users := t_users s @ [user_row e u]\<rparr>" and new: "user_ID u \<notin> user_ID ` set (t_users s)"
    using assms by (auto simp: sq_CreateUser_def withTx_Inr split: sum.splits if_splits)
  show none: "sq_users s (user_ID u) = None" using new unfolding sq_users_def find_None_set by (metis image_eqI)
  show "sq_users t = (sq_users s)(user_ID u \<mapsto> user_row e u)"
    using none by (auto simp: t sq_users_def find_append fun_eq_iff split: option.splits)
  then show "accounts_later s t"
    using none by (auto simp: accounts_later_def map_later_def t sq_tokens_def [abs_def])
qed

lemma sq_CreateToken_accounts:
  assumes "sq_CreateToken eng e k s = Inr t"
  shows "sq_tokens t = (sq_tokens s)(tok_ID k \<mapsto> token_row e k)" "sq_tokens s (tok_ID k) = None" "accounts_later s t" "t_users t = t_users s"
proof -
  have t: "t = s\<lparr>t_tokens := t_tokens s @ [token_row e k]\<rparr>" and new: "tok_ID k \<notin> tok_ID ` set (t_tokens s)"
    using assms by (auto simp: sq_CreateToken_def withTx_Inr split: sum.splits if_splits)
  show none: "sq_tokens s (tok_ID k) = None" using new unfolding sq_tokens_def find_None_set by (metis image_eqI)
  show "sq_tokens t = (sq_tokens s)(tok_ID k \<mapsto> token_row e k)"
    using none by (auto simp: t sq_tokens_def find_append fun_eq_iff split: option.splits)
  then show "accounts_later s t"
    using none by (auto simp: accounts_later_def map_later_def t sq_users_def [abs_def])
  show "t_users t = t_users s" by (simp add: t)
qed

lemma sq_update_accounts:
  assumes "t_users t = map f (t_users s)" "t_tokens t = map g (t_tokens s)" "\<And>u. user_later u (f u)" "\<And>k. token_later k (g k)"
  shows "accounts_later s t"
  using map_later_find [of user_ID f user_later "t_users s"] map_later_find [of tok_ID g token_later "t_tokens s"] assms
  by (simp add: accounts_later_def sq_users_def [abs_def] sq_tokens_def [abs_def] user_later_def token_later_def)

lemma sq_RevokeToken_accounts:
  assumes "wf_db s" "sq_RevokeToken eng e i uid s = Inr t"
  shows "accounts_later s t" "\<exists>k. sq_tokens t i = Some k \<and> tok_Revoked k"
proof -
  let ?hit = "\<lambda>t. tok_ID t = i \<and> tok_UserID t = uid"
  let ?g = "\<lambda>t. if ?hit t then t\<lparr>tok_RevokedAt := (case tok_RevokedAt t of None \<Rightarrow> Some (fmtTime (sq_now e)) | r \<Rightarrow> r)\<rparr> else t"
  have t: "t = s\<lparr>t_tokens := map ?g (t_tokens s)\<rparr>" and some: "list_ex ?hit (t_tokens s)"
    using assms by (auto simp: sq_RevokeToken_def withTx_Inr Let_def split: if_splits)
  show "accounts_later s t"
    by (rule sq_update_accounts [where f = id and g = ?g]) (auto simp: t token_later_def tok_Revoked_def split: option.splits)
  obtain k where k: "k \<in> set (t_tokens s)" "?hit k" using some by (auto simp: list_ex_iff)
  then have "sq_tokens s i = Some k"
    using find_key_distinct [of tok_ID "t_tokens s" k] assms(1) by (simp add: sq_tokens_def wf_db_def wf_users_def)
  then have "sq_tokens t i = Some (?g k)" by (simp add: t sq_tokens_def find_map_unchanged)
  then show "\<exists>k. sq_tokens t i = Some k \<and> tok_Revoked k" using k by (auto simp: tok_Revoked_def split: option.splits)
qed

lemma sq_BumpTokenVersion_accounts:
  assumes "sq_BumpTokenVersion eng i s = Inr (n, t)"
  shows "accounts_later s t"
    "\<exists>u u'. sq_users s i = Some u \<and> sq_users t i = Some u' \<and> user_TokenVersion u' = n \<and> n = user_TokenVersion u + 1"
proof -
  let ?f = "\<lambda>x. if user_ID x = i then x\<lparr>user_TokenVersion := user_TokenVersion x + 1\<rparr> else x"
  obtain u where u: "sq_users s i = Some u" and n: "n = user_TokenVersion u + 1" and t: "t = s\<lparr>t_users := map ?f (t_users s)\<rparr>"
    using assms by (auto simp: sq_BumpTokenVersion_def withTx_Inr sq_users_def split: option.splits)
  show "accounts_later s t"
    by (rule sq_update_accounts [where f = ?f and g = id]) (auto simp: t user_later_def)
  have "sq_users t i = Some (?f u)" using u by (simp add: t sq_users_def find_map_unchanged)
  moreover have "user_ID u = i" using u by (auto simp: sq_users_def dest: find_Some_set)
  ultimately show "\<exists>u u'. sq_users s i = Some u \<and> sq_users t i = Some u' \<and> user_TokenVersion u' = n \<and> n = user_TokenVersion u + 1"
    using u n by simp
qed

lemma accounts_after: "(\<And>t. r = Inr t \<Longrightarrow> accounts_later s t) \<Longrightarrow> accounts_later s (after r s)"
  by (cases r) (auto simp: after_def intro: accounts_same)

lemma scans_same:
  assumes "sq_InsertScanBatch eng b s = Inr t"
  shows "t_users t = t_users s \<and> t_tokens t = t_tokens s"
proof -
  have fold: "foldM f xs s = Inr t \<Longrightarrow> t_users t = t_users s \<and> t_tokens t = t_tokens s"
    if "\<And>x s t. f x s = Inr t \<Longrightarrow> t_users t = t_users s \<and> t_tokens t = t_tokens s"
    for f :: "'a \<Rightarrow> db \<Rightarrow> store_error + db" and xs s t
    by (induction xs arbitrary: s) (auto split: sum.splits dest: that)
  have ev: "foldM (insert_event eng) xs s = Inr t \<Longrightarrow> t_users t = t_users s \<and> t_tokens t = t_tokens s" for xs s t
    by (erule fold [rotated]) (auto simp: insert_event_def split: sum.splits if_splits)
  have ro: "foldM (insert_rollup eng) xs s = Inr t \<Longrightarrow> t_users t = t_users s \<and> t_tokens t = t_tokens s" for xs s t
    by (erule fold [rotated]) (auto simp: insert_rollup_def Let_def split: sum.splits if_splits)
  show ?thesis using assms by (auto simp: sq_InsertScanBatch_def withTx_Inr split: sum.splits if_splits dest!: ev ro)
qed

lemma run_store_accounts:
  assumes "wf_db s"
  shows "accounts_later s (run_store (sqlite_ops eng) e op s)"
proof (cases op)
  case (OpCode c)
  then show ?thesis using run_op_others [of s eng e c] by (auto simp: same_others_def intro: accounts_same)
next
  case (OpCreateUser u)
  then show ?thesis using sq_CreateUser_accounts(3) by (auto simp: sqlite_ops_def intro!: accounts_after)
next
  case (OpCreateToken k)
  then show ?thesis using sq_CreateToken_accounts(3) by (auto simp: sqlite_ops_def intro!: accounts_after)
next
  case (OpBumpTokenVersion i)
  then show ?thesis using sq_BumpTokenVersion_accounts(1) by (auto simp: sqlite_ops_def map_sum_eq_Inr intro!: accounts_after)
next
  case (OpRevokeToken i uid)
  then show ?thesis using sq_RevokeToken_accounts(1) [OF assms] by (auto simp: sqlite_ops_def intro!: accounts_after)
next
  case (OpTouchToken i x)
  have "accounts_later s t" if "sq_TouchTokenLastUsed eng i x s = Inr t" for t
    using that by (intro sq_update_accounts [where f = id and g = "\<lambda>t. if tok_ID t = i then t\<lparr>tok_LastUsedAt := Some (fmtTime x)\<rparr> else t"])
      (auto simp: sq_TouchTokenLastUsed_def withTx_Inr token_later_def tok_Revoked_def split: if_splits)
  then show ?thesis using OpTouchToken by (auto simp: sqlite_ops_def intro!: accounts_after)
next
  case (OpInsertScans evs)
  then show ?thesis by (auto simp: sqlite_ops_def intro!: accounts_after accounts_same dest: scans_same)
next
  case (OpPrune x n)
  have "accounts_later s t" if "sq_PruneScanEvents eng x n s = Inr (m, t)" for m t
    using that by (auto simp: sq_PruneScanEvents_def withTx_Inr Let_def split: if_splits intro!: accounts_same)
  then show ?thesis using OpPrune by (auto simp: sqlite_ops_def map_sum_eq_Inr intro!: accounts_after)
qed

lemma sqlite_account_store:
  "account_store (sqlite_ops eng) wf_db sq_users sq_tokens (outage eng = None) (\<lambda>t. Truncate t Microsecond) same_mail"
proof
  fix s i u t e op m uid n s'
  show "sq_users s i = Some u \<Longrightarrow> user_ID u = i" "sq_tokens s i = Some t \<Longrightarrow> tok_ID t = i"
    by (auto simp: sq_users_def sq_tokens_def dest: find_Some_set)
  show "so_GetUserByID (sqlite_ops eng) i s = Inr u \<Longrightarrow> sq_users s i = Some u"
    "so_GetTokenByID (sqlite_ops eng) i s = Inr t \<Longrightarrow> sq_tokens s i = Some t"
    by (auto simp: sqlite_ops_def sq_GetUserByID_def sq_GetTokenByID_def withTx_Inr sq_users_def sq_tokens_def split: option.splits)
  show "outage eng = None \<Longrightarrow> so_GetUserByID (sqlite_ops eng) i s = (case sq_users s i of None \<Rightarrow> Inl ErrNotFound | Some u \<Rightarrow> Inr u)"
    "outage eng = None \<Longrightarrow> so_GetTokenByID (sqlite_ops eng) i s = (case sq_tokens s i of None \<Rightarrow> Inl ErrNotFound | Some t \<Rightarrow> Inr t)"
    by (auto simp: sqlite_ops_def sq_GetUserByID_def sq_GetTokenByID_def withTx_def translate_def sq_users_def sq_tokens_def split: option.splits)
  show "wf_db s \<Longrightarrow> sq_users s (user_ID u) = Some u \<and> same_mail (user_Email u) m" if "so_GetUserByEmail (sqlite_ops eng) m s = Inr u"
    using that find_key_distinct [of user_ID "t_users s" u]
    by (auto simp: sqlite_ops_def sq_GetUserByEmail_def withTx_Inr same_mail_def sq_users_def wf_db_def wf_users_def split: option.splits dest: find_Some_set)
  show "same_mail m m" by (simp add: same_mail_def)
  show "wf_db (run_store (sqlite_ops eng) e op s)" if "wf_db s" using that by (rule run_store_wf)
  show "map_later user_later (sq_users s) (sq_users (run_store (sqlite_ops eng) e op s))"
    "map_later token_later (sq_tokens s) (sq_tokens (run_store (sqlite_ops eng) e op s))" if "wf_db s"
    using run_store_accounts [OF that] by (simp_all add: accounts_later_def)
  show "\<exists>u'. sq_users s' = (sq_users s)(user_ID u \<mapsto> u') \<and> sq_users s (user_ID u) = None \<and> user_later u u'"
    if "so_CreateUser (sqlite_ops eng) e u s = Inr s'"
    using sq_CreateUser_accounts that by (auto simp: sqlite_ops_def)
  show "sq_tokens s (tok_ID t) = None \<and> sq_users s' = sq_users s \<and> (\<exists>t'. sq_tokens s' (tok_ID t) = Some t' \<and>
      token_later (t\<lparr>tok_ExpiresAt := map_option (\<lambda>t. Truncate t Microsecond) (tok_ExpiresAt t)\<rparr>) t' \<and>
      tok_RevokedAt t' = map_option (\<lambda>t. Truncate t Microsecond) (tok_RevokedAt t))"
    if "so_CreateToken (sqlite_ops eng) e t s = Inr s'"
    using sq_CreateToken_accounts [of eng e t s s'] token_row_later that by (simp add: sqlite_ops_def sq_users_def [abs_def])
  show "\<exists>t. sq_tokens s' i = Some t \<and> tok_Revoked t" if "wf_db s" "so_RevokeToken (sqlite_ops eng) e i uid s = Inr s'"
    using sq_RevokeToken_accounts(2) [OF that(1)] that(2) by (auto simp: sqlite_ops_def)
  show "\<exists>u u'. sq_users s i = Some u \<and> sq_users s' i = Some u' \<and> user_TokenVersion u' = n \<and> n = user_TokenVersion u + 1"
    if "so_BumpTokenVersion (sqlite_ops eng) i s = Inr (n, s')"
    using sq_BumpTokenVersion_accounts(2) that by (auto simp: sqlite_ops_def)
qed

interpretation sq_accounts: account_store "sqlite_ops eng" wf_db sq_users sq_tokens "outage eng = None"
  "\<lambda>t. Truncate t Microsecond" same_mail
  by (rule sqlite_account_store)

interpretation sq_auth: account_driver "range sqlite_ops" wf_db sq_users sq_tokens "\<lambda>t. Truncate t Microsecond" same_mail
  by unfold_locales (use sqlite_account_store in blast)+

end
