(* ===== verification/Auth_Props.thy ===== *)
theory Auth_Props
  imports Auth_Sqlite
begin

text \<open>
  The properties of authentication over the SQLite driver: created tokens and sessions
  authenticate their user until they are revoked, revocation takes effect within one lifetime of a
  cache entry, no identity without a credential, and the one bootstrap account.
\<close>

subsection \<open>Secrets\<close>

lemma drawn_length [simp]: "length (drawn k n e) = n"
  by (simp add: drawn_def)

lemma parseToken_secret:
  "length raw = tokenBytes \<Longrightarrow> parseToken (TokenPrefix @ base64_EncodeToString base64url raw) = Some (encodeID ''tok_'' raw)"
  by (simp add: parseToken_def HasPrefix_append base64_roundtrip tokenBytes_def tokenEncodedLen_def)

lemma base64url_plain: "list_all (\<lambda>c. byte c < 128 \<and> \<not> ascii_space c \<and> c \<noteq> CHR '' '') base64url"
  by code_simp

lemma secret_plain:
  assumes "c \<in> set (TokenPrefix @ base64_EncodeToString base64url raw)"
  shows "byte c < 128 \<and> \<not> ascii_space c \<and> c \<noteq> CHR '' ''"
proof (cases "c \<in> set (base64_EncodeToString base64url raw)")
  case True
  then have "c \<in> set base64url" using base64_chars by (metis base64_alphabets(1))
  then show ?thesis using base64url_plain unfolding list_all_iff by blast
next
  case False
  then show ?thesis using assms by (auto simp: TokenPrefix_def ascii_space_def)
qed

lemma trim_plain:
  assumes "\<And>c. c \<in> set s \<Longrightarrow> byte c < 128 \<and> \<not> ascii_space c"
  shows "strings_TrimSpace s = s"
proof -
  have d: "dropWhile ascii_space xs = xs" if "set xs \<subseteq> set s" for xs
    using that assms by (cases xs) auto
  have "is_ascii s" using assms by (simp add: is_ascii_def list_all_iff)
  then show ?thesis using d [of s] d [of "rev s"] by (simp add: strings_TrimSpace_ascii)
qed

lemma bearer_secret_of:
  assumes "header_Get (rq_Header r) ''Authorization'' = ''Bearer '' @ TokenPrefix @ base64_EncodeToString base64url raw"
  shows "bearer_secret r = TokenPrefix @ base64_EncodeToString base64url raw"
    "fst (cut_space (header_Get (rq_Header r) ''Authorization'')) = ''Bearer''"
  using assms secret_plain [of _ raw] by (auto simp: bearer_secret_def cut_space_def intro!: trim_plain)

subsection \<open>Passwords\<close>

lemma base64std_no_dollar: "list_all (\<lambda>c. c \<noteq> CHR ''$'') base64std"
  by code_simp

lemma b64_no_dollar: "CHR ''$'' \<notin> set (base64_EncodeToString base64std bs)"
  using base64_chars [OF base64_alphabets(2), of "CHR ''$''" bs] base64std_no_dollar by (auto simp only: list_all_iff)

lemma digits_no_dollar: "CHR ''$'' \<notin> set (digits n)"
  using digits_all [of n] by (auto simp: list_all_iff is_digit_def)

lemma split_phc:
  assumes "\<forall>x \<in> set [p1, p2, p3, p4, p5]. CHR ''$'' \<notin> set x"
  shows "split_on (CHR ''$'') (''$'' @ p1 @ ''$'' @ p2 @ ''$'' @ p3 @ ''$'' @ p4 @ ''$'' @ p5) = [[], p1, p2, p3, p4, p5]"
  using split_Join [of "[[], p1, p2, p3, p4, p5]" "CHR ''$''"] assms by simp

lemma phc_fields:
  "phc_version (''v='' @ digits argonVersion) = Some (int argonVersion)"
  "phc_params (''m='' @ digits argonMemory @ '',t='' @ digits argonTime @ '',p='' @ digits argonThreads) = Some (argonMemory, argonTime, argonThreads)"
proof -
  have "scan_int (digits argonVersion @ []) = Some (int argonVersion, [])"
    by (rule scan_int_digits) (simp_all add: argonVersion_def)
  then show "phc_version (''v='' @ digits argonVersion) = Some (int argonVersion)" by (simp only: phc_version_def scan_literal_append bind.simps append_Nil2 option.map fst_conv)
  let ?p = "digits argonThreads @ []" and ?t = "\<lambda>x. digits argonTime @ '',p='' @ x" and ?m = "\<lambda>x. digits argonMemory @ '',t='' @ x"
  have "scan_uint 8 ?p = Some (argonThreads, [])" by (rule scan_uint_digits) (simp_all add: argonThreads_def)
  moreover have "scan_uint 32 (?t x) = Some (argonTime, '',p='' @ x)" for x
    by (rule scan_uint_digits) (simp_all add: argonTime_def is_digit_def)
  moreover have "scan_uint 32 (?m x) = Some (argonMemory, '',t='' @ x)" for x
    by (rule scan_uint_digits) (simp_all add: argonMemory_def is_digit_def)
  ultimately show "phc_params (''m='' @ digits argonMemory @ '',t='' @ digits argonTime @ '',p='' @ digits argonThreads) = Some (argonMemory, argonTime, argonThreads)"
    by (simp only: phc_params_def scan_literal_append bind.simps append_Nil2 prod.case)
qed

lemma VerifyPassword_HashPassword:
  assumes "\<And>pw salt t m p n. length (cy_IDKey cy pw salt t m p n) = n"
  shows "VerifyPassword cy (HashPassword cy e pw) pw' =
    Some (cy_IDKey cy pw' (drawn 0 16 e) 3 65536 4 32 = cy_IDKey cy pw (drawn 0 16 e) 3 65536 4 32)"
proof -
  let ?salt = "drawn 0 argonSaltLen e"
  let ?key = "cy_IDKey cy pw ?salt argonTime argonMemory argonThreads argonKeyLen"
  let ?v = "''v='' @ digits argonVersion" and ?m = "''m='' @ digits argonMemory @ '',t='' @ digits argonTime @ '',p='' @ digits argonThreads"
  have "split_on (CHR ''$'') (HashPassword cy e pw) =
      [[], ''argon2id'', ?v, ?m, base64_EncodeToString base64std ?salt, base64_EncodeToString base64std ?key]"
    using split_phc [of "''argon2id''" ?v ?m "base64_EncodeToString base64std ?salt" "base64_EncodeToString base64std ?key"]
      digits_no_dollar b64_no_dollar by (simp add: HashPassword_def Let_def)
  moreover have "?salt \<noteq> []" "?key \<noteq> []" "length ?key = argonKeyLen"
    using drawn_length [of 0 argonSaltLen e] assms [of pw ?salt argonTime argonMemory argonThreads argonKeyLen]
    by (auto simp: argonSaltLen_def argonKeyLen_def simp del: drawn_length)
  ultimately show ?thesis
    using phc_fields
    by (simp add: VerifyPassword_def base64_roundtrip argonMemory_def argonTime_def argonThreads_def argonKeyLen_def argonSaltLen_def)
qed

text \<open>C27. A stored password hash accepts exactly the passwords with the same key: the hash
  \<open>HashPassword\<close> writes is read back by \<open>VerifyPassword\<close> with its own salt and parameters, the
  right password is accepted, and another one exactly when the key derivation cannot tell them
  apart. The key derivation is a third-party function of which only the length of its result is
  used.\<close>

theorem password_roundtrip:
  assumes "\<And>pw salt t m p n. length (cy_IDKey cy pw salt t m p n) = n"
  shows "VerifyPassword cy (HashPassword cy e pw) pw' =
    Some (cy_IDKey cy pw' (drawn 0 16 e) 3 65536 4 32 = cy_IDKey cy pw (drawn 0 16 e) 3 65536 4 32)"
  using assms by (rule VerifyPassword_HashPassword)

subsection \<open>Tokens\<close>

text \<open>Every state of an authenticator over a database the program can reach.\<close>

definition auth_history :: "authenticator \<Rightarrow> gotime \<Rightarrow> db auth_world \<Rightarrow> bool" where
  "auth_history a t w = (\<exists>s t0. sq_reachable s \<and> auth_run a (range sqlite_ops) t0 (fresh_auth s) t w)"

lemma fresh_caches: "sq_reachable s \<Longrightarrow> sq_accounts.caches_ok a t (fresh_auth s)"
  by (simp add: sq_accounts.caches_ok_def fresh_auth_def reachable_wf)

lemma history_caches: "auth_history a t w \<Longrightarrow> sq_accounts.caches_ok a t w"
  unfolding auth_history_def using sq_auth.run_caches fresh_caches by blast

lemma history_run: "auth_history a t w \<Longrightarrow> auth_run a (range sqlite_ops) t w t' w' \<Longrightarrow> auth_history a t' w'"
  unfolding auth_history_def using auth_run_trans by blast

lemma token_owner:
  assumes "wf_db s" "sq_tokens s i = Some row"
  shows "\<exists>u. sq_users s (tok_UserID row) = Some u"
proof -
  have "row \<in> set (t_tokens s)" using assms(2) find_Some_set unfolding sq_tokens_def by fastforce
  moreover have "tok_UserID ` set (t_tokens s) \<subseteq> user_ID ` set (t_users s)"
    using assms(1) unfolding wf_db_def wf_users_def user_ids_def by (elim conjE)
  ultimately obtain u where "u \<in> set (t_users s)" "user_ID u = tok_UserID row" by (metis image_iff subsetD)
  then have "find (\<lambda>u. user_ID u = tok_UserID row) (t_users s) \<noteq> None" by (auto simp: find_None_set)
  then show ?thesis by (simp add: sq_users_def)
qed

text \<open>C17. An API token authenticates its owner from its creation on, through any requests, calls
  and outages in between, until it is revoked or has expired: a request that carries it as a bearer
  token and no other credential is resolved to the owner, with the owner's administrator flag. The
  record handed out with the secret does not carry its hash.\<close>

theorem created_token_authenticates:
  assumes "auth_history a (now e) w" "CreateToken a (sqlite_ops eng) e uid name ex w = (Inr (tk, secret), w1)"
    and "auth_run a (range sqlite_ops) (now e) w1 (now e2) w2" "outage eng2 = None"
    and "\<And>row. sq_tokens (aw_store w2) (tok_ID tk) = Some row \<Longrightarrow> \<not> tok_Revoked row"
    and "case ex of None \<Rightarrow> True | Some x \<Rightarrow> now e2 < Truncate x Microsecond"
    and "header_Get (rq_Header r) ''Authorization'' = ''Bearer '' @ secret" "\<not> has_session r" "\<not> has_forward a r"
  shows "tok_SecretHash tk = [] \<and> (\<exists>u. sq_users (aw_store w2) uid = Some u \<and>
    fst (auth_resolve a (sqlite_ops eng2) e2 r w2) = Inr (Some \<lparr>id_UserID = uid, id_IsAdmin = user_IsAdmin u, id_Method = ''bearer''\<rparr>))"
proof -
  let ?raw = "drawn 0 tokenBytes e"
  let ?t = "\<lparr>tok_ID = encodeID ''tok_'' ?raw, tok_UserID = uid, tok_Name = name, tok_SecretHash = hashToken a secret,
    tok_CreatedAt = now e, tok_LastUsedAt = None, tok_RevokedAt = None, tok_ExpiresAt = ex\<rparr>"
  have secret: "secret = TokenPrefix @ base64_EncodeToString base64url ?raw" and tk: "tk = ?t\<lparr>tok_SecretHash := []\<rparr>"
      and made: "so_CreateToken (sqlite_ops eng) e ?t (aw_store w) = Inr (aw_store w1)"
    using assms(2) by (auto simp: CreateToken_def Let_def split: sum.splits)
  have c: "sq_accounts.caches_ok a (now e) w" by (rule history_caches [OF assms(1)])
  have c1: "sq_accounts.caches_ok a (now e) w1"
    using sq_accounts.path_caches [OF sq_accounts.CreateToken_path c] assms(2) by (metis snd_conv)
  then have c2: "sq_accounts.caches_ok a (now e2) w2" by (rule sq_auth.run_caches [OF assms(3)])
  obtain row1 where row1: "sq_tokens (aw_store w1) (tok_ID ?t) = Some row1"
      "token_later (?t\<lparr>tok_ExpiresAt := map_option (\<lambda>t. Truncate t Microsecond) ex\<rparr>) row1"
    using sq_accounts.create_token [OF _ made] c by (auto simp: sq_accounts.caches_ok_def)
  obtain row where row: "sq_tokens (aw_store w2) (tok_ID ?t) = Some row" "token_later row1 row"
    using map_laterD [OF conjunct2 [OF sq_auth.run_later [OF assms(3) c1]] row1(1)] by auto
  have fields: "tok_UserID row = uid" "tok_SecretHash row = hashToken a secret"
      "tok_ExpiresAt row = map_option (\<lambda>t. Truncate t Microsecond) ex"
    using row1(2) row(2) by (simp_all add: token_later_def)
  have wf: "wf_db (aw_store w2)" using c2 by (simp add: sq_accounts.caches_ok_def)
  obtain u0 where u: "sq_users (aw_store w2) uid = Some u0" using token_owner [OF wf row(1)] fields(1) by auto
  have bearer: "bearer_secret r = secret" "fst (cut_space (header_Get (rq_Header r) ''Authorization'')) = ''Bearer''"
    using bearer_secret_of [of r ?raw] assms(7) secret by auto
  have parse: "parseToken (bearer_secret r) = Some (tok_ID ?t)" using parseToken_secret [of ?raw] bearer(1) secret by simp
  have hash: "tok_SecretHash row = hashToken a (bearer_secret r)" using fields(2) bearer(1) by simp
  have live: "\<not> tok_Revoked row" using assms(5) row(1) tk by simp
  have ex: "case tok_ExpiresAt row of None \<Rightarrow> True | Some x \<Rightarrow> now e2 < x" using assms(6) fields(3) by (simp split: option.splits)
  have "has_bearer r" using assms(7) by (simp add: has_bearer_def)
  then have "fst (auth_resolve a (sqlite_ops eng2) e2 r w2) =
      Inr (Some \<lparr>id_UserID = tok_UserID row, id_IsAdmin = user_IsAdmin u0, id_Method = MethodBearer\<rparr>)"
    using sq_accounts.bearer_accepted [OF c2 assms(4) _ assms(8,9) _ parse row(1) hash live ex, of u0] u fields(1) bearer(2)
    by (simp add: strings_EqualFold_def)
  then show ?thesis using u fields tk by (simp add: MethodBearer_def)
qed

text \<open>C16. Revocation takes effect within one lifetime of a cache entry: once a token has been revoked
  in the store, no request that presents it is let through from \<open>au_cacheTTL\<close> (30 seconds by default)
  later on, whatever requests, calls and outages happen in between: the request is answered with an
  error and the handler behind the middleware does not run.\<close>

theorem revoked_token_refused:
  assumes "auth_history a t w" "sq_RevokeToken eng e i uid (aw_store w) = Inr s"
    and "auth_run a (range sqlite_ops) t (w\<lparr>aw_store := s\<rparr>) (now e2) w2" "t + au_cacheTTL a \<le> now e2"
    and "has_bearer r" "parseToken (bearer_secret r) = Some i"
  shows "\<exists>err w3. Middleware a (sqlite_ops eng2) e2 next r w2 = (reject a r err, w3)"
proof -
  have c: "sq_accounts.caches_ok a t w" by (rule history_caches [OF assms(1)])
  have revoke: "so_RevokeToken (sqlite_ops eng) e i uid (aw_store w) = Inr s" using assms(2) by (simp add: sqlite_ops_def)
  then have "run_store (sqlite_ops eng) e (OpRevokeToken i uid) (aw_store w) = s" by (simp add: after_def)
  then have c1: "sq_accounts.caches_ok a t (w\<lparr>aw_store := s\<rparr>)"
    using sq_accounts.caches_ok_store [OF c, of eng e "OpRevokeToken i uid"] by simp
  have "sq_accounts.token_dead a t i w2"
    using sq_auth.run_dead [OF assms(3) c1] sq_accounts.revoke_dead [OF c revoke] by blast
  then have dead: "isl (fst (verifyToken a (sqlite_ops eng2) (now e2) (bearer_secret r) w2))"
    using sq_accounts.dead_token_refused [OF _ sq_auth.run_caches [OF assms(3) c1] assms(4,6)] by blast
  obtain err x where "verifyToken a (sqlite_ops eng2) (now e2) (bearer_secret r) w2 = (Inl err, x)"
    using dead by (cases "verifyToken a (sqlite_ops eng2) (now e2) (bearer_secret r) w2") (auto simp: isl_def)
  then have "isl (fst (auth_resolve a (sqlite_ops eng2) e2 r w2))"
    using assms(5) by (auto simp: auth_resolve_def resolve_bearer_def has_bearer_def bearer_secret_def Let_def split: prod.splits)
  then show ?thesis by (auto simp: Middleware_def isl_def split: prod.splits)
qed

text \<open>C15. No identity without a credential, and no disagreement: when the middleware lets a request
  through, it carries an identity exactly when the request carries a credential, namely the
  \<open>Authorization\<close> header, a non-empty session cookie, or the identity header from a trusted peer
  with forward authentication enabled; the identity is a user of the database with that user's
  administrator flag, and every credential present vouches for it: a stored, unexpired token with
  the hash of the presented secret belongs to the user, the session was signed for the user at a token
  version not above the current one, the forwarded address is the user's. From a peer that is not
  trusted the identity header does not count.\<close>

theorem identity_needs_credential:
  assumes "auth_history a (now e) w" "auth_resolve a (sqlite_ops eng) e r w = (Inr f, w1)"
  shows "(f \<noteq> None) = (has_bearer r \<or> has_session r \<or> has_forward a r) \<and>
    (\<forall>i. f = Some i \<longrightarrow> known (sq_users (aw_store w1)) i \<and>
      (has_bearer r \<longrightarrow> bearer_vouches a (now e) (sq_tokens (aw_store w1)) r (id_UserID i)) \<and>
      (has_session r \<longrightarrow> session_vouches a (now e) (sq_users (aw_store w1)) r (id_UserID i)) \<and>
      (has_forward a r \<longrightarrow> forward_vouches same_mail a (sq_users (aw_store w1)) r (id_UserID i))) \<and>
    (\<not> peerTrusted a (rq_RemoteAddr r) \<longrightarrow> \<not> has_forward a r)"
  using sq_accounts.auth_resolve_sound [OF history_caches [OF assms(1)] assms(2)]
  by (auto simp: has_forward_def split: if_splits)

lemma session_resolves:
  assumes "sq_reachable s0" "auth_run a (range sqlite_ops) t0 (fresh_auth s0) (now e2) w"
    and jwt: "\<And>key c token t. cy_Sign (au_crypto a) key c = Some token \<Longrightarrow> jc_IssuedAt c \<le> t \<Longrightarrow> t < jc_ExpiresAt c \<Longrightarrow>
      token \<noteq> [] \<and> (\<exists>c'. cy_Parse (au_crypto a) key t token = Some c' \<and> jc_Subject c' = jc_Subject c \<and> jc_TokenVersion c' = jc_TokenVersion c)"
    and "sq_users s0 (user_ID u) = Some u0" "user_TokenVersion u0 = user_TokenVersion u" "user_ID u \<noteq> []" "IssueSession a e u = Inr (token, ex)" "now e \<le> now e2" "now e2 < ex"
    and "sq_users (aw_store w) (user_ID u) = Some u'" "user_TokenVersion u' = user_TokenVersion u" "outage eng = None"
    and "map_of (rq_Cookies r) SessionCookieName = Some token" "\<not> has_bearer r" "\<not> has_forward a r"
  shows "fst (auth_resolve a (sqlite_ops eng) e2 r w) = Inr (Some \<lparr>id_UserID = user_ID u, id_IsAdmin = user_IsAdmin u', id_Method = ''cookie''\<rparr>)"
proof -
  have c: "sq_accounts.caches_ok a (now e2) w" using sq_auth.run_caches [OF assms(2)] fresh_caches [OF assms(1)] by blast
  have "sq_accounts.versions_from (user_ID u) (user_TokenVersion u) (fresh_auth s0)"
    using assms(4,5) by (simp add: sq_accounts.versions_from_def fresh_auth_def)
  then have v: "sq_accounts.versions_from (user_ID u) (user_TokenVersion u) w"
    using sq_auth.run_versions [OF assms(2)] fresh_caches [OF assms(1)] by blast
  let ?c = "\<lparr>jc_Subject = user_ID u, jc_ID = auth_newID 0 ''ses_'' e, jc_TokenVersion = user_TokenVersion u, jc_IssuedAt = now e, jc_ExpiresAt = ex\<rparr>"
  have "cy_Sign (au_crypto a) (au_signingKey a) ?c = Some token"
    using assms(7) by (auto simp: IssueSession_def Let_def split: option.splits)
  then obtain cl where cl: "token \<noteq> []" "cy_Parse (au_crypto a) (au_signingKey a) (now e2) token = Some cl"
      "jc_Subject cl = user_ID u" "jc_TokenVersion cl = user_TokenVersion u"
    using jwt [of "au_signingKey a" ?c token "now e2"] assms(8,9) by auto
  have "fst (auth_resolve a (sqlite_ops eng) e2 r w) = Inr (Some \<lparr>id_UserID = jc_Subject cl, id_IsAdmin = user_IsAdmin u', id_Method = MethodCookie\<rparr>)"
    using assms(6,10,11) cl v by (intro sq_accounts.session_accepted [OF c assms(12,14,15,13) cl(1,2)]) simp_all
  then show ?thesis using cl(3) by (simp add: MethodCookie_def)
qed

subsection \<open>Accounts\<close>

text \<open>A request changes the store only by touching a token and by creating a user who is no
  administrator: whatever these two calls keep, the middleware keeps.\<close>

definition kept_by_auth :: "('s \<Rightarrow> 'x) \<Rightarrow> 's store_ops \<Rightarrow> bool" where
  "kept_by_auth f st = ((\<forall>i t s s'. so_TouchTokenLastUsed st i t s = Inr s' \<longrightarrow> f s' = f s) \<and>
     (\<forall>e u s s'. so_CreateUser st e u s = Inr s' \<longrightarrow> \<not> user_IsAdmin u \<longrightarrow> f s' = f s))"

lemma verifyToken_keeps:
  assumes "kept_by_auth f st"
  shows "f (aw_store (snd (verifyToken a st t secret w))) = f (aw_store w)"
proof (cases "parseToken secret")
  case (Some i)
  obtain hit toks where get: "tc_get t i (aw_tokens w) = (hit, toks)" by fastforce
  have touch: "f (aw_store (touch st t i x)) = f (aw_store x)" for x
    using assms by (auto simp: touch_def Let_def kept_by_auth_def split: sum.split)
  show ?thesis
    by (cases "case hit of Some tk \<Rightarrow> Inr tk | None \<Rightarrow> so_GetTokenByID st i (aw_store w)")
      (simp_all add: verifyToken_def Some get Let_def touch)
qed (simp add: verifyToken_def)

lemma userByID_store: "aw_store (snd (userByID a st t i w)) = aw_store w"
  by (auto simp: userByID_def Let_def split: prod.split option.split sum.split)

lemma resolve_bearer_keeps:
  assumes "kept_by_auth f st"
  shows "f (aw_store (snd (resolve_bearer a st e r w))) = f (aw_store w)"
proof -
  have "f (aw_store x) = f (aw_store w)" if "verifyToken a st t secret w = (v, x)" for t secret v x
    using verifyToken_keeps [OF assms, of a t secret w] that by simp
  moreover have "aw_store y = aw_store x" if "userByID a st t i x = (v, y)" for t i v x y
    using userByID_store [of a st t i x] that by simp
  ultimately show ?thesis by (auto simp: resolve_bearer_def Let_def split: prod.splits sum.splits)
qed

lemma resolve_cookie_store: "aw_store (snd (resolve_cookie a st e r f w)) = aw_store w"
proof -
  have "aw_store y = aw_store w" if "userByID a st t i w = (v, y)" for t i v y using userByID_store [of a st t i w] that by simp
  then show ?thesis by (auto simp: resolve_cookie_def verifySession_def split: prod.splits sum.splits option.splits)
qed

lemma resolve_forward_keeps:
  assumes "kept_by_auth f st"
  shows "f (aw_store (snd (resolve_forward a st e r found w))) = f (aw_store w)"
proof -
  have "f (aw_store (snd (forwardAuthUser st e m w))) = f (aw_store w)" for m
    using assms by (auto simp: forwardAuthUser_def Let_def kept_by_auth_def split: sum.split)
  then have "f (aw_store y) = f (aw_store w)" if "forwardAuthUser st e m w = (v, y)" for m v y using that by (metis snd_conv)
  then show ?thesis by (auto simp: resolve_forward_def Let_def split: list.splits prod.splits sum.splits)
qed

lemma auth_resolve_keeps:
  assumes "kept_by_auth f st"
  shows "f (aw_store (snd (auth_resolve a st e r w))) = f (aw_store w)"
proof -
  have "f (aw_store x) = f (aw_store w)" if "resolve_bearer a st e r w = (v, x)" for v x
    using resolve_bearer_keeps [OF assms, of a e r w] that by simp
  moreover have "aw_store y = aw_store x" if "resolve_cookie a st e r g x = (v, y)" for g v x y
    using resolve_cookie_store [of a st e r g x] that by simp
  ultimately show ?thesis using resolve_forward_keeps [OF assms] by (auto simp: auth_resolve_def split: prod.splits sum.splits)
qed

definition admins :: "db \<Rightarrow> string set" where
  "admins s = user_ID ` {u \<in> set (t_users s). user_IsAdmin u}"

lemma sqlite_kept:
  "kept_by_auth admins (sqlite_ops eng)" "kept_by_auth t_reservations (sqlite_ops eng)" "kept_by_auth t_codes (sqlite_ops eng)"
  by (auto simp: kept_by_auth_def sqlite_ops_def sq_TouchTokenLastUsed_def sq_CreateUser_def withTx_Inr admins_def user_row_def Let_def
      split: sum.splits if_splits)

lemmas auth_resolve_admins = auth_resolve_keeps [OF sqlite_kept(1)]


text \<open>A new token version ends every session issued before it, within one lifetime of a cache
  entry: once the version of a user has been raised, a cookie whose token carries an earlier version
  gets no request through from \<open>au_cacheTTL\<close> later on.\<close>

lemma bumped_sessions_refused:
  assumes "auth_history a t w" "sq_BumpTokenVersion eng i (aw_store w) = Inr (n, s)"
    and "auth_run a (range sqlite_ops) t (w\<lparr>aw_store := s\<rparr>) (now e2) w2" "t + au_cacheTTL a \<le> now e2"
    and "map_of (rq_Cookies r) SessionCookieName = Some token" "token \<noteq> []"
    and "cy_Parse (au_crypto a) (au_signingKey a) (now e2) token = Some c" "jc_Subject c = i" "jc_TokenVersion c < n"
    and "\<not> has_bearer r"
  shows "\<exists>err w3. Middleware a (sqlite_ops eng2) e2 next r w2 = (reject a r err, w3)"
proof -
  have c: "sq_accounts.caches_ok a t w" by (rule history_caches [OF assms(1)])
  have bump: "so_BumpTokenVersion (sqlite_ops eng) i (aw_store w) = Inr (n, s)" using assms(2) by (simp add: sqlite_ops_def)
  then have "run_store (sqlite_ops eng) e2 (OpBumpTokenVersion i) (aw_store w) = s" by (simp add: after_def)
  then have c1: "sq_accounts.caches_ok a t (w\<lparr>aw_store := s\<rparr>)"
    using sq_accounts.caches_ok_store [OF c, of eng e2 "OpBumpTokenVersion i"] by simp
  have "sq_accounts.sessions_dead a t (jc_Subject c) (jc_TokenVersion c) w2"
    using sq_accounts.sessions_dead_le [OF sq_auth.run_stale [OF assms(3) c1 sq_accounts.bump_dead [OF c bump]]] assms(8,9) by simp
  then have dead: "isl (fst (verifySession a (sqlite_ops eng2) (now e2) token w2))"
    using sq_accounts.dead_session_refused assms(4,7) by blast
  then obtain err x where "verifySession a (sqlite_ops eng2) (now e2) token w2 = (Inl err, x)"
    by (cases "verifySession a (sqlite_ops eng2) (now e2) token w2") (auto simp: isl_def)
  then have "isl (fst (auth_resolve a (sqlite_ops eng2) e2 r w2))"
    using assms(5,6,10) by (auto simp: auth_resolve_def resolve_bearer_def has_bearer_def resolve_cookie_def)
  then show ?thesis by (auto simp: Middleware_def isl_def split: prod.splits)
qed

subsection \<open>Concrete instances\<close>

text \<open>Stand-ins for the packages: hashes that keep their argument, and session tokens that are the
  subject and the version in the clear.\<close>

definition clear_Sign :: "bytes \<Rightarrow> claims \<Rightarrow> string option" where
  "clear_Sign key c = Some (FormatInt (jc_TokenVersion c) @ ''.'' @ jc_Subject c)"

definition clear_Parse :: "bytes \<Rightarrow> gotime \<Rightarrow> string \<Rightarrow> claims option" where
  "clear_Parse key t token =
    (let v = takeWhile (\<lambda>c. c \<noteq> CHR ''.'') token in
     Some \<lparr>jc_Subject = drop 1 (dropWhile (\<lambda>c. c \<noteq> CHR ''.'') token), jc_ID = '''',
       jc_TokenVersion = (if HasPrefix v ''-'' then - int (decimal (drop 1 v)) else int (decimal v)), jc_IssuedAt = 0, jc_ExpiresAt = 0\<rparr>)"

definition sample_crypto :: crypto where
  "sample_crypto = \<lparr>cy_SHA256 = (\<lambda>b. b), cy_HMAC = (\<lambda>k b. k @ b),
     cy_IDKey = (\<lambda>pw salt t m p n. take n (pw @ replicate n (CHR ''x''))), cy_Sign = clear_Sign, cy_Parse = clear_Parse\<rparr>"

definition sample_net :: netlib where
  "sample_net = \<lparr>nt_SplitHostPort = (\<lambda>_. None), nt_ParseIP = (\<lambda>s. if s = ''10.0.0.1'' then Some s else None),
     nt_ParseCIDR = (\<lambda>s. Some (s, s)), nt_Contains = (\<lambda>_ _. True)\<rparr>"

definition sample_auth :: authenticator where
  "sample_auth = \<lparr>au_crypto = sample_crypto, au_net = sample_net, au_signingKey = ''key'', au_sessionTTL = DefaultSessionTTL,
     au_cacheTTL = DefaultCacheTTL, au_pepper = '''', au_cookieSecure = True, au_fwdEnabled = True,
     au_fwdHeader = ''X-Forwarded-Email'', au_fwdTrusted = [(''10.0.0.0'', ''8'')]\<rparr>"

definition plain_request :: request where
  "plain_request = \<lparr>rq_Method = ''GET'', rq_Path = ''/v1/codes'', rq_Header = [], rq_PathValue = [], rq_Query = [],
     rq_Cookies = [], rq_RemoteAddr = '''', rq_Body = ''''\<rparr>"

definition bearer_request :: "string \<Rightarrow> request" where
  "bearer_request secret = plain_request\<lparr>rq_Header := [(''Authorization'', ''Bearer '' @ secret)]\<rparr>"

definition cookie_request :: "string \<Rightarrow> request" where
  "cookie_request token = plain_request\<lparr>rq_Cookies := [(SessionCookieName, token)]\<rparr>"

lemma request_credentials:
  "\<not> has_session (bearer_request s)" "\<not> has_forward sample_auth (bearer_request s)" "has_bearer (bearer_request s)"
  "\<not> has_bearer (cookie_request s)" "\<not> has_forward sample_auth (cookie_request s)"
  "header_Get (rq_Header (bearer_request s)) ''Authorization'' = ''Bearer '' @ s"
  "map_of (rq_Cookies (cookie_request s)) SessionCookieName = Some s"
  by (simp_all add: has_session_def has_forward_def has_bearer_def bearer_request_def cookie_request_def plain_request_def header_Get_def
      sample_auth_def sample_net_def peerTrusted_def)

lemma clear_roundtrip: "cy_Sign sample_crypto key c = Some token \<Longrightarrow>
  token \<noteq> [] \<and> (\<exists>c'. cy_Parse sample_crypto key t token = Some c' \<and> jc_Subject c' = jc_Subject c \<and> jc_TokenVersion c' = jc_TokenVersion c)"
proof -
  assume "cy_Sign sample_crypto key c = Some token"
  then have tok: "token = FormatInt (jc_TokenVersion c) @ ''.'' @ jc_Subject c" by (simp add: sample_crypto_def clear_Sign_def)
  have dot: "x \<noteq> CHR ''.''" if "x \<in> set (FormatInt v)" for x v
    using that digits_all [of "nat v"] digits_all [of "nat (- v)"] by (auto simp: FormatInt_def list_all_iff is_digit_def split: if_splits)
  have minus: "\<not> HasPrefix (digits n) ''-''" for n
    using digits_all [of n] by (cases "digits n") (auto simp: HasPrefix_def is_digit_def)
  have "takeWhile (\<lambda>c. c \<noteq> CHR ''.'') token = FormatInt (jc_TokenVersion c)" "dropWhile (\<lambda>c. c \<noteq> CHR ''.'') token = ''.'' @ jc_Subject c"
    using dot by (simp_all add: tok takeWhile_append2 dropWhile_append2)
  then show ?thesis using minus by (auto simp: sample_crypto_def clear_Parse_def tok FormatInt_def HasPrefix_def)
qed

lemma sample_key_length: "length (cy_IDKey sample_crypto pw salt t m p n) = n"
  by (simp add: sample_crypto_def)

lemma sample_history: "auth_history sample_auth t (fresh_auth sample_state)"
  unfolding auth_history_def using sample_reachable auth_run.run_start by blast

definition sample_token :: "(auth_error + api_token \<times> string) \<times> db auth_world" where
  "sample_token = CreateToken sample_auth (sqlite_ops sample_engine) sample_env ''usr_1'' ''ci'' None (fresh_auth sample_state)"

lemma sample_token_created:
  obtains tk secret w where "sample_token = (Inr (tk, secret), w)" "tok_ID tk = ''tok_aaaaaaaaaaaaaaaa''"
    "\<And>row. sq_tokens (aw_store w) (tok_ID tk) = Some row \<Longrightarrow> \<not> tok_Revoked row" "parseToken secret = Some (tok_ID tk)"
    "auth_history sample_auth (now sample_env) w"
    "bearer_secret (bearer_request secret) = secret"
proof -
  have ok: "case sample_token of (Inl _, _) \<Rightarrow> False | (Inr (tk, secret), w) \<Rightarrow> tok_ID tk = ''tok_aaaaaaaaaaaaaaaa'' \<and>
      (case sq_tokens (aw_store w) (tok_ID tk) of None \<Rightarrow> False | Some row \<Rightarrow> \<not> tok_Revoked row) \<and>
      parseToken secret = Some (tok_ID tk) \<and> bearer_secret (bearer_request secret) = secret"
    by code_simp
  have h: "auth_history sample_auth (now sample_env) (snd sample_token)"
    unfolding sample_token_def by (rule history_run [OF sample_history]) (auto intro: auth_run.intros)
  obtain tk secret w where s: "sample_token = (Inr (tk, secret), w)" using ok by (auto split: prod.splits sum.splits)
  show ?thesis using ok h unfolding s by (intro that [OF s]) (auto split: option.splits)
qed

theorem created_token_authenticates_witness:
  "\<exists>tk secret w. sample_token = (Inr (tk, secret), w) \<and>
    fst (auth_resolve sample_auth (sqlite_ops sample_engine) sample_env (bearer_request secret) w) =
      Inr (Some \<lparr>id_UserID = ''usr_1'', id_IsAdmin = False, id_Method = ''bearer''\<rparr>)"
proof -
  obtain tk secret w where s: "sample_token = (Inr (tk, secret), w)" "\<And>row. sq_tokens (aw_store w) (tok_ID tk) = Some row \<Longrightarrow> \<not> tok_Revoked row"
    by (rule sample_token_created) blast
  have "case sq_users (aw_store (snd sample_token)) ''usr_1'' of None \<Rightarrow> False | Some u \<Rightarrow> \<not> user_IsAdmin u" by code_simp
  then have "case sq_users (aw_store w) ''usr_1'' of None \<Rightarrow> False | Some u \<Rightarrow> \<not> user_IsAdmin u" unfolding s(1) by simp
  then show ?thesis
    using created_token_authenticates [OF sample_history s(1) [unfolded sample_token_def] auth_run.run_start sample_up s(2), of "bearer_request secret"]
      s(1) request_credentials by (auto split: option.splits)
qed

theorem revoked_token_refused_witness:
  "\<exists>tk secret w s err w3. sample_token = (Inr (tk, secret), w) \<and>
    sq_RevokeToken sample_engine sample_env ''tok_aaaaaaaaaaaaaaaa'' ''usr_1'' (aw_store w) = Inr s \<and>
    Middleware sample_auth (sqlite_ops sample_engine) (sample_env\<lparr>now := now sample_env + 30 * Second\<rparr>) (\<lambda>_ _ w. (Internal [], w))
      (bearer_request secret) (w\<lparr>aw_store := s\<rparr>) = (reject sample_auth (bearer_request secret) err, w3)"
proof -
  obtain tk secret w where s: "sample_token = (Inr (tk, secret), w)" "tok_ID tk = ''tok_aaaaaaaaaaaaaaaa''"
      "parseToken secret = Some (tok_ID tk)" "auth_history sample_auth (now sample_env) w" "bearer_secret (bearer_request secret) = secret"
    by (rule sample_token_created) blast
  have "\<not> isl (sq_RevokeToken sample_engine sample_env ''tok_aaaaaaaaaaaaaaaa'' ''usr_1'' (aw_store (snd sample_token)))" by code_simp
  then have "\<not> isl (sq_RevokeToken sample_engine sample_env ''tok_aaaaaaaaaaaaaaaa'' ''usr_1'' (aw_store w))" unfolding s(1) by simp
  then obtain x where x: "sq_RevokeToken sample_engine sample_env ''tok_aaaaaaaaaaaaaaaa'' ''usr_1'' (aw_store w) = Inr x"
    by (auto dest!: not_isl)
  let ?e = "sample_env\<lparr>now := now sample_env + 30 * Second\<rparr>"
  have "auth_run sample_auth (range sqlite_ops) (now sample_env) (w\<lparr>aw_store := x\<rparr>) (now ?e) (w\<lparr>aw_store := x\<rparr>)"
    by (rule auth_run.run_tick [OF auth_run.run_start]) (simp add: Second_def)
  moreover have "au_cacheTTL sample_auth = 30 * Second" by (simp add: sample_auth_def DefaultCacheTTL_def)
  ultimately have "\<exists>err w3. Middleware sample_auth (sqlite_ops sample_engine) ?e (\<lambda>_ _ w. (Internal [], w))
      (bearer_request secret) (w\<lparr>aw_store := x\<rparr>) = (reject sample_auth (bearer_request secret) err, w3)"
    using s(2,3,5) request_credentials(3)
    by (intro revoked_token_refused [OF s(4) x]) simp_all
  then show ?thesis using s(1) x by blast
qed

theorem identity_needs_credential_witness:
  "\<exists>f w. auth_resolve sample_auth (sqlite_ops sample_engine) sample_env
      (plain_request\<lparr>rq_Header := [(''X-Forwarded-Email'', ''a@example.com'')], rq_RemoteAddr := ''10.0.0.1''\<rparr>) (fresh_auth sample_state) = (Inr (Some f), w) \<and>
    known (sq_users (aw_store w)) f \<and> id_UserID f = ''usr_1''"
proof -
  let ?r = "plain_request\<lparr>rq_Header := [(''X-Forwarded-Email'', ''a@example.com'')], rq_RemoteAddr := ''10.0.0.1''\<rparr>"
  have "case auth_resolve sample_auth (sqlite_ops sample_engine) sample_env ?r (fresh_auth sample_state) of
      (Inr (Some f), w) \<Rightarrow> id_UserID f = ''usr_1'' | _ \<Rightarrow> False" by code_simp
  then obtain f w where "auth_resolve sample_auth (sqlite_ops sample_engine) sample_env ?r (fresh_auth sample_state) = (Inr (Some f), w)"
      "id_UserID f = ''usr_1''"
    by (auto split: prod.splits sum.splits option.splits)
  then show ?thesis using identity_needs_credential [OF sample_history, where e = sample_env and eng = sample_engine and r = ?r] by blast
qed

theorem password_roundtrip_witness:
  "VerifyPassword sample_crypto (HashPassword sample_crypto sample_env ''hunter2'') ''hunter2'' = Some True \<and>
   VerifyPassword sample_crypto (HashPassword sample_crypto sample_env ''hunter2'') ''hunter3'' = Some False"
proof -
  have "cy_IDKey sample_crypto ''hunter3'' x t m p 32 \<noteq> cy_IDKey sample_crypto ''hunter2'' x t m p 32" for x t m p
    by (simp add: sample_crypto_def)
  then show ?thesis using password_roundtrip [of sample_crypto] sample_key_length by simp
qed


end
