(* ===== verification/V1_Auth.thy ===== *)
theory V1_Auth
  imports Auth_Props V1_Json
begin

text \<open>
  The account endpoints, \<^verbatim>\<open>src/internal/httpapi/v1\<close>: sign-in, sign-out and the current user
  (\<open>auth.go\<close>), API tokens (\<open>tokens.go\<close>) and the release of aliases (\<open>admin.go\<close>). The text of a time
  in a JSON body is read by the argument \<open>v_rfc\<close>.
\<close>

subsection \<open>Sign-in\<close>

record 's v1 =
  v_auth :: authenticator
  v_store :: "'s store_ops"
  v_dec :: json_decoder
  v_rfc :: "string \<Rightarrow> gotime option"

definition opt_time :: "gotime option \<Rightarrow> json" where
  "opt_time t = (case t of None \<Rightarrow> JNull | Some t \<Rightarrow> JTime t)"

definition toUserJSON :: "user \<Rightarrow> json" where
  "toUserJSON u = JObj [(''id'', JStr (user_ID u)), (''email'', JStr (user_Email u)), (''is_admin'', JBool (user_IsAdmin u)),
     (''source'', JStr (user_Source u)), (''created_at'', JTime (user_CreatedAt u)), (''last_login_at'', opt_time (user_LastLoginAt u))]"

definition signin_body :: "json \<Rightarrow> (string \<times> string) option" where
  "signin_body v = (case object_of [''email'', ''password''] v of
     None \<Rightarrow> None
   | Some kvs \<Rightarrow> (case (string_field ''email'' kvs, string_field ''password'' kvs) of
       (Some m, Some p) \<Rightarrow> Some (m, p) | _ \<Rightarrow> None))"

definition no_store :: header where "no_store = header_Set ''Cache-Control'' ''no-store'' []"

definition bad_signin :: response where
  "bad_signin = WriteError no_store CodeUnauthorized ''The email or password is incorrect.'' []"

definition signin :: "'s v1 \<Rightarrow> call_env \<Rightarrow> 's auth_handler" where
  "signin v e i r w =
    (case decodeJSON (v_dec v) signin_body r of
       Inl resp \<Rightarrow> (resp, w)
     | Inr (email, password) \<Rightarrow>
         let email = strings_TrimSpace email in
         if email = '''' \<or> password = ''''
         then (WriteError [] CodeInvalidRequest ''Both email and password are required.'' [(''field'', JStr ''email,password'')], w)
         else case so_GetUserByEmail (v_store v) email (aw_store w) of
           Inl err \<Rightarrow> if err \<noteq> ErrNotFound then (Internal no_store, w) else (bad_signin, w)
         | Inr u \<Rightarrow>
             if user_PasswordHash u = '''' then (bad_signin, w)
             else case VerifyPassword (au_crypto (v_auth v)) (user_PasswordHash u) password of
               None \<Rightarrow> (Internal no_store, w)
             | Some False \<Rightarrow> (bad_signin, w)
             | Some True \<Rightarrow>
                 (case IssueSession (v_auth v) e u of
                    Inl _ \<Rightarrow> (Internal no_store, w)
                  | Inr (token, ex) \<Rightarrow>
                      ((WriteJSON no_store 200 (toUserJSON u))\<lparr>rs_Cookies := [SessionCookie (v_auth v) (now e) token ex]\<rparr>, w)))"

definition signout :: "'s v1 \<Rightarrow> 's auth_handler" where
  "signout v i r w = (\<lparr>rs_Status = 204, rs_Header = no_store, rs_Cookies = [ClearSessionCookie (v_auth v)], rs_Body = NoBody\<rparr>, w)"

text \<open>A handler behind \<open>RequireAuth\<close> reads the identity; without one the Go code reads the zero value.\<close>

definition caller :: "identity option \<Rightarrow> string" where
  "caller i = (case i of None \<Rightarrow> '''' | Some i \<Rightarrow> id_UserID i)"

definition me :: "'s v1 \<Rightarrow> 's auth_handler" where
  "me v i r w =
    (case so_GetUserByID (v_store v) (caller i) (aw_store w) of
       Inl err \<Rightarrow> if err = ErrNotFound then (WriteError [] CodeUnauthorized ''The presented credential is not valid.'' [], w) else (Internal [], w)
     | Inr u \<Rightarrow> (WriteJSON no_store 200 (toUserJSON u), w))"

subsection \<open>Tokens\<close>

definition toTokenSummary :: "api_token \<Rightarrow> (string \<times> json) list" where
  "toTokenSummary t = [(''id'', JStr (tok_ID t)), (''name'', JStr (tok_Name t)), (''created_at'', JTime (tok_CreatedAt t)),
     (''last_used_at'', opt_time (tok_LastUsedAt t)), (''revoked_at'', opt_time (tok_RevokedAt t)), (''expires_at'', opt_time (tok_ExpiresAt t))]"

definition tokens_list :: "'s v1 \<Rightarrow> 's auth_handler" where
  "tokens_list v i r w =
    (case so_ListTokens (v_store v) (caller i) (aw_store w) of
       Inl _ \<Rightarrow> (Internal [], w)
     | Inr toks \<Rightarrow> (WriteJSON no_store 200 (JList (map (JObj \<circ> toTokenSummary) toks)), w))"

definition token_body :: "(string \<Rightarrow> gotime option) \<Rightarrow> json \<Rightarrow> (string \<times> gotime option) option" where
  "token_body rfc v = (case object_of [''name'', ''expires_at''] v of
     None \<Rightarrow> None
   | Some kvs \<Rightarrow> (case (string_field ''name'' kvs, set_pointer (as_time rfc) None (values_of ''expires_at'' kvs)) of
       (Some n, Some x) \<Rightarrow> Some (n, x) | _ \<Rightarrow> None))"

definition tokens_create :: "'s v1 \<Rightarrow> call_env \<Rightarrow> 's auth_handler" where
  "tokens_create v e i r w =
    (case decodeJSON (v_dec v) (token_body (v_rfc v)) r of
       Inl resp \<Rightarrow> (resp, w)
     | Inr (name, expiresAt) \<Rightarrow>
         let name = strings_TrimSpace name in
         if name = '''' \<or> 128 < length name
         then (WriteError [] CodeInvalidRequest ''Token name must be between 1 and 128 characters.'' [(''field'', JStr ''name'')], w)
         else if (case expiresAt of None \<Rightarrow> False | Some x \<Rightarrow> \<not> now e < x)
         then (WriteError [] CodeInvalidRequest ''expires_at must be in the future.'' [(''field'', JStr ''expires_at'')], w)
         else case CreateToken (v_auth v) (v_store v) e (caller i) name expiresAt w of
           (Inl _, w') \<Rightarrow> (Internal [], w')
         | (Inr (t, secret), w') \<Rightarrow> (WriteJSON no_store 201 (JObj (toTokenSummary t @ [(''secret'', JStr secret)])), w'))"

definition no_content :: response where
  "no_content = \<lparr>rs_Status = 204, rs_Header = [], rs_Cookies = [], rs_Body = NoBody\<rparr>"

definition tokens_revoke :: "'s v1 \<Rightarrow> call_env \<Rightarrow> 's auth_handler" where
  "tokens_revoke v e i r w =
    (case so_RevokeToken (v_store v) e (PathValue r ''id'') (caller i) (aw_store w) of
       Inr s \<Rightarrow> (no_content, w\<lparr>aw_store := s\<rparr>)
     | Inl err \<Rightarrow> if err = ErrNotFound then (WriteError [] CodeNotFound ''No such token.'' [], w) else (Internal [], w))"

subsection \<open>Administration\<close>

definition releaseAlias :: "'s v1 \<Rightarrow> call_env \<Rightarrow> 's auth_handler" where
  "releaseAlias v e i r w =
    (let alias = PathValue r ''alias'' in
     case so_ReleaseAlias (v_store v) e alias (aw_store w) of
       Inr s \<Rightarrow> (no_content, w\<lparr>aw_store := s\<rparr>)
     | Inl ErrNotFound \<Rightarrow> (WriteError [] CodeNotFound ''No reservation exists for that alias.'' [(''alias'', JStr alias)], w)
     | Inl ErrConflict \<Rightarrow> (WriteError [] CodeConflict ''The alias belongs to a live code; delete the code first.'' [(''alias'', JStr alias)], w)
     | Inl _ \<Rightarrow> (Internal [], w))"

text \<open>The routes as the three handlers register them.\<close>

datatype account_route = Signin | Signout | Me | ListTokens | PostToken | DeleteToken | DeleteAlias

fun account_handler :: "'s v1 \<Rightarrow> call_env \<Rightarrow> account_route \<Rightarrow> 's auth_handler" where
  "account_handler v e Signin = signin v e"
| "account_handler v e Signout = RequireAuth (signout v)"
| "account_handler v e Me = RequireAuth (me v)"
| "account_handler v e ListTokens = RequireAuth (tokens_list v)"
| "account_handler v e PostToken = RequireAuth (tokens_create v e)"
| "account_handler v e DeleteToken = RequireAuth (tokens_revoke v e)"
| "account_handler v e DeleteAlias = RequireAdmin (releaseAlias v e)"

subsection \<open>Properties\<close>


lemma run_time: "auth_run a D t w t' w' \<Longrightarrow> t \<le> t'"
  by (induction rule: auth_run.induct) auto

definition session_good_for :: "authenticator \<Rightarrow> call_env \<Rightarrow> db auth_world \<Rightarrow> user \<Rightarrow> string \<Rightarrow> bool" where
  "session_good_for a e w u token = (\<forall>eng e2 w2 r u'.
     auth_run a (range sqlite_ops) (now e) w (now e2) w2 \<and> now e2 < now e + au_sessionTTL a \<and> outage eng = None \<and>
     sq_users (aw_store w2) (user_ID u) = Some u' \<and> user_TokenVersion u' = user_TokenVersion u \<and>
     map_of (rq_Cookies r) SessionCookieName = Some token \<and> \<not> has_bearer r \<and> \<not> has_forward a r \<longrightarrow>
     fst (auth_resolve a (sqlite_ops eng) e2 r w2) = Inr (Some \<lparr>id_UserID = user_ID u, id_IsAdmin = user_IsAdmin u', id_Method = ''cookie''\<rparr>))"


text \<open>C25. Only an administrator releases an alias: when a request to the release endpoint, through
  the middleware and the guard of the endpoint, changes the table of reservations, then it carried a
  credential, and every credential it carried vouches for a user of the database who is an
  administrator.\<close>

theorem alias_release_needs_admin:
  assumes "auth_history a (now e) w" "v_auth v = a" "v_store v = sqlite_ops eng"
    and "Middleware a (sqlite_ops eng) e (account_handler v e DeleteAlias) r w = (resp, w1)"
    and "t_reservations (aw_store w1) \<noteq> t_reservations (aw_store w)"
  shows "\<exists>i u x. auth_resolve a (sqlite_ops eng) e r w = (Inr (Some i), x) \<and>
    sq_users (aw_store x) (id_UserID i) = Some u \<and> user_IsAdmin u \<and> (has_bearer r \<or> has_session r \<or> has_forward a r) \<and>
    (has_bearer r \<longrightarrow> bearer_vouches a (now e) (sq_tokens (aw_store x)) r (user_ID u)) \<and>
    (has_session r \<longrightarrow> session_vouches a (now e) (sq_users (aw_store x)) r (user_ID u)) \<and>
    (has_forward a r \<longrightarrow> forward_vouches same_mail a (sq_users (aw_store x)) r (user_ID u))"
proof -
  obtain res x where run: "auth_resolve a (sqlite_ops eng) e r w = (res, x)" by fastforce
  have kept: "t_reservations (aw_store x) = t_reservations (aw_store w)"
    using auth_resolve_keeps [OF sqlite_kept(2) [of eng], where a = a and e = e and r = r and w = w] run by simp
  obtain i where i: "res = Inr (Some i)" "id_IsAdmin i"
    using assms(4,5) run kept by (auto simp: Middleware_def RequireAdmin_def split: sum.splits option.splits if_splits)
  have sound: "known (sq_users (aw_store x)) i" "has_bearer r \<or> has_session r \<or> has_forward a r"
      "has_bearer r \<longrightarrow> bearer_vouches a (now e) (sq_tokens (aw_store x)) r (id_UserID i)"
      "has_session r \<longrightarrow> session_vouches a (now e) (sq_users (aw_store x)) r (id_UserID i)"
      "has_forward a r \<longrightarrow> forward_vouches same_mail a (sq_users (aw_store x)) r (id_UserID i)"
    using sq_accounts.auth_resolve_sound [OF history_caches [OF assms(1)] run [unfolded i(1)]] by (auto split: if_splits)
  obtain u where u: "sq_users (aw_store x) (id_UserID i) = Some u" "user_IsAdmin u"
    using sound(1) i(2) by (auto simp: known_def split: option.splits)
  have "user_ID u = id_UserID i" using u(1) by (auto simp: sq_users_def dest: find_Some_set)
  then show ?thesis using run i u sound(2-5) by auto
qed

subsection \<open>Concrete instances\<close>

definition root_db :: db where
  "root_db = snd (Bootstrap sample_crypto (sqlite_ops sample_engine) sample_env ''root@example.com'' ''hunter2'' empty_db)"

definition sample_v1 :: "db v1" where
  "sample_v1 = \<lparr>v_auth = sample_auth, v_store = sqlite_ops sample_engine,
     v_dec = (\<lambda>_. Some (JObj [(''email'', JStr '' ROOT@example.com''), (''password'', JStr ''hunter2'')], False)), v_rfc = (\<lambda>_. None)\<rparr>"

lemma bootstrap_reachable: "sq_reachable s \<Longrightarrow> sq_reachable (snd (Bootstrap cy (sqlite_ops eng) e email pw s))"
proof -
  assume "sq_reachable s"
  then have "sq_reachable s'" if "so_CreateUser (sqlite_ops eng) e u s = Inr s'" for u s'
    using sq_reachable.step [of s eng e "OpCreateUser u"] that by (simp add: after_def)
  then show ?thesis using \<open>sq_reachable s\<close> by (auto simp: Bootstrap_def Let_def split: sum.splits)
qed

lemma root_db_user:
  obtains u where "t_users root_db = [u]" "user_IsAdmin u" "user_ID u = ''usr_aaaaaaaaaaaaaaaa''" "user_Email u = ''root@example.com''"
    "user_PasswordHash u = HashPassword sample_crypto sample_env ''hunter2''"
proof -
  let ?u = "user_row sample_env \<lparr>user_ID = auth_newID argonSaltLen ''usr_'' sample_env, user_Email = ''root@example.com'',
    user_PasswordHash = HashPassword sample_crypto sample_env ''hunter2'', user_IsAdmin = True, user_TokenVersion = 0,
    user_Source = UserSourceLocal, user_CreatedAt = now sample_env, user_LastLoginAt = None\<rparr>"
  have "auth_newID argonSaltLen ''usr_'' sample_env = ''usr_aaaaaaaaaaaaaaaa''" by code_simp
  moreover from this have "t_users root_db = [?u]"
    by (simp add: root_db_def Bootstrap_def sqlite_ops_def sq_CountUsers_def sq_CreateUser_def withTx_def violated_def sample_engine_def empty_db_def)
  ultimately show ?thesis using that [of ?u] by (simp add: user_row_def Let_def)
qed


definition admin_db :: db where
  "admin_db = fold (run_store (sqlite_ops sample_engine) sample_env)
     [OpCreateUser (sample_user\<lparr>user_IsAdmin := True\<rparr>), OpCode (OpCreate [sample_code ''cod_1'' ''menu'']),
      OpCode (OpDelete ''cod_1'' ''usr_1'')] empty_db"

definition release_request :: request where
  "release_request = plain_request\<lparr>rq_Method := ''DELETE'', rq_Header := [(''X-Forwarded-Email'', ''a@example.com'')],
     rq_RemoteAddr := ''10.0.0.1'', rq_PathValue := [(''alias'', ''menu'')]\<rparr>"

theorem alias_release_needs_admin_witness:
  "\<exists>resp w i u x. Middleware sample_auth (sqlite_ops sample_engine) sample_env (account_handler sample_v1 sample_env DeleteAlias)
      release_request (fresh_auth admin_db) = (resp, w) \<and>
    t_reservations (aw_store w) \<noteq> t_reservations admin_db \<and>
    auth_resolve sample_auth (sqlite_ops sample_engine) sample_env release_request (fresh_auth admin_db) = (Inr (Some i), x) \<and>
    sq_users (aw_store x) (id_UserID i) = Some u \<and> user_IsAdmin u"
proof -
  have h: "auth_history sample_auth (now sample_env) (fresh_auth admin_db)"
    unfolding auth_history_def admin_db_def using fold_reachable [OF sq_reachable.start] auth_run.run_start by blast
  have "case Middleware sample_auth (sqlite_ops sample_engine) sample_env (account_handler sample_v1 sample_env DeleteAlias)
      release_request (fresh_auth admin_db) of (resp, w) \<Rightarrow> map ReleasedAt (t_reservations (aw_store w)) \<noteq> map ReleasedAt (t_reservations admin_db)" by code_simp
  then obtain resp w where m: "Middleware sample_auth (sqlite_ops sample_engine) sample_env (account_handler sample_v1 sample_env DeleteAlias)
      release_request (fresh_auth admin_db) = (resp, w)" "t_reservations (aw_store w) \<noteq> t_reservations (aw_store (fresh_auth admin_db))"
    by (force simp: fresh_auth_def)
  then show ?thesis
    using alias_release_needs_admin [OF h, of sample_v1 sample_engine release_request resp w] by (auto simp: sample_v1_def fresh_auth_def)
qed

end
