(* ===== verification/Ratelimit.thy ===== *)
theory Ratelimit
  imports V1_Codes_Props V1_Auth
begin

text \<open>
  The rate limiter, \<^verbatim>\<open>src/internal/httpapi/middleware/ratelimit.go\<close>: a token bucket per peer address. Tokens and
  rates are rationals. A limiter of zero requests a minute divides by zero when it computes the time to wait;
  what the conversion of that infinity to a duration gives is an argument.
\<close>

record bucket =
  bk_tokens :: rat
  bk_last :: gotime

record rate_limiter =
  rl_buckets :: "(string \<times> bucket) list"
  rl_rate :: rat
  rl_burst :: rat

definition NewRateLimiter :: "int \<Rightarrow> rate_limiter" where
  "NewRateLimiter perMinute = \<lparr>rl_buckets = [], rl_rate = of_int perMinute / 60, rl_burst = of_int perMinute\<rparr>"

definition seconds :: "duration \<Rightarrow> rat" where
  "seconds d = of_int d / of_int Second"

text \<open>The conversion of a float to an integer drops the fraction.\<close>

definition trunc :: "rat \<Rightarrow> int" where
  "trunc x = (if 0 \<le> x then \<lfloor>x\<rfloor> else \<lceil>x\<rceil>)"

definition allow :: "duration \<Rightarrow> string \<Rightarrow> gotime \<Rightarrow> rate_limiter \<Rightarrow> (bool \<times> duration) \<times> rate_limiter" where
  "allow inf_dur key t rl =
    (let b = (case map_of (rl_buckets rl) key of None \<Rightarrow> \<lparr>bk_tokens = rl_burst rl, bk_last = t\<rparr> | Some b \<Rightarrow> b);
         tokens = min (rl_burst rl) (bk_tokens b + seconds (t - bk_last b) * rl_rate rl)
     in if 1 \<le> tokens
        then ((True, 0), rl\<lparr>rl_buckets := AList.update key \<lparr>bk_tokens = tokens - 1, bk_last = t\<rparr> (rl_buckets rl)\<rparr>)
        else ((False, (if rl_rate rl = 0 then inf_dur else trunc ((1 - tokens) / rl_rate rl * of_int Second)) + Second),
              rl\<lparr>rl_buckets := AList.update key \<lparr>bk_tokens = tokens, bk_last = t\<rparr> (rl_buckets rl)\<rparr>))"

definition evict :: "gotime \<Rightarrow> rate_limiter \<Rightarrow> rate_limiter" where
  "evict t rl = rl\<lparr>rl_buckets := filter (\<lambda>(k, b). \<not> bk_last b < t - 10 * Minute) (rl_buckets rl)\<rparr>"

text \<open>\<open>Middleware\<close>: the key is the host of the peer's address.\<close>

definition limit_page :: body where
  "limit_page = RawBody (''<!doctype html><html lang=\"en\"><head><meta charset=\"utf-8\"><title>Sign-in limit '' @ [CHR 0xE2, CHR 0x80, CHR 0x94] @
     '' qurator</title></head><body><p role=\"alert\">Too many sign-in attempts. Wait before trying again.</p><a href=\"/ui/signin\">Back to sign in</a></body></html>'')"

definition limited :: "request \<Rightarrow> duration \<Rightarrow> response" where
  "limited r retry =
    (let secs = trunc (seconds retry); h = header_Set ''Retry-After'' (FormatInt secs) [] in
     if rq_Path r = ''/ui/signin''
     then \<lparr>rs_Status = 429, rs_Header = header_Set ''Content-Security-Policy'' (''default-src '' @ [CHR 0x27] @ ''none'' @ [CHR 0x27] @ ''; frame-ancestors '' @
             [CHR 0x27] @ ''none'' @ [CHR 0x27] @ ''; base-uri '' @ [CHR 0x27] @ ''none'' @ [CHR 0x27])
             (header_Set ''Cache-Control'' ''no-store'' (header_Set ''Content-Type'' ''text/html; charset=utf-8'' h)),
           rs_Cookies = [], rs_Body = limit_page\<rparr>
     else WriteError h CodeRateLimited ''Too many requests.'' [(''retry_after_s'', JInt secs)])"

definition peer_host :: "netlib \<Rightarrow> request \<Rightarrow> string" where
  "peer_host net r = (case nt_SplitHostPort net (rq_RemoteAddr r) of None \<Rightarrow> rq_RemoteAddr r | Some h \<Rightarrow> h)"

definition limiter_Middleware ::
  "netlib \<Rightarrow> duration \<Rightarrow> gotime \<Rightarrow> (request \<Rightarrow> 'w \<Rightarrow> response option \<times> 'w) \<Rightarrow> request \<Rightarrow> rate_limiter \<times> 'w \<Rightarrow> response option \<times> rate_limiter \<times> 'w" where
  "limiter_Middleware net inf_dur t next r = (\<lambda>(rl, w).
     case allow inf_dur (peer_host net r) t rl of
       ((ok, retry), rl') \<Rightarrow>
         if \<not> ok then (Some (limited r retry), rl', w)
         else (case next r w of (resp, w') \<Rightarrow> (resp, rl', w')))"

subsection \<open>Runs of a limiter\<close>

text \<open>What happens to a limiter: a request of a client, or the minute tick of \<open>evictLoop\<close>.\<close>

datatype limiter_event = Asks gotime string | Tick gotime

fun event_time :: "limiter_event \<Rightarrow> gotime" where
  "event_time (Asks t k) = t"
| "event_time (Tick t) = t"

fun limiter_step :: "duration \<Rightarrow> limiter_event \<Rightarrow> rate_limiter \<Rightarrow> rate_limiter" where
  "limiter_step u (Asks t k) rl = snd (allow u k t rl)"
| "limiter_step u (Tick t) rl = evict t rl"

fun admitted :: "duration \<Rightarrow> string \<Rightarrow> limiter_event list \<Rightarrow> rate_limiter \<Rightarrow> nat" where
  "admitted u key [] rl = 0"
| "admitted u key (ev # evs) rl =
    (case ev of Asks t k \<Rightarrow> (if k = key \<and> fst (fst (allow u k t rl)) then 1 else 0) | Tick t \<Rightarrow> 0) +
    admitted u key evs (limiter_step u ev rl)"

text \<open>The tokens a client has at a time.\<close>

definition level :: "rate_limiter \<Rightarrow> string \<Rightarrow> gotime \<Rightarrow> rat" where
  "level rl key t = (case map_of (rl_buckets rl) key of None \<Rightarrow> rl_burst rl
     | Some b \<Rightarrow> min (rl_burst rl) (bk_tokens b + seconds (t - bk_last b) * rl_rate rl))"

text \<open>A limiter with burst \<open>B\<close> and rate \<open>q\<close>, after the time \<open>t\<close>; no bucket takes longer than the ten minutes of
  the eviction to fill up.\<close>

definition limiter_ok :: "rat \<Rightarrow> rat \<Rightarrow> gotime \<Rightarrow> rate_limiter \<Rightarrow> bool" where
  "limiter_ok B q t rl = (rl_rate rl = q \<and> rl_burst rl = B \<and> 0 \<le> B \<and> 0 < q \<and> B \<le> 600 * q \<and> distinct (map fst (rl_buckets rl)) \<and>
     (\<forall>k b. map_of (rl_buckets rl) k = Some b \<longrightarrow> 0 \<le> bk_tokens b \<and> bk_last b \<le> t))"

lemma limiter_okD:
  assumes "limiter_ok B q t rl"
  shows "rl_rate rl = q" "rl_burst rl = B" "0 \<le> B" "0 < q" "B \<le> 600 * q" "distinct (map fst (rl_buckets rl))"
    "map_of (rl_buckets rl) k = Some b \<Longrightarrow> 0 \<le> bk_tokens b" "map_of (rl_buckets rl) k = Some b \<Longrightarrow> bk_last b \<le> t"
  using assms unfolding limiter_ok_def by blast+

lemma seconds_add: "seconds (a + b) = seconds a + seconds b"
  by (simp add: seconds_def add_divide_distrib)

lemma seconds_mono: "a \<le> b \<Longrightarrow> seconds a \<le> seconds b"
  by (simp add: seconds_def Second_def divide_right_mono)

lemma seconds_nonneg: "0 \<le> a \<Longrightarrow> 0 \<le> seconds a"
  by (simp add: seconds_def Second_def)

lemma map_of_evict: 
  assumes "distinct (map fst bs)"
  shows "map_of (filter (\<lambda>(k, b). P b) bs) key = (case map_of bs key of None \<Rightarrow> None | Some b \<Rightarrow> if P b then Some b else None)"
  using assms by (induction bs) (auto split: option.splits simp: map_of_eq_None_iff)

lemma level_bounds:
  assumes "limiter_ok B q t0 rl" "t0 \<le> t"
  shows "0 \<le> level rl key t" "level rl key t \<le> B"
proof -
  note ok = limiter_okD [OF assms(1)]
  have "0 \<le> bk_tokens b + seconds (t - bk_last b) * q" if "map_of (rl_buckets rl) key = Some b" for b
    using ok(4) ok(7,8) [OF that] seconds_nonneg [of "t - bk_last b"] assms(2) by simp
  then show "0 \<le> level rl key t" using ok(1-3) by (simp add: level_def split: option.split)
  show "level rl key t \<le> B" using ok(2) by (simp add: level_def split: option.split)
qed

lemma level_grows:
  assumes "limiter_ok B q t0 rl" "t \<le> t'"
  shows "level rl key t' = min B (level rl key t + seconds (t' - t) * q)"
proof (cases "map_of (rl_buckets rl) key")
  case None
  have "0 \<le> seconds (t' - t) * q" using seconds_nonneg [of "t' - t"] limiter_okD(4) [OF assms(1)] assms(2) by simp
  then show ?thesis using None limiter_okD(2) [OF assms(1)] by (simp add: level_def)
next
  case (Some b)
  have "0 \<le> seconds (t' - t) * q" using seconds_nonneg [of "t' - t"] limiter_okD(4) [OF assms(1)] assms(2) by simp
  moreover have "seconds (t' - bk_last b) * q = seconds (t - bk_last b) * q + seconds (t' - t) * q"
    using seconds_add [of "t - bk_last b" "t' - t"] by (simp add: distrib_right)
  ultimately show ?thesis using Some limiter_okD(1,2) [OF assms(1)] by (simp add: level_def min_def)
qed

text \<open>A request is admitted exactly when there is a token, and takes it.\<close>

lemma allow_eq:
  "allow u k t rl = (if 1 \<le> level rl k t
     then ((True, 0), rl\<lparr>rl_buckets := AList.update k \<lparr>bk_tokens = level rl k t - 1, bk_last = t\<rparr> (rl_buckets rl)\<rparr>)
     else ((False, (if rl_rate rl = 0 then u else trunc ((1 - level rl k t) / rl_rate rl * of_int Second)) + Second),
           rl\<lparr>rl_buckets := AList.update k \<lparr>bk_tokens = level rl k t, bk_last = t\<rparr> (rl_buckets rl)\<rparr>))"
proof -
  have "level rl k t = min (rl_burst rl) (bk_tokens (case map_of (rl_buckets rl) k of None \<Rightarrow> \<lparr>bk_tokens = rl_burst rl, bk_last = t\<rparr> | Some b \<Rightarrow> b) +
      seconds (t - bk_last (case map_of (rl_buckets rl) k of None \<Rightarrow> \<lparr>bk_tokens = rl_burst rl, bk_last = t\<rparr> | Some b \<Rightarrow> b)) * rl_rate rl)"
    by (auto simp: level_def seconds_def split: option.split)
  then show ?thesis unfolding allow_def Let_def by simp
qed

lemma level_update:
  assumes "0 \<le> x" "x \<le> rl_burst rl"
  shows "level (rl\<lparr>rl_buckets := AList.update k \<lparr>bk_tokens = x, bk_last = t\<rparr> (rl_buckets rl)\<rparr>) key t = (if k = key then x else level rl key t)"
  using assms by (simp add: level_def update_conv' seconds_def split: option.split)

lemma ok_update:
  assumes "limiter_ok B q t0 rl" "t0 \<le> t" "0 \<le> x"
  shows "limiter_ok B q t (rl\<lparr>rl_buckets := AList.update k \<lparr>bk_tokens = x, bk_last = t\<rparr> (rl_buckets rl)\<rparr>)"
proof -
  have "0 \<le> bk_tokens b \<and> bk_last b \<le> t" if "map_of (AList.update k \<lparr>bk_tokens = x, bk_last = t\<rparr> (rl_buckets rl)) k' = Some b" for k' b
    using that assms limiter_okD(7,8) [OF assms(1), of k' b] by (auto simp: update_conv' split: if_splits)
  then show ?thesis using limiter_okD(1-6) [OF assms(1)] by (simp add: limiter_ok_def distinct_update)
qed

lemma allow_level:
  assumes "limiter_ok B q t0 rl" "t0 \<le> t"
  shows "fst (fst (allow u k t rl)) \<longleftrightarrow> 1 \<le> level rl k t"
    "level (snd (allow u k t rl)) key t = level rl key t - (if k = key \<and> 1 \<le> level rl k t then 1 else 0)"
    "limiter_ok B q t (snd (allow u k t rl))"
proof -
  note lb = level_bounds [OF assms, of k] and ok = limiter_okD [OF assms(1)]
  show "fst (fst (allow u k t rl)) \<longleftrightarrow> 1 \<le> level rl k t" by (simp add: allow_eq)
  show "level (snd (allow u k t rl)) key t = level rl key t - (if k = key \<and> 1 \<le> level rl k t then 1 else 0)"
    using lb ok(2) by (auto simp: allow_eq level_update)
  show "limiter_ok B q t (snd (allow u k t rl))"
    using lb ok_update [OF assms] by (simp add: allow_eq)
qed

lemma evict_level:
  assumes "limiter_ok B q t0 rl" "t0 \<le> t"
  shows "level (evict t rl) key t = level rl key t" "limiter_ok B q t (evict t rl)"
proof -
  note ok = limiter_okD [OF assms(1)]
  have m: "map_of (rl_buckets (evict t rl)) k =
      (case map_of (rl_buckets rl) k of None \<Rightarrow> None | Some b \<Rightarrow> if \<not> bk_last b < t - 10 * Minute then Some b else None)" for k
    using map_of_evict [OF ok(6)] by (simp add: evict_def)
  have same: "rl_rate (evict t rl) = q" "rl_burst (evict t rl) = B" using ok(1,2) by (simp_all add: evict_def)
  have "B \<le> bk_tokens b + seconds (t - bk_last b) * q"
    if b: "map_of (rl_buckets rl) key = Some b" "bk_last b < t - 10 * Minute" for b
  proof -
    have "seconds (10 * Minute) \<le> seconds (t - bk_last b)" using b(2) by (intro seconds_mono) simp
    then have "600 * q \<le> seconds (t - bk_last b) * q"
      using ok(4) by (intro mult_right_mono) (auto simp: seconds_def Minute_def Second_def)
    then show ?thesis using ok(5) ok(7) [OF b(1)] by linarith
  qed
  then show "level (evict t rl) key t = level rl key t"
    by (simp add: level_def m same ok(1,2) split: option.split)
  have "distinct (map fst (rl_buckets (evict t rl)))" using ok(6) by (simp add: evict_def distinct_map_filter)
  moreover have "0 \<le> bk_tokens b \<and> bk_last b \<le> t" if "map_of (rl_buckets (evict t rl)) k = Some b" for k b
  proof -
    have "map_of (rl_buckets rl) k = Some b" using that by (simp add: m split: option.splits if_splits)
    then show ?thesis using ok(7,8) [of k b] assms(2) by simp
  qed
  ultimately show "limiter_ok B q t (evict t rl)" using same ok(3-5) by (simp add: limiter_ok_def)
qed

lemma step_level:
  assumes "limiter_ok B q t0 rl" "t0 \<le> event_time ev"
  shows "limiter_ok B q (event_time ev) (limiter_step u ev rl)"
    "level (limiter_step u ev rl) key (event_time ev) + of_nat (admitted u key [ev] rl) = level rl key (event_time ev)"
proof -
  have "limiter_ok B q (event_time ev) (limiter_step u ev rl) \<and>
      level (limiter_step u ev rl) key (event_time ev) + of_nat (admitted u key [ev] rl) = level rl key (event_time ev)"
  proof (cases ev)
    case (Asks t k)
    then have "t0 \<le> t" using assms(2) by simp
    note a = allow_level [OF assms(1) this]
    show ?thesis using a(1) [of u k] a(2) [of u k key] a(3) [of u k] by (auto simp: Asks)
  next
    case (Tick t)
    then have "t0 \<le> t" using assms(2) by simp
    note a = evict_level [OF assms(1) this]
    show ?thesis using a(1) [of key] a(2) by (simp add: Tick)
  qed
  then show "limiter_ok B q (event_time ev) (limiter_step u ev rl)"
    "level (limiter_step u ev rl) key (event_time ev) + of_nat (admitted u key [ev] rl) = level rl key (event_time ev)" by auto
qed

fun limiter_run :: "duration \<Rightarrow> limiter_event list \<Rightarrow> rate_limiter \<Rightarrow> rate_limiter" where
  "limiter_run u [] rl = rl"
| "limiter_run u (ev # evs) rl = limiter_run u evs (limiter_step u ev rl)"

lemma admitted_Cons: "admitted u key (ev # evs) rl = admitted u key [ev] rl + admitted u key evs (limiter_step u ev rl)"
  by (cases ev) simp_all

lemma run_ok:
  assumes "limiter_ok B q t0 rl" "sorted (map event_time evs)" "\<forall>ev \<in> set evs. t0 \<le> event_time ev \<and> event_time ev \<le> t" "t0 \<le> t"
  shows "limiter_ok B q t (limiter_run u evs rl)"
  using assms
proof (induction evs arbitrary: t0 rl)
  case Nil
  then show ?case using limiter_okD [OF Nil(1)] by (fastforce simp: limiter_ok_def)
next
  case (Cons ev evs)
  then show ?case using Cons.IH [OF step_level(1) [OF Cons.prems(1)]] by simp
qed

lemma run_level:
  assumes "limiter_ok B q t0 rl" "sorted (map event_time evs)" "\<forall>ev \<in> set evs. t0 \<le> event_time ev \<and> event_time ev \<le> t" "t0 \<le> t"
  shows "of_nat (admitted u key evs rl) + level (limiter_run u evs rl) key t \<le> level rl key t0 + seconds (t - t0) * q"
  using assms
proof (induction evs arbitrary: t0 rl)
  case Nil
  then show ?case using level_grows [OF Nil(1,4)] by simp
next
  case (Cons ev evs)
  let ?s = "event_time ev"
  have le: "t0 \<le> ?s" "?s \<le> t" using Cons.prems(3) by auto
  have "of_nat (admitted u key evs (limiter_step u ev rl)) + level (limiter_run u evs (limiter_step u ev rl)) key t \<le>
      level (limiter_step u ev rl) key ?s + seconds (t - ?s) * q"
    by (rule Cons.IH [OF step_level(1) [OF Cons.prems(1) le(1)]]) (use Cons.prems(2,3) le(2) in auto)
  moreover have "level (limiter_step u ev rl) key ?s + of_nat (admitted u key [ev] rl) = level rl key ?s"
    by (rule step_level(2) [OF Cons.prems(1) le(1)])
  moreover have "level rl key ?s \<le> level rl key t0 + seconds (?s - t0) * q" using level_grows [OF Cons.prems(1) le(1), of key] by simp
  moreover have "seconds (t - t0) * q = seconds (t - ?s) * q + seconds (?s - t0) * q"
    using seconds_add [of "t - ?s" "?s - t0"] by (simp add: distrib_right)
  ultimately show ?case unfolding admitted_Cons [of u key ev evs rl] limiter_run.simps of_nat_add by linarith
qed

text \<open>Requests of others and ticks leave a client's tokens alone.\<close>

lemma run_others:
  assumes "limiter_ok B q t0 rl" "sorted (map event_time evs)" "\<forall>ev \<in> set evs. t0 \<le> event_time ev \<and> event_time ev \<le> t" "t0 \<le> t"
    and "\<forall>ev \<in> set evs. \<forall>s. ev \<noteq> Asks s key"
  shows "level (limiter_run u evs rl) key t = min B (level rl key t0 + seconds (t - t0) * q)"
  using assms
proof (induction evs arbitrary: t0 rl)
  case Nil
  then show ?case using level_grows [OF Nil(1,4)] by simp
next
  case (Cons ev evs)
  let ?s = "event_time ev"
  have le: "t0 \<le> ?s" "?s \<le> t" using Cons.prems(3) by auto
  have "admitted u key [ev] rl = 0" using Cons.prems(5) by (cases ev) auto
  then have "level (limiter_step u ev rl) key ?s = level rl key ?s" using step_level(2) [OF Cons.prems(1) le(1), of u key] by simp
  moreover have "level (limiter_run u evs (limiter_step u ev rl)) key t = min B (level (limiter_step u ev rl) key ?s + seconds (t - ?s) * q)"
    by (rule Cons.IH [OF step_level(1) [OF Cons.prems(1) le(1)]]) (use Cons.prems(2,3,5) le(2) in auto)
  moreover have "level rl key ?s = min B (level rl key t0 + seconds (?s - t0) * q)" by (rule level_grows [OF Cons.prems(1) le(1)])
  moreover have "seconds (t - t0) * q = seconds (t - ?s) * q + seconds (?s - t0) * q"
    using seconds_add [of "t - ?s" "?s - t0"] by (simp add: distrib_right)
  moreover have "0 \<le> seconds (t - ?s) * q" using seconds_nonneg [of "t - ?s"] le(2) limiter_okD(4) [OF Cons.prems(1)] by simp
  ultimately show ?case by (simp add: min_def)
qed

text \<open>The seconds of the answer are enough for the missing token.\<close>

lemma wait_enough:
  assumes "0 < q" "0 \<le> y" "y < 1"
  shows "(1 - y) / q \<le> of_int (trunc (seconds (trunc ((1 - y) / q * of_int Second) + Second)))"
proof -
  let ?x = "(1 - y) / q" and ?S = "of_int Second :: rat"
  have x: "0 \<le> ?x" "0 < ?S" using assms by (simp_all add: Second_def)
  define d where "d = trunc (?x * ?S)"
  have "0 \<le> ?x * ?S" using x by (intro mult_nonneg_nonneg) simp_all
  then have d: "d = \<lfloor>?x * ?S\<rfloor>" "0 \<le> d" unfolding d_def trunc_def by (simp_all only: if_True zero_le_floor)
  have "?x * ?S < of_int d + 1" unfolding d(1) by linarith
  then have "?x < (of_int d + 1) / ?S" using x(2) by (simp add: field_simps)
  also have "\<dots> \<le> of_int (d div Second) + 1"
  proof -
    have "d + 1 \<le> (d div Second + 1) * Second" using div_mult_mod_eq [of d Second] pos_mod_bound [of Second d]
      by (simp add: Second_def)
    then have "of_int (d + 1) \<le> (of_int ((d div Second + 1) * Second) :: rat)" by (simp only: of_int_le_iff)
    then show ?thesis using x(2) by (simp add: field_simps)
  qed
  also have "\<dots> = of_int (trunc (seconds (d + Second)))"
  proof -
    have "trunc (seconds (d + Second)) = \<lfloor>(of_int (d + Second) :: rat) / of_int Second\<rfloor>"
      using d(2) x(2) by (simp add: trunc_def seconds_def)
    also have "\<dots> = (d + Second) div Second" by (rule floor_divide_of_int_eq)
    also have "\<dots> = d div Second + 1" by (simp add: Second_def)
    finally show ?thesis by simp
  qed
  finally show ?thesis by (simp add: d_def)
qed


lemma new_limiter_ok: "1 \<le> n \<Longrightarrow> limiter_ok (of_int n) (of_int n / 60) t (NewRateLimiter n)"
  by (simp add: limiter_ok_def NewRateLimiter_def)

text \<open>C19. The limiter keeps its promise to the instance and to its clients. Whatever clients ask and however
  often buckets are evicted, with a clock that does not go back: within any stretch of time \<open>d\<close> a client is
  admitted at most \<open>n + n d / 60 s\<close> times, where \<open>n\<close> is the configured number a minute; and a client that is
  refused and waits the seconds it was told is admitted at its next request.\<close>

theorem limiter_keeps_rate:
  assumes "1 \<le> n" "sorted (map event_time (before @ during))"
    and "\<forall>ev \<in> set during. t0 \<le> event_time ev \<and> event_time ev \<le> t0 + d" "\<forall>ev \<in> set before. event_time ev \<le> t0" "0 \<le> d"
  shows "of_nat (admitted u key during (limiter_run u before (NewRateLimiter n))) \<le> of_int n + seconds d * (of_int n / 60) \<and>
    (\<forall>retry rl. allow u key t0 (limiter_run u before (NewRateLimiter n)) = ((False, retry), rl) \<longrightarrow>
      (\<forall>ev \<in> set during. \<forall>s. ev \<noteq> Asks s key) \<longrightarrow> trunc (seconds retry) * Second \<le> d \<longrightarrow>
      fst (fst (allow u key (t0 + d) (limiter_run u during rl))))"
proof -
  let ?rl = "limiter_run u before (NewRateLimiter n)" and ?B = "of_int n :: rat" and ?q = "of_int n / 60 :: rat"
  obtain s where s: "\<forall>ev \<in> set before. s \<le> event_time ev" "s \<le> t0"
  proof (cases before)
    case Nil
    then show ?thesis using that [of t0] by simp
  next
    case (Cons ev evs)
    then show ?thesis using that [of "event_time ev"] assms(2,4) by auto
  qed
  have ok: "limiter_ok ?B ?q t0 ?rl"
    by (rule run_ok [OF new_limiter_ok [OF assms(1)], of before s t0]) (use s assms(2,4) in \<open>auto simp: sorted_append\<close>)
  have so: "sorted (map event_time during)" using assms(2) by (simp add: sorted_append)
  have le: "t0 \<le> t0 + d" using assms(5) by simp
  have "of_nat (admitted u key during ?rl) + level (limiter_run u during ?rl) key (t0 + d) \<le> level ?rl key t0 + seconds (t0 + d - t0) * ?q"
    by (rule run_level [OF ok so assms(3) le])
  moreover have "level ?rl key t0 \<le> ?B" by (rule level_bounds(2) [OF ok order_refl])
  moreover have "0 \<le> level (limiter_run u during ?rl) key (t0 + d)"
    by (rule level_bounds(1) [OF run_ok [OF ok so assms(3) le] order_refl])
  ultimately have "of_nat (admitted u key during ?rl) \<le> ?B + seconds d * ?q" by simp
  moreover have "fst (fst (allow u key (t0 + d) (limiter_run u during rl)))"
    if r: "allow u key t0 ?rl = ((False, retry), rl)" and others: "\<forall>ev \<in> set during. \<forall>s. ev \<noteq> Asks s key"
      and wait: "trunc (seconds retry) * Second \<le> d" for retry rl
  proof -
    let ?y = "level ?rl key t0"
    note al = allow_level [OF ok order_refl, of u key]
    have y: "0 \<le> ?y" "?y < 1" "limiter_ok ?B ?q t0 rl" "level rl key t0 = ?y"
      using level_bounds(1) [OF ok order_refl] al(1) al(2) [of key] al(3) r by auto
    have q: "0 < ?q" using assms(1) by simp
    have re: "retry = trunc ((1 - ?y) / ?q * of_int Second) + Second"
      using r y(2) limiter_okD(1) [OF ok] q unfolding allow_eq by (auto split: if_splits)
    have "of_int (trunc (seconds retry)) = seconds (trunc (seconds retry) * Second)" by (simp add: seconds_def Second_def)
    also have "\<dots> \<le> seconds d" by (rule seconds_mono [OF wait])
    finally have "(1 - ?y) / ?q \<le> seconds d" using wait_enough [OF q y(1,2)] unfolding re by simp
    then have "1 - ?y \<le> seconds d * ?q" using q by (simp only: pos_divide_le_eq)
    then have "1 \<le> min ?B (?y + seconds d * ?q)" using assms(1) by simp
    then have "1 \<le> level (limiter_run u during rl) key (t0 + d)"
      using run_others [OF y(3) so assms(3) le others, of u] y(4) by simp
    then show ?thesis using allow_level(1) [OF run_ok [OF y(3) so assms(3) le] order_refl] by blast
  qed
  ultimately show ?thesis by blast
qed

theorem limiter_keeps_rate_witness:
  "admitted 0 ''a'' [Asks 100 ''a'', Asks 200 ''b'', Asks 300 ''a'', Asks 400 ''a''] (limiter_run 0 [Asks 0 ''a'', Tick 50] (NewRateLimiter 3)) = 2 \<and>
   (of_nat (admitted 0 ''a'' [Asks 100 ''a'', Asks 200 ''b'', Asks 300 ''a'', Asks 400 ''a''] (limiter_run 0 [Asks 0 ''a'', Tick 50] (NewRateLimiter 3))) :: rat)
     \<le> 3 + seconds 300 * (3 / 60)"
proof -
  have "admitted 0 ''a'' [Asks 100 ''a'', Asks 200 ''b'', Asks 300 ''a'', Asks 400 ''a''] (limiter_run 0 [Asks 0 ''a'', Tick 50] (NewRateLimiter 3)) = 2"
    by (simp add: allow_eq level_def NewRateLimiter_def seconds_def evict_def Minute_def Second_def update_conv')
  moreover have "(of_nat (admitted 0 ''a'' [Asks 100 ''a'', Asks 200 ''b'', Asks 300 ''a'', Asks 400 ''a''] (limiter_run 0 [Asks 0 ''a'', Tick 50] (NewRateLimiter 3))) :: rat)
     \<le> of_int 3 + seconds 300 * (of_int 3 / 60)"
    by (rule conjunct1 [OF limiter_keeps_rate [of 3 "[Asks 0 ''a'', Tick 50]" _ 100]]) simp_all
  ultimately show ?thesis by simp
qed

end
