(* ===== verification/Router.thy ===== *)
theory Router
  imports Ratelimit
begin

text \<open>
  The route groups, \<^verbatim>\<open>src/internal/httpapi/router.go\<close>, over a model of \<open>http.ServeMux\<close>: patterns with a method,
  literal segments, wildcards and a trailing slash that stands for any rest; the most specific pattern wins;
  unclean paths and missing trailing slashes are redirected. Paths have no escaped characters, and the bodies
  of redirects are left out. A handler gets the context of the request next to it.
\<close>

subsection \<open>The multiplexer\<close>

datatype seg = Lit string | Wild string

record pattern =
  pt_Text :: string
  pt_Method :: string
  pt_Segs :: "seg list"
  pt_Rest :: bool

definition seg_of :: "string \<Rightarrow> seg" where
  "seg_of s = (if HasPrefix s ''{'' then Wild (butlast (tl s)) else Lit s)"

definition parse_pattern :: "string \<Rightarrow> pattern" where
  "parse_pattern s =
    (let (m, p) = (case IndexByte s (CHR '' '') of None \<Rightarrow> ('''', s) | Some i \<Rightarrow> (take i s, drop (i + 1) s));
         ss = split_on (CHR ''/'') (drop 1 p); rest = (List.last ss = '''')
     in \<lparr>pt_Text = s, pt_Method = m, pt_Segs = map seg_of (if rest then butlast ss else ss), pt_Rest = rest\<rparr>)"

definition path_segs :: "string \<Rightarrow> string list" where
  "path_segs p = split_on (CHR ''/'') (drop 1 p)"

fun match_segs :: "seg list \<Rightarrow> bool \<Rightarrow> string list \<Rightarrow> (string \<times> string) list option" where
  "match_segs [] rest ps = (if rest = (ps \<noteq> []) then Some [] else None)"
| "match_segs (Lit l # ss) rest (p # ps) = (if p = l then match_segs ss rest ps else None)"
| "match_segs (Wild n # ss) rest (p # ps) = (if p = '''' then None else map_option ((#) (n, p)) (match_segs ss rest ps))"
| "match_segs (s # ss) rest [] = None"

definition matches :: "pattern \<Rightarrow> string \<Rightarrow> (string \<times> string) list option" where
  "matches p path = match_segs (pt_Segs p) (pt_Rest p) (path_segs path)"

definition method_ok :: "string \<Rightarrow> string \<Rightarrow> bool" where
  "method_ok pm m = (pm = '''' \<or> pm = m \<or> pm = ''GET'' \<and> m = ''HEAD'')"

text \<open>A pattern with a method comes before one without, then a literal before a wildcard before a rest.\<close>

definition specificity :: "string \<Rightarrow> pattern \<Rightarrow> nat \<times> nat list" where
  "specificity m p = (if pt_Method p = m then 0 else if pt_Method p \<noteq> '''' then 1 else 2,
     map (\<lambda>s. case s of Lit _ \<Rightarrow> 0 | Wild _ \<Rightarrow> 1) (pt_Segs p) @ (if pt_Rest p then [2] else []))"

type_synonym 'h mux = "(pattern \<times> 'h) list"

definition mux_find :: "'h mux \<Rightarrow> string \<Rightarrow> string \<Rightarrow> (pattern \<times> 'h) option" where
  "mux_find mux m path =
    (case sort_key (\<lambda>e. specificity m (fst e)) (filter (\<lambda>e. method_ok (pt_Method (fst e)) m \<and> matches (fst e) path \<noteq> None) mux) of
       [] \<Rightarrow> None | e # _ \<Rightarrow> Some e)"

definition cleanPath :: "string \<Rightarrow> string" where
  "cleanPath p =
    (if p = '''' then ''/''
     else let p = (if hd p = CHR ''/'' then p else CHR ''/'' # p); np = path_Clean p
          in if List.last p = CHR ''/'' \<and> np \<noteq> ''/'' then np @ ''/'' else np)"

definition exactMatch :: "(pattern \<times> 'h) option \<Rightarrow> string \<Rightarrow> bool" where
  "exactMatch n path = (case n of
     None \<Rightarrow> False
   | Some (p, _) \<Rightarrow> \<not> pt_Rest p \<or>
       (path = '''' \<or> List.last path = CHR ''/'') \<and> length (pt_Segs p) + 1 = length (filter (\<lambda>c. c = CHR ''/'') path))"

datatype 'h outcome = Serve pattern 'h "(string \<times> string) list" | MovedTo string | NotAllowed "string list" | NoRoute

definition mux_Handler :: "'h mux \<Rightarrow> request \<Rightarrow> 'h outcome" where
  "mux_Handler mux r =
    (let path = cleanPath (rq_Path r); n = mux_find mux (rq_Method r) path in
     if \<not> exactMatch n path \<and> \<not> HasSuffix path ''/'' \<and> exactMatch (mux_find mux (rq_Method r) (path @ ''/'')) (path @ ''/'')
     then MovedTo (path @ ''/'')
     else if path \<noteq> rq_Path r then MovedTo path
     else case n of
       Some (p, h) \<Rightarrow> Serve p h (case matches p path of None \<Rightarrow> [] | Some kvs \<Rightarrow> kvs)
     | None \<Rightarrow>
         (case map (\<lambda>e. pt_Method (fst e)) (filter (\<lambda>e. matches (fst e) path \<noteq> None \<or> \<not> HasSuffix path ''/'' \<and> matches (fst e) (path @ ''/'') \<noteq> None) mux) of
            [] \<Rightarrow> NoRoute
          | ms \<Rightarrow> NotAllowed (sort (remdups (if ''GET'' \<in> set ms then ''HEAD'' # ms else ms)))))"

text \<open>The context of a request, with \<open>r.Pattern\<close>, which a multiplexer sets to the text of the pattern it chose.\<close>

record req_ctx =
  cx_Identity :: "identity option"
  cx_RoutePattern :: string
  cx_Pattern :: string

type_synonym 'w handler = "req_ctx \<Rightarrow> request \<Rightarrow> 'w \<Rightarrow> response option \<times> 'w"
type_synonym 'w wrapper = "'w handler \<Rightarrow> 'w handler"

definition plain_error :: "nat \<Rightarrow> header \<Rightarrow> string \<Rightarrow> response" where
  "plain_error status h text = \<lparr>rs_Status = status,
     rs_Header = header_Set ''X-Content-Type-Options'' ''nosniff'' (header_Set ''Content-Type'' ''text/plain; charset=utf-8'' h),
     rs_Cookies = [], rs_Body = RawBody (text @ [CHR 0x0A])\<rparr>"

definition http_Redirect :: "nat \<Rightarrow> string \<Rightarrow> response" where
  "http_Redirect status url = \<lparr>rs_Status = status, rs_Header = header_Set ''Location'' url [], rs_Cookies = [], rs_Body = NoBody\<rparr>"

text \<open>\<open>moved\<close> is the status with which the multiplexer redirects to a clean path.\<close>

definition mux_ServeHTTP :: "nat \<Rightarrow> 'w handler mux \<Rightarrow> 'w handler" where
  "mux_ServeHTTP moved mux cx r w = (case mux_Handler mux r of
     Serve p h kvs \<Rightarrow> h (cx\<lparr>cx_Pattern := pt_Text p\<rparr>) (r\<lparr>rq_PathValue := kvs\<rparr>) w
   | MovedTo path \<Rightarrow> (Some (http_Redirect moved path), w)
   | NotAllowed ms \<Rightarrow> (Some (plain_error 405 [(''Allow'', strings_Join ms '', '')] ''Method Not Allowed''), w)
   | NoRoute \<Rightarrow> (Some (plain_error 404 [] ''404 page not found''), w))"

subsection \<open>The route table\<close>

record 'w handlers =
  hd_Public :: "'w handler option"
  hd_QR :: "'w handler option"
  hd_Codes :: "'w handler option"
  hd_Auth :: "'w handler option"
  hd_Tokens :: "'w handler option"
  hd_Admin :: "'w handler option"
  hd_Analytics :: "'w handler option"
  hd_Export :: "'w handler option"
  hd_Console :: "'w handler option"
  hd_Healthz :: "'w handler option"
  hd_Readyz :: "'w handler option"

record 'w router_options =
  ro_Common :: "'w wrapper list"
  ro_PerRoute :: "'w wrapper list"
  ro_Auth :: "'w wrapper option"
  ro_CSRF :: "'w wrapper option"
  ro_SigninLimiter :: "'w wrapper option"

datatype group = GroupPublic | GroupProtected | GroupConsole

record route =
  rt_Group :: group
  rt_Pattern :: string
  rt_Handler :: string

definition SigninPattern :: string where "SigninPattern = ''POST /v1/auth/signin''"

definition Routes :: "route list" where
  "Routes = map (\<lambda>(g, p, h). \<lparr>rt_Group = g, rt_Pattern = p, rt_Handler = h\<rparr>)
    [(GroupPublic, ''GET /r/{code}'', ''Public''),
     (GroupPublic, ''GET /i/{file}'', ''Public''),
     (GroupPublic, ''GET /healthz'', ''Healthz''),
     (GroupPublic, ''GET /readyz'', ''Readyz''),
     (GroupPublic, SigninPattern, ''Auth''),
     (GroupProtected, ''GET /v1/qr'', ''QR''),
     (GroupProtected, ''POST /v1/qr'', ''QR''),
     (GroupProtected, ''GET /v1/codes'', ''Codes''),
     (GroupProtected, ''POST /v1/codes'', ''Codes''),
     (GroupProtected, ''POST /v1/codes/batch'', ''Codes''),
     (GroupProtected, ''GET /v1/codes/{id}'', ''Codes''),
     (GroupProtected, ''PATCH /v1/codes/{id}'', ''Codes''),
     (GroupProtected, ''DELETE /v1/codes/{id}'', ''Codes''),
     (GroupProtected, ''POST /v1/codes/{id}/disable'', ''Codes''),
     (GroupProtected, ''POST /v1/codes/{id}/enable'', ''Codes''),
     (GroupProtected, ''GET /v1/codes/{id}/analytics'', ''Analytics''),
     (GroupProtected, ''POST /v1/auth/signout'', ''Auth''),
     (GroupProtected, ''GET /v1/auth/me'', ''Auth''),
     (GroupProtected, ''GET /v1/tokens'', ''Tokens''),
     (GroupProtected, ''POST /v1/tokens'', ''Tokens''),
     (GroupProtected, ''DELETE /v1/tokens/{id}'', ''Tokens''),
     (GroupProtected, ''DELETE /v1/admin/aliases/{alias}'', ''Admin''),
     (GroupProtected, ''GET /v1/export'', ''Export''),
     (GroupConsole, ''/ui/'', ''Console'')]"

definition NotImplemented :: "'w handler" where
  "NotImplemented cx r w = (Some (WriteError [] CodeNotImplemented ''This endpoint is not implemented yet.'' [(''route'', JStr (cx_Pattern cx))]), w)"

definition lookup_handler :: "'w handlers \<Rightarrow> string \<Rightarrow> 'w handler" where
  "lookup_handler h name =
    (case (if name = ''Public'' then hd_Public h else if name = ''QR'' then hd_QR h else if name = ''Codes'' then hd_Codes h
           else if name = ''Auth'' then hd_Auth h else if name = ''Tokens'' then hd_Tokens h else if name = ''Admin'' then hd_Admin h
           else if name = ''Analytics'' then hd_Analytics h else if name = ''Export'' then hd_Export h else if name = ''Console'' then hd_Console h
           else if name = ''Healthz'' then hd_Healthz h else if name = ''Readyz'' then hd_Readyz h else None) of
       None \<Rightarrow> NotImplemented | Some f \<Rightarrow> f)"

definition withPattern :: "string \<Rightarrow> 'w wrapper" where
  "withPattern pat next cx r w = next (cx\<lparr>cx_RoutePattern := pat\<rparr>) r w"

definition wrap_all :: "'w wrapper list \<Rightarrow> 'w wrapper" where
  "wrap_all ms next = foldr (\<lambda>m h. m h) ms next"

definition route_handler :: "'w handlers \<Rightarrow> 'w router_options \<Rightarrow> route \<Rightarrow> 'w handler" where
  "route_handler h opt rt =
    (let hd = withPattern (rt_Pattern rt) (lookup_handler h (rt_Handler rt));
         hd = (case ro_SigninLimiter opt of
           None \<Rightarrow> hd
         | Some limiter \<Rightarrow>
             if rt_Pattern rt = SigninPattern then limiter hd
             else if rt_Group rt = GroupConsole
             then (\<lambda>cx r w. if rq_Method r = ''POST'' \<and> rq_Path r = ''/ui/signin'' then limiter hd cx r w else hd cx r w)
             else hd)
     in wrap_all (ro_PerRoute opt) hd)"

definition group_mux :: "group \<Rightarrow> 'w handlers \<Rightarrow> 'w router_options \<Rightarrow> 'w handler mux" where
  "group_mux g h opt = map (\<lambda>rt. (parse_pattern (rt_Pattern rt), route_handler h opt rt)) (filter (\<lambda>rt. rt_Group rt = g) Routes)"

definition jsonNotFound :: "nat \<Rightarrow> 'w handler mux \<Rightarrow> 'w handler" where
  "jsonNotFound moved mux cx r w =
    (case mux_Handler mux r of NoRoute \<Rightarrow> (Some (WriteError [] CodeNotFound ''No such endpoint.'' []), w)
     | _ \<Rightarrow> mux_ServeHTTP moved mux cx r w)"

definition apply_opt :: "'w wrapper option \<Rightarrow> 'w wrapper" where
  "apply_opt m next = (case m of None \<Rightarrow> next | Some f \<Rightarrow> f next)"

definition protectedChain :: "nat \<Rightarrow> 'w handlers \<Rightarrow> 'w router_options \<Rightarrow> 'w handler" where
  "protectedChain moved h opt = apply_opt (ro_CSRF opt) (jsonNotFound moved (group_mux GroupProtected h opt))"

definition root_mux :: "nat \<Rightarrow> 'w handlers \<Rightarrow> 'w router_options \<Rightarrow> 'w handler mux" where
  "root_mux moved h opt =
    (let public = mux_ServeHTTP moved (group_mux GroupPublic h opt) in
     map (\<lambda>(p, f). (parse_pattern p, f))
      [(''/r/'', public), (''/i/'', public), (''/healthz'', public), (''/readyz'', public), (SigninPattern, public),
       (''/v1/'', apply_opt (ro_Auth opt) (protectedChain moved h opt)),
       (''/ui/'', apply_opt (ro_Auth opt) (mux_ServeHTTP moved (group_mux GroupConsole h opt))),
       (''/'', (\<lambda>cx r w. (Some (http_Redirect 302 ''/ui/''), w)))])"

definition NewRouter :: "nat \<Rightarrow> 'w handlers \<Rightarrow> 'w router_options \<Rightarrow> 'w handler" where
  "NewRouter moved h opt = wrap_all (ro_Common opt) (mux_ServeHTTP moved (root_mux moved h opt))"

subsection \<open>Which chain a request takes\<close>

definition root_patterns :: "pattern list" where
  "root_patterns = [
     \<lparr>pt_Text = ''/r/'', pt_Method = '''', pt_Segs = [Lit ''r''], pt_Rest = True\<rparr>,
     \<lparr>pt_Text = ''/i/'', pt_Method = '''', pt_Segs = [Lit ''i''], pt_Rest = True\<rparr>,
     \<lparr>pt_Text = ''/healthz'', pt_Method = '''', pt_Segs = [Lit ''healthz''], pt_Rest = False\<rparr>,
     \<lparr>pt_Text = ''/readyz'', pt_Method = '''', pt_Segs = [Lit ''readyz''], pt_Rest = False\<rparr>,
     \<lparr>pt_Text = SigninPattern, pt_Method = ''POST'', pt_Segs = [Lit ''v1'', Lit ''auth'', Lit ''signin''], pt_Rest = False\<rparr>,
     \<lparr>pt_Text = ''/v1/'', pt_Method = '''', pt_Segs = [Lit ''v1''], pt_Rest = True\<rparr>,
     \<lparr>pt_Text = ''/ui/'', pt_Method = '''', pt_Segs = [Lit ''ui''], pt_Rest = True\<rparr>,
     \<lparr>pt_Text = ''/'', pt_Method = '''', pt_Segs = [], pt_Rest = True\<rparr>]"

lemma root_patterns_parsed:
  "map parse_pattern [''/r/'', ''/i/'', ''/healthz'', ''/readyz'', SigninPattern, ''/v1/'', ''/ui/'', ''/''] = root_patterns"
  by code_simp


lemma root_mux_eq:
  "root_mux moved h opt = zip root_patterns (let public = mux_ServeHTTP moved (group_mux GroupPublic h opt) in
     [public, public, public, public, public, apply_opt (ro_Auth opt) (protectedChain moved h opt),
      apply_opt (ro_Auth opt) (mux_ServeHTTP moved (group_mux GroupConsole h opt)), (\<lambda>cx r w. (Some (http_Redirect 302 ''/ui/''), w))])"
  using root_patterns_parsed by (simp add: root_mux_def root_patterns_def Let_def del: parse_pattern_def)

lemma match_exact: "match_segs (map Lit ls) False ps = (if ps = ls then Some [] else None)"
  by (induction ls arbitrary: ps) (case_tac [!] ps, auto)

lemma matches_first:
  assumes "path_segs path = s # ss"
  shows "matches \<lparr>pt_Text = x, pt_Method = m, pt_Segs = [Lit l], pt_Rest = True\<rparr> path = (if s = l \<and> ss \<noteq> [] then Some [] else None)"
    "matches \<lparr>pt_Text = x, pt_Method = m, pt_Segs = [Lit l], pt_Rest = False\<rparr> path = (if s = l \<and> ss = [] then Some [] else None)"
    "matches \<lparr>pt_Text = x, pt_Method = m, pt_Segs = [], pt_Rest = True\<rparr> path = Some []"
    "matches \<lparr>pt_Text = x, pt_Method = m, pt_Segs = [Lit l, Lit l2, Lit l3], pt_Rest = False\<rparr> path =
      (if s = l \<and> ss = [l2, l3] then Some [] else None)"
  using assms match_exact [of "[l]" "s # ss"] match_exact [of "[l, l2, l3]" "s # ss"] by (simp_all add: matches_def)

lemma root_find:
  assumes "path_segs path = s # ss" "m \<noteq> ''''"
  shows "s = ''r'' \<Longrightarrow> ss \<noteq> [] \<Longrightarrow> mux_find (zip root_patterns [f0, f1, f2, f3, f4, f5, f6, f7]) m path = Some (root_patterns ! 0, f0)"
    "s = ''i'' \<Longrightarrow> ss \<noteq> [] \<Longrightarrow> mux_find (zip root_patterns [f0, f1, f2, f3, f4, f5, f6, f7]) m path = Some (root_patterns ! 1, f1)"
    "s = ''v1'' \<Longrightarrow> ss \<noteq> [] \<Longrightarrow> m = ''POST'' \<and> ss = [''auth'', ''signin''] \<Longrightarrow>
      mux_find (zip root_patterns [f0, f1, f2, f3, f4, f5, f6, f7]) m path = Some (root_patterns ! 4, f4)"
    "s = ''v1'' \<Longrightarrow> ss \<noteq> [] \<Longrightarrow> \<not> (m = ''POST'' \<and> ss = [''auth'', ''signin'']) \<Longrightarrow>
      mux_find (zip root_patterns [f0, f1, f2, f3, f4, f5, f6, f7]) m path = Some (root_patterns ! 5, f5)"
    "s = ''ui'' \<Longrightarrow> ss \<noteq> [] \<Longrightarrow> mux_find (zip root_patterns [f0, f1, f2, f3, f4, f5, f6, f7]) m path = Some (root_patterns ! 6, f6)"
    "s = ''healthz'' \<Longrightarrow> ss = [] \<Longrightarrow> mux_find (zip root_patterns [f0, f1, f2, f3, f4, f5, f6, f7]) m path = Some (root_patterns ! 2, f2)"
    "s = ''readyz'' \<Longrightarrow> ss = [] \<Longrightarrow> mux_find (zip root_patterns [f0, f1, f2, f3, f4, f5, f6, f7]) m path = Some (root_patterns ! 3, f3)"
  using assms(2)
  by (simp_all add: mux_find_def root_patterns_def method_ok_def specificity_def matches_first [OF assms(1)])


lemma split_on_count: "length (split_on d s) = Suc (length (filter (\<lambda>c. c = d) s))"
  by (induction d s rule: split_on.induct) (auto split: list.splits simp: split_on_nonempty)

lemma split_on_snoc: "split_on d (s @ [d]) = split_on d s @ [[]]"
  by (induction d s rule: split_on.induct) (auto split: list.splits simp: split_on_nonempty)

text \<open>A clean path below one of the three groups, or one of the exact routes, is handed to its chain as it is.\<close>

lemma root_serves:
  assumes "cleanPath (rq_Path r) = rq_Path r" "rq_Method r \<noteq> ''''" "rq_Path r = CHR ''/'' # q" "split_on (CHR ''/'') q = s # ss"
    and "mux_find (zip root_patterns fs) (rq_Method r) (rq_Path r) = Some (root_patterns ! i, f)" "length fs = 8"
    and "s \<in> {''r'', ''i'', ''v1'', ''ui''} \<and> ss \<noteq> [] \<or> \<not> pt_Rest (root_patterns ! i)" "matches (root_patterns ! i) (rq_Path r) = Some []"
  shows "mux_Handler (zip root_patterns fs) r = Serve (root_patterns ! i) f []"
proof -
  let ?p = "rq_Path r"
  obtain f0 f1 f2 f3 f4 f5 f6 f7 where fs: "fs = [f0, f1, f2, f3, f4, f5, f6, f7]"
    using assms(6) by (auto simp: numeral_eq_Suc length_Suc_conv)
  have "\<not> (\<not> exactMatch (Some (root_patterns ! i, f)) ?p \<and> exactMatch (mux_find (zip root_patterns fs) (rq_Method r) (?p @ ''/'')) (?p @ ''/''))"
  proof (cases "pt_Rest (root_patterns ! i)")
    case False
    then show ?thesis by (simp add: exactMatch_def)
  next
    case True
    then have s: "s \<in> {''r'', ''i'', ''v1'', ''ui''}" "ss \<noteq> []" using assms(7) by auto
    have ps: "path_segs (?p @ ''/'') = s # (ss @ [''''])"
      using assms(3,4) split_on_snoc [of "CHR ''/''" q] by (simp add: path_segs_def)
    have "\<not> (rq_Method r = ''POST'' \<and> ss @ [''''] = [''auth'', ''signin''])" by auto
    then have "\<exists>k f. mux_find (zip root_patterns fs) (rq_Method r) (?p @ ''/'') = Some (root_patterns ! k, f) \<and> k \<in> {0, 1, 5, 6}"
      using s(1) root_find [OF ps assms(2), of f0 f1 f2 f3 f4 f5 f6 f7] unfolding fs by auto
    moreover have "2 \<le> length (filter (\<lambda>c. c = CHR ''/'') ?p)"
      using split_on_count [of "CHR ''/''" q] assms(3,4) s(2) by (cases ss) auto
    ultimately show ?thesis by (auto simp: exactMatch_def root_patterns_def)
  qed
  then show ?thesis using assms(1,5,8) by (auto simp: mux_Handler_def Let_def)
qed


lemma path_below:
  assumes "HasPrefix p (CHR ''/'' # s @ ''/'')" "CHR ''/'' \<notin> set s"
  obtains q ss where "p = CHR ''/'' # q" "split_on (CHR ''/'') q = s # ss" "ss \<noteq> []"
proof -
  obtain z where "p = CHR ''/'' # s @ CHR ''/'' # z" using assms(1) by (auto simp: HasPrefix_append)
  then show ?thesis using that split_on_first [OF assms(2)] split_on_nonempty by fastforce
qed

text \<open>The chains of the root, over the pattern the root chose.\<close>

lemma root_runs:
  assumes "mux_Handler (zip root_patterns (let public = mux_ServeHTTP moved (group_mux GroupPublic h opt) in
     [public, public, public, public, public, apply_opt (ro_Auth opt) (protectedChain moved h opt),
      apply_opt (ro_Auth opt) (mux_ServeHTTP moved (group_mux GroupConsole h opt)), (\<lambda>cx r w. (Some (http_Redirect 302 ''/ui/''), w))])) r =
      Serve p g []" and "rq_PathValue r = []"
  shows "mux_ServeHTTP moved (root_mux moved h opt) cx r w = g (cx\<lparr>cx_Pattern := pt_Text p\<rparr>) r w"
proof -
  have same: "r\<lparr>rq_PathValue := []\<rparr> = r" using assms(2) by (cases r) simp
  show ?thesis unfolding root_mux_eq mux_ServeHTTP_def [of moved "zip _ _"] assms(1) outcome.case same by (rule refl)
qed

lemma signin_segs: "split_on (CHR ''/'') ''v1/auth/signin'' = [''v1'', ''auth'', ''signin'']" by code_simp

lemma signin_segsD: "split_on (CHR ''/'') q = [''v1'', ''auth'', ''signin''] \<Longrightarrow> q = ''v1/auth/signin''"
  using Join_split [of "CHR ''/''" q] by simp

definition public_route :: "request \<Rightarrow> bool" where
  "public_route r \<longleftrightarrow> HasPrefix (rq_Path r) ''/r/'' \<or> HasPrefix (rq_Path r) ''/i/'' \<or> rq_Path r \<in> {''/healthz'', ''/readyz''} \<or>
     rq_Method r = ''POST'' \<and> rq_Path r = ''/v1/auth/signin''"

lemma route_public:
  assumes "cleanPath (rq_Path r) = rq_Path r" "rq_Method r \<noteq> ''''" "rq_PathValue r = []" "public_route r"
  shows "\<exists>pat. \<forall>moved h opt cx w. mux_ServeHTTP moved (root_mux moved h opt) cx r w =
    mux_ServeHTTP moved (group_mux GroupPublic h opt) (cx\<lparr>cx_Pattern := pat\<rparr>) r w"
proof -
  have go: ?thesis
    if "\<And>f0 f5 f6 f7. mux_Handler (zip root_patterns [f0, f0, f0, f0, f0, f5, f6, f7]) r = Serve (root_patterns ! i) (f0 :: 'a handler) []" for i
    using root_runs [OF _ assms(3), unfolded Let_def, OF that] by blast
  note serves = root_serves [OF assms(1,2)]
  from assms(4) consider (r) "HasPrefix (rq_Path r) ''/r/''" | (i) "HasPrefix (rq_Path r) ''/i/''" | (healthz) "rq_Path r = ''/healthz''"
    | (readyz) "rq_Path r = ''/readyz''" | (signin) "rq_Method r = ''POST''" "rq_Path r = ''/v1/auth/signin''"
    unfolding public_route_def by blast
  then show ?thesis
  proof cases
    case r
    then obtain q ss where q: "rq_Path r = CHR ''/'' # q" "split_on (CHR ''/'') q = ''r'' # ss" "ss \<noteq> []"
      by (rule path_below [of "rq_Path r" "''r''", simplified]) auto
    then have ps: "path_segs (rq_Path r) = ''r'' # ss" by (simp add: path_segs_def)
    show ?thesis
      by (rule go [of 0], rule serves [OF q(1,2) root_find(1) [OF ps assms(2) refl q(3)]])
        (use q(3) matches_first [OF ps] in \<open>simp_all add: root_patterns_def\<close>)
  next
    case i
    then obtain q ss where q: "rq_Path r = CHR ''/'' # q" "split_on (CHR ''/'') q = ''i'' # ss" "ss \<noteq> []"
      by (rule path_below [of "rq_Path r" "''i''", simplified]) auto
    then have ps: "path_segs (rq_Path r) = ''i'' # ss" by (simp add: path_segs_def)
    show ?thesis
      by (rule go [of 1], rule serves [OF q(1,2) root_find(2) [OF ps assms(2) refl q(3)]])
        (use q(3) matches_first [OF ps] in \<open>simp_all add: root_patterns_def\<close>)
  next
    case healthz
    have sp: "split_on (CHR ''/'') ''healthz'' = [''healthz'']" by code_simp
    then have ps: "path_segs (rq_Path r) = [''healthz'']" using healthz by (simp add: path_segs_def)
    show ?thesis
      by (rule go [of 2], rule serves [OF healthz sp root_find(6) [OF ps assms(2) refl refl]])
        (use matches_first [OF ps] in \<open>simp_all add: root_patterns_def\<close>)
  next
    case readyz
    have sp: "split_on (CHR ''/'') ''readyz'' = [''readyz'']" by code_simp
    then have ps: "path_segs (rq_Path r) = [''readyz'']" using readyz by (simp add: path_segs_def)
    show ?thesis
      by (rule go [of 3], rule serves [OF readyz sp root_find(7) [OF ps assms(2) refl refl]])
        (use matches_first [OF ps] in \<open>simp_all add: root_patterns_def\<close>)
  next
    case signin
    have ps: "path_segs (rq_Path r) = [''v1'', ''auth'', ''signin'']" using signin(2) signin_segs by (simp add: path_segs_def)
    show ?thesis
      by (rule go [of 4], rule serves [OF signin(2) signin_segs root_find(3) [OF ps assms(2)]])
        (use matches_first [OF ps] signin(1) in \<open>simp_all add: root_patterns_def\<close>)
  qed
qed

lemma route_v1:
  assumes "cleanPath (rq_Path r) = rq_Path r" "rq_Method r \<noteq> ''''" "rq_PathValue r = []"
    "HasPrefix (rq_Path r) ''/v1/''" "\<not> (rq_Method r = ''POST'' \<and> rq_Path r = ''/v1/auth/signin'')"
  shows "mux_ServeHTTP moved (root_mux moved h opt) cx r w =
    apply_opt (ro_Auth opt) (protectedChain moved h opt) (cx\<lparr>cx_Pattern := ''/v1/''\<rparr>) r w"
proof -
  obtain q ss where q: "rq_Path r = CHR ''/'' # q" "split_on (CHR ''/'') q = ''v1'' # ss" "ss \<noteq> []"
    by (rule path_below [of "rq_Path r" "''v1''"]) (use assms(4) in auto)
  then have ps: "path_segs (rq_Path r) = ''v1'' # ss" by (simp add: path_segs_def)
  have n: "\<not> (rq_Method r = ''POST'' \<and> ss = [''auth'', ''signin''])" using assms(5) q signin_segsD [of q] by auto
  have "pt_Text (root_patterns ! 5) = ''/v1/''" by (simp add: root_patterns_def)
  moreover note root_runs [OF _ assms(3), unfolded Let_def, OF root_serves [OF assms(1,2) q(1,2) root_find(4) [OF ps assms(2) refl q(3) n]]]
  ultimately show ?thesis using q(3) matches_first [OF ps] by (simp add: root_patterns_def)
qed

lemma route_ui:
  assumes "cleanPath (rq_Path r) = rq_Path r" "rq_Method r \<noteq> ''''" "rq_PathValue r = []" "HasPrefix (rq_Path r) ''/ui/''"
  shows "mux_ServeHTTP moved (root_mux moved h opt) cx r w =
    apply_opt (ro_Auth opt) (mux_ServeHTTP moved (group_mux GroupConsole h opt)) (cx\<lparr>cx_Pattern := ''/ui/''\<rparr>) r w"
proof -
  obtain q ss where q: "rq_Path r = CHR ''/'' # q" "split_on (CHR ''/'') q = ''ui'' # ss" "ss \<noteq> []"
    by (rule path_below [of "rq_Path r" "''ui''"]) (use assms(4) in auto)
  then have ps: "path_segs (rq_Path r) = ''ui'' # ss" by (simp add: path_segs_def)
  have "pt_Text (root_patterns ! 6) = ''/ui/''" by (simp add: root_patterns_def)
  moreover note root_runs [OF _ assms(3), unfolded Let_def, OF root_serves [OF assms(1,2) q(1,2) root_find(5) [OF ps assms(2) refl q(3)]]]
  ultimately show ?thesis using q(3) matches_first [OF ps] by (simp add: root_patterns_def)
qed

text \<open>The public group: the four routes of scans, images and probes, and the sign-in.\<close>

lemma mux_drop:
  assumes "matches p (cleanPath (rq_Path r)) = None" "matches p (cleanPath (rq_Path r) @ ''/'') = None"
  shows "mux_Handler (mux @ [(p, h)]) r = mux_Handler mux r"
proof -
  have find: "mux_find (mux @ [(p, h)]) m path = mux_find mux m path" if "matches p path = None" for m path
    using that by (simp add: mux_find_def)
  show ?thesis unfolding mux_Handler_def Let_def find [OF assms(1)] find [OF assms(2)] filter_append filter.simps fst_conv assms
    by (simp only: not_True_eq_False simp_thms if_False append_Nil2)
qed

lemma public_mux_split:
  "group_mux GroupPublic h opt = map (\<lambda>rt. (parse_pattern (rt_Pattern rt), route_handler h opt rt)) (take 4 Routes) @
     [(parse_pattern SigninPattern, route_handler h opt (Routes ! 4))]"
  by (simp add: group_mux_def Routes_def)

lemma signin_pattern:
  "parse_pattern SigninPattern = \<lparr>pt_Text = SigninPattern, pt_Method = ''POST'', pt_Segs = [Lit ''v1'', Lit ''auth'', Lit ''signin''], pt_Rest = False\<rparr>"
  by code_simp

lemma scan_patterns:
  "map (\<lambda>rt. parse_pattern (rt_Pattern rt)) (take 4 Routes) =
    [\<lparr>pt_Text = ''GET /r/{code}'', pt_Method = ''GET'', pt_Segs = [Lit ''r'', Wild ''code''], pt_Rest = False\<rparr>,
     \<lparr>pt_Text = ''GET /i/{file}'', pt_Method = ''GET'', pt_Segs = [Lit ''i'', Wild ''file''], pt_Rest = False\<rparr>,
     \<lparr>pt_Text = ''GET /healthz'', pt_Method = ''GET'', pt_Segs = [Lit ''healthz''], pt_Rest = False\<rparr>,
     \<lparr>pt_Text = ''GET /readyz'', pt_Method = ''GET'', pt_Segs = [Lit ''readyz''], pt_Rest = False\<rparr>]"
  by code_simp

lemma scan_routes: "rt \<in> set (take 4 Routes) \<Longrightarrow> rt_Pattern rt \<noteq> SigninPattern \<and> rt_Group rt = GroupPublic"
  by (auto simp: Routes_def SigninPattern_def)

lemma scan_unlimited:
  "rt \<in> set (take 4 Routes) \<Longrightarrow> route_handler h opt rt = route_handler h (opt\<lparr>ro_SigninLimiter := None\<rparr>) rt"
  using scan_routes [of rt] by (cases "ro_SigninLimiter opt") (simp_all add: route_handler_def)

lemma not_signin:
  assumes "path = CHR ''/'' # q" "path \<noteq> ''/v1/auth/signin''"
  shows "matches (parse_pattern SigninPattern) path = None" "matches (parse_pattern SigninPattern) (path @ ''/'') = None"
proof -
  have "matches (parse_pattern SigninPattern) p = None" if "path_segs p \<noteq> [''v1'', ''auth'', ''signin'']" for p
    using that match_exact [of "[''v1'', ''auth'', ''signin'']" "path_segs p"] by (simp add: matches_def signin_pattern)
  moreover have "path_segs path \<noteq> [''v1'', ''auth'', ''signin'']" using assms signin_segsD [of q] by (auto simp: path_segs_def)
  moreover have "path_segs (path @ ''/'') \<noteq> [''v1'', ''auth'', ''signin'']"
    using split_on_snoc [of "CHR ''/''" q] assms(1) by (auto simp: path_segs_def)
  ultimately show "matches (parse_pattern SigninPattern) path = None" "matches (parse_pattern SigninPattern) (path @ ''/'') = None" by auto
qed

lemma scans_unlimited:
  assumes "cleanPath (rq_Path r) = rq_Path r" "rq_Path r = CHR ''/'' # q" "rq_Path r \<noteq> ''/v1/auth/signin''"
  shows "mux_ServeHTTP moved (group_mux GroupPublic h opt) cx r w =
    mux_ServeHTTP moved (group_mux GroupPublic h (opt\<lparr>ro_Auth := a, ro_CSRF := c, ro_SigninLimiter := l\<rparr>)) cx r w"
proof -
  note drop = mux_drop [of "parse_pattern SigninPattern" r, unfolded assms(1), OF not_signin [OF assms(2,3)]]
  have same: "route_handler h opt rt = route_handler h (opt\<lparr>ro_Auth := a, ro_CSRF := c, ro_SigninLimiter := l\<rparr>) rt"
    if "rt \<in> set (take 4 Routes)" for rt
    using scan_unlimited [OF that, of h opt] scan_unlimited [OF that, of h "opt\<lparr>ro_Auth := a, ro_CSRF := c, ro_SigninLimiter := l\<rparr>"]
    by (simp add: route_handler_def)
  then have "map (\<lambda>rt. (parse_pattern (rt_Pattern rt), route_handler h opt rt)) (take 4 Routes) =
      map (\<lambda>rt. (parse_pattern (rt_Pattern rt), route_handler h (opt\<lparr>ro_Auth := a, ro_CSRF := c, ro_SigninLimiter := l\<rparr>) rt)) (take 4 Routes)"
    by (intro map_cong refl) simp
  then have "mux_Handler (group_mux GroupPublic h opt) r =
      mux_Handler (group_mux GroupPublic h (opt\<lparr>ro_Auth := a, ro_CSRF := c, ro_SigninLimiter := l\<rparr>)) r"
    unfolding public_mux_split drop by (simp only: )
  then show ?thesis by (simp add: mux_ServeHTTP_def)
qed

lemma signin_limited:
  assumes "cleanPath (rq_Path r) = rq_Path r" "rq_Method r = ''POST''" "rq_Path r = ''/v1/auth/signin''" "rq_PathValue r = []"
  shows "mux_ServeHTTP moved (group_mux GroupPublic h opt) cx r w =
    wrap_all (ro_PerRoute opt) (apply_opt (ro_SigninLimiter opt) (withPattern SigninPattern (lookup_handler h ''Auth'')))
      (cx\<lparr>cx_Pattern := SigninPattern\<rparr>) r w"
proof -
  have same: "r\<lparr>rq_PathValue := []\<rparr> = r" using assms(4) by (cases r) simp
  have ps: "path_segs ''/v1/auth/signin'' = [''v1'', ''auth'', ''signin'']" by code_simp
  define init where "init = map (\<lambda>rt. (parse_pattern (rt_Pattern rt), route_handler h opt rt)) (take 4 Routes)"
  have "\<forall>e \<in> set init. matches (fst e) ''/v1/auth/signin'' = None"
  proof -
    have "map fst init = map (\<lambda>rt. parse_pattern (rt_Pattern rt)) (take 4 Routes)" by (simp add: init_def)
    then have "fst ` set init = set (map (\<lambda>rt. parse_pattern (rt_Pattern rt)) (take 4 Routes))" by (metis set_map)
    then have "\<forall>p \<in> fst ` set init. matches p ''/v1/auth/signin'' = None" unfolding scan_patterns by (simp add: matches_def ps)
    then show ?thesis by blast
  qed
  then have "filter (\<lambda>e. method_ok (pt_Method (fst e)) ''POST'' \<and> matches (fst e) ''/v1/auth/signin'' \<noteq> None) init = []"
    by (simp add: filter_empty_conv)
  moreover have "matches (parse_pattern SigninPattern) ''/v1/auth/signin'' = Some []" by (simp add: matches_def ps signin_pattern)
  ultimately have "mux_Handler (group_mux GroupPublic h opt) r = Serve (parse_pattern SigninPattern) (route_handler h opt (Routes ! 4)) []"
    using assms unfolding public_mux_split init_def [symmetric]
    by (simp add: mux_Handler_def mux_find_def Let_def method_ok_def signin_pattern exactMatch_def)
  moreover have "route_handler h opt (Routes ! 4) =
      wrap_all (ro_PerRoute opt) (apply_opt (ro_SigninLimiter opt) (withPattern SigninPattern (lookup_handler h ''Auth'')))"
    by (simp add: route_handler_def Routes_def apply_opt_def split: option.split)
  ultimately show ?thesis by (simp add: mux_ServeHTTP_def same signin_pattern)
qed

lemma apply_opt_Some: "apply_opt (Some f) next = f next"
  by (simp add: apply_opt_def)

text \<open>C18. Principle IV of the router: for a request with a clean path, whatever the options and behind the common
  middleware, the routes of scans, images and probes run without authentication, CSRF check and sign-in limiter:
  their answer does not depend on any of them. The password route runs without the first two and behind the limiter. Every other path
  under \<^verbatim>\<open>/v1/\<close> is reached only through the authentication and, inside it, the CSRF check, and every path under \<^verbatim>\<open>/ui/\<close>
  only through the authentication.\<close>

theorem auth_surrounds_the_protected_routes:
  assumes "cleanPath (rq_Path r) = rq_Path r" "rq_Method r \<noteq> ''''" "rq_PathValue r = []"
  shows "let serve = (\<lambda>auth csrf lim. NewRouter moved h (opt\<lparr>ro_Common := [], ro_Auth := auth, ro_CSRF := csrf, ro_SigninLimiter := lim\<rparr>) cx r w);
             signin = (rq_Method r = ''POST'' \<and> rq_Path r = ''/v1/auth/signin'') in
    (signin \<longrightarrow> serve a c l =
       wrap_all (ro_PerRoute opt) (apply_opt l (withPattern SigninPattern (lookup_handler h ''Auth''))) (cx\<lparr>cx_Pattern := SigninPattern\<rparr>) r w) \<and>
    (public_route r \<and> \<not> signin \<longrightarrow> serve a c l = serve None None None) \<and>
    (HasPrefix (rq_Path r) ''/v1/'' \<and> \<not> signin \<longrightarrow> serve (Some au) (Some cs) l =
       au (cs (jsonNotFound moved (group_mux GroupProtected h (opt\<lparr>ro_SigninLimiter := l\<rparr>)))) (cx\<lparr>cx_Pattern := ''/v1/''\<rparr>) r w) \<and>
    (HasPrefix (rq_Path r) ''/ui/'' \<longrightarrow> serve (Some au) c l =
       au (mux_ServeHTTP moved (group_mux GroupConsole h (opt\<lparr>ro_SigninLimiter := l\<rparr>))) (cx\<lparr>cx_Pattern := ''/ui/''\<rparr>) r w)"
proof -
  define o' where "o' a c l = opt\<lparr>ro_Common := [], ro_Auth := a, ro_CSRF := c, ro_SigninLimiter := l\<rparr>" for a c l
  have o': "ro_PerRoute (o' a c l) = ro_PerRoute opt" "ro_Auth (o' a c l) = a" "ro_CSRF (o' a c l) = c" "ro_SigninLimiter (o' a c l) = l"
    "(o' a c l)\<lparr>ro_Auth := a', ro_CSRF := c', ro_SigninLimiter := l'\<rparr> = o' a' c' l'" for a c l a' c' l'
    by (simp_all add: o'_def)
  have gm: "group_mux g h (o' a c l) = group_mux g h (opt\<lparr>ro_SigninLimiter := l\<rparr>)" for g a c l
    by (simp add: o'_def group_mux_def route_handler_def Let_def)
  have root: "NewRouter moved h (o' a c l) = mux_ServeHTTP moved (root_mux moved h (o' a c l))" for a c l
    by (simp add: o'_def NewRouter_def wrap_all_def)
  let ?signin = "rq_Method r = ''POST'' \<and> rq_Path r = ''/v1/auth/signin''"
  have "NewRouter moved h (o' a c l) cx r w =
      wrap_all (ro_PerRoute opt) (apply_opt l (withPattern SigninPattern (lookup_handler h ''Auth''))) (cx\<lparr>cx_Pattern := SigninPattern\<rparr>) r w"
    if s: ?signin
  proof -
    have p: "public_route r" using s by (simp add: public_route_def)
    obtain pat where "\<forall>moved h opt cx w. mux_ServeHTTP moved (root_mux moved h opt) cx r (w :: 'a) =
        mux_ServeHTTP moved (group_mux GroupPublic h opt) (cx\<lparr>cx_Pattern := pat\<rparr>) r w"
      using route_public [OF assms p] by (elim exE)
    then have "mux_ServeHTTP moved (root_mux moved h (o' a c l)) cx r w =
        mux_ServeHTTP moved (group_mux GroupPublic h (o' a c l)) (cx\<lparr>cx_Pattern := pat\<rparr>) r w" by (simp only: )
    also have "\<dots> = wrap_all (ro_PerRoute opt) (apply_opt l (withPattern SigninPattern (lookup_handler h ''Auth'')))
        (cx\<lparr>cx_Pattern := SigninPattern\<rparr>) r w"
      using signin_limited [OF assms(1) conjunct1 [OF s] conjunct2 [OF s] assms(3), of moved h "o' a c l"] by (simp add: o')
    finally show ?thesis unfolding root .
  qed
  moreover have "NewRouter moved h (o' a c l) cx r w = NewRouter moved h (o' None None None) cx r w" if p: "public_route r" "\<not> ?signin"
  proof -
    obtain pat where pat: "\<forall>moved h opt cx w. mux_ServeHTTP moved (root_mux moved h opt) cx r (w :: 'a) =
        mux_ServeHTTP moved (group_mux GroupPublic h opt) (cx\<lparr>cx_Pattern := pat\<rparr>) r w"
      using route_public [OF assms p(1)] by (elim exE)
    from p obtain q where q: "rq_Path r = CHR ''/'' # q" "rq_Path r \<noteq> ''/v1/auth/signin''"
      unfolding public_route_def by (auto simp: HasPrefix_append)
    show ?thesis unfolding root pat [rule_format]
      using scans_unlimited [OF assms(1) q, where moved = moved and h = h and opt = "o' a c l" and a = None and c = None and l = None] by (simp only: o')
  qed
  moreover have "NewRouter moved h (o' (Some au) (Some cs) l) cx r w =
      au (cs (jsonNotFound moved (group_mux GroupProtected h (opt\<lparr>ro_SigninLimiter := l\<rparr>)))) (cx\<lparr>cx_Pattern := ''/v1/''\<rparr>) r w"
    if "HasPrefix (rq_Path r) ''/v1/''" "\<not> ?signin"
    by (simp add: route_v1 [OF assms that] root o' gm protectedChain_def apply_opt_Some)
  moreover have "NewRouter moved h (o' (Some au) c l) cx r w =
      au (mux_ServeHTTP moved (group_mux GroupConsole h (opt\<lparr>ro_SigninLimiter := l\<rparr>))) (cx\<lparr>cx_Pattern := ''/ui/''\<rparr>) r w"
    if "HasPrefix (rq_Path r) ''/ui/''"
    by (simp add: route_ui [OF assms that] root o' gm apply_opt_Some)
  ultimately show ?thesis unfolding Let_def o'_def [symmetric] by blast
qed

text \<open>A run of the router with markers in place of the middleware and the handlers.\<close>

definition mark :: "string \<Rightarrow> string list wrapper" where
  "mark name next cx r w = next cx r (w @ [name])"

definition marking_handlers :: "string list handlers" where
  "marking_handlers = (let f = (\<lambda>name cx r w. (None, w @ [name])) in
     \<lparr>hd_Public = Some (f ''Public''), hd_QR = Some (f ''QR''), hd_Codes = Some (f ''Codes''), hd_Auth = Some (f ''Auth''), hd_Tokens = Some (f ''Tokens''),
      hd_Admin = Some (f ''Admin''), hd_Analytics = Some (f ''Analytics''), hd_Export = Some (f ''Export''), hd_Console = Some (f ''Console''),
      hd_Healthz = Some (f ''Healthz''), hd_Readyz = Some (f ''Readyz'')\<rparr>)"

definition no_options :: "string list router_options" where
  "no_options = \<lparr>ro_Common = [], ro_PerRoute = [mark ''metrics''], ro_Auth = None, ro_CSRF = None, ro_SigninLimiter = None\<rparr>"

definition codes_request :: request where
  "codes_request = \<lparr>rq_Method = ''POST'', rq_Path = ''/v1/codes/cod_1/disable'', rq_Header = [], rq_PathValue = [], rq_Query = [],
     rq_Cookies = [], rq_RemoteAddr = '''', rq_Body = ''''\<rparr>"

theorem auth_surrounds_the_protected_routes_witness:
  "NewRouter 307 marking_handlers (no_options\<lparr>ro_Common := [], ro_Auth := Some (mark ''auth''), ro_CSRF := Some (mark ''csrf''),
     ro_SigninLimiter := None\<rparr>) \<lparr>cx_Identity = None, cx_RoutePattern = '''', cx_Pattern = ''''\<rparr> codes_request [] =
   (None, [''auth'', ''csrf'', ''metrics'', ''Codes''])"
proof -
  have clean: "cleanPath (rq_Path codes_request) = rq_Path codes_request" and v1: "HasPrefix (rq_Path codes_request) ''/v1/''"
    and other: "\<not> (rq_Method codes_request = ''POST'' \<and> rq_Path codes_request = ''/v1/auth/signin'')" and m: "rq_Method codes_request \<noteq> ''''"
    and pv: "rq_PathValue codes_request = []" by (code_simp, code_simp, simp_all add: codes_request_def)
  note routes = auth_surrounds_the_protected_routes [OF clean m pv, unfolded Let_def, THEN conjunct2, THEN conjunct2, THEN conjunct1,
      THEN mp, OF conjI [OF v1 other]]
  have "NewRouter 307 marking_handlers (no_options\<lparr>ro_Common := [], ro_Auth := Some (mark ''auth''), ro_CSRF := Some (mark ''csrf''),
     ro_SigninLimiter := None\<rparr>) \<lparr>cx_Identity = None, cx_RoutePattern = '''', cx_Pattern = ''''\<rparr> codes_request [] =
     mark ''auth'' (mark ''csrf'' (jsonNotFound 307 (group_mux GroupProtected marking_handlers (no_options\<lparr>ro_SigninLimiter := None\<rparr>))))
       (\<lparr>cx_Identity = None, cx_RoutePattern = '''', cx_Pattern = ''''\<rparr>\<lparr>cx_Pattern := ''/v1/''\<rparr>) codes_request []"
    by (rule routes)
  also have "\<dots> = (None, [''auth'', ''csrf'', ''metrics'', ''Codes''])" by code_simp
  finally show ?thesis .
qed

end
