(* ===== verification/Config.thy ===== *)
theory Config
  imports V1_Auth V1_Qr
begin

text \<open>
  Configuration, \<^verbatim>\<open>src/internal/config/config.go\<close>: the table of settings, what the environment and the flags
  give, and the layers of \<open>Load\<close>. The third-party packages koanf (a store of settings by path), pflag and yaml, and \<open>time.ParseDuration\<close>
  are arguments; \<open>koanf_ok\<close> is what the code relies on.
\<close>

subsection \<open>The configuration\<close>

record server_config =
  srv_Listen :: string
  srv_BaseURL :: string
  srv_MetricsListen :: string
  srv_DataDir :: string

record db_config =
  dbc_Driver :: string
  dbc_DSN :: string

record s3_config =
  s3_Endpoint :: string
  s3_Bucket :: string
  s3_Region :: string
  s3_AccessKey :: string
  s3_SecretKey :: string
  s3_UseSSL :: bool
  s3_PathStyle :: bool

record blob_config =
  blc_Driver :: string
  blc_Path :: string
  blc_S3 :: s3_config

record auth_config =
  ac_SigningSecret :: string
  ac_DevMode :: bool
  ac_BootstrapEmail :: string
  ac_BootstrapPassword :: string
  ac_SessionTTL :: duration

record ephemeral_config =
  ep_Public :: bool
  ep_RateLimitPerMinute :: int

record forward_auth_config =
  fwd_Enabled :: bool
  fwd_Header :: string
  fwd_TrustedCIDRs :: "string list"

record codes_config =
  cc_AllowedSchemes :: "string list"
  cc_FallbackDestination :: string
  cc_BatchMax :: int
  cc_BatchWorkers :: int

record images_config =
  im_URLMode :: string
  im_PublicBaseURL :: string
  im_PresignTTL :: duration
  im_ServeViaInstance :: bool

record render_config =
  rc_MaxPx :: int
  rc_MaxDuration :: duration
  rc_MaxPayloadBytes :: int

record analytics_config =
  an_RetentionDays :: int
  an_BufferSize :: int
  an_BatchSize :: int
  an_FlushInterval :: duration

record log_config =
  lg_Level :: string
  lg_Format :: string

record config =
  cf_Server :: server_config
  cf_DB :: db_config
  cf_Blob :: blob_config
  cf_Auth :: auth_config
  cf_Ephemeral :: ephemeral_config
  cf_ForwardAuth :: forward_auth_config
  cf_Codes :: codes_config
  cf_Images :: images_config
  cf_Render :: render_config
  cf_Analytics :: analytics_config
  cf_Log :: log_config
  cf_ConfigFile :: string

subsection \<open>Settings, environment variables and flags\<close>

datatype field_kind = KString | KBool | KInt | KDuration | KStringSlice

datatype setting = VStr string | VBool bool | VInt int | VDur duration | VList "string list"

type_synonym layer = "(string \<times> setting) list"

definition defaults :: layer where
  "defaults =
   [(''server.listen'', VStr '':8080''),
    (''server.base_url'', VStr ''''),
    (''server.metrics_listen'', VStr ''''),
    (''server.data_dir'', VStr ''./data''),
    (''db.driver'', VStr ''sqlite''),
    (''db.dsn'', VStr ''./data/qurator.db''),
    (''blob.driver'', VStr ''fs''),
    (''blob.path'', VStr ''./data/blobs''),
    (''blob.s3.endpoint'', VStr ''''),
    (''blob.s3.bucket'', VStr ''''),
    (''blob.s3.region'', VStr ''''),
    (''blob.s3.access_key'', VStr ''''),
    (''blob.s3.secret_key'', VStr ''''),
    (''blob.s3.use_ssl'', VBool True),
    (''blob.s3.path_style'', VBool False),
    (''auth.signing_secret'', VStr ''''),
    (''auth.dev_mode'', VBool False),
    (''auth.bootstrap_email'', VStr ''''),
    (''auth.bootstrap_password'', VStr ''''),
    (''auth.session_ttl'', VStr ''12h''),
    (''ephemeral.public'', VBool False),
    (''ephemeral.rate_limit_per_minute'', VInt 60),
    (''forward_auth.enabled'', VBool False),
    (''forward_auth.header'', VStr ''X-Forwarded-Email''),
    (''forward_auth.trusted_cidrs'', VList []),
    (''codes.allowed_schemes'', VList [''http'', ''https'']),
    (''codes.fallback_destination'', VStr ''''),
    (''codes.batch_max'', VInt 500),
    (''codes.batch_workers'', VInt 4),
    (''images.url_mode'', VStr ''instance''),
    (''images.public_base_url'', VStr ''''),
    (''images.presign_ttl'', VStr ''1h''),
    (''images.serve_via_instance'', VBool True),
    (''render.max_px'', VInt 4096),
    (''render.max_duration'', VStr ''2s''),
    (''render.max_payload_bytes'', VInt 2953),
    (''analytics.retention_days'', VInt 365),
    (''analytics.buffer_size'', VInt 10000),
    (''analytics.batch_size'', VInt 200),
    (''analytics.flush_interval'', VStr ''500ms''),
    (''log.level'', VStr ''info''),
    (''log.format'', VStr ''json'')]"

definition leafFields :: "(string \<times> field_kind) list" where
  "leafFields =
   [(''server.listen'', KString),
    (''server.base_url'', KString),
    (''server.metrics_listen'', KString),
    (''server.data_dir'', KString),
    (''db.driver'', KString),
    (''db.dsn'', KString),
    (''blob.driver'', KString),
    (''blob.path'', KString),
    (''blob.s3.endpoint'', KString),
    (''blob.s3.bucket'', KString),
    (''blob.s3.region'', KString),
    (''blob.s3.access_key'', KString),
    (''blob.s3.secret_key'', KString),
    (''blob.s3.use_ssl'', KBool),
    (''blob.s3.path_style'', KBool),
    (''auth.signing_secret'', KString),
    (''auth.dev_mode'', KBool),
    (''auth.bootstrap_email'', KString),
    (''auth.bootstrap_password'', KString),
    (''auth.session_ttl'', KDuration),
    (''ephemeral.public'', KBool),
    (''ephemeral.rate_limit_per_minute'', KInt),
    (''forward_auth.enabled'', KBool),
    (''forward_auth.header'', KString),
    (''forward_auth.trusted_cidrs'', KStringSlice),
    (''codes.allowed_schemes'', KStringSlice),
    (''codes.fallback_destination'', KString),
    (''codes.batch_max'', KInt),
    (''codes.batch_workers'', KInt),
    (''images.url_mode'', KString),
    (''images.public_base_url'', KString),
    (''images.presign_ttl'', KDuration),
    (''images.serve_via_instance'', KBool),
    (''render.max_px'', KInt),
    (''render.max_duration'', KDuration),
    (''render.max_payload_bytes'', KInt),
    (''analytics.retention_days'', KInt),
    (''analytics.buffer_size'', KInt),
    (''analytics.batch_size'', KInt),
    (''analytics.flush_interval'', KDuration),
    (''log.level'', KString),
    (''log.format'', KString)]"

text \<open>Setting names are ASCII.\<close>

definition ascii_upper :: "char \<Rightarrow> char" where
  "ascii_upper c = (if 97 \<le> byte c \<and> byte c \<le> 122 then char_of (byte c - 32) else c)"

definition ReplaceByte :: "char \<Rightarrow> char \<Rightarrow> string \<Rightarrow> string" where
  "ReplaceByte a b s = map (\<lambda>c. if c = a then b else c) s"

definition envPrefix :: string where "envPrefix = ''QURATOR_''"

definition envVarName :: "string \<Rightarrow> string" where
  "envVarName path = envPrefix @ map ascii_upper (ReplaceByte (CHR ''.'') (CHR ''_'') path)"

definition parseFieldValue :: "(string \<Rightarrow> duration option) \<Rightarrow> field_kind \<Rightarrow> string \<Rightarrow> setting option" where
  "parseFieldValue ParseDuration kind raw = (case kind of
     KBool \<Rightarrow> map_option VBool (ParseBool raw)
   | KInt \<Rightarrow> map_option VInt (Atoi raw)
   | KDuration \<Rightarrow> map_option VDur (ParseDuration raw)
   | KStringSlice \<Rightarrow> if raw = '''' then Some (VList []) else Some (VList (map strings_TrimSpace (split_on (CHR '','') raw)))
   | KString \<Rightarrow> Some (VStr raw))"

datatype load_error = ErrParseFlags | ErrUnexpectedArgument string | ErrLoadFile string | ErrEnv string | ErrUnmarshal | ErrInvalid

type_synonym environ = "string \<Rightarrow> string option"

fun env_layer :: "(string \<Rightarrow> duration option) \<Rightarrow> environ \<Rightarrow> (string \<times> field_kind) list \<Rightarrow> load_error + layer" where
  "env_layer pd env [] = Inr []"
| "env_layer pd env ((path, kind) # fs) =
    (case env (envVarName path) of
       None \<Rightarrow> env_layer pd env fs
     | Some raw \<Rightarrow>
         (case parseFieldValue pd kind raw of
            None \<Rightarrow> Inl (ErrEnv (envVarName path))
          | Some v \<Rightarrow> map_sum id ((#) (path, v)) (env_layer pd env fs)))"

definition envOverrides :: "(string \<Rightarrow> duration option) \<Rightarrow> environ \<Rightarrow> load_error + layer" where
  "envOverrides pd env = env_layer pd env leafFields"

text \<open>The flags: name, default and usage. A parsed flag has its value and whether it was given.\<close>

definition flagSet :: "(string \<times> setting \<times> string) list" where
  "flagSet =
   [(''config'', VStr '''', ''path to an optional YAML config file''),
    (''server-listen'', VStr '''', ''public HTTP listen address''),
    (''server-base-url'', VStr '''', ''externally visible base URL''),
    (''server-metrics-listen'', VStr '''', ''internal metrics listen address (empty disables /metrics)''),
    (''server-data-dir'', VStr '''', ''directory for self-generated state such as signing.key''),
    (''db-driver'', VStr '''', ''metadata store driver (sqlite|postgres)''),
    (''db-dsn'', VStr '''', ''metadata store DSN''),
    (''blob-driver'', VStr '''', ''blob store driver (fs|s3)''),
    (''blob-path'', VStr '''', ''filesystem blob store root''),
    (''blob-s3-endpoint'', VStr '''', ''S3-compatible endpoint''),
    (''blob-s3-bucket'', VStr '''', ''S3 bucket name''),
    (''blob-s3-region'', VStr '''', ''S3 region''),
    (''blob-s3-access-key'', VStr '''', ''S3 access key''),
    (''blob-s3-secret-key'', VStr '''', ''S3 secret key''),
    (''blob-s3-use-ssl'', VBool True, ''use TLS when talking to S3''),
    (''blob-s3-path-style'', VBool False, ''use path-style S3 addressing''),
    (''auth-signing-secret'', VStr '''', ''credential signing secret (generated into <data-dir>/signing.key when empty)''),
    (''auth-dev-mode'', VBool False, ''use an ephemeral signing key instead of persisting one''),
    (''auth-bootstrap-email'', VStr '''', ''bootstrap admin email''),
    (''auth-bootstrap-password'', VStr '''', ''bootstrap admin password''),
    (''auth-session-ttl'', VDur 0, ''session lifetime''),
    (''ephemeral-public'', VBool False, ''expose the ephemeral render endpoint publicly''),
    (''ephemeral-rate-limit-per-minute'', VInt 0, ''ephemeral endpoint rate limit per minute''),
    (''forward-auth-enabled'', VBool False, ''trust an upstream identity header''),
    (''forward-auth-header'', VStr '''', ''upstream identity header name''),
    (''forward-auth-trusted-cidrs'', VList [], ''CIDRs permitted to assert the identity header''),
    (''codes-allowed-schemes'', VList [], ''destination URI schemes permitted at creation''),
    (''codes-fallback-destination'', VStr '''', ''destination used when a code has none configured''),
    (''codes-batch-max'', VInt 0, ''maximum items in one batch create request''),
    (''codes-batch-workers'', VInt 0, ''concurrent image renders per batch create request''),
    (''images-url-mode'', VStr '''', ''how image_url is built (instance|public|presigned)''),
    (''images-public-base-url'', VStr '''', ''public root of the bucket or CDN for images.url_mode=public''),
    (''images-presign-ttl'', VDur 0, ''lifetime of presigned image links''),
    (''images-serve-via-instance'', VBool True, ''serve images at /i/{id}.png on this instance''),
    (''render-max-px'', VInt 0, ''maximum QR raster dimension in pixels''),
    (''render-max-duration'', VDur 0, ''maximum time budget for a single render''),
    (''render-max-payload-bytes'', VInt 0, ''maximum encoded payload size in bytes''),
    (''analytics-retention-days'', VInt 0, ''scan event retention in days''),
    (''analytics-buffer-size'', VInt 0, ''async ingest buffer capacity''),
    (''analytics-batch-size'', VInt 0, ''async ingest batch insert size''),
    (''analytics-flush-interval'', VDur 0, ''async ingest flush interval''),
    (''log-level'', VStr '''', ''log level''),
    (''log-format'', VStr '''', ''log format (json|text)'')]"

record flag =
  fl_Name :: string
  fl_Value :: setting
  fl_Changed :: bool

definition parsed_flags :: "(string \<times> setting) list \<Rightarrow> flag list" where
  "parsed_flags given = map (\<lambda>(n, d, u).
     \<lparr>fl_Name = n, fl_Value = (case map_of given n of None \<Rightarrow> d | Some v \<Rightarrow> v), fl_Changed = (map_of given n \<noteq> None)\<rparr>) flagSet"

text \<open>The key a flag is stored under.\<close>

definition flagKey :: "string \<Rightarrow> string" where
  "flagKey name = ReplaceByte (CHR ''-'') (CHR ''.'') name"

subsection \<open>Loading\<close>

text \<open>\<open>k_Flags\<close> is \<open>posflag.ProviderWithFlag\<close>, which also sees what is loaded so far.\<close>

record 'k config_lib =
  k_New :: 'k
  k_Load :: "layer \<Rightarrow> 'k \<Rightarrow> 'k"
  k_File :: "string \<Rightarrow> 'k \<Rightarrow> 'k option"
  k_Flags :: "(string \<Rightarrow> string) \<Rightarrow> flag list \<Rightarrow> 'k \<Rightarrow> 'k"
  k_Unmarshal :: "'k \<Rightarrow> config option"
  k_ParseFlags :: "(string \<times> setting \<times> string) list \<Rightarrow> string list \<Rightarrow> ((string \<times> setting) list \<times> string list) option"
  k_ParseDuration :: "string \<Rightarrow> duration option"

definition config_path :: "(string \<times> setting) list \<Rightarrow> environ \<Rightarrow> string" where
  "config_path given env =
    (let p = (case map_of given ''config'' of Some (VStr s) \<Rightarrow> s | _ \<Rightarrow> '''') in
     if p = '''' then (case env (envPrefix @ ''CONFIG'') of Some v \<Rightarrow> v | None \<Rightarrow> '''') else p)"

definition load_file :: "'k config_lib \<Rightarrow> string \<Rightarrow> 'k \<Rightarrow> load_error + 'k" where
  "load_file lib path k =
    (if path = '''' then Inr k else case k_File lib path k of None \<Rightarrow> Inl (ErrLoadFile path) | Some k' \<Rightarrow> Inr k')"

definition load_layers :: "'k config_lib \<Rightarrow> string list \<Rightarrow> environ \<Rightarrow> load_error + ('k \<times> string)" where
  "load_layers lib args env =
    (let k = k_Load lib defaults (k_New lib) in
     case k_ParseFlags lib flagSet args of
       None \<Rightarrow> Inl ErrParseFlags
     | Some (given, a # rest) \<Rightarrow> Inl (ErrUnexpectedArgument a)
     | Some (given, []) \<Rightarrow>
         let path = config_path given env in
         case load_file lib path k of
           Inl err \<Rightarrow> Inl err
         | Inr k \<Rightarrow>
             (case envOverrides (k_ParseDuration lib) env of
                Inl err \<Rightarrow> Inl err
              | Inr m \<Rightarrow> Inr (k_Flags lib flagKey (parsed_flags given) (k_Load lib m k), path)))"

subsection \<open>What each layer gives\<close>

fun has_kind :: "field_kind \<Rightarrow> setting \<Rightarrow> bool" where
  "has_kind KString (VStr s) = True"
| "has_kind KBool (VBool b) = True"
| "has_kind KInt (VInt i) = True"
| "has_kind KDuration (VDur d) = True"
| "has_kind KStringSlice (VList xs) = True"
| "has_kind _ _ = False"

text \<open>The defaults of durations are texts, which the decoder reads.\<close>

definition default_kind :: "field_kind \<Rightarrow> setting \<Rightarrow> bool" where
  "default_kind kind v = (has_kind kind v \<or> kind = KDuration \<and> has_kind KString v)"

text \<open>The name of the flag of a setting: dashes for dots and underscores.\<close>

definition flag_name :: "string \<Rightarrow> string" where
  "flag_name path = ReplaceByte (CHR ''_'') (CHR ''-'') (ReplaceByte (CHR ''.'') (CHR ''-'') path)"

lemma leaf_distinct: "distinct (map fst leafFields)"
  by (simp add: leafFields_def)

text \<open>No setting has a capital letter, so its variable determines it up to dots.\<close>

definition no_capital :: "string \<Rightarrow> bool" where
  "no_capital s = list_all (\<lambda>c. byte c < 65 \<or> 90 < byte c) s"

lemma lower_upper: "no_capital s \<Longrightarrow> map ascii_lower (map ascii_upper s) = s"
proof -
  have "ascii_lower (ascii_upper c) = c" if "byte c < 65 \<or> 90 < byte c" for c
    using that by (auto simp: ascii_lower_def ascii_upper_def)
  then show "no_capital s \<Longrightarrow> map ascii_lower (map ascii_upper s) = s"
    by (induction s) (auto simp: no_capital_def)
qed

lemma env_path_chars:
  "list_all (\<lambda>(p, kind). list_all (\<lambda>c. c \<in> set ''erstailnodpcumbhfgxkvyzw_3'') (ReplaceByte (CHR ''.'') (CHR ''_'') p)) leafFields"
  by code_simp

lemma env_paths:
  "list_all (\<lambda>(p, kind). no_capital (ReplaceByte (CHR ''.'') (CHR ''_'') p)) leafFields"
  "distinct (map (\<lambda>(p, kind). ReplaceByte (CHR ''.'') (CHR ''_'') p) leafFields)"
  "''config'' \<notin> set (map (\<lambda>(p, kind). ReplaceByte (CHR ''.'') (CHR ''_'') p) leafFields)"
proof -
  have "list_all (\<lambda>c. byte c < 65 \<or> 90 < byte c) ''erstailnodpcumbhfgxkvyzw_3''" by code_simp
  then have "byte c < 65 \<or> 90 < byte c" if "c \<in> set ''erstailnodpcumbhfgxkvyzw_3''" for c
    using that by (simp only: list_all_iff)
  then show "list_all (\<lambda>(p, kind). no_capital (ReplaceByte (CHR ''.'') (CHR ''_'') p)) leafFields"
    using env_path_chars unfolding list_all_iff no_capital_def by blast
qed (code_simp, simp add: leafFields_def ReplaceByte_def)

lemma envVarName_inj: "envVarName p = envVarName q \<Longrightarrow> no_capital (ReplaceByte (CHR ''.'') (CHR ''_'') p) \<Longrightarrow>
    no_capital (ReplaceByte (CHR ''.'') (CHR ''_'') q) \<Longrightarrow> ReplaceByte (CHR ''.'') (CHR ''_'') p = ReplaceByte (CHR ''.'') (CHR ''_'') q"
  using lower_upper [of "ReplaceByte (CHR ''.'') (CHR ''_'') p"] lower_upper [of "ReplaceByte (CHR ''.'') (CHR ''_'') q"]
  by (simp add: envVarName_def)

lemma env_names_distinct: "distinct (map (\<lambda>(p, kind). envVarName p) leafFields)"
proof -
  let ?r = "\<lambda>(p, kind). ReplaceByte (CHR ''.'') (CHR ''_'') p"
  have "inj_on ?r (set leafFields)" "distinct leafFields" using env_paths(2) by (simp_all add: distinct_map)
  moreover have "?r x = ?r y" if "(\<lambda>(p, kind). envVarName p) x = (\<lambda>(p, kind). envVarName p) y" "x \<in> set leafFields" "y \<in> set leafFields" for x y
  proof -
    obtain p kind q kind' where xy: "x = (p, kind)" "y = (q, kind')" by (cases x, cases y) auto
    have "no_capital (ReplaceByte (CHR ''.'') (CHR ''_'') p)" "no_capital (ReplaceByte (CHR ''.'') (CHR ''_'') q)"
      using that(2,3) env_paths(1) unfolding list_all_iff xy by blast+
    then show ?thesis using that(1) envVarName_inj [of p q] by (simp add: xy)
  qed
  ultimately show ?thesis unfolding distinct_map inj_on_def by meson
qed

lemma env_names_config: "list_all (\<lambda>(p, kind). envVarName p \<noteq> envPrefix @ ''CONFIG'') leafFields"
proof -
  have "envPrefix @ ''CONFIG'' = envVarName ''config''" "no_capital (ReplaceByte (CHR ''.'') (CHR ''_'') ''config'')"
    "ReplaceByte (CHR ''.'') (CHR ''_'') ''config'' = ''config''" by code_simp+
  then show ?thesis using env_paths(1,3) envVarName_inj [of _ "''config''"] unfolding list_all_iff by force
qed

lemma layers_typed:
  "list_all (\<lambda>(p, kind). case (map_of defaults p, map_of flagSet (flag_name p)) of
     (Some v, Some (d, u)) \<Rightarrow> default_kind kind v \<and> has_kind kind d | _ \<Rightarrow> False) leafFields"
  by code_simp

lemma parse_kind: "parseFieldValue pd kind raw = Some v \<Longrightarrow> has_kind kind v"
  by (cases kind) (auto simp: parseFieldValue_def split: if_splits)

definition env_value :: "(string \<Rightarrow> duration option) \<Rightarrow> environ \<Rightarrow> (string \<times> field_kind) list \<Rightarrow> string \<Rightarrow> setting option" where
  "env_value pd env fs p = (case (map_of fs p, env (envVarName p)) of
     (Some kind, Some raw) \<Rightarrow> parseFieldValue pd kind raw | _ \<Rightarrow> None)"

lemma env_layer_ConsE:
  assumes "env_layer pd env ((path, kind) # fs) = Inr m"
  obtains "env (envVarName path) = None" "env_layer pd env fs = Inr m"
    | raw v m' where "env (envVarName path) = Some raw" "parseFieldValue pd kind raw = Some v" "env_layer pd env fs = Inr m'" "m = (path, v) # m'"
  using assms by (cases "env_layer pd env fs") (auto split: option.splits)

lemma env_layer_paths: "env_layer pd env fs = Inr m \<Longrightarrow> set (map fst m) \<subseteq> set (map fst fs)"
proof (induction fs arbitrary: m)
  case (Cons f fs)
  obtain path kind where f: "f = (path, kind)" by (cases f)
  from Cons.prems [unfolded f] show ?case
  proof (cases rule: env_layer_ConsE)
    case 1
    then show ?thesis using Cons.IH [OF 1(2)] by (auto simp: f)
  next
    case (2 raw v m')
    then show ?thesis using Cons.IH [OF 2(3)] by (auto simp: f)
  qed
qed simp

lemma env_layer_values:
  assumes "env_layer pd env fs = Inr m" "distinct (map fst fs)"
  shows "map_of m p = env_value pd env fs p"
  using assms
proof (induction fs arbitrary: m)
  case Nil
  then show ?case by (simp add: env_value_def)
next
  case (Cons f fs)
  obtain path kind where f: "f = (path, kind)" by (cases f)
  have n: "map_of fs path = None" using Cons.prems(2) by (simp add: f map_of_eq_None_iff)
  from Cons.prems(1) [unfolded f] show ?case
  proof (cases rule: env_layer_ConsE)
    case 1
    then show ?thesis using Cons.IH [OF 1(2)] Cons.prems(2) n by (auto simp: f env_value_def)
  next
    case (2 raw v m')
    then show ?thesis using Cons.IH [OF 2(3)] Cons.prems(2) n by (auto simp: f env_value_def)
  qed
qed

lemma env_layer_parses:
  "env_layer pd env fs = Inr m \<Longrightarrow> \<forall>(p, kind) \<in> set fs. \<forall>raw. env (envVarName p) = Some raw \<longrightarrow> parseFieldValue pd kind raw \<noteq> None"
proof (induction fs arbitrary: m)
  case (Cons f fs)
  obtain path kind where f: "f = (path, kind)" by (cases f)
  from Cons.prems [unfolded f] show ?case
  proof (cases rule: env_layer_ConsE)
    case 1
    then show ?thesis using Cons.IH [OF 1(2)] by (simp add: f)
  next
    case (2 raw v m')
    then show ?thesis using Cons.IH [OF 2(3)] by (simp add: f)
  qed
qed simp

lemma defaults_paths: "map fst defaults = map fst leafFields"
  by (simp add: defaults_def leafFields_def)

lemma env_layer_error:
  assumes "env_layer pd env fs = Inl err"
  shows "\<exists>(p, kind) \<in> set fs. \<exists>raw. env (envVarName p) = Some raw \<and> parseFieldValue pd kind raw = None \<and> err = ErrEnv (envVarName p)"
  using assms
proof (induction fs)
  case (Cons f fs)
  obtain path kind where f: "f = (path, kind)" by (cases f)
  show ?case
  proof (cases "env_layer pd env fs = Inl err")
    case True
    then show ?thesis using Cons.IH by auto
  next
    case False
    then have "\<exists>raw. env (envVarName path) = Some raw \<and> parseFieldValue pd kind raw = None \<and> err = ErrEnv (envVarName path)"
      using Cons.prems by (cases "env_layer pd env fs") (auto simp: f split: option.splits)
    then show ?thesis by (auto simp: f)
  qed
qed simp

text \<open>C22. Every layer of the configuration gives each setting a value of its type, or the text of one: each setting has a
  default and a flag, the environment gives it the value its own variable spells, and only that one, since no two
  settings share a variable and none is called like the variable of the file. A variable that spells no value of the type stops the start, and is named.\<close>

theorem every_layer_is_typed:
  "list_all (\<lambda>(p, kind). case (map_of defaults p, map_of flagSet (flag_name p)) of
     (Some v, Some (d, u)) \<Rightarrow> default_kind kind v \<and> has_kind kind d | _ \<Rightarrow> False) leafFields \<and>
   distinct (map (\<lambda>(p, kind). envVarName p) leafFields) \<and>
   list_all (\<lambda>(p, kind). envVarName p \<noteq> envPrefix @ ''CONFIG'') leafFields \<and>
   (case envOverrides pd env of
      Inr m \<Rightarrow> map_of m = env_value pd env leafFields \<and> list_all (\<lambda>(p, v). \<exists>kind. map_of leafFields p = Some kind \<and> has_kind kind v) m
    | Inl err \<Rightarrow> \<exists>p kind raw. (p, kind) \<in> set leafFields \<and> env (envVarName p) = Some raw \<and> parseFieldValue pd kind raw = None \<and>
        err = ErrEnv (envVarName p))"
proof -
  have "list_all (\<lambda>(p, v). \<exists>kind. map_of leafFields p = Some kind \<and> has_kind kind v) m" if "env_layer pd env fs = Inr m" "set fs \<subseteq> set leafFields" for fs m
    using that
  proof (induction fs arbitrary: m)
    case (Cons f fs)
    obtain path kind where f: "f = (path, kind)" by (cases f)
    then have leaf: "map_of leafFields path = Some kind" using Cons.prems(2) leaf_distinct by simp
    from Cons.prems(1) [unfolded f] show ?case
    proof (cases rule: env_layer_ConsE)
      case 1
      then show ?thesis using Cons.IH [OF 1(2)] Cons.prems(2) by simp
    next
      case (2 raw v m')
      then show ?thesis using Cons.IH [OF 2(3)] Cons.prems(2) leaf parse_kind [OF 2(2)] by simp
    qed
  qed simp
  then show ?thesis
    using layers_typed env_names_distinct env_names_config env_layer_values [OF _ leaf_distinct, of pd env] env_layer_error [of pd env leafFields]
    by (fastforce simp: envOverrides_def split: sum.split)
qed

subsection \<open>Precedence\<close>

text \<open>What koanf promises of a store, read by \<open>get\<close>: loading a map gives its values to its paths and leaves the other
  paths; the provider of flags gives a flag that was passed, or whose path has no value, to the path of its key.\<close>

definition koanf_ok :: "'k config_lib \<Rightarrow> ('k \<Rightarrow> string \<Rightarrow> setting option) \<Rightarrow> bool" where
  "koanf_ok lib get \<longleftrightarrow>
    (\<forall>m k p. set (map fst m) \<subseteq> set (map fst leafFields) \<and> p \<in> set (map fst leafFields) \<longrightarrow>
       get (k_Load lib m k) p = (case map_of m p of Some v \<Rightarrow> Some v | None \<Rightarrow> get k p)) \<and>
    (\<forall>given k p. p \<in> set (map fst leafFields) \<longrightarrow>
       get (k_Flags lib flagKey (parsed_flags given) k) p =
         (case find (\<lambda>f. flagKey (fl_Name f) = p \<and> (fl_Changed f \<or> get k p = None)) (parsed_flags given) of
            Some f \<Rightarrow> Some (fl_Value f) | None \<Rightarrow> get k p))"

lemma flag_keys:
  "list_all (\<lambda>(p, kind). filter (\<lambda>(n, d, u). flagKey n = p) flagSet =
     (if CHR ''_'' \<in> set p then [] else case map_of flagSet (flag_name p) of Some (d, u) \<Rightarrow> [(flag_name p, d, u)] | None \<Rightarrow> [])) leafFields"
  by code_simp

lemma find_filter: "find P xs = (case filter P xs of [] \<Rightarrow> None | x # _ \<Rightarrow> Some x)"
  by (induction xs) auto

lemma flag_of_setting:
  assumes "(p, kind) \<in> set leafFields" "given_value \<noteq> None"
  shows "find (\<lambda>f. flagKey (fl_Name f) = p \<and> (fl_Changed f \<or> given_value = None)) (parsed_flags given) =
    (if CHR ''_'' \<in> set p then None else map_option (\<lambda>v. \<lparr>fl_Name = flag_name p, fl_Value = v, fl_Changed = True\<rparr>) (map_of given (flag_name p)))"
proof -
  have k: "filter (\<lambda>(n, d, u). flagKey n = p) flagSet =
     (if CHR ''_'' \<in> set p then [] else case map_of flagSet (flag_name p) of Some (d, u) \<Rightarrow> [(flag_name p, d, u)] | None \<Rightarrow> [])"
    using flag_keys assms(1) by (auto simp: list_all_iff)
  obtain d u where du: "map_of flagSet (flag_name p) = Some (d, u)"
    using layers_typed assms(1) by (fastforce simp: list_all_iff split: option.splits)
  have "filter (\<lambda>f. flagKey (fl_Name f) = p \<and> (fl_Changed f \<or> given_value = None)) (parsed_flags given) =
      filter fl_Changed (map (\<lambda>(n, d, u). \<lparr>fl_Name = n, fl_Value = (case map_of given n of None \<Rightarrow> d | Some v \<Rightarrow> v), fl_Changed = (map_of given n \<noteq> None)\<rparr>)
        (filter (\<lambda>(n, d, u). flagKey n = p) flagSet))"
    using assms(2) unfolding parsed_flags_def filter_map filter_filter comp_def
    by (intro arg_cong [where f = "map _"] filter_cong) auto
  then show ?thesis unfolding find_filter k by (simp add: du split: option.split)
qed

text \<open>C21. The precedence of the configuration: with what koanf promises, after a successful load each setting that the
  defaults or the file give a value has the value of its environment variable when that is set, and
  otherwise of the file over the defaults. A flag comes first, but only for a setting without an underscore: \<open>flagKey\<close>
  turns every dash into a dot, so that \<^verbatim>\<open>--server-base-url\<close>, \<^verbatim>\<open>--forward-auth-enabled\<close> and the other flags of
  settings with an underscore go to a key nobody reads.\<close>

theorem configuration_precedence:
  assumes "koanf_ok lib get" "load_layers lib args env = Inr (k, path)" "(p, kind) \<in> set leafFields"
  shows "\<exists>given kf. k_ParseFlags lib flagSet args = Some (given, []) \<and> path = config_path given env \<and>
    load_file lib path (k_Load lib defaults (k_New lib)) = Inr kf \<and>
    (get kf p \<noteq> None \<longrightarrow> get k p =
       (case (if CHR ''_'' \<in> set p then None else map_of given (flag_name p)) of
          Some v \<Rightarrow> Some v
        | None \<Rightarrow> (case env (envVarName p) of
            Some raw \<Rightarrow> parseFieldValue (k_ParseDuration lib) kind raw
          | None \<Rightarrow> get kf p))) \<and>
    (path = '''' \<longrightarrow> get kf p = map_of defaults p)"
proof -
  from assms(2) obtain given where given: "k_ParseFlags lib flagSet args = Some (given, [])"
    by (auto simp: load_layers_def Let_def split: option.splits list.splits)
  with assms(2) obtain kf m where kf: "load_file lib path (k_Load lib defaults (k_New lib)) = Inr kf" and path: "path = config_path given env"
    and m: "env_layer (k_ParseDuration lib) env leafFields = Inr m" and k: "k = k_Flags lib flagKey (parsed_flags given) (k_Load lib m kf)"
    by (auto simp: load_layers_def envOverrides_def Let_def split: sum.splits)
  have p: "p \<in> set (map fst leafFields)" using assms(3) by force
  have sub: "set (map fst m) \<subseteq> set (map fst leafFields)" by (rule env_layer_paths [OF m])
  have kind: "map_of leafFields p = Some kind" using assms(3) leaf_distinct by simp
  have env: "get (k_Load lib m kf) p = (case env_value (k_ParseDuration lib) env leafFields p of Some v \<Rightarrow> Some v | None \<Rightarrow> get kf p)"
    using assms(1) sub p env_layer_values [OF m leaf_distinct] by (simp add: koanf_ok_def)
  have raw: "parseFieldValue (k_ParseDuration lib) kind raw \<noteq> None" if "env (envVarName p) = Some raw" for raw
    using m assms(3) that env_layer_parses [OF m] by blast
  have "get k p = (case (if CHR ''_'' \<in> set p then None else map_of given (flag_name p)) of Some v \<Rightarrow> Some v
        | None \<Rightarrow> (case env (envVarName p) of Some raw \<Rightarrow> parseFieldValue (k_ParseDuration lib) kind raw | None \<Rightarrow> get kf p))"
    if some: "get kf p \<noteq> None"
  proof -
    have ne: "get (k_Load lib m kf) p \<noteq> None" using some by (simp add: env split: option.split)
    have "get k p = (case find (\<lambda>f. flagKey (fl_Name f) = p \<and> (fl_Changed f \<or> get (k_Load lib m kf) p = None)) (parsed_flags given) of
        Some f \<Rightarrow> Some (fl_Value f) | None \<Rightarrow> get (k_Load lib m kf) p)"
      using assms(1) p by (simp only: koanf_ok_def k)
    then show ?thesis unfolding flag_of_setting [OF assms(3) ne]
      using raw by (auto simp: env env_value_def kind split: option.split)
  qed
  moreover have "get kf p = map_of defaults p" if "path = ''''"
  proof -
    have "kf = k_Load lib defaults (k_New lib)" using kf that by (simp add: load_file_def)
    moreover have "set (map fst defaults) \<subseteq> set (map fst leafFields)" unfolding defaults_paths by simp
    moreover have "map_of defaults p \<noteq> None"
      using p unfolding defaults_paths [symmetric] by (simp add: map_of_eq_None_iff)
    ultimately show ?thesis using assms(1) p by (auto simp: koanf_ok_def)
  qed
  ultimately show ?thesis using given path kf by blast
qed

text \<open>A store that is a list of settings.\<close>

definition list_lib :: "layer config_lib" where
  "list_lib = \<lparr>k_New = [], k_Load = (@), k_File = (\<lambda>_ _. None),
     k_Flags = (\<lambda>key fl k. map (\<lambda>f. (key (fl_Name f), fl_Value f)) (filter (\<lambda>f. fl_Changed f \<or> map_of k (key (fl_Name f)) = None) fl) @ k),
     k_Unmarshal = (\<lambda>_. None), k_ParseFlags = (\<lambda>_ args. Some (map (\<lambda>a. (a, VStr ''x'')) args, [])), k_ParseDuration = (\<lambda>_. None)\<rparr>"

lemma list_lib_ok: "koanf_ok list_lib map_of"
proof -
  have "map_of (map (\<lambda>f. (flagKey (fl_Name f), fl_Value f)) (filter (\<lambda>f. fl_Changed f \<or> map_of k (flagKey (fl_Name f)) = None) fl) @ k) p =
      (case find (\<lambda>f. flagKey (fl_Name f) = p \<and> (fl_Changed f \<or> map_of k p = None)) fl of Some f \<Rightarrow> Some (fl_Value f) | None \<Rightarrow> map_of k p)"
    for fl and k :: layer and p
    by (induction fl) (auto split: option.split)
  then show ?thesis unfolding koanf_ok_def list_lib_def config_lib.select_convs
    by (intro conjI allI impI) (simp_all only: map_of_append map_add_def)
qed

theorem configuration_precedence_witness:
  "\<exists>k. load_layers list_lib [''server-listen'', ''server-base-url''] (\<lambda>_. None) = Inr (k, '''') \<and>
     map_of k ''server.listen'' = Some (VStr ''x'') \<and> map_of k ''server.base_url'' = Some (VStr '''')"
proof -
  let ?args = "[''server-listen'', ''server-base-url'']"
  have "\<exists>k. load_layers list_lib ?args (\<lambda>_. None) = Inr (k, '''')"
    by (simp add: load_layers_def list_lib_def config_path_def load_file_def envOverrides_def leafFields_def)
  then obtain k where k: "load_layers list_lib ?args (\<lambda>_. None) = Inr (k, '''')" by blast
  have leaf: "(''server.listen'', KString) \<in> set leafFields" "(''server.base_url'', KString) \<in> set leafFields" by (simp_all add: leafFields_def)
  have d: "map_of defaults ''server.listen'' = Some (VStr '':8080'')" "map_of defaults ''server.base_url'' = Some (VStr '''')" by (simp_all add: defaults_def)
  have f: "flag_name ''server.listen'' = ''server-listen''" "CHR ''_'' \<notin> set ''server.listen''" "CHR ''_'' \<in> set ''server.base_url''" by code_simp+
  show ?thesis
    using configuration_precedence [OF list_lib_ok k leaf(1)] configuration_precedence [OF list_lib_ok k leaf(2)] k
    by (auto simp: d f list_lib_def)
qed

end
