(* ===== verification/Config_Validate.thy ===== *)
theory Config_Validate
  imports Config
begin

text \<open>
  Secrets and the checks before the start, \<^verbatim>\<open>src/internal/config/secret.go\<close>, \<^verbatim>\<open>src/internal/config/validate.go\<close> and
  \<^verbatim>\<open>src/internal/domain/scan_origin.go\<close>, with \<open>Load\<close>, and what \<^verbatim>\<open>src/cmd/qurator/main.go\<close> passes of the configuration to the
  authenticator, the code service and the renderer. \<open>url.Parse\<close>, \<open>URL.String\<close> and \<open>net.ParseIP\<close> are arguments.
\<close>

subsection \<open>Secrets\<close>

definition redacted :: string where "redacted = ''***''"

definition Secret_String :: "string \<Rightarrow> string" where
  "Secret_String s = (if s = '''' then '''' else redacted)"

definition GoString :: "string \<Rightarrow> string" where
  "GoString s = (if s = '''' then ''config.Secret(\"\")'' else ''config.Secret(\"'' @ redacted @ ''\")'')"

definition MarshalJSON :: "string \<Rightarrow> string" where
  "MarshalJSON s = (if s = '''' then ''\"\"'' else ''\"'' @ redacted @ ''\"'')"

definition MarshalText :: "string \<Rightarrow> string" where
  "MarshalText s = (if s = '''' then '''' else redacted)"

definition LogValue :: "string \<Rightarrow> string" where
  "LogValue s = (if s = '''' then '''' else redacted)"

definition Reveal :: "string \<Rightarrow> string" where "Reveal s = s"
definition IsSet :: "string \<Rightarrow> bool" where "IsSet s = (s \<noteq> '''')"

text \<open>Nothing that is written for a set secret depends on its value.\<close>

lemma secrets_are_blind:
  "IsSet s \<Longrightarrow> IsSet t \<Longrightarrow>
   Secret_String s = Secret_String t \<and> GoString s = GoString t \<and> MarshalJSON s = MarshalJSON t \<and> MarshalText s = MarshalText t \<and> LogValue s = LogValue t"
  by (simp add: IsSet_def Secret_String_def GoString_def MarshalJSON_def MarshalText_def LogValue_def)

subsection \<open>The origin of scan addresses\<close>

text \<open>A URL with the parts \<open>ParseScanOrigin\<close> refuses; \<open>uf_User\<close> says whether there is user information.\<close>

record full_url = url +
  uf_User :: bool
  uf_RawPath :: string
  uf_RawQuery :: string
  uf_ForceQuery :: bool

record url_lib =
  ul_Parse :: "string \<Rightarrow> full_url option"
  ul_String :: "full_url \<Rightarrow> string"
  ul_net :: netlib

definition base_url :: "full_url \<Rightarrow> url" where
  "base_url u = \<lparr>u_Scheme = u_Scheme u, u_Host = u_Host u, u_Path = u_Path u\<rparr>"

definition bad_origin :: "string \<Rightarrow> full_url \<Rightarrow> bool" where
  "bad_origin raw u \<longleftrightarrow>
    u_Scheme u \<noteq> ''http'' \<and> u_Scheme u \<noteq> ''https'' \<or> Hostname (base_url u) = '''' \<or>
    uf_User u \<or> u_Path u \<noteq> '''' \<and> u_Path u \<noteq> ''/'' \<or> uf_RawPath u \<noteq> '''' \<or>
    uf_RawQuery u \<noteq> '''' \<or> uf_ForceQuery u \<or> CHR ''#'' \<in> set raw \<or> HasSuffix (u_Host u) '':''"

definition bad_port :: "string \<Rightarrow> bool" where
  "bad_port port \<longleftrightarrow> port \<noteq> '''' \<and> (case Atoi port of None \<Rightarrow> True | Some n \<Rightarrow> n < 1 \<or> 65535 < n)"

definition bad_ip :: "url_lib \<Rightarrow> string \<Rightarrow> bool" where
  "bad_ip lib host \<longleftrightarrow> CHR '':'' \<in> set host \<and> nt_ParseIP (ul_net lib) host = None"

definition ParseScanOrigin :: "url_lib \<Rightarrow> string \<Rightarrow> string + full_url option" where
  "ParseScanOrigin lib raw =
    (if raw = '''' then Inr None
     else case ul_Parse lib raw of
       None \<Rightarrow> Inl ''must be an absolute http or https origin without credentials, path prefix, query, or fragment''
     | Some u \<Rightarrow>
         if bad_origin raw u
         then Inl ''must be an absolute http or https origin without credentials, path prefix, query, or fragment''
         else if bad_port (Port (base_url u)) then Inl ''port must be between 1 and 65535''
         else if bad_ip lib (Hostname (base_url u)) then Inl ''invalid IP host''
         else Inr (Some (u\<lparr>u_Path := ''''\<rparr>)))"

subsection \<open>Validation\<close>

datatype config_error =
    BadBaseURL string
  | NoDataDir
  | NoTrustedCIDRs
  | TrustsEveryPeer string
  | InvalidCIDR string
  | BadDBDriver string
  | BadBlobDriver string
  | NoS3Endpoint
  | NoS3Bucket
  | NoSchemes
  | SchemeNotLower string
  | BadBatchMax int
  | BadBatchWorkers int
  | BadURLMode string
  | ModeNeedsS3 string string
  | NoPublicBaseURL
  | PublicBaseURLUnparsed string
  | PublicBaseURLNotAbsolute string
  | BadPresignTTL duration
  | NoImageReachable
  | BadMaxPx int
  | BadMaxDuration duration
  | BadMaxPayload int
  | BadRetention int
  | HalfBootstrap
  | BadLogLevel string

text \<open>\<open>IPMask.Size\<close>: the number of leading ones, and 0 for a mask that is not ones followed by zeros.\<close>

definition mask_bits :: "bytes \<Rightarrow> bool list" where
  "mask_bits m = concat (map (\<lambda>c. map (\<lambda>i. bit (byte c) (7 - i)) [0..<8]) m)"

definition mask_ones :: "bytes \<Rightarrow> nat" where
  "mask_ones m = (if True \<in> set (dropWhile id (mask_bits m)) then 0 else length (takeWhile id (mask_bits m)))"

definition validDBDrivers :: "string list" where "validDBDrivers = [''sqlite'', ''postgres'']"
definition validBlobDrivers :: "string list" where "validBlobDrivers = [''fs'', ''s3'']"
definition validURLModes :: "string list" where "validURLModes = [''instance'', ''public'', ''presigned'']"

definition parseLogLevel :: "string \<Rightarrow> string option" where
  "parseLogLevel level = (let l = strings_ToLower level in if l \<in> {''debug'', ''info'', ''warn'', ''error''} then Some l else None)"

text \<open>An error when a condition holds.\<close>

definition unless :: "'e \<Rightarrow> bool \<Rightarrow> 'e list" where
  "unless e b = (if b then [e] else [])"

definition check_cidr :: "url_lib \<Rightarrow> string \<Rightarrow> config_error list" where
  "check_cidr lib cidr = (case nt_ParseCIDR (ul_net lib) cidr of
     Some (ip, m) \<Rightarrow> unless (TrustsEveryPeer cidr) (mask_ones m = 0)
   | None \<Rightarrow> [InvalidCIDR cidr])"

definition check_public_base :: "url_lib \<Rightarrow> string \<Rightarrow> config_error list \<times> string" where
  "check_public_base lib raw =
    (if raw = '''' then ([], raw)
     else case ul_Parse lib raw of
       None \<Rightarrow> ([PublicBaseURLUnparsed raw], raw)
     | Some u \<Rightarrow> if u_Scheme u \<noteq> ''http'' \<and> u_Scheme u \<noteq> ''https'' \<or> u_Host u = '''' then ([PublicBaseURLNotAbsolute raw], raw)
         else ([], TrimRightByte raw (CHR ''/'')))"

definition validateImages :: "url_lib \<Rightarrow> config \<Rightarrow> config_error list \<times> config" where
  "validateImages lib c =
    (let im = cf_Images c; mode = im_URLMode im in
     if mode \<notin> set validURLModes then ([BadURLMode mode], c)
     else
       let (errs, base) = check_public_base lib (im_PublicBaseURL im) in
       (unless (ModeNeedsS3 mode (blc_Driver (cf_Blob c))) (mode \<noteq> ''instance'' \<and> blc_Driver (cf_Blob c) \<noteq> ''s3'') @
        unless NoPublicBaseURL (mode = ''public'' \<and> im_PublicBaseURL im = '''') @ errs @
        unless (BadPresignTTL (im_PresignTTL im)) (im_PresignTTL im \<le> 0) @
        unless NoImageReachable (\<not> im_ServeViaInstance im \<and> mode = ''instance''),
        c\<lparr>cf_Images := im\<lparr>im_PublicBaseURL := base\<rparr>\<rparr>))"

definition Validate :: "url_lib \<Rightarrow> config \<Rightarrow> config_error list \<times> config" where
  "Validate lib c =
    (let (errs, c) = (case ParseScanOrigin lib (srv_BaseURL (cf_Server c)) of
           Inl err \<Rightarrow> ([BadBaseURL err], c)
         | Inr None \<Rightarrow> ([], c)
         | Inr (Some origin) \<Rightarrow> ([], c\<lparr>cf_Server := (cf_Server c)\<lparr>srv_BaseURL := ul_String lib origin\<rparr>\<rparr>));
         au = cf_Auth c; fwd = cf_ForwardAuth c; bl = cf_Blob c; co = cf_Codes c; re = cf_Render c;
         errs = errs @
           unless NoDataDir (\<not> ac_DevMode au \<and> \<not> IsSet (ac_SigningSecret au) \<and> srv_DataDir (cf_Server c) = '''') @
           unless NoTrustedCIDRs (fwd_Enabled fwd \<and> fwd_TrustedCIDRs fwd = []) @
           concat (map (check_cidr lib) (fwd_TrustedCIDRs fwd)) @
           unless (BadDBDriver (dbc_Driver (cf_DB c))) (dbc_Driver (cf_DB c) \<notin> set validDBDrivers) @
           unless (BadBlobDriver (blc_Driver bl)) (blc_Driver bl \<notin> set validBlobDrivers) @
           unless NoS3Endpoint (blc_Driver bl = ''s3'' \<and> s3_Endpoint (blc_S3 bl) = '''') @
           unless NoS3Bucket (blc_Driver bl = ''s3'' \<and> s3_Bucket (blc_S3 bl) = '''') @
           unless NoSchemes (cc_AllowedSchemes co = []) @
           concat (map (\<lambda>s. unless (SchemeNotLower s) (s \<noteq> strings_ToLower s)) (cc_AllowedSchemes co)) @
           unless (BadBatchMax (cc_BatchMax co)) (cc_BatchMax co < 1 \<or> 5000 < cc_BatchMax co) @
           unless (BadBatchWorkers (cc_BatchWorkers co)) (cc_BatchWorkers co < 1 \<or> 64 < cc_BatchWorkers co);
         (imgs, c) = validateImages lib c;
         errs = errs @ imgs @
           unless (BadMaxPx (rc_MaxPx re)) (rc_MaxPx re \<le> 0) @
           unless (BadMaxDuration (rc_MaxDuration re)) (rc_MaxDuration re \<le> 0) @
           unless (BadMaxPayload (rc_MaxPayloadBytes re)) (rc_MaxPayloadBytes re \<le> 0) @
           unless (BadRetention (an_RetentionDays (cf_Analytics c))) (an_RetentionDays (cf_Analytics c) < 1) @
           unless HalfBootstrap ((ac_BootstrapEmail au \<noteq> '''') \<noteq> IsSet (ac_BootstrapPassword au)) @
           unless (BadLogLevel (lg_Level (cf_Log c))) (parseLogLevel (lg_Level (cf_Log c)) = None)
     in (errs, c))"

definition Load :: "'k config_lib \<Rightarrow> url_lib \<Rightarrow> string list \<Rightarrow> environ \<Rightarrow> load_error + config" where
  "Load lib ul args env =
    (case load_layers lib args env of
       Inl err \<Rightarrow> Inl err
     | Inr (k, path) \<Rightarrow> (case k_Unmarshal lib k of
         None \<Rightarrow> Inl ErrUnmarshal
       | Some cfg \<Rightarrow> (case Validate ul (cfg\<lparr>cf_ConfigFile := path\<rparr>) of
           ([], cfg) \<Rightarrow> Inr cfg
         | (_ # _, _) \<Rightarrow> Inl ErrInvalid)))"

subsection \<open>What the command passes on\<close>

definition auth_options_of :: "config \<Rightarrow> string \<Rightarrow> auth_options" where
  "auth_options_of c secret = \<lparr>ao_SigningSecret = secret, ao_BaseURL = srv_BaseURL (cf_Server c), ao_DevMode = ac_DevMode (cf_Auth c),
     ao_SessionTTL = ac_SessionTTL (cf_Auth c), ao_TokenPepper = '''', ao_FwdEnabled = fwd_Enabled (cf_ForwardAuth c),
     ao_FwdHeader = fwd_Header (cf_ForwardAuth c), ao_TrustedCIDRs = fwd_TrustedCIDRs (cf_ForwardAuth c), ao_CacheTTL = 0\<rparr>"

definition svc_config_of :: "config \<Rightarrow> svc_config" where
  "svc_config_of c = \<lparr>cfg_AllowedSchemes = cc_AllowedSchemes (cf_Codes c), cfg_URLMode = im_URLMode (cf_Images c),
     cfg_PublicBaseURL = im_PublicBaseURL (cf_Images c), cfg_PresignTTL = im_PresignTTL (cf_Images c), cfg_BatchMax = cc_BatchMax (cf_Codes c)\<rparr>"

definition bounds_of :: "config \<Rightarrow> bounds" where
  "bounds_of c = \<lparr>MaxPx = rc_MaxPx (cf_Render c), MaxDuration = rc_MaxDuration (cf_Render c), MaxPayload = rc_MaxPayloadBytes (cf_Render c)\<rparr>"

text \<open>The base \<open>NewService\<close> parses.\<close>

definition service_base :: "url_lib \<Rightarrow> string \<Rightarrow> (url \<times> string) option" where
  "service_base lib raw = (case ParseScanOrigin lib raw of Inr (Some u) \<Rightarrow> Some (base_url u, ul_String lib u) | _ \<Rightarrow> None)"

subsection \<open>A configuration that passes\<close>

text \<open>What \<open>URL.String\<close> promises of an origin: an origin that was parsed from a text without \<open>#\<close>, its path cleared, is
  printed as a text that is parsed back to it.\<close>

definition urls_ok :: "url_lib \<Rightarrow> bool" where
  "urls_ok lib \<longleftrightarrow> (\<forall>raw u. ParseScanOrigin lib raw = Inr (Some u) \<longrightarrow>
     ul_Parse lib (ul_String lib u) = Some u \<and> ul_String lib u \<noteq> '''' \<and> CHR ''#'' \<notin> set (ul_String lib u))"

lemma unless_Nil [simp]: "unless e b = [] \<longleftrightarrow> \<not> b"
  by (simp add: unless_def)

lemma origin_again:
  assumes "urls_ok lib" "ParseScanOrigin lib raw = Inr (Some u)"
  shows "ParseScanOrigin lib (ul_String lib u) = Inr (Some u)" "u_Scheme u \<in> {''http'', ''https''}" "u_Path u = ''''"
proof -
  have s: "ul_Parse lib (ul_String lib u) = Some u" "ul_String lib u \<noteq> ''''" "CHR ''#'' \<notin> set (ul_String lib u)"
    using assms by (auto simp: urls_ok_def)
  from assms(2) obtain v where v: "u = v\<lparr>u_Path := ''''\<rparr>" "\<not> bad_origin raw v" "\<not> bad_port (Port (base_url v))" "\<not> bad_ip lib (Hostname (base_url v))"
    unfolding ParseScanOrigin_def by (auto split: if_splits option.splits)
  have same: "Hostname (base_url u) = Hostname (base_url v)" "Port (base_url u) = Port (base_url v)"
    by (simp_all add: v(1) base_url_def Hostname_def Port_def)
  have u: "u\<lparr>u_Path := ''''\<rparr> = u" by (simp add: v(1))
  have "\<not> bad_origin (ul_String lib u) u"
    using v(2) s(3) unfolding bad_origin_def same by (simp add: v(1))
  then show "ParseScanOrigin lib (ul_String lib u) = Inr (Some u)"
    using s v(3,4) u unfolding ParseScanOrigin_def by (simp add: same)
  show "u_Scheme u \<in> {''http'', ''https''}" "u_Path u = ''''" using v(1,2) by (auto simp: bad_origin_def)
qed

lemma validateImages_ok:
  assumes "validateImages lib c = ([], c')"
  shows "c' = c\<lparr>cf_Images := (cf_Images c)\<lparr>im_PublicBaseURL := TrimRightByte (im_PublicBaseURL (cf_Images c)) (CHR ''/'')\<rparr>\<rparr>"
    "im_URLMode (cf_Images c) \<in> {''instance'', ''public'', ''presigned''}"
    "im_URLMode (cf_Images c) \<noteq> ''instance'' \<Longrightarrow> blc_Driver (cf_Blob c) = ''s3''"
    "im_URLMode (cf_Images c) = ''public'' \<Longrightarrow> im_PublicBaseURL (cf_Images c) \<noteq> ''''"
    "0 < im_PresignTTL (cf_Images c)" "im_URLMode (cf_Images c) = ''instance'' \<Longrightarrow> im_ServeViaInstance (cf_Images c)"
proof -
  let ?im = "cf_Images c"
  have m: "im_URLMode ?im \<in> set validURLModes" using assms by (auto simp: validateImages_def Let_def split: if_splits)
  obtain errs base where b: "check_public_base lib (im_PublicBaseURL ?im) = (errs, base)" by (cases "check_public_base lib (im_PublicBaseURL ?im)")
  have e: "errs = []" "c' = c\<lparr>cf_Images := ?im\<lparr>im_PublicBaseURL := base\<rparr>\<rparr>"
    "\<not> (im_URLMode ?im \<noteq> ''instance'' \<and> blc_Driver (cf_Blob c) \<noteq> ''s3'')" "\<not> (im_URLMode ?im = ''public'' \<and> im_PublicBaseURL ?im = '''')"
    "\<not> im_PresignTTL ?im \<le> 0" "\<not> (\<not> im_ServeViaInstance ?im \<and> im_URLMode ?im = ''instance'')"
    using assms m b by (simp_all add: validateImages_def Let_def)
  have "base = TrimRightByte (im_PublicBaseURL ?im) (CHR ''/'')"
    using b e(1) by (auto simp: check_public_base_def TrimRightByte_def split: if_splits option.splits)
  then show "c' = c\<lparr>cf_Images := ?im\<lparr>im_PublicBaseURL := TrimRightByte (im_PublicBaseURL ?im) (CHR ''/'')\<rparr>\<rparr>" using e(2) by simp
  show "im_URLMode ?im \<in> {''instance'', ''public'', ''presigned''}" using m by (simp add: validURLModes_def)
  show "im_URLMode ?im \<noteq> ''instance'' \<Longrightarrow> blc_Driver (cf_Blob c) = ''s3''" "im_URLMode ?im = ''public'' \<Longrightarrow> im_PublicBaseURL ?im \<noteq> ''''"
    "0 < im_PresignTTL ?im" "im_URLMode ?im = ''instance'' \<Longrightarrow> im_ServeViaInstance ?im"
    using e(3-6) by auto
qed

text \<open>The checks, one by one; \<open>normalised_base\<close> is the configuration with the printed origin.\<close>

definition normalised_base :: "url_lib \<Rightarrow> config \<Rightarrow> config" where
  "normalised_base lib c = (case ParseScanOrigin lib (srv_BaseURL (cf_Server c)) of
     Inr (Some origin) \<Rightarrow> c\<lparr>cf_Server := (cf_Server c)\<lparr>srv_BaseURL := ul_String lib origin\<rparr>\<rparr> | _ \<Rightarrow> c)"

lemma normalised_base_simps [simp]:
  "cf_DB (normalised_base lib c) = cf_DB c" "cf_Blob (normalised_base lib c) = cf_Blob c" "cf_Auth (normalised_base lib c) = cf_Auth c"
  "cf_ForwardAuth (normalised_base lib c) = cf_ForwardAuth c" "cf_Codes (normalised_base lib c) = cf_Codes c"
  "cf_Images (normalised_base lib c) = cf_Images c" "cf_Render (normalised_base lib c) = cf_Render c"
  "cf_Analytics (normalised_base lib c) = cf_Analytics c" "cf_Log (normalised_base lib c) = cf_Log c"
  by (simp_all add: normalised_base_def split: sum.split option.split)

lemma Validate_ok:
  assumes "Validate lib c = ([], c')"
  shows "\<exists>origin. ParseScanOrigin lib (srv_BaseURL (cf_Server c)) = Inr origin"
    "validateImages lib (normalised_base lib c) = ([], c')"
    "fwd_Enabled (cf_ForwardAuth c) \<Longrightarrow> fwd_TrustedCIDRs (cf_ForwardAuth c) \<noteq> []"
    "\<forall>cidr \<in> set (fwd_TrustedCIDRs (cf_ForwardAuth c)). check_cidr lib cidr = []"
    "1 \<le> cc_BatchMax (cf_Codes c)" "cc_BatchMax (cf_Codes c) \<le> 5000"
    "0 < rc_MaxPx (cf_Render c)" "0 < rc_MaxPayloadBytes (cf_Render c)"
proof -
  obtain errs c1 where p: "(case ParseScanOrigin lib (srv_BaseURL (cf_Server c)) of
       Inl err \<Rightarrow> ([BadBaseURL err], c) | Inr None \<Rightarrow> ([], c)
     | Inr (Some origin) \<Rightarrow> ([], c\<lparr>cf_Server := (cf_Server c)\<lparr>srv_BaseURL := ul_String lib origin\<rparr>\<rparr>)) = (errs, c1)" by fastforce
  obtain imgs c2 where im: "validateImages lib c1 = (imgs, c2)" by fastforce
  have v: "errs = []" "imgs = []" "c2 = c'" "\<not> (fwd_Enabled (cf_ForwardAuth c1) \<and> fwd_TrustedCIDRs (cf_ForwardAuth c1) = [])"
    "concat (map (check_cidr lib) (fwd_TrustedCIDRs (cf_ForwardAuth c1))) = []"
    "\<not> (cc_BatchMax (cf_Codes c1) < 1 \<or> 5000 < cc_BatchMax (cf_Codes c1))"
    "\<not> rc_MaxPx (cf_Render c1) \<le> 0" "\<not> rc_MaxPayloadBytes (cf_Render c1) \<le> 0"
    using assms unfolding Validate_def p im Let_def prod.case by (simp_all only: im prod.case prod.inject append_is_Nil_conv unless_Nil simp_thms)
  have o1: "\<exists>origin. ParseScanOrigin lib (srv_BaseURL (cf_Server c)) = Inr origin" "c1 = normalised_base lib c"
    using p v(1) by (auto simp: normalised_base_def split: sum.splits option.splits)
  show "\<exists>origin. ParseScanOrigin lib (srv_BaseURL (cf_Server c)) = Inr origin" by (rule o1)
  show "validateImages lib (normalised_base lib c) = ([], c')" using im v(2,3) o1(2) by simp
  show "fwd_Enabled (cf_ForwardAuth c) \<Longrightarrow> fwd_TrustedCIDRs (cf_ForwardAuth c) \<noteq> []"
    "\<forall>cidr \<in> set (fwd_TrustedCIDRs (cf_ForwardAuth c)). check_cidr lib cidr = []"
    "1 \<le> cc_BatchMax (cf_Codes c)" "cc_BatchMax (cf_Codes c) \<le> 5000"
    "0 < rc_MaxPx (cf_Render c)" "0 < rc_MaxPayloadBytes (cf_Render c)"
    using v(4-8) by (simp_all add: o1(2))
qed

lemma TrimRight_again [simp]: "TrimRightByte (TrimRightByte s d) d = TrimRightByte s d"
  by (simp add: TrimRightByte_def)

lemma mapM_parsed:
  assumes "\<forall>cidr \<in> set cidrs. check_cidr lib cidr = []"
  shows "\<exists>nets. mapM (\<lambda>c. case nt_ParseCIDR (ul_net lib) c of
      None \<Rightarrow> Inl (''auth: forward_auth.trusted_cidrs: invalid CIDR '' @ c) | Some n \<Rightarrow> Inr n) cidrs = Inr nets \<and>
    list_all2 (\<lambda>cidr n. nt_ParseCIDR (ul_net lib) cidr = Some n) cidrs nets"
  using assms
proof (induction cidrs)
  case (Cons x xs)
  then obtain nets where "mapM (\<lambda>c. case nt_ParseCIDR (ul_net lib) c of
      None \<Rightarrow> Inl (''auth: forward_auth.trusted_cidrs: invalid CIDR '' @ c) | Some n \<Rightarrow> Inr n) xs = Inr nets"
    "list_all2 (\<lambda>cidr n. nt_ParseCIDR (ul_net lib) cidr = Some n) xs nets" by auto
  then show ?case using Cons.prems by (auto simp: check_cidr_def split: option.splits)
qed simp

lemma trusted_masks:
  assumes "list_all2 (\<lambda>cidr n. nt_ParseCIDR (ul_net lib) cidr = Some n) cidrs nets" "\<forall>cidr \<in> set cidrs. check_cidr lib cidr = []"
  shows "\<forall>(ip, m) \<in> set nets. mask_ones m \<noteq> 0"
  using assms by (induction rule: list_all2_induct) (auto simp: check_cidr_def)


definition example_origin :: full_url where
  "example_origin = \<lparr>u_Scheme = ''https'', u_Host = ''qr.example'', u_Path = '''', uf_User = False, uf_RawPath = '''', uf_RawQuery = '''', uf_ForceQuery = False\<rparr>"

definition example_urls :: url_lib where
  "example_urls = \<lparr>ul_Parse = (\<lambda>s. if s = ''https://qr.example/'' then Some (example_origin\<lparr>u_Path := ''/''\<rparr>)
       else if s = ''https://qr.example'' then Some example_origin else None),
     ul_String = (\<lambda>_. ''https://qr.example''),
     ul_net = \<lparr>nt_SplitHostPort = (\<lambda>_. None), nt_ParseIP = (\<lambda>_. None),
       nt_ParseCIDR = (\<lambda>s. if s = ''10.0.0.0/8'' then Some ([CHR 0x0A, CHR 0x00, CHR 0x00, CHR 0x00], [CHR 0xFF, CHR 0x00, CHR 0x00, CHR 0x00]) else None),
       nt_Contains = (\<lambda>_ _. False)\<rparr>\<rparr>"

definition example_config :: config where
  "example_config = \<lparr>
     cf_Server = \<lparr>srv_Listen = '':8080'', srv_BaseURL = ''https://qr.example/'', srv_MetricsListen = '''', srv_DataDir = ''./data''\<rparr>,
     cf_DB = \<lparr>dbc_Driver = ''sqlite'', dbc_DSN = ''./data/qurator.db''\<rparr>,
     cf_Blob = \<lparr>blc_Driver = ''fs'', blc_Path = ''./data/blobs'', blc_S3 = \<lparr>s3_Endpoint = '''', s3_Bucket = '''', s3_Region = '''',
       s3_AccessKey = '''', s3_SecretKey = '''', s3_UseSSL = True, s3_PathStyle = False\<rparr>\<rparr>,
     cf_Auth = \<lparr>ac_SigningSecret = '''', ac_DevMode = False, ac_BootstrapEmail = '''', ac_BootstrapPassword = '''', ac_SessionTTL = 12 * Hour\<rparr>,
     cf_Ephemeral = \<lparr>ep_Public = False, ep_RateLimitPerMinute = 60\<rparr>,
     cf_ForwardAuth = \<lparr>fwd_Enabled = True, fwd_Header = ''X-Forwarded-Email'', fwd_TrustedCIDRs = [''10.0.0.0/8'']\<rparr>,
     cf_Codes = \<lparr>cc_AllowedSchemes = [''http'', ''https''], cc_FallbackDestination = '''', cc_BatchMax = 500, cc_BatchWorkers = 4\<rparr>,
     cf_Images = \<lparr>im_URLMode = ''instance'', im_PublicBaseURL = '''', im_PresignTTL = Hour, im_ServeViaInstance = True\<rparr>,
     cf_Render = \<lparr>rc_MaxPx = 4096, rc_MaxDuration = 2 * Second, rc_MaxPayloadBytes = 2953\<rparr>,
     cf_Analytics = \<lparr>an_RetentionDays = 365, an_BufferSize = 10000, an_BatchSize = 200, an_FlushInterval = 500000000\<rparr>,
     cf_Log = \<lparr>lg_Level = ''info'', lg_Format = ''json''\<rparr>, cf_ConfigFile = ''''\<rparr>"

lemma example_urls_ok: "urls_ok example_urls"
proof -
  have e: "example_origin\<lparr>u_Path := ''''\<rparr> = example_origin" by (simp add: example_origin_def)
  have "u = example_origin" if "ParseScanOrigin example_urls raw = Inr (Some u)" for raw u
    using that e by (auto simp: ParseScanOrigin_def example_urls_def split: if_splits)
  moreover have "ul_Parse example_urls ''https://qr.example'' = Some example_origin" "\<And>u. ul_String example_urls u = ''https://qr.example''"
    by (simp_all add: example_urls_def)
  ultimately show ?thesis by (auto simp: urls_ok_def)
qed


end
