(* ===== verification/Signing_Key.thy ===== *)
theory Signing_Key
  imports Auth_Props
begin

text \<open>
  The file of the signing secret, \<^verbatim>\<open>src/internal/auth/secret.go\<close>: starts of the program on one data directory as a step
  system. A start moves by one file operation at a time; any number of starts run at once.
\<close>

unbundle bit_operations_syntax

subsection \<open>One start\<close>

definition signingSecretBytes :: nat where "signingSecretBytes = 32"

text \<open>The file may be missing, unreadable, or have a content.\<close>

datatype key_file = Missing | Unreadable | Content string

text \<open>Where a start is: about to read, about to create the file with a drawn secret, with the file open,
  about to remove what it could not write, at the end with a secret (and whether it made it), or failed.\<close>

datatype starter = Reading | Creating string | Writing string | Removing | Started string bool | Refused

text \<open>What the operating system gives a start at a step: whether the directory and the file can be made, the random bytes, and the
  number of bytes after which writing or closing fails.\<close>

record key_io =
  io_mkdir :: bool
  io_rand :: "bytes option"
  io_open :: bool
  io_write :: "nat option"

fun start_step :: "key_io \<Rightarrow> starter \<Rightarrow> key_file \<Rightarrow> starter \<times> key_file" where
  "start_step io Reading (Content raw) =
     (let s = strings_TrimSpace raw in if s = '''' then (Refused, Content raw) else (Started s False, Content raw))"
| "start_step io Reading Unreadable = (Refused, Unreadable)"
| "start_step io Reading Missing =
     (if \<not> io_mkdir io then (Refused, Missing)
      else case io_rand io of
        None \<Rightarrow> (Refused, Missing)
      | Some buf \<Rightarrow> (Creating (base64_EncodeToString base64url buf), Missing))"
| "start_step io (Creating enc) Missing = (if io_open io then (Writing enc, Content '''') else (Refused, Missing))"
| "start_step io (Creating enc) f = (Reading, f)"
| "start_step io (Writing enc) f =
     (case io_write io of
        None \<Rightarrow> (Started enc True, Content (enc @ [CHR 0x0A]))
      | Some n \<Rightarrow> (Removing, Content (take n (enc @ [CHR 0x0A]))))"
| "start_step io Removing f = (Refused, Missing)"
| "start_step io (Started s c) f = (Started s c, f)"
| "start_step io Refused f = (Refused, f)"

text \<open>One start alone, with an operating system that does not change its mind: reading, and creating when the file is missing.\<close>

definition LoadOrCreateSigningSecret :: "key_io \<Rightarrow> key_file \<Rightarrow> starter \<times> key_file" where
  "LoadOrCreateSigningSecret io f = ((\<lambda>(p, f). start_step io p f) ^^ 4) (Reading, f)"

definition SigningSecretFilePermissive :: "nat option \<Rightarrow> bool" where
  "SigningSecretFilePermissive perm = (case perm of None \<Rightarrow> False | Some m \<Rightarrow> m AND 63 \<noteq> 0)"

subsection \<open>Starts together\<close>

text \<open>A step of start \<open>i\<close>; \<open>writes_fail\<close> says whether a write may fail in the run.\<close>

definition io_ok :: "bool \<Rightarrow> key_io \<Rightarrow> bool" where
  "io_ok writes_fail io \<longleftrightarrow> (writes_fail \<or> io_write io = None) \<and> (\<forall>buf. io_rand io = Some buf \<longrightarrow> length buf = signingSecretBytes)"

inductive starts :: "bool \<Rightarrow> key_file \<Rightarrow> nat \<Rightarrow> key_file \<Rightarrow> starter list \<Rightarrow> bool" for writes_fail f0 n where
  first: "starts writes_fail f0 n f0 (replicate n Reading)"
| step: "starts writes_fail f0 n f ps \<Longrightarrow> i < length ps \<Longrightarrow> io_ok writes_fail io \<Longrightarrow> start_step io (ps ! i) f = (p, f') \<Longrightarrow>
    starts writes_fail f0 n f' (ps[i := p])"

subsection \<open>They agree\<close>

lemma drawn_secret:
  "strings_TrimSpace (base64_EncodeToString base64url buf @ [CHR 0x0A]) = base64_EncodeToString base64url buf"
proof -
  let ?e = "base64_EncodeToString base64url buf"
  have plain: "byte c < 128 \<and> \<not> ascii_space c" if "c \<in> set ?e" for c
    using secret_plain [of c buf] that by simp
  have d: "dropWhile ascii_space xs = xs" if "set xs \<subseteq> set ?e" for xs
    using that plain by (cases xs) auto
  have nl: "ascii_space (CHR 0x0A)" by (simp add: ascii_space_def)
  have "is_ascii (?e @ [CHR 0x0A])" using plain by (auto simp: is_ascii_def list_all_iff)
  moreover have "dropWhile ascii_space (?e @ [CHR 0x0A]) = (if ?e = [] then [] else ?e @ [CHR 0x0A])"
    using plain nl by (cases ?e) auto
  ultimately show ?thesis using d [of "rev ?e"] nl by (simp add: strings_TrimSpace_ascii)
qed

text \<open>A secret in the making is drawn; only one start has the file open, and then it is still empty; a start that has
  a secret has the one in the file.\<close>

definition secret_drawn :: "string \<Rightarrow> bool" where
  "secret_drawn enc \<longleftrightarrow> enc \<noteq> '''' \<and> strings_TrimSpace (enc @ [CHR 0x0A]) = enc"

fun holds_file :: "starter \<Rightarrow> bool" where
  "holds_file (Writing enc) = True"
| "holds_file (Started s True) = True"
| "holds_file _ = False"

fun starter_ok :: "key_file \<Rightarrow> starter \<Rightarrow> bool" where
  "starter_ok f (Creating enc) = secret_drawn enc"
| "starter_ok f (Writing enc) = (secret_drawn enc \<and> f = Content '''')"
| "starter_ok f Removing = False"
| "starter_ok f (Started s c) = (s \<noteq> '''' \<and> (\<exists>raw. f = Content raw \<and> strings_TrimSpace raw = s))"
| "starter_ok f _ = True"

definition starts_inv :: "key_file \<Rightarrow> starter list \<Rightarrow> bool" where
  "starts_inv f ps \<longleftrightarrow> list_all (starter_ok f) ps \<and> length (filter holds_file ps) \<le> 1"

lemma TrimSpace_Nil: "strings_TrimSpace [] = []"
  by code_simp

lemma starter_ok_other:
  assumes "starter_ok f p" "start_step io q f = (q', f')" "starter_ok f q" "io_write io = None" "holds_file q \<Longrightarrow> \<not> holds_file p"
  shows "starter_ok f' p"
  using assms by (cases "(io, q, f)" rule: start_step.cases; cases p)
    (auto simp: TrimSpace_Nil Let_def split: if_splits option.splits)

lemma starter_ok_own:
  assumes "starter_ok f q" "start_step io q f = (q', f')" "io_ok False io"
  shows "starter_ok f' q'" "holds_file q' \<Longrightarrow> holds_file q \<or> f = Missing"
proof -
  have drawn: "secret_drawn (base64_EncodeToString base64url buf)" if "io_rand io = Some buf" for buf
    using assms(3) that drawn_secret base64_nonempty [of buf base64url] by (cases buf) (auto simp: secret_drawn_def io_ok_def signingSecretBytes_def)
  show "starter_ok f' q'" "holds_file q' \<Longrightarrow> holds_file q \<or> f = Missing"
    using assms drawn by (cases "(io, q, f)" rule: start_step.cases;
      auto simp: Let_def secret_drawn_def io_ok_def split: if_splits option.splits)+
qed

lemma filter_update:
  assumes "i < length xs"
  shows "length (filter P (xs[i := x])) + (if P (xs ! i) then 1 else 0) = length (filter P xs) + (if P x then 1 else 0)"
proof -
  have "filter P xs = filter P (take i xs @ xs ! i # drop (Suc i) xs)" using id_take_nth_drop [OF assms] by simp
  then show ?thesis using assms by (simp add: upd_conv_take_nth_drop)
qed

lemma starts_inv_step:
  assumes "starts_inv f ps" "i < length ps" "io_ok False io" "start_step io (ps ! i) f = (p, f')"
  shows "starts_inv f' (ps[i := p])"
proof -
  have ok: "starter_ok f q" if "q \<in> set ps" for q using assms(1) that by (auto simp: starts_inv_def list_all_iff)
  have one: "length (filter holds_file ps) \<le> 1" using assms(1) by (simp add: starts_inv_def)
  have own: "starter_ok f' p" "holds_file p \<Longrightarrow> holds_file (ps ! i) \<or> f = Missing"
    using starter_ok_own [OF ok [OF nth_mem [OF assms(2)]] assms(4,3)] by auto
  have w: "io_write io = None" using assms(3) by (simp add: io_ok_def)
  have other: "starter_ok f' (ps ! j)" if j: "j < length ps" "j \<noteq> i" for j
  proof (rule starter_ok_other [OF ok [OF nth_mem [OF j(1)]] assms(4) ok [OF nth_mem [OF assms(2)]] w])
    assume h: "holds_file (ps ! i)"
    show "\<not> holds_file (ps ! j)"
    proof
      assume "holds_file (ps ! j)"
      then have "card {i, j} \<le> card {k. k < length ps \<and> holds_file (ps ! k)}"
        using h j assms(2) by (intro card_mono) auto
      then show False using one j(2) by (simp add: length_filter_conv_card)
    qed
  qed
  have "starter_ok f' ((ps[i := p]) ! j)" if "j < length ps" for j
    using other [OF that] own(1) that by (cases "j = i") auto
  then have "list_all (starter_ok f') (ps[i := p])" by (simp add: list_all_length)
  moreover have "length (filter holds_file (ps[i := p])) \<le> 1"
  proof (cases "holds_file p \<and> \<not> holds_file (ps ! i)")
    case True
    then have "f = Missing" using own(2) by auto
    then have "\<not> holds_file q" if "q \<in> set ps" for q using ok [OF that] by (cases q) auto
    then have "filter holds_file ps = []" by (simp add: filter_empty_conv)
    then show ?thesis using filter_update [OF assms(2), of holds_file p] True by simp
  next
    case False
    then show ?thesis using filter_update [OF assms(2), of holds_file p] one by (auto split: if_splits)
  qed
  ultimately show ?thesis by (simp add: starts_inv_def)
qed

lemma starts_inv: "starts False f0 n f ps \<Longrightarrow> starts_inv f ps"
proof (induction rule: starts.induct)
  case first
  show ?case by (induction n) (auto simp: starts_inv_def)
next
  case (step f ps i io p f')
  then show ?case by (intro starts_inv_step)
qed

text \<open>C24. However many starts of the program share a data directory, and however their file operations interleave: when no
  write fails, all that come up sign with the same nonempty secret, which is the one in the file; at most one of them made it, and
  a later start comes up with it too. A start on an empty directory whose operations succeed comes up with a secret of its own, which
  the next one reads back.\<close>

theorem starts_share_one_secret:
  "(starts False f0 n f ps \<longrightarrow>
     (\<forall>s c. Started s c \<in> set ps \<longrightarrow> s \<noteq> '''' \<and> (\<forall>t d. Started t d \<in> set ps \<longrightarrow> t = s) \<and>
        LoadOrCreateSigningSecret io f = (Started s False, f)) \<and>
     length (filter (\<lambda>p. \<exists>s. p = Started s True) ps) \<le> 1) \<and>
   (io_mkdir io \<and> io_open io \<and> io_rand io = Some buf \<and> length buf = signingSecretBytes \<and> io_write io = None \<longrightarrow>
     (\<exists>s f. LoadOrCreateSigningSecret io Missing = (Started s True, f) \<and> LoadOrCreateSigningSecret io' f = (Started s False, f)))"
proof (intro conjI impI)
  assume "starts False f0 n f ps"
  then have inv: "starts_inv f ps" by (rule starts_inv)
  have ok: "s \<noteq> '''' \<and> (\<exists>raw. f = Content raw \<and> strings_TrimSpace raw = s)" if "Started s c \<in> set ps" for s c
    using inv that by (force simp: starts_inv_def list_all_iff)
  show "\<forall>s c. Started s c \<in> set ps \<longrightarrow> s \<noteq> '''' \<and> (\<forall>t d. Started t d \<in> set ps \<longrightarrow> t = s) \<and>
        LoadOrCreateSigningSecret io f = (Started s False, f)"
  proof (intro allI impI)
    fix s c
    assume s: "Started s c \<in> set ps"
    have "LoadOrCreateSigningSecret io f = (Started s False, f)"
      using ok [OF s] by (auto simp: LoadOrCreateSigningSecret_def eval_nat_numeral)
    then show "s \<noteq> '''' \<and> (\<forall>t d. Started t d \<in> set ps \<longrightarrow> t = s) \<and> LoadOrCreateSigningSecret io f = (Started s False, f)"
      using ok [OF s] ok by fastforce
  qed
  have "length (filter (\<lambda>p. \<exists>s. p = Started s True) ps) \<le> length (filter holds_file ps)"
    by (induction ps) auto
  then show "length (filter (\<lambda>p. \<exists>s. p = Started s True) ps) \<le> 1" using inv by (simp add: starts_inv_def)
next
  assume io: "io_mkdir io \<and> io_open io \<and> io_rand io = Some buf \<and> length buf = signingSecretBytes \<and> io_write io = None"
  let ?e = "base64_EncodeToString base64url buf"
  have "?e \<noteq> []" using io base64_nonempty [of buf base64url] by (cases buf) (auto simp: signingSecretBytes_def)
  then have "LoadOrCreateSigningSecret io Missing = (Started ?e True, Content (?e @ [CHR 0x0A]))"
    "LoadOrCreateSigningSecret io' (Content (?e @ [CHR 0x0A])) = (Started ?e False, Content (?e @ [CHR 0x0A]))"
    using io drawn_secret [of buf] by (simp_all add: LoadOrCreateSigningSecret_def Let_def eval_nat_numeral)
  then show "\<exists>s f. LoadOrCreateSigningSecret io Missing = (Started s True, f) \<and> LoadOrCreateSigningSecret io' f = (Started s False, f)"
    by blast
qed

text \<open>But of two first starts one can be refused although every operation succeeds: it reads the file after the other
  made it and before the other wrote it.\<close>

definition good_io :: key_io where
  "good_io = \<lparr>io_mkdir = True, io_rand = Some (replicate 32 (CHR ''x'')), io_open = True, io_write = None\<rparr>"

lemma good_io_ok: "io_ok b good_io"
  by (simp add: io_ok_def good_io_def signingSecretBytes_def)

definition good_secret :: string where
  "good_secret = base64_EncodeToString base64url (replicate 32 (CHR ''x''))"

lemma good_step: "starts False f0 n f ps \<Longrightarrow> i < length ps \<Longrightarrow> start_step good_io (ps ! i) f = (p, f') \<Longrightarrow> ps[i := p] = ps' \<Longrightarrow> starts False f0 n f' ps'"
  using starts.step [OF _ _ good_io_ok] by blast

lemma both_creating: "starts False Missing 2 Missing [Creating good_secret, Reading]"
  by (rule good_step [OF starts.first, of 0 _ _ "Creating good_secret"]) (simp_all add: good_io_def good_secret_def eval_nat_numeral)

lemma window: "starts False Missing 2 (Content '''') [Writing good_secret, Reading]"
  by (rule good_step [OF both_creating, of 0 "Writing good_secret"]) (simp_all add: good_io_def)

lemma start_refused_in_window: "starts False Missing 2 (Content '''') [Writing good_secret, Refused]"
  by (rule good_step [OF window, of 1 Refused]) (simp_all add: TrimSpace_Nil)

theorem starts_share_one_secret_witness:
  "starts False Missing 2 (Content (good_secret @ [CHR 0x0A])) [Started good_secret True, Started good_secret False] \<and> good_secret \<noteq> '''' \<and>
   LoadOrCreateSigningSecret good_io (Content (good_secret @ [CHR 0x0A])) = (Started good_secret False, Content (good_secret @ [CHR 0x0A]))"
proof -
  have "starts False Missing 2 (Content (good_secret @ [CHR 0x0A])) [Started good_secret True, Reading]"
    by (rule good_step [OF window, of 0 "Started good_secret True"]) (simp_all add: good_io_def)
  from good_step [OF this, of 1 "Started good_secret False"]
  have s: "starts False Missing 2 (Content (good_secret @ [CHR 0x0A])) [Started good_secret True, Started good_secret False]"
    using drawn_secret [of "replicate 32 (CHR ''x'')"] base64_nonempty [of "replicate 32 (CHR ''x'')" base64url]
    by (simp add: good_secret_def [symmetric] Let_def)
  have "Started good_secret True \<in> set [Started good_secret True, Started good_secret False]" by simp
  then have "good_secret \<noteq> ''''" "LoadOrCreateSigningSecret good_io (Content (good_secret @ [CHR 0x0A])) = (Started good_secret False, Content (good_secret @ [CHR 0x0A]))"
    using mp [OF conjunct1 [OF starts_share_one_secret] s] by blast+
  then show ?thesis using s by blast
qed

end
