(* ===== verification/Spec2Isabelle.thy ===== *)
theory Spec2Isabelle
  imports Drivers Router Config_Validate Signing_Key
begin

text \<open>
  Qurator is a self-hosted service for dynamic QR codes: a code is printed once, the destination it
  redirects to can be changed afterwards, and scans are counted without storing who scanned. The
  program (Go, under \<^verbatim>\<open>src/\<close>) has these parts.

  \<^item> \<^verbatim>\<open>internal/domain\<close>: users, tokens, codes, scan events and identifiers; \<^verbatim>\<open>internal/shortcode\<close>: generated short
    codes and the grammar of aliases.
  \<^item> \<^verbatim>\<open>internal/store\<close>: the persistence contract and its drivers; \<^verbatim>\<open>internal/blob\<close>: object storage.
  \<^item> \<^verbatim>\<open>internal/qr\<close>: encoding and drawing of symbols.
  \<^item> \<^verbatim>\<open>internal/codes\<close>: the use cases on codes, over a store, a blob store, a renderer and a cache of
    resolutions.
  \<^item> \<^verbatim>\<open>internal/analytics\<close>: the recorder of scans, the rollups and the retention sweep.
  \<^item> \<^verbatim>\<open>internal/auth\<close>: tokens, sessions, forwarded identities, passwords.
  \<^item> \<^verbatim>\<open>internal/httpapi\<close>: the error catalogue, the middleware, the public routes and the JSON endpoints.

  \<^bold>\<open>Theories and what they model.\<close> Definitions keep the Go names; where two packages share a name the model's
  one has a prefix (\<open>sq_\<close> for the SQLite driver, \<open>mem_\<close> for the in-memory store, \<open>fs_\<close> and \<open>memblob_\<close> for the
  blob stores, \<open>so_\<close> and \<open>bo_\<close> for the fields of the interface records, \<open>sv_\<close> for the methods of the code
  service, \<open>codes_\<close> and \<open>tokens_\<close> for handlers).

  \<^item> \<open>Qurator_Prelude\<close>, \<open>Go_Unicode\<close>, \<open>Go_Strings\<close>, \<open>Encoding\<close>, \<open>Time_Format\<close>: what the code uses of Go's standard
    library. A string is its list of bytes (\<open>char\<close>), a \<open>time.Time\<close> is an \<open>int\<close> of nanoseconds since the zero
    time, \<open>int\<close> values are unbounded where no operation can leave 64 bits and \<open>wrap64\<close> where one does
    (retention), a \<open>float64\<close> is the rational it denotes.
  \<^item> \<open>Domain\<close>, \<open>Shortcode\<close>: the entities as records, the generators, \<open>ValidateAlias\<close>.
  \<^item> \<open>Store_Iface\<close> has the Go interface \<open>Store\<close> as a record of functions; \<open>Store_Spec\<close> the abstract store (codes
    by identifier, owners of short codes) with a specification per operation, and the locale \<open>code_store\<close>, the
    contract: every operation refines its specification. \<open>Sqlite\<close>, \<open>Rollups\<close>, \<open>Sqlite_Analytics\<close> model
    \<^verbatim>\<open>internal/store/sqlite/sqlite.go\<close> on tables with the constraints of the migrations; \<open>Sqlite_Store\<close> proves the
    contract and \<open>Sqlite_Props\<close> the invariants of every reachable database. \<open>Memstore\<close> does the same for
    \<^verbatim>\<open>internal/store/storetest/memstore.go\<close>, and \<open>Drivers\<close> shows that the two give the same answers.
    \<open>Listing\<close> is the contract of a keyset listing as a locale, \<open>Listing_Props\<close> interprets it for both drivers.
  \<^item> \<open>Blob\<close>: key validation, the in-memory and the filesystem driver, the locale \<open>blob_store\<close>.
  \<^item> \<open>Qr\<close>: bounds, options, logos, geometry and the SVG of \<^verbatim>\<open>internal/qr\<close>.
  \<^item> \<open>Codes_Service\<close>: \<^verbatim>\<open>internal/codes\<close>, each use case a function on a world of store, blobs and cache. \<open>Codes_Cache\<close>
    (the cache never contradicts the store) and \<open>Codes_Create\<close> (what a creation or a batch leaves behind) prove
    the service for every store and blob store that keeps its contract, in the locales \<open>code_service\<close>,
    \<open>full_service\<close> and \<open>tidy_service\<close>; \<open>Codes_Props\<close> interprets them for the drivers and states the properties for every
    world a serving process can get to (\<open>served\<close>), with interleaved requests and outages of the database.
  \<^item> \<open>Recorder\<close>: the recorder as a step system of scans, workers and ticks, and the retention sweep.
  \<^item> \<open>Http\<close>, \<open>Public\<close>: requests and responses, the error catalogue, the CSRF guard, the scan redirect and the image
    endpoint. \<open>V1_Json\<close>, \<open>V1_Auth\<close>, \<open>V1_Qr\<close>, \<open>V1_Codes\<close>, \<open>V1_Codes_Props\<close>: the JSON endpoints over the services. \<open>Ratelimit\<close>:
    the token buckets of \<^verbatim>\<open>internal/httpapi/middleware/ratelimit.go\<close> as a step system. \<open>Router\<close>: the route table of
    \<^verbatim>\<open>internal/httpapi/router.go\<close> over a model of \<open>http.ServeMux\<close>.
  \<^item> \<open>Config\<close>: the settings and the layers of \<^verbatim>\<open>internal/config/config.go\<close>; \<open>Config_Validate\<close>: secrets, the checks
    before the start and what the services are given.
  \<^item> \<open>Auth\<close>: \<^verbatim>\<open>internal/auth\<close>; \<open>Auth_Store\<close> has the locale \<open>account_store\<close> and the comparison of the
    authenticator's caches with the store, \<open>Auth_Sqlite\<close> its interpretation, \<open>Auth_Props\<close> the properties.
    \<open>Signing_Key\<close>: starts of the program that share the file of the signing secret, as a step system.

  \<^bold>\<open>State and steps.\<close> A call gets the reading of the clock and the random bytes it sees as a \<open>call_env\<close>; one
  reading of the clock stands for all of a request's. Errors are values: \<open>Inl\<close> the error. Loops of the code are
  recursive functions: the retry loops of \<open>Create\<close> and \<open>UpdateDestination\<close> with the code's own number of attempts
  as fuel, the retention sweep as a \<open>partial_function\<close> that is shown to end. Requests that run at the same time
  appear where the code is not protected by a transaction: \<open>others\<close> in \<open>UpdateDestination\<close> is whatever else is served
  between its read and its write, and the recorder's workers step in any order.

  \<^bold>\<open>Parameters.\<close> Code outside the repository is an argument of the definitions that use it, and a property
  assumes of it only what its documentation promises: \<open>url.Parse\<close>, the otter cache (\<open>otter_ok\<close>: a read returns what was
  last stored under the key, or nothing), the encoder, image decoders, PNG painter and contrast
  function of the renderer (\<open>qr_env\<close>), \<open>http.DetectContentType\<close>, the hash functions, Argon2 and the JWT package
  (\<open>crypto\<close>), the address functions of \<open>net\<close> (\<open>netlib\<close>), the lexical part of \<open>encoding/json\<close>, \<open>mime\<close> and
  \<open>mime/multipart\<close>, the parser of user agents, and the database engine (\<open>engine\<close>: which violated constraint it
  reports, and outages).

  \<^bold>\<open>What is shown.\<close> A scan is answered with what the database holds, right after every change; a printed short
  code stays with its code; a creation has its row and its image or leaves nothing; batches are all or nothing and
  answered in place; a retried create does not duplicate, two changes against one version do not overwrite each
  other, another user's code looks missing; a listing neither skips nor repeats; every scan is stored, held or
  counted as dropped, and analytics add up; credentials, revocation, sessions, the bootstrap account; the
  geometry draws exactly the symbol; aliases and generated codes never collide.

  \<^bold>\<open>Not modelled.\<close> The PostgreSQL and the S3 driver (calls of a client library with the same contract), the console's
  HTML, the export archive, metrics, logging and process start-up. Texts of wrapped errors are
  left out where no caller reads them.
\<close>

end
